(* ===== verification/Why2_Prelude.thy ===== *)
theory Why2_Prelude
  imports Main "HOL-Library.Word"
begin

text \<open>
  Shared vocabulary of the development: the machine integers of the Rust sources as words,
  the result type in which every fallible operation is modelled (an error value of the
  source, or a panic), Rust's slice chunking, the big-endian codecs of 64-bit cells, and the
  generic list lemmas the component theories rely on.
\<close>

unbundle bit_operations_syntax

section \<open>Machine integers\<close>

text \<open>
  A Rust \<open>i64\<close> and a Rust \<open>u64\<close> are the same 64 bits; the casts between them
  (\<open>x as u64\<close>, \<open>x as i64\<close>) are the identity on the pattern, so both are modelled by
  \<open>64 word\<close> and an operation that depends on the sign names the signed version.
  A \<open>usize\<close> that indexes or counts is a \<open>nat\<close>.
\<close>

type_synonym u8 = "8 word"
type_synonym u32 = "32 word"
type_synonym u64 = "64 word"
type_synonym u128 = "128 word"
type_synonym i64 = "64 word"

named_theorems shape_simps \<open>lengths and shapes of grids, lanes, keys and byte strings\<close>
named_theorems codec_simps \<open>encode and decode laws\<close>

lemma bit_u8_ge: "8 \<le> n \<Longrightarrow> \<not> bit (w :: u8) n"
  using bit_imp_le_length [of w n] by auto

lemma bit_u32_ge: "32 \<le> n \<Longrightarrow> \<not> bit (w :: u32) n"
  using bit_imp_le_length [of w n] by auto

lemma bit_u64_ge: "64 \<le> n \<Longrightarrow> \<not> bit (w :: u64) n"
  using bit_imp_le_length [of w n] by auto

lemma unat_u64_less: "unat (x :: u64) < 2 ^ 64"
  using unsigned_less [of x] by simp

lemma xor_nat_less: "(a::nat) < 2 ^ p \<Longrightarrow> b < 2 ^ p \<Longrightarrow> a XOR b < 2 ^ p"
  by (metis take_bit_nat_eq_self_iff take_bit_xor)

lemma xor_nat_cancel [simp]: "(a::nat) XOR (a XOR b) = b" 
  by (metis xor.assoc xor.left_neutral xor_self_eq)

section \<open>Results\<close>

text \<open>
  \<open>'e + 'a\<close> is \<open>Result<T, E>\<close>: \<open>Inl\<close> the error, \<open>Inr\<close> the value.
  \<open>rbind\<close> is the \<open>?\<close> operator, \<open>collect_result\<close> is \<open>collect::<Result<Vec<_>, _>>()\<close>.
\<close>

fun rbind :: "'e + 'a \<Rightarrow> ('a \<Rightarrow> 'e + 'b) \<Rightarrow> 'e + 'b" where
  "rbind (Inl e) f = Inl e"
| "rbind (Inr x) f = f x"

fun collect_result :: "('e + 'a) list \<Rightarrow> 'e + 'a list" where
  "collect_result [] = Inr []"
| "collect_result (Inl e # rs) = Inl e"
| "collect_result (Inr x # rs) = rbind (collect_result rs) (\<lambda>xs. Inr (x # xs))"

text \<open>\<open>Result::ok\<close>, turning an error into \<open>None\<close>.\<close>

fun ok :: "'e + 'a \<Rightarrow> 'a option" where
  "ok (Inl e) = None"
| "ok (Inr x) = Some x"

lemma rbind_eq_Inr_iff:
  "rbind m f = Inr y \<longleftrightarrow> (\<exists>x. m = Inr x \<and> f x = Inr y)"
  by (cases m) auto

lemma rbind_eq_Inl_iff:
  "rbind m f = Inl e \<longleftrightarrow> m = Inl e \<or> (\<exists>x. m = Inr x \<and> f x = Inl e)"
  by (cases m) auto

lemma ok_eq_Some_iff [simp]: "ok m = Some x \<longleftrightarrow> m = Inr x"
  by (cases m) auto

lemma collect_result_map_Inr [simp]: "collect_result (map (\<lambda>x. Inr (f x)) xs) = Inr (map f xs)"
  by (induction xs) auto

lemma collect_result_map_cong:
  "(\<And>x. x \<in> set xs \<Longrightarrow> f x = Inr (g x)) \<Longrightarrow> collect_result (map f xs) = Inr (map g xs)"
  by (induction xs) auto

lemma collect_result_map_Inl:
  "xs \<noteq> [] \<Longrightarrow> collect_result (map (\<lambda>x. Inl e) xs) = Inl e"
  by (cases xs) auto

section \<open>Slice chunks\<close>

text \<open>
  \<open>slice::chunks(n)\<close>: consecutive pieces of \<open>n\<close> elements, the last one possibly shorter.
  Rust panics for \<open>n = 0\<close>; callers check that before they use this function, and the model
  returns no piece there.
\<close>

function chunks :: "nat \<Rightarrow> 'a list \<Rightarrow> 'a list list" where
  "chunks n xs = (if n = 0 \<or> xs = [] then [] else take n xs # chunks n (drop n xs))"
  by pat_completeness auto
termination
  by (relation "measure (\<lambda>(n, xs). length xs)") auto

declare chunks.simps [simp del]

lemma chunks_Nil [simp]: "chunks n [] = []"
  by (simp add: chunks.simps)

lemma chunks_0 [simp]: "chunks 0 xs = []"
  by (simp add: chunks.simps)

lemma chunks_step: "0 < n \<Longrightarrow> xs \<noteq> [] \<Longrightarrow> chunks n xs = take n xs # chunks n (drop n xs)"
  by (subst chunks.simps) simp

lemma chunks_short: "0 < length xs \<Longrightarrow> length xs \<le> n \<Longrightarrow> chunks n xs = [xs]"
  using chunks_step[of n xs] by auto

lemma chunks_append:
  "length ys = n \<Longrightarrow> 0 < n \<Longrightarrow> chunks n (ys @ xs) = ys # chunks n xs"
  by (subst chunks.simps) auto

lemma concat_chunks [simp]: "0 < n \<Longrightarrow> concat (chunks n xs) = xs"
proof (induction n xs rule: chunks.induct)
  case (1 n xs)
  then show ?case
    by (cases "xs = []") (simp_all add: chunks_step)
qed

lemma chunks_concat:
  "0 < n \<Longrightarrow> (\<And>ys. ys \<in> set yss \<Longrightarrow> length ys = n) \<Longrightarrow> chunks n (concat yss) = yss"
  by (induction yss) (auto simp: chunks_append)

lemma chunks_concat_append:
  "0 < n \<Longrightarrow> (\<And>ys. ys \<in> set yss \<Longrightarrow> length ys = n) \<Longrightarrow>
   chunks n (concat yss @ zs) = yss @ chunks n zs"
  by (induction yss) (auto simp: chunks_append)

lemma chunks_length_le: "ys \<in> set (chunks n xs) \<Longrightarrow> length ys \<le> n \<and> ys \<noteq> []"
proof (induction n xs rule: chunks.induct)
  case (1 n xs)
  show ?case
  proof (cases "n = 0 \<or> xs = []")
    case True
    with "1.prems" show ?thesis by auto
  next
    case False
    with "1.prems" have "ys = take n xs \<or> ys \<in> set (chunks n (drop n xs))"
      by (auto simp: chunks_step)
    with False "1.IH" show ?thesis by (cases n; cases xs) auto
  qed
qed

lemma chunks_exact_length:
  "n dvd length xs \<Longrightarrow> ys \<in> set (chunks n xs) \<Longrightarrow> length ys = n"
proof (induction n xs rule: chunks.induct)
  case (1 n xs)
  show ?case
  proof (cases "n = 0 \<or> xs = []")
    case True
    with "1.prems" show ?thesis by auto
  next
    case False
    with "1.prems" have le: "n \<le> length xs" by (auto dest: dvd_imp_le)
    from "1.prems"(1) have "n dvd length (drop n xs)" by auto
    with "1.prems"(2) False le "1.IH" show ?thesis by (auto simp: chunks_step)
  qed
qed

lemma chunks_append_dvd:
  "n dvd length ys \<Longrightarrow> chunks n (ys @ xs) = chunks n ys @ chunks n xs"
proof (cases "n = 0")
  case False
  assume dvd: "n dvd length ys"
  have "chunks n (concat (chunks n ys) @ xs) = chunks n ys @ chunks n xs"
    using False by (intro chunks_concat_append chunks_exact_length[OF dvd]) auto
  with False show ?thesis by simp
qed simp

lemma length_chunks_mult: "0 < n \<Longrightarrow> length xs = k * n \<Longrightarrow> length (chunks n xs) = k"
proof (induction k arbitrary: xs)
  case (Suc k)
  then have "xs \<noteq> []" by auto
  with Suc show ?case by (auto simp: chunks_step)
qed simp

lemma nth_chunks:
  "0 < n \<Longrightarrow> length xs = k * n \<Longrightarrow> j < k \<Longrightarrow> chunks n xs ! j = take n (drop (j * n) xs)"
proof (induction k arbitrary: xs j)
  case (Suc k)
  from Suc.prems have ne: "xs \<noteq> []" by auto
  show ?case
  proof (cases j)
    case (Suc i)
    with Suc.prems ne Suc.IH[of "drop n xs" i] show ?thesis
      by (simp add: chunks_step add.commute)
  qed (use Suc.prems ne in \<open>simp add: chunks_step\<close>)
qed simp

section \<open>Big-endian cells\<close>

text \<open>
  \<open>i64::to_be_bytes\<close> and \<open>i64::from_be_bytes\<close> (and the \<open>u64\<close> versions, which agree on
  the pattern): the most significant byte first.
\<close>

definition to_be_bytes :: "i64 \<Rightarrow> u8 list" where
  "to_be_bytes w = map (\<lambda>k. ucast (drop_bit (8 * (7 - k)) w)) [0..<8]"

definition from_be_bytes :: "u8 list \<Rightarrow> i64" where
  "from_be_bytes bs = foldl (\<lambda>acc b. push_bit 8 acc OR ucast b) 0 bs"

lemma length_to_be_bytes [simp, shape_simps]: "length (to_be_bytes w) = 8"
  by (simp add: to_be_bytes_def)

lemma from_be_bytes_snoc:
  "from_be_bytes (bs @ [b]) = push_bit 8 (from_be_bytes bs) OR ucast b"
  by (simp add: from_be_bytes_def)

lemma bit_from_be_bytes:
  "bit (from_be_bytes bs) n \<longleftrightarrow>
     n < 64 \<and> n div 8 < length bs \<and> bit (bs ! (length bs - 1 - n div 8)) (n mod 8)"
proof (induction bs arbitrary: n rule: rev_induct)
  case Nil
  show ?case by (simp add: from_be_bytes_def)
next
  case (snoc b bs)
  show ?case
  proof (cases "n < 8")
    case True
    then show ?thesis by (auto simp: from_be_bytes_snoc bit_simps)
  next
    case False
    then have "n div 8 = Suc ((n - 8) div 8)" and "(n - 8) mod 8 = n mod 8"
      by (auto simp: le_div_geq le_mod_geq)
    moreover have "n < 64 \<Longrightarrow> n - 8 < 64" by simp
    ultimately show ?thesis using False
      by (auto simp: from_be_bytes_snoc bit_simps snoc.IH bit_u8_ge nth_append)
  qed
qed

lemma from_be_bytes_to_be_bytes [simp, codec_simps]: "from_be_bytes (to_be_bytes w) = w"
proof (rule bit_word_eqI)
  fix n :: nat
  assume n: "n < LENGTH(64)"
  then have *: "n div 8 < 8" by auto
  then have "8 * (7 - [0..<8] ! (7 - n div 8)) + n mod 8 = n"
    by (subst nth_upt) auto
  then show "bit (from_be_bytes (to_be_bytes w)) n \<longleftrightarrow> bit w n"
    using n * by (simp add: bit_from_be_bytes to_be_bytes_def bit_simps)
qed

lemma to_be_bytes_from_be_bytes [simp, codec_simps]:
  assumes "length bs = 8"
  shows "to_be_bytes (from_be_bytes bs) = bs"
proof (rule nth_equalityI)
  fix k
  assume "k < length (to_be_bytes (from_be_bytes bs))"
  then have k: "k < 8" by simp
  have "bit (ucast (drop_bit (8 * (7 - k)) (from_be_bytes bs)) :: u8) n \<longleftrightarrow> bit (bs ! k) n"
    if n: "n < 8" for n
  proof -
    have "(8 * (7 - k) + n) div 8 = 7 - k" "(8 * (7 - k) + n) mod 8 = n" "8 * (7 - k) + n < 64"
      using n k by auto
    with n k show ?thesis by (simp add: bit_simps bit_from_be_bytes assms)
  qed
  then show "to_be_bytes (from_be_bytes bs) ! k = bs ! k"
    using k by (auto simp: to_be_bytes_def intro!: bit_word_eqI)
qed (simp add: assms)
lemma to_be_bytes_inject [simp]: "to_be_bytes v = to_be_bytes w \<longleftrightarrow> v = w"
  by (metis from_be_bytes_to_be_bytes)

section \<open>Index loops\<close>

text \<open>
  A loop \<open>for i in 0..n { xs[i] = f(i) }\<close> over a mutable slice is a fold of \<open>list_update\<close>.
\<close>

definition fill_loop :: "nat \<Rightarrow> (nat \<Rightarrow> 'a) \<Rightarrow> 'a list \<Rightarrow> 'a list" where
  "fill_loop n f xs = fold (\<lambda>i ys. ys[i := f i]) [0..<n] xs"

lemma fill_loop_0 [simp]: "fill_loop 0 f xs = xs"
  by (simp add: fill_loop_def)

lemma fill_loop_Suc: "fill_loop (Suc n) f xs = (fill_loop n f xs)[n := f n]"
  by (simp add: fill_loop_def)

lemma fill_loop_eq: "n \<le> length xs \<Longrightarrow> fill_loop n f xs = map f [0..<n] @ drop n xs"
proof (induction n)
  case (Suc n)
  then have "fill_loop (Suc n) f xs = (map f [0..<n] @ drop n xs)[n := f n]"
    by (simp add: fill_loop_Suc)
  also have "\<dots> = map f [0..<n] @ (drop n xs)[0 := f n]"
    by (simp add: list_update_append)
  also have "(drop n xs)[0 := f n] = f n # drop (Suc n) xs"
    using Suc.prems by (simp add: Cons_nth_drop_Suc [symmetric])
  finally show ?case by simp
qed simp

lemma limb_mod: "r < B \<Longrightarrow> (r + B * q) mod (B * M) = r + B * (q mod M)" for r B q M :: nat
  by (simp add: mod_mult2_eq)

lemma row_major_less: "j < H \<Longrightarrow> i < W \<Longrightarrow> j * W + i < H * (W :: nat)"
proof -
  assume "j < H" and "i < W"
  then have "j * W + i < Suc j * W" and "Suc j * W \<le> H * W" by (simp, intro mult_le_mono1) simp
  then show ?thesis by (rule less_le_trans)
qed

lemma map_nth_upt: "map (\<lambda>i. f (xs ! i)) [0..<length xs] = map f xs"
  by (rule nth_equalityI) auto

text \<open>A left rotation of a slice by a fixed amount, cell by cell.\<close>

lemma rotate_eq_map:
  "rotate n xs = map (\<lambda>i. xs ! ((i + n) mod length xs)) [0..<length xs]"
  by (rule nth_equalityI) (auto simp: nth_rotate add.commute)

end
