(* ===== verification/Rex_Env.thy ===== *)
theory Rex_Env
  imports Why2_Prelude
begin

text \<open>
  Everything the cipher crate takes from outside its own sources, gathered in one record that
  the model's operations receive as a parameter: the \<open>wide\<close> vector type, \<open>subtle\<close>, \<open>sha2\<close>,
  \<open>hmac\<close>, \<open>rand_chacha\<close>, the order in which \<open>rayon\<close> visits the items of a parallel loop, the
  run-time CPU detection and the \<open>constant-time\<close> cargo feature. The predicates below state the
  documented behaviour each caller relies on; a property that needs one names it as a
  hypothesis. \<open>ref_env\<close> is a concrete environment that satisfies all of them.
\<close>

unbundle bit_operations_syntax

section \<open>The wide crate\<close>

text \<open>The operations of \<open>wide::i64x4\<close> that \<open>grid.rs\<close> calls, over an unknown representation.\<close>

record 'v i64x4_ops =
  v_new :: "i64 list \<Rightarrow> 'v"
  v_into :: "'v \<Rightarrow> i64 list"
  v_splat :: "i64 \<Rightarrow> 'v"
  v_zero :: 'v
  v_and :: "'v \<Rightarrow> 'v \<Rightarrow> 'v"
  v_or :: "'v \<Rightarrow> 'v \<Rightarrow> 'v"
  v_xor :: "'v \<Rightarrow> 'v \<Rightarrow> 'v"
  v_add :: "'v \<Rightarrow> 'v \<Rightarrow> 'v"
  v_shl :: "'v \<Rightarrow> nat \<Rightarrow> 'v"
  v_shr :: "'v \<Rightarrow> nat \<Rightarrow> 'v"

text \<open>
  Documented behaviour: every operation acts on the four lanes independently, addition wraps,
  and the right shift of a signed lane is arithmetic.
\<close>

definition wide_ok :: "'v i64x4_ops \<Rightarrow> bool" where
  "wide_ok V \<longleftrightarrow>
     (\<forall>xs. length xs = 4 \<longrightarrow> v_into V (v_new V xs) = xs) \<and>
     (\<forall>a. v_into V (v_splat V a) = [a, a, a, a]) \<and>
     v_into V (v_zero V) = [0, 0, 0, 0] \<and>
     (\<forall>x y. v_into V (v_and V x y) = map2 (AND) (v_into V x) (v_into V y)) \<and>
     (\<forall>x y. v_into V (v_or V x y) = map2 (OR) (v_into V x) (v_into V y)) \<and>
     (\<forall>x y. v_into V (v_xor V x y) = map2 (XOR) (v_into V x) (v_into V y)) \<and>
     (\<forall>x y. v_into V (v_add V x y) = map2 (+) (v_into V x) (v_into V y)) \<and>
     (\<forall>x n. n < 64 \<longrightarrow> v_into V (v_shl V x n) = map (push_bit n) (v_into V x)) \<and>
     (\<forall>x n. n < 64 \<longrightarrow> v_into V (v_shr V x n) = map (signed_drop_bit n) (v_into V x))"

lemma wide_laws:
  assumes "wide_ok V"
  shows "length xs = 4 \<Longrightarrow> v_into V (v_new V xs) = xs"
    and "v_into V (v_splat V a) = [a, a, a, a]"
    and "v_into V (v_zero V) = [0, 0, 0, 0]"
    and "v_into V (v_and V x y) = map2 (AND) (v_into V x) (v_into V y)"
    and "v_into V (v_or V x y) = map2 (OR) (v_into V x) (v_into V y)"
    and "v_into V (v_xor V x y) = map2 (XOR) (v_into V x) (v_into V y)"
    and "v_into V (v_add V x y) = map2 (+) (v_into V x) (v_into V y)"
    and "n < 64 \<Longrightarrow> v_into V (v_shl V x n) = map (push_bit n) (v_into V x)"
    and "n < 64 \<Longrightarrow> v_into V (v_shr V x n) = map (signed_drop_bit n) (v_into V x)"
  using assms by (auto simp: wide_ok_def)

section \<open>The environment of the cipher crate\<close>

record ('v, 'r) rex_env =
  has_avx2 :: bool \<comment> \<open>\<open>gf::has_avx2()\<close>\<close>
  constant_time :: bool \<comment> \<open>the cargo feature \<open>constant-time\<close>\<close>
  wide :: "'v i64x4_ops" \<comment> \<open>\<open>wide::i64x4\<close>\<close>
  choice_u8 :: "u8 \<Rightarrow> u8" \<comment> \<open>\<open>subtle::Choice::from(b).unwrap_u8()\<close>\<close>
  ct_eq_i64 :: "i64 \<Rightarrow> i64 \<Rightarrow> bool" \<comment> \<open>\<open>subtle::ConstantTimeEq\<close> on one cell\<close>
  sha256 :: "u8 list \<Rightarrow> u8 list" \<comment> \<open>\<open>sha2::Sha256\<close> of everything fed to it\<close>
  hmac_sha256 :: "u8 list \<Rightarrow> u8 list \<Rightarrow> u8 list" \<comment> \<open>\<open>hmac::Hmac<Sha256>\<close>, key then message\<close>
  hmac_verify :: "u8 list \<Rightarrow> u8 list \<Rightarrow> u8 list \<Rightarrow> bool" \<comment> \<open>\<open>Mac::verify_slice(tag).is_ok()\<close>\<close>
  chacha_from_seed :: "u8 list \<Rightarrow> 'r" \<comment> \<open>\<open>ChaCha20Rng::from_seed\<close>\<close>
  chacha_fill :: "'r \<Rightarrow> nat \<Rightarrow> i64 list \<times> 'r" \<comment> \<open>\<open>rng.fill\<close> on a slice of that many cells\<close>
  par_order :: "nat \<Rightarrow> nat list" \<comment> \<open>order in which \<open>rayon\<close> visits that many items\<close>

text \<open>\<open>Choice::from\<close> accepts 0 and 1 only and hands the bit back.\<close>

definition subtle_ok :: "('v, 'r) rex_env \<Rightarrow> bool" where
  "subtle_ok E \<longleftrightarrow> choice_u8 E 0 = 0 \<and> choice_u8 E 1 = 1 \<and> (\<forall>a b. ct_eq_i64 E a b \<longleftrightarrow> a = b)"

text \<open>
  SHA-256 and HMAC-SHA256 produce 32 bytes and \<open>verify_slice\<close> accepts the computed tag only; the
  generator fills the slice it is given.
\<close>

definition digest_ok :: "('v, 'r) rex_env \<Rightarrow> bool" where
  "digest_ok E \<longleftrightarrow> (\<forall>m. length (sha256 E m) = 32) \<and> (\<forall>k m. length (hmac_sha256 E k m) = 32) \<and>
     (\<forall>k m t. hmac_verify E k m t \<longleftrightarrow> t = hmac_sha256 E k m)"

definition chacha_ok :: "('v, 'r) rex_env \<Rightarrow> bool" where
  "chacha_ok E \<longleftrightarrow> (\<forall>r n. length (fst (chacha_fill E r n)) = n)"

text \<open>A parallel \<open>for_each\<close> visits every item exactly once, in some order.\<close>

definition rayon_ok :: "('v, 'r) rex_env \<Rightarrow> bool" where
  "rayon_ok E \<longleftrightarrow> (\<forall>n. distinct (par_order E n) \<and> set (par_order E n) = {..<n})"

definition env_ok :: "('v, 'r) rex_env \<Rightarrow> bool" where
  "env_ok E \<longleftrightarrow> wide_ok (wide E) \<and> subtle_ok E \<and> digest_ok E \<and> chacha_ok E \<and> rayon_ok E"

lemma env_okD:
  assumes "env_ok E"
  shows "wide_ok (wide E)" and "subtle_ok E" and "digest_ok E" and "chacha_ok E" and "rayon_ok E"
  using assms by (auto simp: env_ok_def)

lemma length_chacha_fill: "env_ok E \<Longrightarrow> length (fst (chacha_fill E r n)) = n"
  by (auto dest!: env_okD(4) simp: chacha_ok_def)

lemma length_hmac: "env_ok E \<Longrightarrow> length (hmac_sha256 E k m) = 32"
  by (auto dest!: env_okD(3) simp: digest_ok_def)

lemma hmac_verify_iff: "env_ok E \<Longrightarrow> hmac_verify E k m t \<longleftrightarrow> t = hmac_sha256 E k m"
  by (auto dest!: env_okD(3) simp: digest_ok_def)

section \<open>Parallel loops\<close>

text \<open>
  \<open>xs.par_iter_mut().enumerate().for_each(f)\<close>: the items are visited in the order the pool
  chooses, each visit replacing one item. Because a visit reads and writes only its own item
  the order cannot be observed, which \<open>par_for_each_eq\<close> proves.
\<close>

definition par_for_each :: "nat list \<Rightarrow> (nat \<Rightarrow> 'a \<Rightarrow> 'a) \<Rightarrow> 'a list \<Rightarrow> 'a list" where
  "par_for_each ord f xs = fold (\<lambda>i ys. ys[i := f i (ys ! i)]) ord xs"

lemma length_par_for_each [simp]: "length (par_for_each ord f xs) = length xs"
proof -
  have "length (fold (\<lambda>i ys. ys[i := f i (ys ! i)]) ord xs) = length xs" for xs
    by (induction ord arbitrary: xs) auto
  then show ?thesis by (simp add: par_for_each_def)
qed

lemma par_for_each_nth:
  "distinct ord \<Longrightarrow> i < length xs \<Longrightarrow>
   par_for_each ord f xs ! i = (if i \<in> set ord then f i (xs ! i) else xs ! i)"
  unfolding par_for_each_def
proof (induction ord arbitrary: xs)
  case (Cons j ord)
  have "fold (\<lambda>i ys. ys[i := f i (ys ! i)]) ord (xs[j := f j (xs ! j)]) ! i =
      (if i \<in> set ord then f i (xs[j := f j (xs ! j)] ! i) else xs[j := f j (xs ! j)] ! i)"
    using Cons by simp
  with Cons.prems show ?case by (cases "i = j") auto
qed simp

lemma par_for_each_eq:
  assumes "distinct ord" and "set ord = {..<length xs}"
  shows "par_for_each ord f xs = map (\<lambda>i. f i (xs ! i)) [0..<length xs]"
  by (rule nth_equalityI) (use assms in \<open>auto simp: par_for_each_nth\<close>)

section \<open>A concrete environment\<close>

text \<open>
  Lanes as four-element lists, a digest of zeroes with the message length in the first byte, a
  counting generator and a pool that visits its items backwards. It satisfies every law above;
  the witnesses of the properties are instances of it.
\<close>

definition ref_wide :: "i64 list i64x4_ops" where
  "ref_wide = \<lparr> v_new = (\<lambda>xs. xs), v_into = (\<lambda>xs. xs), v_splat = (\<lambda>a. [a, a, a, a]),
     v_zero = [0, 0, 0, 0], v_and = map2 (AND), v_or = map2 (OR), v_xor = map2 (XOR),
     v_add = map2 (+), v_shl = (\<lambda>x n. map (push_bit n) x),
     v_shr = (\<lambda>x n. map (signed_drop_bit n) x) \<rparr>"

definition ref_env :: "(i64 list, nat) rex_env" where
  "ref_env = \<lparr> has_avx2 = False, constant_time = True, wide = ref_wide, choice_u8 = (\<lambda>b. b),
     ct_eq_i64 = (=), sha256 = (\<lambda>m. of_nat (length m) # replicate 31 0),
     hmac_sha256 = (\<lambda>k m. of_nat (length m) # replicate 31 0),
     hmac_verify = (\<lambda>k m t. t = of_nat (length m) # replicate 31 0),
     chacha_from_seed = length,
     chacha_fill = (\<lambda>r n. (map (\<lambda>i. of_nat (r + i)) [0..<n], r + n)),
     par_order = (\<lambda>n. rev [0..<n]) \<rparr>"

lemma wide_ok_ref: "wide_ok ref_wide"
  by (simp add: wide_ok_def ref_wide_def)

lemma env_ok_ref: "env_ok ref_env"
  by (simp add: env_ok_def subtle_ok_def digest_ok_def chacha_ok_def rayon_ok_def ref_env_def
      wide_ok_ref atLeast0LessThan)

end
