(* ===== verification/Gf.thy ===== *)
theory Gf
  imports Why2_Prelude
begin

text \<open>
  Arithmetic of \<open>core/src/gf.rs\<close>: the one field operation the cipher performs,
  multiplication by \<open>x\<close> modulo \<open>x^64 + x^4 + x^3 + x + 1\<close>, and the polynomial action it
  generates. \<open>gmul c v\<close> is the product of a coefficient polynomial \<open>c\<close> with a cell \<open>v\<close>, as
  the sum of the powers of \<open>x\<close> that \<open>c\<close> names. It is the specification against which the
  unrolled diffusion layer of \<open>Mix_Columns\<close> is checked.
\<close>

unbundle bit_operations_syntax

section \<open>gf.rs\<close>

definition LANE :: nat where
  "LANE = 4"

definition xtime :: "u64 \<Rightarrow> u64" where
  "xtime v = push_bit 1 v XOR ((0 - drop_bit 63 v) AND 0x1B)"

section \<open>XOR as a finite sum\<close>

text \<open>
  The library's big operator over the commutative monoid of XOR on cells. Everything below
  treats a column as a vector over the two-element field with this addition.
\<close>

interpretation xor_sum: comm_monoid_set "(XOR) :: u64 \<Rightarrow> u64 \<Rightarrow> u64" 0
  by unfold_locales

lemma xor_self_u64 [simp]: "(a :: u64) XOR a = 0"
  by simp

lemma xor_sum_self:
  "xor_sum.F f A XOR xor_sum.F f A = 0"
  by simp

text \<open>
  A sum whose terms are paired by a fixpoint-free involution vanishes: each pair contributes
  the same term twice.
\<close>

lemma xor_sum_involution:
  fixes f :: "nat \<Rightarrow> u64"
  assumes fin: "finite A"
    and into: "\<And>k. k \<in> A \<Longrightarrow> \<sigma> k \<in> A"
    and inv: "\<And>k. k \<in> A \<Longrightarrow> \<sigma> (\<sigma> k) = k"
    and nofix: "\<And>k. k \<in> A \<Longrightarrow> \<sigma> k \<noteq> k"
    and eq: "\<And>k. k \<in> A \<Longrightarrow> f (\<sigma> k) = f k"
  shows "xor_sum.F f A = 0"
proof -
  let ?L = "{k \<in> A. k < \<sigma> k}" and ?U = "{k \<in> A. \<sigma> k < k}"
  have A: "A = ?L \<union> ?U" using nofix by (auto simp: neq_iff)
  have "bij_betw \<sigma> ?L ?U"
    by (rule bij_betw_byWitness[where f' = \<sigma>]) (auto simp: inv into)
  then have "xor_sum.F f ?U = xor_sum.F (\<lambda>k. f (\<sigma> k)) ?L"
    by (simp add: xor_sum.reindex_bij_betw)
  also have "\<dots> = xor_sum.F f ?L"
    by (rule xor_sum.cong) (auto simp: eq)
  finally have U: "xor_sum.F f ?U = xor_sum.F f ?L" .
  have "xor_sum.F f A = xor_sum.F f ?L XOR xor_sum.F f ?U"
    by (subst A, rule xor_sum.union_disjoint) (auto simp: fin)
  with U show ?thesis by simp
qed

section \<open>Linearity of xtime\<close>

lemma neg_bit63_eq: "(0 :: u64) - drop_bit 63 v = (if bit v 63 then -1 else 0)"
proof -
  have "drop_bit 63 v = (if bit v 63 then 1 else 0)"
  proof (rule bit_word_eqI)
    fix n
    show "bit (drop_bit 63 v) n \<longleftrightarrow> bit (if bit v 63 then 1 else 0 :: u64) n"
      by (cases n) (auto simp: bit_simps bit_u64_ge)
  qed
  then show ?thesis by simp
qed

lemma xtime_alt: "xtime v = push_bit 1 v XOR (if bit v 63 then 0x1B else 0)"
  unfolding xtime_def neg_bit63_eq by simp

lemma xtime_0 [simp]: "xtime 0 = 0"
  by (simp add: xtime_alt)

lemma xtime_xor: "xtime (a XOR b) = xtime a XOR xtime b"
  by (auto simp: xtime_alt push_bit_xor bit_xor_iff ac_simps)

lemma xtime_pow_0 [simp]: "(xtime ^^ e) 0 = 0"
  by (induction e) auto

lemma xtime_pow_xor: "(xtime ^^ e) (a XOR b) = (xtime ^^ e) a XOR (xtime ^^ e) b"
  by (induction e) (auto simp: xtime_xor)

lemma xtime_pow_pow: "(xtime ^^ d) ((xtime ^^ e) v) = (xtime ^^ e) ((xtime ^^ d) v)"
  by (simp add: funpow_add [symmetric, unfolded o_def, THEN fun_cong] add.commute
      flip: comp_apply[of "xtime ^^ d"] comp_apply[of "xtime ^^ e"] funpow_add)

lemma xtime_pow_sum: "(xtime ^^ e) (xor_sum.F f A) = xor_sum.F (\<lambda>k. (xtime ^^ e) (f k)) A"
proof (cases "finite A")
  case True
  then show ?thesis by (induction A rule: finite_induct) (auto simp: xtime_pow_xor)
qed simp

section \<open>The polynomial action\<close>

definition gmul :: "u64 \<Rightarrow> u64 \<Rightarrow> u64" where
  "gmul c v = xor_sum.F (\<lambda>e. if bit c e then (xtime ^^ e) v else 0) {..<64}"

lemma gmul_0_right [simp]: "gmul c 0 = 0"
  by (simp add: gmul_def xor_sum.neutral)

lemma gmul_0_left [simp]: "gmul 0 v = 0"
  by (simp add: gmul_def xor_sum.neutral)

lemma gmul_1 [simp]: "gmul 1 v = v"
proof -
  have "gmul 1 v = xor_sum.F (\<lambda>e. if 0 = e then (xtime ^^ e) v else 0) {..<64}"
    unfolding gmul_def by (rule xor_sum.cong) (auto simp: bit_1_iff)
  also have "\<dots> = v" by (subst xor_sum.delta') auto
  finally show ?thesis .
qed

lemma gmul_xor_right: "gmul c (a XOR b) = gmul c a XOR gmul c b"
  by (auto simp: gmul_def xtime_pow_xor xor_sum.distrib [symmetric] intro!: xor_sum.cong)

lemma gmul_xor_left: "gmul (c XOR d) v = gmul c v XOR gmul d v"
  by (auto simp: gmul_def xor_sum.distrib [symmetric] bit_xor_iff intro!: xor_sum.cong)

lemma gmul_sum: "gmul c (xor_sum.F f A) = xor_sum.F (\<lambda>k. gmul c (f k)) A"
proof (cases "finite A")
  case True
  then show ?thesis by (induction A rule: finite_induct) (auto simp: gmul_xor_right)
qed simp

lemma gmul_xtime_pow: "gmul c ((xtime ^^ e) v) = (xtime ^^ e) (gmul c v)"
  by (auto simp: gmul_def xtime_pow_sum xtime_pow_pow intro!: xor_sum.cong)

text \<open>Coefficients are polynomials in one operator, so their actions commute.\<close>

lemma gmul_commute: "gmul c (gmul d v) = gmul d (gmul c v)"
proof -
  have "gmul c (gmul d v) = xor_sum.F (\<lambda>e. if bit d e then gmul c ((xtime ^^ e) v) else 0) {..<64}"
    by (subst (2) gmul_def) (auto simp: gmul_sum intro!: xor_sum.cong)
  also have "\<dots> = gmul d (gmul c v)"
    by (simp only: gmul_xtime_pow gmul_def [of d])
  finally show ?thesis .
qed

text \<open>Squaring is additive in characteristic two.\<close>

lemma gmul_square_xor:
  "gmul (c XOR d) (gmul (c XOR d) v) = gmul c (gmul c v) XOR gmul d (gmul d v)"
proof -
  have "gmul (c XOR d) (gmul (c XOR d) v) =
      gmul c (gmul c v) XOR gmul c (gmul d v) XOR (gmul d (gmul c v) XOR gmul d (gmul d v))"
    by (simp add: gmul_xor_left gmul_xor_right ac_simps)
  also have "\<dots> = gmul c (gmul c v) XOR gmul d (gmul d v) XOR (gmul c (gmul d v) XOR gmul c (gmul d v))"
    by (simp add: gmul_commute [of d c] ac_simps)
  finally show ?thesis by simp
qed

lemma gmul_square_sum:
  "finite A \<Longrightarrow> xor_sum.F (\<lambda>k. gmul (m k) (gmul (m k) v)) A =
     gmul (xor_sum.F m A) (gmul (xor_sum.F m A) v)"
  by (induction A rule: finite_induct) (simp_all add: gmul_square_xor)

text \<open>
  Only the bits a coefficient has contribute, so a loop over any range of exponents that
  covers the coefficient computes the product.
\<close>

lemma gmul_upto:
  assumes "\<And>e. bit c e \<Longrightarrow> e < n" and "n \<le> 64"
  shows "gmul c v = xor_sum.F (\<lambda>e. if bit c e then (xtime ^^ e) v else 0) {..<n}"
  unfolding gmul_def
  by (intro xor_sum.mono_neutral_right) (use assms in \<open>auto dest: assms(1)\<close>)

end
