(* ===== verification/Mds.thy ===== *)
theory Mds
  imports Gf
begin

text \<open>
  The constants of \<open>core/src/consts\<close> and the compile-time checks of
  \<open>core/src/grid.rs\<close> over the diffusion matrices. \<open>is_hadamard\<close> and \<open>is_involutory\<close> are the
  \<open>const fn\<close>s whose assertions guard the build; \<open>hadamard_involution\<close> is the argument their
  documentation sketches: a matrix that passes both squares to the identity over the
  polynomial action of \<open>Gf\<close>.
\<close>

unbundle bit_operations_syntax

section \<open>consts/mod.rs\<close>

definition ROUND_KEYS :: nat where "ROUND_KEYS = 17"
definition SUBCELL_ROUNDS :: nat where "SUBCELL_ROUNDS = 5"
definition DELTA_32 :: u32 where "DELTA_32 = 0x9E3779B9"
definition DELTA_64 :: u64 where "DELTA_64 = 0x9E3779B97F4A7C15"
definition DEFAULT_GRID_WIDTH :: nat where "DEFAULT_GRID_WIDTH = 8"
definition DEFAULT_GRID_HEIGHT :: nat where "DEFAULT_GRID_HEIGHT = 8"
definition PARALLEL_THRESHOLD :: nat where "PARALLEL_THRESHOLD = 4"

section \<open>consts/mds.rs\<close>

definition MDS_4 :: "u64 list list" where
  "MDS_4 = [
    [1, 2, 4, 6],
    [2, 1, 6, 4],
    [4, 6, 1, 2],
    [6, 4, 2, 1]]"

definition MDS_8 :: "u64 list list" where
  "MDS_8 = [
    [1, 2, 3, 8, 4, 10, 9, 14],
    [2, 1, 8, 3, 10, 4, 14, 9],
    [3, 8, 1, 2, 9, 14, 4, 10],
    [8, 3, 2, 1, 14, 9, 10, 4],
    [4, 10, 9, 14, 1, 2, 3, 8],
    [10, 4, 14, 9, 2, 1, 8, 3],
    [9, 14, 4, 10, 3, 8, 1, 2],
    [14, 9, 10, 4, 8, 3, 2, 1]]"

definition MDS_16 :: "u64 list list" where
  "MDS_16 = [
    [1, 2, 3, 8, 4, 32, 64, 16, 5, 128, 6, 18, 12, 65, 132, 37],
    [2, 1, 8, 3, 32, 4, 16, 64, 128, 5, 18, 6, 65, 12, 37, 132],
    [3, 8, 1, 2, 64, 16, 4, 32, 6, 18, 5, 128, 132, 37, 12, 65],
    [8, 3, 2, 1, 16, 64, 32, 4, 18, 6, 128, 5, 37, 132, 65, 12],
    [4, 32, 64, 16, 1, 2, 3, 8, 12, 65, 132, 37, 5, 128, 6, 18],
    [32, 4, 16, 64, 2, 1, 8, 3, 65, 12, 37, 132, 128, 5, 18, 6],
    [64, 16, 4, 32, 3, 8, 1, 2, 132, 37, 12, 65, 6, 18, 5, 128],
    [16, 64, 32, 4, 8, 3, 2, 1, 37, 132, 65, 12, 18, 6, 128, 5],
    [5, 128, 6, 18, 12, 65, 132, 37, 1, 2, 3, 8, 4, 32, 64, 16],
    [128, 5, 18, 6, 65, 12, 37, 132, 2, 1, 8, 3, 32, 4, 16, 64],
    [6, 18, 5, 128, 132, 37, 12, 65, 3, 8, 1, 2, 64, 16, 4, 32],
    [18, 6, 128, 5, 37, 132, 65, 12, 8, 3, 2, 1, 16, 64, 32, 4],
    [12, 65, 132, 37, 5, 128, 6, 18, 4, 32, 64, 16, 1, 2, 3, 8],
    [65, 12, 37, 132, 128, 5, 18, 6, 32, 4, 16, 64, 2, 1, 8, 3],
    [132, 37, 12, 65, 6, 18, 5, 128, 64, 16, 4, 32, 3, 8, 1, 2],
    [37, 132, 65, 12, 18, 6, 128, 5, 16, 64, 32, 4, 8, 3, 2, 1]]"

section \<open>The compile-time checks\<close>

text \<open>The nested \<open>while\<close> loops return \<open>false\<close> at the first cell that differs.\<close>

definition is_hadamard :: "nat \<Rightarrow> u64 list list \<Rightarrow> bool" where
  "is_hadamard N m = list_all (\<lambda>i. list_all (\<lambda>j. m ! i ! j = m ! 0 ! (i XOR j)) [0..<N]) [0..<N]"

definition is_involutory :: "nat \<Rightarrow> u64 list list \<Rightarrow> bool" where
  "is_involutory N m = (fold (\<lambda>i x. x XOR m ! 0 ! i) [0..<N] 0 = 1)"

section \<open>Matrix products over the polynomial action\<close>

text \<open>
  The documented product \<open>out[r] = sum over k of M[r][k] * col[k]\<close>, the specification of
  the diffusion layer. A matrix is given by its entries.
\<close>

definition mds_apply :: "nat \<Rightarrow> (nat \<Rightarrow> nat \<Rightarrow> u64) \<Rightarrow> (nat \<Rightarrow> u64) \<Rightarrow> nat \<Rightarrow> u64" where
  "mds_apply n M col r = xor_sum.F (\<lambda>k. gmul (M r k) (col k)) {..<n}"

lemma xor_reindex:
  fixes f :: "nat \<Rightarrow> u64"
  assumes "i < 2 ^ p"
  shows "xor_sum.F (\<lambda>k. f (i XOR k)) {..<2 ^ p} = xor_sum.F f {..<2 ^ p}"
proof -
  have "bij_betw (\<lambda>k. i XOR k) {..<2 ^ p} {..<2 ^ p}"
    by (rule bij_betw_byWitness[where f' = "\<lambda>k. i XOR k"]) (use assms xor_nat_less in auto)
  then show ?thesis by (rule xor_sum.reindex_bij_betw)
qed

lemma hadamard_off_diagonal:
  fixes m :: "nat \<Rightarrow> u64"
  assumes i: "i < 2 ^ p" and j: "j < 2 ^ p" and ne: "i \<noteq> j"
  shows "xor_sum.F (\<lambda>k. gmul (m (i XOR k)) (gmul (m (k XOR j)) v)) {..<2 ^ p} = 0"
proof (rule xor_sum_involution[where \<sigma> = "\<lambda>k. (i XOR j) XOR k"])
  fix k :: nat assume k: "k \<in> {..<2 ^ p}"
  show "(i XOR j) XOR k \<in> {..<2 ^ p}" using i j k by (auto intro!: xor_nat_less)
  show "(i XOR j) XOR ((i XOR j) XOR k) = k" by simp
  show "(i XOR j) XOR k \<noteq> k" 
  proof
    assume "(i XOR j) XOR k = k"
    then have "k XOR ((i XOR j) XOR k) = k XOR k" by simp
    then have "i XOR j = 0" by (simp add: xor.commute [of "i XOR j"])
    then have "i XOR (i XOR j) = i" by simp
    with ne show False by simp
  qed
  have a: "i XOR ((i XOR j) XOR k) = k XOR j"
    by (metis xor.assoc xor.commute xor_nat_cancel)
  have b: "((i XOR j) XOR k) XOR j = i XOR k" 
    by (metis xor.assoc xor.commute xor_nat_cancel)
  show "gmul (m (i XOR ((i XOR j) XOR k))) (gmul (m (((i XOR j) XOR k) XOR j)) v) =
         gmul (m (i XOR k)) (gmul (m (k XOR j)) v)"
    unfolding a b by (rule gmul_commute)
qed simp

lemma hadamard_diagonal:
  fixes m :: "nat \<Rightarrow> u64"
  assumes i: "i < 2 ^ p" and one: "xor_sum.F m {..<2 ^ p} = 1"
  shows "xor_sum.F (\<lambda>k. gmul (m (i XOR k)) (gmul (m (k XOR i)) v)) {..<2 ^ p} = v"
proof -
  have "xor_sum.F (\<lambda>k. gmul (m (i XOR k)) (gmul (m (k XOR i)) v)) {..<2 ^ p} =
     xor_sum.F (\<lambda>k. gmul (m k) (gmul (m k) v)) {..<2 ^ p}"
    using xor_reindex[OF i, of "\<lambda>k. gmul (m k) (gmul (m k) v)"] by (simp add: xor.commute)
  also have "\<dots> = v" by (simp add: gmul_square_sum one)
  finally show ?thesis .
qed

lemma hadamard_involution:
  assumes n: "n = 2 ^ p" and M: "\<And>i j. i < n \<Longrightarrow> j < n \<Longrightarrow> M i j = m (i XOR j)"
    and one: "xor_sum.F m {..<n} = 1" and r: "r < n"
  shows "mds_apply n M (mds_apply n M col) r = col r"
proof -
  have "mds_apply n M (mds_apply n M col) r =
      xor_sum.F (\<lambda>k. xor_sum.F (\<lambda>j. gmul (m (r XOR k)) (gmul (m (k XOR j)) (col j))) {..<n}) {..<n}"
    unfolding mds_apply_def gmul_sum by (intro xor_sum.cong) (use M r in auto)
  also have "\<dots> = xor_sum.F (\<lambda>j. xor_sum.F (\<lambda>k. gmul (m (r XOR k)) (gmul (m (k XOR j)) (col j))) {..<n}) {..<n}"
    by (rule xor_sum.swap)
  also have "\<dots> = xor_sum.F (\<lambda>j. if r = j then col j else 0) {..<n}"
    using hadamard_diagonal[of r p m] hadamard_off_diagonal[of r p] r one unfolding n
    by (intro xor_sum.cong) auto
  also have "\<dots> = col r" by (subst xor_sum.delta') (use r in auto)
  finally show ?thesis .
qed

section \<open>The three matrices pass the checks\<close>

lemma mds_4_checks: "is_hadamard 4 MDS_4" "is_involutory 4 MDS_4"
  by code_simp+

lemma mds_8_checks: "is_hadamard 8 MDS_8" "is_involutory 8 MDS_8"
  by code_simp+

lemma mds_16_checks: "is_hadamard 16 MDS_16" "is_involutory 16 MDS_16"
  by code_simp+

lemma is_hadamardD:
  "is_hadamard N m \<Longrightarrow> i < N \<Longrightarrow> j < N \<Longrightarrow> m ! i ! j = m ! 0 ! (i XOR j)"
  by (auto simp: is_hadamard_def list_all_iff)

lemma fold_xor_sum:
  fixes m :: "nat \<Rightarrow> u64"
  shows "fold (\<lambda>i x. x XOR m i) [0..<n] a = a XOR xor_sum.F m {..<n}"
  by (induction n) (simp_all add: lessThan_Suc ac_simps)

lemma is_involutoryD: "is_involutory N m \<Longrightarrow> xor_sum.F (\<lambda>i. m ! 0 ! i) {..<N} = 1"
  using fold_xor_sum [of "\<lambda>i. m ! 0 ! i" N 0] by (simp add: is_involutory_def)

text \<open>What the two assertions are worth: the matrix they accept is its own inverse.\<close>

lemma checked_matrix_involution:
  assumes "is_hadamard N m" and "is_involutory N m" and "N = 2 ^ p" and "r < N"
  shows "mds_apply N (\<lambda>i j. m ! i ! j) (mds_apply N (\<lambda>i j. m ! i ! j) col) r = col r"
  by (rule hadamard_involution [OF assms(3) is_hadamardD [OF assms(1)]
        is_involutoryD [OF assms(2)] assms(4)])

section \<open>Property of the diffusion constants\<close>

text \<open>
  Each of the three constant matrices passes the compile-time
  assertions of \<open>grid.rs\<close>, and the matrix of \<open>is_hadamard\<close> and \<open>is_involutory\<close> squares to the
  identity over the polynomial action: multiplying a column twice returns it.
\<close>

theorem mds_matrices_involutory:
  assumes "(N, M) \<in> {(4, MDS_4), (8, MDS_8), (16, MDS_16)}" and "r < N"
  shows "is_hadamard N M \<and> is_involutory N M \<and>
    mds_apply N (\<lambda>i j. M ! i ! j) (mds_apply N (\<lambda>i j. M ! i ! j) col) r = col r"
proof -
  have "is_hadamard N M" "is_involutory N M"
    using assms(1) by (auto simp: mds_4_checks mds_8_checks mds_16_checks)
  moreover have "N = 2 ^ 2 \<or> N = 2 ^ 3 \<or> N = 2 ^ 4" using assms(1) by auto
  ultimately show ?thesis using checked_matrix_involution assms(2) by blast
qed

theorem mds_matrices_involutory_witness:
  "mds_apply 4 (\<lambda>i j. MDS_4 ! i ! j) (mds_apply 4 (\<lambda>i j. MDS_4 ! i ! j) (\<lambda>k. of_nat (k + 7))) 2 = 9"
  using mds_matrices_involutory [of 4 MDS_4 2 "\<lambda>k. of_nat (k + 7)"] by simp

end
