(* ===== verification/Grid.thy ===== *)
theory Grid
  imports Rex_Env Mds
begin

text \<open>
  The grid of \<open>core/src/grid.rs\<close>: its errors, its constructors, its flat and byte forms,
  the XOR of two grids and the counter increment. A \<open>Grid<W, H>\<close> is the list of its rows; the
  const generics \<open>W\<close> and \<open>H\<close> are arguments. Its field is private and \<open>new\<close> is the only way to
  make one, so \<open>wf_grid\<close> (legal dimensions, \<open>H\<close> rows of \<open>W\<close> cells) is the type invariant; the
  lemmas show that every constructor establishes and every operation keeps it.
\<close>

unbundle bit_operations_syntax

section \<open>Types\<close>

type_synonym grid = "i64 list list"

datatype grid_error =
    InvalidDimensions nat nat
  | InvalidByteLength nat nat
  | InvalidKeyLength nat nat
  | InvalidUnicode

text \<open>A fallible operation returns an error of the source or panics.\<close>

datatype fault = Err grid_error | Panic

definition valid_dims :: "nat \<Rightarrow> nat \<Rightarrow> bool" where
  "valid_dims W H \<longleftrightarrow> 2 \<le> W \<and> (H = 4 \<or> H = 8 \<or> H = 16)"

definition rect :: "nat \<Rightarrow> nat \<Rightarrow> 'a list list \<Rightarrow> bool" where
  "rect W H g \<longleftrightarrow> length g = H \<and> (\<forall>row \<in> set g. length row = W)"

definition wf_grid :: "nat \<Rightarrow> nat \<Rightarrow> grid \<Rightarrow> bool" where
  "wf_grid W H g \<longleftrightarrow> valid_dims W H \<and> rect W H g"

section \<open>Constructors and conversions\<close>

text \<open>\<open>self[y][x] = v\<close>, through \<open>IndexMut\<close>.\<close>

definition set_cell :: "nat \<Rightarrow> nat \<Rightarrow> 'a \<Rightarrow> 'a list list \<Rightarrow> 'a list list" where
  "set_cell y x v g = g[y := (g ! y)[x := v]]"

definition grid_new :: "nat \<Rightarrow> nat \<Rightarrow> fault + grid" where
  "grid_new W H =
     (if 2 \<le> W \<and> (H = 4 \<or> H = 8 \<or> H = 16) then Inr (replicate H (replicate W 0))
      else Inl (Err (InvalidDimensions W H)))"

definition key_cell :: "nat \<Rightarrow> i64 list \<Rightarrow> nat \<Rightarrow> i64" where
  "key_cell area vec i =
     (let a = vec ! i + vec ! (i + area);
          b = vec ! i XOR vec ! (i + area);
          rot_a = (ucast b :: u32) AND 63;
          rot_b = (ucast a :: u32) AND 63;
          a' = word_rotl (unat rot_a) a;
          b' = word_rotr (unat rot_b) b
      in a' XOR b' XOR of_nat i)"

definition from_key :: "nat \<Rightarrow> nat \<Rightarrow> i64 list \<Rightarrow> fault + grid" where
  "from_key W H vec =
     (let area = W * H in
      if length vec \<noteq> area * 2 then Inl (Err (InvalidKeyLength (area * 2) (length vec)))
      else rbind (grid_new W H) (\<lambda>g.
        Inr (fold (\<lambda>i g. set_cell (i div W) (i mod W) (key_cell area vec i) g) [0..<area] g)))"

definition chunk_grid :: "nat \<Rightarrow> nat \<Rightarrow> u8 list \<Rightarrow> fault + grid" where
  "chunk_grid W H chunk =
     rbind (grid_new W H) (\<lambda>g.
       Inr (fold (\<lambda>j g. fold (\<lambda>i g.
         let start = (j * W + i) * 8 in
         set_cell j i (from_be_bytes (take 8 (drop start chunk))) g) [0..<W] g) [0..<H] g))"

text \<open>
  The pieces are converted in parallel; \<open>collect\<close> keeps their order, and the only error a piece
  can give is the same for all of them, so the sequential \<open>collect_result\<close> is the result.
  \<open>bytes.len() % matrix_size\<close> panics when the matrix has no cell.
\<close>

definition from_bytes :: "nat \<Rightarrow> nat \<Rightarrow> u8 list \<Rightarrow> fault + grid list" where
  "from_bytes W H bytes =
     (let matrix_size = W * H * 8 in
      if matrix_size = 0 then Inl Panic
      else if length bytes mod matrix_size \<noteq> 0
        then Inl (Err (InvalidByteLength matrix_size (length bytes)))
      else collect_result (map (chunk_grid W H) (chunks matrix_size bytes)))"

definition from_flat :: "nat \<Rightarrow> nat \<Rightarrow> i64 list \<Rightarrow> fault + grid" where
  "from_flat W H vec =
     rbind (grid_new W H) (\<lambda>g.
       Inr (fold (\<lambda>(i, val) g. set_cell (i div W) (i mod W) val g)
         (enumerate 0 (take (W * H) vec)) g))"

definition to_flat :: "grid \<Rightarrow> i64 list" where
  "to_flat g = concat (map (\<lambda>row. row) g)"

text \<open>The bytes of a grid, row by row, as every serializer and hasher of the crate feeds them.\<close>

definition grid_bytes :: "grid \<Rightarrow> u8 list" where
  "grid_bytes g = concat (map (\<lambda>row. concat (map to_be_bytes row)) g)"

section \<open>Cell-wise XOR\<close>

text \<open>
  \<open>xor_grids\<close> works on the flat slices behind the two arrays: four cells at a time through
  \<open>i64x4\<close>, the remainder one by one. \<open>chunks W\<close> reads the flat slice as rows again.
\<close>

fun xor_flat :: "'v i64x4_ops \<Rightarrow> i64 list \<Rightarrow> i64 list \<Rightarrow> i64 list" where
  "xor_flat V (s0 # s1 # s2 # s3 # ss) (k0 # k1 # k2 # k3 # ks) =
     v_into V (v_xor V (v_new V [s0, s1, s2, s3]) (v_new V [k0, k1, k2, k3])) @ xor_flat V ss ks"
| "xor_flat V ss ks = map2 (XOR) ss ks"

definition xor_grids :: "'v i64x4_ops \<Rightarrow> nat \<Rightarrow> grid \<Rightarrow> grid \<Rightarrow> grid" where
  "xor_grids V W g k = chunks W (xor_flat V (concat g) (concat k))"

section \<open>Counter increment\<close>

text \<open>
  The flat cells as limbs, least significant first. With the \<open>constant-time\<close> feature the loop
  runs over every cell with the carry \<open>overflow as u64\<close>; without it the loop returns at the first cell
  that does not overflow and continues with carry 1.
\<close>

fun increment_ct :: "i64 list \<Rightarrow> u64 \<Rightarrow> i64 list" where
  "increment_ct [] carry = []"
| "increment_ct (cell # cells) carry =
     (let result = cell + carry; overflow = 2 ^ 64 \<le> unat cell + unat carry
      in result # increment_ct cells (if overflow then 1 else 0))"

fun increment_early :: "i64 list \<Rightarrow> u64 \<Rightarrow> i64 list" where
  "increment_early [] carry = []"
| "increment_early (cell # cells) carry =
     (let result = cell + carry; overflow = 2 ^ 64 \<le> unat cell + unat carry
      in if \<not> overflow then result # cells else result # increment_early cells 1)"

definition increment :: "('v, 'r) rex_env \<Rightarrow> nat \<Rightarrow> grid \<Rightarrow> u64 \<Rightarrow> grid" where
  "increment E W g amount =
     chunks W (if constant_time E then increment_ct (concat g) amount
               else increment_early (concat g) amount)"

section \<open>Equality\<close>

definition grid_ct_eq :: "('v, 'r) rex_env \<Rightarrow> grid \<Rightarrow> grid \<Rightarrow> bool" where
  "grid_ct_eq E a b =
     fold (\<lambda>(row_a, row_b) result.
       fold (\<lambda>(cell_a, cell_b) result. result \<and> ct_eq_i64 E cell_a cell_b) (zip row_a row_b) result)
       (zip a b) True"

definition grid_eq :: "('v, 'r) rex_env \<Rightarrow> grid \<Rightarrow> grid \<Rightarrow> bool" where
  "grid_eq E a b = (if constant_time E then grid_ct_eq E a b else a = b)"

section \<open>Shapes\<close>

lemma wf_gridD:
  assumes "wf_grid W H g"
  shows "valid_dims W H" and "length g = H" and "\<And>row. row \<in> set g \<Longrightarrow> length row = W"
    and "2 \<le> W" and "0 < W" and "0 < H"
  using assms by (auto simp: wf_grid_def rect_def valid_dims_def)

lemma rect_Cons [simp]:
  "rect W H (r # g) \<longleftrightarrow> length r = W \<and> (\<exists>H'. H = Suc H' \<and> rect W H' g)"
  by (auto simp: rect_def)

lemma length_concat_rect: "rect W H g \<Longrightarrow> length (concat g) = W * H"
  by (induction g arbitrary: H) (auto simp: rect_def)

lemma length_to_flat: "rect W H g \<Longrightarrow> length (to_flat g) = W * H"
  by (simp add: to_flat_def length_concat_rect)

lemma to_flat_concat: "to_flat g = concat g"
  by (simp add: to_flat_def)

lemma chunks_rect: "0 < W \<Longrightarrow> length xs = W * H \<Longrightarrow> rect W H (chunks W xs)"
  using chunks_exact_length [of W xs]
  by (auto simp: rect_def length_chunks_mult mult.commute)

lemma chunks_concat_rect: "0 < W \<Longrightarrow> rect W H g \<Longrightarrow> chunks W (concat g) = g"
  by (intro chunks_concat) (auto simp: rect_def)

lemma rect_eqI: "rect W H g \<Longrightarrow> rect W H h \<Longrightarrow> concat g = concat h \<Longrightarrow> g = h"
  by (rule concat_injective) (auto simp: rect_def in_set_zip)

lemma nth_concat_rect:
  "rect W H g \<Longrightarrow> j < H \<Longrightarrow> i < W \<Longrightarrow> concat g ! (j * W + i) = g ! j ! i"
proof (induction g arbitrary: H j)
  case (Cons r g)
  then show ?case by (cases j) (auto simp: nth_append add.assoc)
qed (auto simp: rect_def)

lemma concat_set_cell:
  "rect W H g \<Longrightarrow> i < W * H \<Longrightarrow> concat (set_cell (i div W) (i mod W) v g) = (concat g)[i := v]"
proof (induction g arbitrary: H i)
  case Nil
  then show ?case by (simp add: rect_def)
next
  case (Cons r g)
  then obtain H' where r: "length r = W" "H = Suc H'" "rect W H' g" by auto
  with Cons.prems have W: "0 < W" by (cases W) auto
  show ?case
  proof (cases "i < W")
    case True
    with r show ?thesis by (simp add: set_cell_def list_update_append)
  next
    case False
    then have i: "i div W = Suc ((i - W) div W)" "i mod W = (i - W) mod W"
      using W by (auto simp: le_div_geq le_mod_geq)
    from False have "concat (set_cell (i div W) (i mod W) v (r # g)) =
        r @ concat (set_cell ((i - W) div W) ((i - W) mod W) v g)"
      by (simp add: i set_cell_def)
    also have "\<dots> = r @ (concat g)[i - W := v]"
      using False Cons.prems r by (subst Cons.IH[of H']) auto
    finally show ?thesis using False r by (simp add: list_update_append)
  qed
qed

lemma rect_set_cell: "rect W H g \<Longrightarrow> rect W H (set_cell y x v g)"
proof (cases "y < length g")
  case True
  assume "rect W H g"
  with True show ?thesis
    by (auto simp: rect_def set_cell_def dest!: subsetD[OF set_update_subset_insert])
qed (simp add: set_cell_def list_update_beyond)

lemma fold_set_cell:
  assumes "rect W H g" and "n \<le> W * H"
  shows "rect W H (fold (\<lambda>i g. set_cell (i div W) (i mod W) (f i) g) [0..<n] g) \<and>
    concat (fold (\<lambda>i g. set_cell (i div W) (i mod W) (f i) g) [0..<n] g) = fill_loop n f (concat g)"
  using assms(2)
proof (induction n)
  case 0
  then show ?case using assms(1) by simp
next
  case (Suc n)
  then have "rect W H (fold (\<lambda>i g. set_cell (i div W) (i mod W) (f i) g) [0..<n] g)" by simp
  with Suc show ?case by (simp add: rect_set_cell concat_set_cell fill_loop_Suc)
qed

text \<open>A loop over all cells writes the flat image of the index function.\<close>

lemma fold_set_cell_all:
  assumes "rect W H g"
  shows "rect W H (fold (\<lambda>i g. set_cell (i div W) (i mod W) (f i) g) [0..<W * H] g)"
    and "concat (fold (\<lambda>i g. set_cell (i div W) (i mod W) (f i) g) [0..<W * H] g) =
      map f [0..<W * H]"
  using fold_set_cell [OF assms order_refl, of f]
  by (simp_all add: fill_loop_eq length_concat_rect [OF assms])

section \<open>What the constructors return\<close>

lemma grid_new_ok: "valid_dims W H \<Longrightarrow> grid_new W H = Inr (replicate H (replicate W 0))"
  by (auto simp: grid_new_def valid_dims_def)

lemma grid_new_invalid: "\<not> valid_dims W H \<Longrightarrow> grid_new W H = Inl (Err (InvalidDimensions W H))"
  by (auto simp: grid_new_def valid_dims_def)

lemma rect_zero: "rect W H (replicate H (replicate W (0 :: i64)))"
  by (auto simp: rect_def)

lemma valid_dimsD: "valid_dims W H \<Longrightarrow> 0 < W" "valid_dims W H \<Longrightarrow> 0 < H" "valid_dims W H \<Longrightarrow> 2 \<le> W"
  by (auto simp: valid_dims_def)

lemma wf_gridI: "valid_dims W H \<Longrightarrow> rect W H g \<Longrightarrow> wf_grid W H g"
  by (simp add: wf_grid_def)

lemma wf_chunks: "valid_dims W H \<Longrightarrow> length xs = W * H \<Longrightarrow> wf_grid W H (chunks W xs)"
  by (simp add: wf_gridI chunks_rect valid_dimsD)

lemma wf_chunks_concat: "wf_grid W H g \<Longrightarrow> chunks W (concat g) = g"
  by (auto simp: wf_grid_def intro: chunks_concat_rect valid_dimsD)

lemma wf_length_concat: "wf_grid W H g \<Longrightarrow> length (concat g) = W * H"
  by (simp add: wf_grid_def length_concat_rect)

lemma fold_set_cell_chunks:
  fixes f :: "nat \<Rightarrow> i64"
  assumes "valid_dims W H"
  shows "fold (\<lambda>i g. set_cell (i div W) (i mod W) (f i) g) [0..<W * H] (replicate H (replicate W 0)) =
    chunks W (map f [0..<W * H])"
  using chunks_concat_rect [OF valid_dimsD(1) [OF assms] fold_set_cell_all(1) [OF rect_zero, of W H f]]
  by (simp add: fold_set_cell_all(2) [OF rect_zero])

lemma from_key_ok:
  assumes "valid_dims W H" and "length vec = 2 * (W * H)"
  shows "from_key W H vec = Inr (chunks W (map (key_cell (W * H) vec) [0..<W * H]))"
  using assms by (simp add: from_key_def Let_def grid_new_ok fold_set_cell_chunks)

lemma from_flat_ok:
  assumes "valid_dims W H"
  shows "from_flat W H vec =
    Inr (chunks W (take (W * H) vec @ replicate (W * H - length vec) 0))"
proof -
  let ?v = "take (W * H) vec"
  let ?z = "replicate H (replicate W (0 :: i64))"
  let ?step = "\<lambda>i g. set_cell (i div W) (i mod W) (?v ! i) g"
  have enum: "enumerate 0 ?v = map (\<lambda>i. (i, ?v ! i)) [0..<length ?v]"
    by (rule nth_equalityI) (auto simp: nth_enumerate_eq)
  have le: "length ?v \<le> W * H" by simp
  note loop = fold_set_cell [OF rect_zero le, of "\<lambda>i. ?v ! i"]
  have zero: "concat ?z = replicate (W * H) 0"
    by (induction H) (simp_all add: replicate_add)
  have "fill_loop (length ?v) ((!) ?v) (concat ?z) = ?v @ drop (length ?v) (concat ?z)"
    by (subst fill_loop_eq) (use map_nth [of ?v] in \<open>simp_all add: length_concat_rect [OF rect_zero]\<close>)
  also have "\<dots> = ?v @ replicate (W * H - length vec) 0"
    by (simp add: zero min_def)
  finally have "concat (fold ?step [0..<length ?v] ?z) = ?v @ replicate (W * H - length vec) 0"
    using loop by simp
  then have "fold ?step [0..<length ?v] ?z = chunks W (?v @ replicate (W * H - length vec) 0)"
    using chunks_concat_rect [OF valid_dimsD(1) [OF assms] conjunct1 [OF loop]] by simp
  then show ?thesis
    unfolding from_flat_def enum fold_map using assms by (simp add: grid_new_ok comp_def)
qed

lemma to_flat_from_flat:
  "valid_dims W H \<Longrightarrow> length vec = W * H \<Longrightarrow> from_flat W H vec = Inr g \<Longrightarrow> to_flat g = vec"
  by (auto simp: from_flat_ok to_flat_concat valid_dimsD)

lemma from_flat_concat: "wf_grid W H g \<Longrightarrow> from_flat W H (concat g) = Inr g"
  using wf_gridD(1) [of W H g]
  by (simp add: from_flat_ok wf_length_concat wf_chunks_concat)

section \<open>Bytes\<close>

lemma grid_bytes_concat: "grid_bytes g = concat (map to_be_bytes (concat g))"
  by (induction g) (auto simp: grid_bytes_def)

lemma length_concat_to_be_bytes [shape_simps]: "length (concat (map to_be_bytes xs)) = 8 * length xs"
  by (induction xs) auto

lemma length_grid_bytes: "rect W H g \<Longrightarrow> length (grid_bytes g) = W * H * 8"
  by (simp add: grid_bytes_concat length_concat_to_be_bytes length_concat_rect)

lemma fold_row_cells:
  assumes "j < length g" and "length (g ! j) = W"
  shows "fold (\<lambda>i g. set_cell j i (f i) g) [0..<W] g = g[j := map f [0..<W]]"
proof -
  have "n \<le> W \<Longrightarrow> fold (\<lambda>i g. set_cell j i (f i) g) [0..<n] g = g[j := fill_loop n f (g ! j)]" for n
  proof (induction n)
    case (Suc n)
    then show ?case using assms(1) by (simp add: set_cell_def fill_loop_Suc)
  qed simp
  from this [of W] show ?thesis using assms(2) by (simp add: fill_loop_eq)
qed

lemma fold_rows:
  assumes "rect W H g"
  shows "n \<le> H \<Longrightarrow> fold (\<lambda>j g. fold (\<lambda>i g. set_cell j i (f j i) g) [0..<W] g) [0..<n] g =
    fill_loop n (\<lambda>j. map (f j) [0..<W]) g"
proof (induction n)
  case (Suc n)
  have "fill_loop n (\<lambda>j. map (f j) [0..<W]) g = map (\<lambda>j. map (f j) [0..<W]) [0..<n] @ drop n g"
    using assms Suc.prems by (simp add: fill_loop_eq rect_def)
  then have "n < length (fill_loop n (\<lambda>j. map (f j) [0..<W]) g)"
    "length (fill_loop n (\<lambda>j. map (f j) [0..<W]) g ! n) = W"
    using assms Suc.prems by (auto simp: rect_def nth_append)
  with Suc show ?case by (simp add: fold_row_cells fill_loop_Suc)
qed simp

lemma chunk_grid_ok:
  assumes "valid_dims W H"
  shows "chunk_grid W H chunk =
    Inr (map (\<lambda>j. map (\<lambda>i. from_be_bytes (take 8 (drop ((j * W + i) * 8) chunk))) [0..<W]) [0..<H])"
  using assms rect_zero [of W H]
  by (simp add: chunk_grid_def grid_new_ok Let_def fold_rows fill_loop_eq)

lemma take_drop_be_bytes:
  "k < length xs \<Longrightarrow> take 8 (drop (k * 8) (concat (map to_be_bytes xs))) = to_be_bytes (xs ! k)"
proof (induction xs arbitrary: k)
  case (Cons x xs)
  then show ?case by (cases k) auto
qed simp

lemma chunk_grid_bytes: "wf_grid W H g \<Longrightarrow> chunk_grid W H (grid_bytes g) = Inr g"
proof -
  assume wf: "wf_grid W H g"
  have cell: "take 8 (drop ((j * W + i) * 8) (grid_bytes g)) = to_be_bytes (g ! j ! i)"
    if "j < H" "i < W" for i j
  proof -
    have "j * W + i < W * H"
      using row_major_less [OF that] by (simp add: mult.commute)
    with wf have "take 8 (drop ((j * W + i) * 8) (grid_bytes g)) = to_be_bytes (concat g ! (j * W + i))"
      unfolding grid_bytes_concat by (intro take_drop_be_bytes) (simp add: wf_length_concat)
    with that wf show ?thesis using nth_concat_rect [of W H g j i] by (simp add: wf_grid_def)
  qed
  have "map (\<lambda>j. map (\<lambda>i. from_be_bytes (take 8 (drop ((j * W + i) * 8) (grid_bytes g)))) [0..<W])
      [0..<H] = map (\<lambda>j. map (\<lambda>i. g ! j ! i) [0..<W]) [0..<H]"
    by (intro map_cong refl) (simp only: cell set_upt atLeastLessThan_iff from_be_bytes_to_be_bytes)
  also have "\<dots> = g"
    by (rule nth_equalityI) (use wf_gridD [OF wf] in \<open>auto intro!: nth_equalityI\<close>)
  finally show ?thesis using wf_gridD(1) [OF wf] by (simp add: chunk_grid_ok)
qed

lemma from_bytes_grids:
  assumes "valid_dims W H" and "\<And>g. g \<in> set gs \<Longrightarrow> wf_grid W H g"
  shows "from_bytes W H (concat (map grid_bytes gs)) = Inr gs"
proof -
  have size: "0 < W * H * 8" using valid_dimsD [OF assms(1)] by simp
  have len: "length (grid_bytes g) = W * H * 8" if "g \<in> set gs" for g
    using assms(2) [OF that] by (simp add: wf_grid_def length_grid_bytes)
  then have "chunks (W * H * 8) (concat (map grid_bytes gs)) = map grid_bytes gs"
    using size by (intro chunks_concat) auto
  moreover have "length (concat (map grid_bytes gs)) mod (W * H * 8) = 0"
    using len by (induction gs) auto
  moreover have "collect_result (map (chunk_grid W H) (map grid_bytes gs)) = Inr gs"
    using collect_result_map_cong [of gs "\<lambda>g. chunk_grid W H (grid_bytes g)" "\<lambda>g. g"]
      chunk_grid_bytes assms(2) by (simp add: comp_def)
  ultimately show ?thesis using size by (simp add: from_bytes_def Let_def)
qed

section \<open>XOR is cell-wise\<close>

lemma xor_flat_eq: "wide_ok V \<Longrightarrow> xor_flat V ss ks = map2 (XOR) ss ks"
  by (induction V ss ks rule: xor_flat.induct) (simp_all add: wide_laws)

definition xor_ref :: "grid \<Rightarrow> grid \<Rightarrow> grid" where
  "xor_ref g k = map2 (map2 (XOR)) g k"

lemma concat_map2_rect:
  "rect W H g \<Longrightarrow> rect W H k \<Longrightarrow> concat (map2 (map2 f) g k) = map2 f (concat g) (concat k)"
proof (induction g arbitrary: H k)
  case (Cons r g)
  then obtain r' k' where "k = r' # k'" by (cases k) (auto simp: rect_def)
  with Cons show ?case by auto
qed (auto simp: rect_def)

lemma rect_map2: "rect W H g \<Longrightarrow> rect W H k \<Longrightarrow> rect W H (map2 (map2 f) g k)"
proof (induction g arbitrary: H k)
  case (Cons r g)
  then obtain r' k' where "k = r' # k'" by (cases k) (auto simp: rect_def)
  with Cons show ?case by auto
qed (auto simp: rect_def)

lemma wf_xor_ref: "wf_grid W H g \<Longrightarrow> wf_grid W H k \<Longrightarrow> wf_grid W H (xor_ref g k)"
  by (simp add: wf_grid_def xor_ref_def rect_map2)

lemma concat_xor_ref:
  "wf_grid W H g \<Longrightarrow> wf_grid W H k \<Longrightarrow> concat (xor_ref g k) = map2 (XOR) (concat g) (concat k)"
  by (simp add: wf_grid_def xor_ref_def concat_map2_rect [of W H])

lemma xor_grids_eq:
  "wide_ok V \<Longrightarrow> wf_grid W H g \<Longrightarrow> wf_grid W H k \<Longrightarrow> xor_grids V W g k = xor_ref g k"
  using wf_chunks_concat [OF wf_xor_ref, of W H g k]
  by (simp add: xor_grids_def xor_flat_eq concat_xor_ref)

lemma map2_xor_cancel:
  "length xs = length ys \<Longrightarrow> map2 (XOR) (map2 (XOR) xs ys) ys = (xs :: i64 list)"
  by (induction xs ys rule: list_induct2) (simp_all add: xor.assoc)

lemma xor_ref_cancel:
  "wf_grid W H g \<Longrightarrow> wf_grid W H k \<Longrightarrow> xor_ref (xor_ref g k) k = g"
  using rect_eqI [of W H "xor_ref (xor_ref g k) k" g]
  by (simp add: wf_xor_ref wf_gridD concat_xor_ref [of W H] map2_xor_cancel wf_length_concat
      flip: wf_grid_def) (metis concat_xor_ref map2_xor_cancel wf_grid_def wf_length_concat wf_xor_ref)

lemma xor_ref_inj:
  assumes "wf_grid W H g" "wf_grid W H h" "wf_grid W H k" "xor_ref g k = xor_ref h k"
  shows "g = h"
  using assms by (metis xor_ref_cancel)

section \<open>The increment is addition of a large integer\<close>

text \<open>The number a list of limbs stands for, least significant limb first.\<close>

fun limbs_val :: "i64 list \<Rightarrow> nat" where
  "limbs_val [] = 0"
| "limbs_val (x # xs) = unat x + 2 ^ 64 * limbs_val xs"

definition grid_val :: "grid \<Rightarrow> nat" where
  "grid_val g = limbs_val (concat g)"

lemma length_increment_ct [simp]: "length (increment_ct xs c) = length xs"
  by (induction xs arbitrary: c) (auto simp: Let_def)

lemma increment_ct_0: "increment_ct xs 0 = xs"
proof (induction xs)
  case (Cons x xs)
  have "unat x < 2 ^ 64" by (rule unat_u64_less)
  with Cons show ?case by (simp add: Let_def)
qed simp

lemma increment_early_eq: "increment_early xs c = increment_ct xs c"
  by (induction xs arbitrary: c) (auto simp: Let_def increment_ct_0)

lemma increment_eq: "increment E W g a = chunks W (increment_ct (concat g) a)"
  by (simp add: increment_def increment_early_eq)

lemma limbs_val_bound: "limbs_val xs < 2 ^ (64 * length xs)"
proof (induction xs)
  case (Cons x xs)
  have "unat x < 2 ^ 64" by (rule unat_u64_less)
  moreover from Cons have "Suc (limbs_val xs) \<le> 2 ^ (64 * length xs)" by simp
  then have "2 ^ 64 * Suc (limbs_val xs) \<le> 2 ^ 64 * (2 :: nat) ^ (64 * length xs)"
    by (rule mult_le_mono2)
  ultimately show ?case by (simp add: power_add)
qed simp

lemma limbs_val_inject: "length xs = length ys \<Longrightarrow> limbs_val xs = limbs_val ys \<Longrightarrow> xs = ys"
proof (induction xs ys rule: list_induct2)
  case (Cons x xs y ys)
  have b: "unat x < 2 ^ 64" "unat y < 2 ^ 64" by (rule unat_u64_less)+
  from Cons.prems have e: "unat x + 2 ^ 64 * limbs_val xs = unat y + 2 ^ 64 * limbs_val ys" by simp
  then have "(unat x + 2 ^ 64 * limbs_val xs) mod 2 ^ 64 = (unat y + 2 ^ 64 * limbs_val ys) mod 2 ^ 64"
    by simp
  with b have "unat x = unat y" by simp
  with e Cons.IH show ?case by (simp add: word_unat_eq_iff)
qed simp

lemma unat_add_carry:
  fixes x c :: u64
  shows "unat x + unat c = unat (x + c) + 2 ^ 64 * (if 2 ^ 64 \<le> unat x + unat c then 1 else 0)"
proof -
  have "unat x < 2 ^ 64" "unat c < 2 ^ 64" by (rule unat_u64_less)+
  then show ?thesis
    by (auto simp: unat_word_ariths mod_nat_eqI le_mod_geq)
qed

lemma limbs_val_increment:
  "limbs_val (increment_ct xs c) = (limbs_val xs + (if xs = [] then 0 else unat c)) mod 2 ^ (64 * length xs)"
proof (induction xs arbitrary: c)
  case (Cons x xs)
  let ?o = "2 ^ 64 \<le> unat x + unat c"
  let ?k = "if ?o then 1 else 0 :: nat"
  let ?M = "2 ^ (64 * length xs) :: nat"
  have uk: "unat (if ?o then 1 else 0 :: u64) = ?k" by simp
  have IH: "limbs_val (increment_ct xs (if ?o then 1 else 0)) = (limbs_val xs + ?k) mod ?M"
    using Cons.IH [of "if ?o then 1 else 0"] uk by (cases xs) auto
  have "limbs_val (increment_ct (x # xs) c) = unat (x + c) + 2 ^ 64 * ((limbs_val xs + ?k) mod ?M)"
    unfolding increment_ct.simps Let_def limbs_val.simps IH ..
  also have "\<dots> = (unat (x + c) + 2 ^ 64 * (limbs_val xs + ?k)) mod (2 ^ 64 * ?M)"
    by (rule limb_mod [symmetric]) (rule unat_u64_less)
  also have "unat (x + c) + 2 ^ 64 * (limbs_val xs + ?k) = limbs_val (x # xs) + unat c"
    unfolding limbs_val.simps distrib_left using unat_add_carry [of x c] by linarith
  also have "2 ^ 64 * ?M = 2 ^ (64 * length (x # xs))"
    by (simp add: power_add)
  finally show ?case by simp
qed simp

lemma wf_increment: "wf_grid W H g \<Longrightarrow> wf_grid W H (increment E W g a)"
  by (simp add: increment_eq wf_chunks wf_length_concat wf_gridD)

lemma concat_increment: "wf_grid W H g \<Longrightarrow> concat (increment E W g a) = increment_ct (concat g) a"
  by (simp add: increment_eq wf_gridD)

lemma grid_val_increment:
  assumes "wf_grid W H g"
  shows "grid_val (increment E W g a) = (grid_val g + unat a) mod 2 ^ (64 * (W * H))"
proof -
  have "0 < length (concat g)" using wf_length_concat [OF assms] wf_gridD [OF assms] by simp
  then have "concat g \<noteq> []" by (rule length_greater_0_conv [THEN iffD1])
  then show ?thesis
    unfolding grid_val_def concat_increment [OF assms] limbs_val_increment wf_length_concat [OF assms]
    by (simp only: if_False)
qed

section \<open>Properties of the grid\<close>

text \<open>
  In both builds \<open>increment\<close> adds the amount to the number whose
  64-bit limbs are the cells in row-major order, least significant first, modulo the size of the grid,
  and keeps the shape.
\<close>

theorem increment_is_addition:
  assumes "wf_grid W H g"
  shows "wf_grid W H (increment E W g a) \<and>
    grid_val (increment E W g a) = (grid_val g + unat a) mod 2 ^ (64 * (W * H))"
  using wf_increment [OF assms] grid_val_increment [OF assms] by blast

theorem increment_is_addition_witness:
  "grid_val (increment ref_env 2 [[- 1, 0], [0, 0], [0, 0], [0, 0]] 1) = 2 ^ 64"
proof -
  have wf: "wf_grid 2 4 [[- 1, 0], [0, 0], [0, 0], [0, 0 :: i64]]"
    by (simp add: wf_grid_def valid_dims_def)  (simp add: rect_def)
  have v: "grid_val [[- 1, 0], [0, 0], [0, 0], [0, 0 :: i64]] = 2 ^ 64 - 1"
    by (simp add: grid_val_def unsigned_minus_1_eq_mask mask_eq_exp_minus_1)
  show ?thesis
    using increment_is_addition [OF wf, of ref_env 1] unfolding v by simp
qed

text \<open>
  \<open>from_bytes\<close> returns exactly the grids whose row-major big-endian
  bytes it is given, for any number of grids.
\<close>

theorem from_bytes_roundtrip:
  assumes "valid_dims W H" and "\<forall>g \<in> set gs. wf_grid W H g"
  shows "from_bytes W H (concat (map grid_bytes gs)) = Inr gs"
  using from_bytes_grids [OF assms(1)] assms(2) by blast

theorem from_bytes_roundtrip_witness:
  "from_bytes 2 4 (grid_bytes [[1, 2], [3, 4], [5, 6], [7, - 1]]) = Inr [[[1, 2], [3, 4], [5, 6], [7, - 1]]]"
  using from_bytes_roundtrip [of 2 4 "[[[1, 2], [3, 4], [5, 6], [7, - 1]]]"]
  by (simp add: wf_grid_def valid_dims_def) (simp add: rect_def)

text \<open>
  Every constructor refuses a width below 2 and a height other
  than 4, 8 or 16 with \<open>InvalidDimensions\<close>, \<open>from_key\<close> first refuses a key of the wrong length, and what
  any of them returns is a well-formed grid.
\<close>

theorem constructors_check_dimensions:
  "(\<not> valid_dims W H \<longrightarrow> grid_new W H = Inl (Err (InvalidDimensions W H)) \<and>
      from_flat W H cells = Inl (Err (InvalidDimensions W H)) \<and>
      (length key = W * H * 2 \<longrightarrow> from_key W H key = Inl (Err (InvalidDimensions W H)))) \<and>
   (length key \<noteq> W * H * 2 \<longrightarrow> from_key W H key = Inl (Err (InvalidKeyLength (W * H * 2) (length key)))) \<and>
   (\<forall>g. grid_new W H = Inr g \<or> from_flat W H cells = Inr g \<or> from_key W H key = Inr g \<longrightarrow> wf_grid W H g)"
proof (cases "valid_dims W H")
  case True
  have new: "wf_grid W H (replicate H (replicate W 0))" using True rect_zero by (simp add: wf_gridI)
  have flat: "wf_grid W H (chunks W (take (W * H) cells @ replicate (W * H - length cells) 0))"
    by (rule wf_chunks [OF True]) simp
  have key: "wf_grid W H g" if "from_key W H key = Inr g" for g
    using that from_key_ok [OF True, of key] wf_chunks [OF True, of "map f [0..<W * H]" for f]
    by (cases "length key = 2 * (W * H)") (auto simp: from_key_def Let_def mult.commute)
  show ?thesis
    using True new flat key by (auto simp: grid_new_ok from_flat_ok from_key_def Let_def)
qed (simp add: grid_new_invalid from_flat_def from_key_def Let_def)

theorem constructors_check_dimensions_witness:
  "grid_new 2 5 = Inl (Err (InvalidDimensions 2 5)) \<and>
   from_key 2 4 [1, 2] = Inl (Err (InvalidKeyLength 16 2))"
  using constructors_check_dimensions [of 2 5 "[]" "[]"] constructors_check_dimensions [of 2 4 "[]" "[1, 2]"]
  by (simp add: valid_dims_def)

end
