(* ===== verification/Subcell.thy ===== *)
theory Subcell
  imports Grid
begin

text \<open>
  The nonlinear layer of \<open>core/src/grid.rs\<close>: the scalar ARX transform of one cell, the portable
  vector implementation over \<open>wide::i64x4\<close> (the \<open>subcell!\<close> macro), the AVX2 implementation over
  the intrinsics, and the run-time dispatch between them. The lemmas show that all of them apply
  the same function to every cell, and that this function is a permutation of the 64-bit cells.
\<close>

unbundle bit_operations_syntax

section \<open>One cell\<close>

definition MASK :: u64 where
  "MASK = 0xFFFFFFFF"

fun arx_rounds :: "nat \<Rightarrow> u64 \<Rightarrow> u64 \<Rightarrow> u64 \<Rightarrow> u64 \<times> u64" where
  "arx_rounds 0 sum0 v0 v1 = (v0, v1)"
| "arx_rounds (Suc n) sum0 v0 v1 =
     (let sum1 = sum0 + ucast DELTA_32;
          v0' = (v0 + (((push_bit 4 v1 XOR drop_bit 5 v1) + v1) XOR sum1)) AND MASK;
          v1' = (v1 + (((push_bit 4 v0' XOR drop_bit 5 v0') + v0') XOR sum1)) AND MASK
      in arx_rounds n sum1 v0' v1')"

definition subcell_cell :: "i64 \<Rightarrow> nat \<Rightarrow> i64" where
  "subcell_cell cell round =
     (let x = cell;
          v0 = x AND MASK;
          v1 = drop_bit 32 x AND MASK;
          v0' = (v0 XOR of_nat round) AND MASK;
          (w0, w1) = arx_rounds SUBCELL_ROUNDS 0 v0' v1;
          w1' = (w1 XOR of_nat round) AND MASK
      in push_bit 32 w1' OR w0)"

section \<open>Four cells at a time\<close>

text \<open>\<open>chunks_exact_mut(4)\<close> with the remainder handled cell by cell.\<close>

fun by_fours :: "('a list \<Rightarrow> 'a list) \<Rightarrow> ('a \<Rightarrow> 'a) \<Rightarrow> 'a list \<Rightarrow> 'a list" where
  "by_fours f t (a # b # c # d # xs) = f [a, b, c, d] @ by_fours f t xs"
| "by_fours f t xs = map t xs"

text \<open>The loop of the \<open>subcell!\<close> macro over \<open>i64x4\<close> values.\<close>

fun subcell_macro_loop ::
  "'v i64x4_ops \<Rightarrow> nat \<Rightarrow> 'v \<Rightarrow> 'v \<Rightarrow> 'v \<Rightarrow> 'v \<Rightarrow> 'v \<Rightarrow> 'v \<times> 'v" where
  "subcell_macro_loop V 0 delta msk sum0 v0 v1 = (v0, v1)"
| "subcell_macro_loop V (Suc n) delta msk sum0 v0 v1 =
     (let sum1 = v_add V sum0 delta;
          v0' = v_and V (v_add V v0 (v_xor V (v_add V (v_xor V (v_shl V v1 4) (v_shr V v1 5)) v1) sum1)) msk;
          v1' = v_and V (v_add V v1 (v_xor V (v_add V (v_xor V (v_shl V v0' 4) (v_shr V v0' 5)) v0') sum1)) msk
      in subcell_macro_loop V n delta msk sum1 v0' v1')"

definition subcell_macro ::
  "'v i64x4_ops \<Rightarrow> 'v \<Rightarrow> 'v \<Rightarrow> 'v \<Rightarrow> 'v \<Rightarrow> 'v \<Rightarrow> 'v \<Rightarrow> 'v \<times> 'v" where
  "subcell_macro V v0 v1 sum0 delta tweak msk =
     (let v0' = v_and V (v_xor V v0 tweak) msk;
          (w0, w1) = subcell_macro_loop V SUBCELL_ROUNDS delta msk sum0 v0' v1
      in (w0, v_and V (v_xor V w1 tweak) msk))"

definition subcell_portable_chunk :: "'v i64x4_ops \<Rightarrow> nat \<Rightarrow> i64 list \<Rightarrow> i64 list" where
  "subcell_portable_chunk V round chunk =
     (let mask_simd = v_splat V 0xFFFFFFFF;
          x = v_new V chunk;
          v0 = v_and V x mask_simd;
          v1 = v_and V (v_shr V x 32) mask_simd;
          (w0, w1) = subcell_macro V v0 v1 (v_zero V) (v_splat V (ucast DELTA_32))
            (v_splat V (of_nat round)) mask_simd
      in v_into V (v_or V (v_shl V w1 32) w0))"

definition subcell_portable :: "'v i64x4_ops \<Rightarrow> i64 list \<Rightarrow> nat \<Rightarrow> i64 list" where
  "subcell_portable V data round =
     by_fours (subcell_portable_chunk V round) (\<lambda>cell. subcell_cell cell round) data"

text \<open>
  The intrinsics of \<open>std::arch::x86_64\<close> the AVX2 body uses, on the four 64-bit lanes of a
  register. \<open>srli\<close> is a logical shift, unlike the arithmetic shift of \<open>i64x4\<close>.
\<close>

definition mm256_set1 :: "i64 \<Rightarrow> i64 list" where "mm256_set1 a = [a, a, a, a]"
definition mm256_and :: "i64 list \<Rightarrow> i64 list \<Rightarrow> i64 list" where "mm256_and = map2 (AND)"
definition mm256_or :: "i64 list \<Rightarrow> i64 list \<Rightarrow> i64 list" where "mm256_or = map2 (OR)"
definition mm256_xor :: "i64 list \<Rightarrow> i64 list \<Rightarrow> i64 list" where "mm256_xor = map2 (XOR)"
definition mm256_add :: "i64 list \<Rightarrow> i64 list \<Rightarrow> i64 list" where "mm256_add = map2 (+)"
definition mm256_slli :: "i64 list \<Rightarrow> nat \<Rightarrow> i64 list" where "mm256_slli x n = map (push_bit n) x"
definition mm256_srli :: "i64 list \<Rightarrow> nat \<Rightarrow> i64 list" where "mm256_srli x n = map (drop_bit n) x"

fun avx2_loop ::
  "nat \<Rightarrow> i64 list \<Rightarrow> i64 list \<Rightarrow> i64 list \<Rightarrow> i64 list \<Rightarrow> i64 list \<Rightarrow> i64 list \<times> i64 list" where
  "avx2_loop 0 delta msk sum0 v0 v1 = (v0, v1)"
| "avx2_loop (Suc n) delta msk sum0 v0 v1 =
     (let sum1 = mm256_add sum0 delta;
          a = mm256_xor (mm256_slli v1 4) (mm256_srli v1 5);
          a' = mm256_xor (mm256_add a v1) sum1;
          v0' = mm256_and (mm256_add v0 a') msk;
          b = mm256_xor (mm256_slli v0' 4) (mm256_srli v0' 5);
          b' = mm256_xor (mm256_add b v0') sum1;
          v1' = mm256_and (mm256_add v1 b') msk
      in avx2_loop n delta msk sum1 v0' v1')"

definition avx2_chunk :: "nat \<Rightarrow> i64 list \<Rightarrow> i64 list" where
  "avx2_chunk round x =
     (let msk = mm256_set1 0xFFFFFFFF;
          delta = mm256_set1 (ucast DELTA_32);
          tweak = mm256_set1 (of_nat round);
          v0 = mm256_and x msk;
          v1 = mm256_and (mm256_srli x 32) msk;
          v0' = mm256_and (mm256_xor v0 tweak) msk;
          (w0, w1) = avx2_loop SUBCELL_ROUNDS delta msk (mm256_set1 0) v0' v1;
          w1' = mm256_and (mm256_xor w1 tweak) msk
      in mm256_or (mm256_slli w1' 32) w0)"

definition subcell_avx2 :: "i64 list \<Rightarrow> nat \<Rightarrow> i64 list" where
  "subcell_avx2 data round = by_fours (avx2_chunk round) (\<lambda>cell. subcell_cell cell round) data"

definition subcell :: "('v, 'r) rex_env \<Rightarrow> nat \<Rightarrow> grid \<Rightarrow> nat \<Rightarrow> grid" where
  "subcell E W g round =
     chunks W (if has_avx2 E then subcell_avx2 (concat g) round
               else subcell_portable (wide E) (concat g) round)"

section \<open>The implementations agree\<close>

lemma by_fours_map:
  assumes "\<And>xs. length xs = 4 \<Longrightarrow> f xs = map t xs"
  shows "by_fours f t xs = map t xs"
  using assms by (induction f t xs rule: by_fours.induct) simp_all

lemma and_MASK: "x AND MASK = take_bit 32 x"
  by (simp add: MASK_def take_bit_eq_mask mask_eq_exp_minus_1)

lemma signed_drop_bit_masked:
  "signed_drop_bit n (take_bit 32 x :: u64) = drop_bit n (take_bit 32 x)"
  by (rule bit_word_eqI) (auto simp: bit_simps bit_u64_ge)

lemma masked_signed_drop_bit_32:
  "take_bit 32 (signed_drop_bit 32 x :: u64) = take_bit 32 (drop_bit 32 x)"
  by (rule bit_word_eqI) (auto simp: bit_simps)

lemma macro_loop_lanes:
  assumes V: "wide_ok V"
    and "v_into V v0 = map f0 ps" and "v_into V v1 = map (\<lambda>p. take_bit 32 (f1 p)) ps"
    and "v_into V sum0 = map (\<lambda>_. s) ps"
    and d: "v_into V delta = map (\<lambda>_. ucast DELTA_32) ps"
    and m: "v_into V msk = map (\<lambda>_. MASK) ps"
  shows "v_into V (fst (subcell_macro_loop V n delta msk sum0 v0 v1)) =
      map (\<lambda>p. fst (arx_rounds n s (f0 p) (take_bit 32 (f1 p)))) ps \<and>
    v_into V (snd (subcell_macro_loop V n delta msk sum0 v0 v1)) =
      map (\<lambda>p. snd (arx_rounds n s (f0 p) (take_bit 32 (f1 p)))) ps"
  using assms(2-4)
proof (induction n arbitrary: s sum0 v0 v1 f0 f1)
  case (Suc n)
  show ?case
    unfolding subcell_macro_loop.simps arx_rounds.simps Let_def and_MASK
    by (rule Suc.IH)
       (simp_all add: Suc.prems wide_laws [OF V] d m map2_map_map and_MASK signed_drop_bit_masked
         cong: map_cong)
qed simp


lemma length_4_map: "length xs = 4 \<Longrightarrow> [a, a, a, a] = map (\<lambda>_. a) xs"
  by (auto simp: length_Suc_conv numeral_eq_Suc)

lemma portable_chunk_eq:
  assumes V: "wide_ok V" and len: "length xs = 4"
  shows "subcell_portable_chunk V round xs = map (\<lambda>cell. subcell_cell cell round) xs"
proof -
  let ?m = "v_splat V 0xFFFFFFFF" and ?t = "v_splat V (of_nat round)"
  let ?d = "v_splat V (ucast DELTA_32)"
  let ?v0 = "v_and V (v_xor V (v_and V (v_new V xs) ?m) ?t) ?m"
  let ?v1 = "v_and V (v_shr V (v_new V xs) 32) ?m"
  have m: "v_into V ?m = map (\<lambda>_. MASK) xs" and d: "v_into V ?d = map (\<lambda>_. ucast DELTA_32) xs"
    and t: "v_into V ?t = map (\<lambda>_. of_nat round) xs" and z: "v_into V (v_zero V) = map (\<lambda>_. 0) xs"
    by (simp_all only: wide_laws [OF V] MASK_def length_4_map [OF len])
  have x: "v_into V (v_new V xs) = map (\<lambda>c. c) xs" using len by (simp add: wide_laws [OF V])
  have v0: "v_into V ?v0 = map (\<lambda>c. ((c AND MASK) XOR of_nat round) AND MASK) xs"
    by (simp only: wide_laws(4,6) [OF V] x m t map2_map_map)
  have v1: "v_into V ?v1 = map (\<lambda>c. take_bit 32 (drop_bit 32 c)) xs"
    by (simp add: wide_laws(4,9) [OF V] x m map2_map_map and_MASK masked_signed_drop_bit_32
        del: list.map_ident)
  let ?w = "subcell_macro_loop V SUBCELL_ROUNDS ?d ?m (v_zero V) ?v0 ?v1"
  let ?r = "\<lambda>c. arx_rounds SUBCELL_ROUNDS 0 (((c AND MASK) XOR of_nat round) AND MASK) (drop_bit 32 c AND MASK)"
  have w0: "v_into V (fst ?w) = map (\<lambda>c. fst (?r c)) xs" and w1: "v_into V (snd ?w) = map (\<lambda>c. snd (?r c)) xs"
    using macro_loop_lanes [OF V v0 v1 z d m, of SUBCELL_ROUNDS] by (simp_all only: and_MASK)
  have "v_into V (v_and V (v_xor V (snd ?w) ?t) ?m) = map (\<lambda>c. (snd (?r c) XOR of_nat round) AND MASK) xs"
    by (simp only: wide_laws(4,6) [OF V] w1 t m map2_map_map)
  then have "v_into V (v_shl V (v_and V (v_xor V (snd ?w) ?t) ?m) 32) =
      map (\<lambda>c. push_bit 32 ((snd (?r c) XOR of_nat round) AND MASK)) xs"
    by (simp add: wide_laws(8) [OF V] comp_def)
  then have "v_into V (v_or V (v_shl V (v_and V (v_xor V (snd ?w) ?t) ?m) 32) (fst ?w)) =
      map (\<lambda>c. push_bit 32 ((snd (?r c) XOR of_nat round) AND MASK) OR fst (?r c)) xs"
    by (simp only: wide_laws(5) [OF V] w0 map2_map_map)
  then show ?thesis
    by (simp only: subcell_portable_chunk_def subcell_macro_def subcell_cell_def Let_def
        case_prod_beta fst_conv snd_conv)
qed

lemma mm256_lanes:
  "mm256_add (map f ps) (map g ps) = map (\<lambda>p. f p + g p) ps"
  "mm256_and (map f ps) (map g ps) = map (\<lambda>p. f p AND g p) ps"
  "mm256_or (map f ps) (map g ps) = map (\<lambda>p. f p OR g p) ps"
  "mm256_xor (map f ps) (map g ps) = map (\<lambda>p. f p XOR g p) ps"
  "mm256_slli (map f ps) n = map (\<lambda>p. push_bit n (f p)) ps"
  "mm256_srli (map f ps) n = map (\<lambda>p. drop_bit n (f p)) ps"
  by (simp_all add: mm256_add_def mm256_and_def mm256_or_def mm256_xor_def mm256_slli_def
      mm256_srli_def map2_map_map comp_def)

lemma avx2_loop_lanes:
  "avx2_loop n (map (\<lambda>_. ucast DELTA_32) ps) (map (\<lambda>_. MASK) ps) (map (\<lambda>_. s) ps)
     (map f0 ps) (map f1 ps) =
   (map (\<lambda>p. fst (arx_rounds n s (f0 p) (f1 p))) ps, map (\<lambda>p. snd (arx_rounds n s (f0 p) (f1 p))) ps)"
proof (induction n arbitrary: s f0 f1)
  case (Suc n)
  show ?case
    unfolding avx2_loop.simps arx_rounds.simps Let_def mm256_lanes by (rule Suc.IH)
qed simp

lemma avx2_chunk_eq:
  assumes "length xs = 4"
  shows "avx2_chunk round xs = map (\<lambda>cell. subcell_cell cell round) xs"
proof -
  have x: "xs = map (\<lambda>c. c) xs" by simp
  have "avx2_chunk round (map (\<lambda>c. c) xs) = map (\<lambda>cell. subcell_cell cell round) xs"
    unfolding avx2_chunk_def Let_def mm256_set1_def length_4_map [OF assms] mm256_lanes
      MASK_def [symmetric] avx2_loop_lanes case_prod_conv
    by (simp add: subcell_cell_def Let_def case_prod_beta)
  with x show ?thesis by simp
qed

lemma subcell_portable_eq:
  "wide_ok V \<Longrightarrow> subcell_portable V data round = map (\<lambda>cell. subcell_cell cell round) data"
  unfolding subcell_portable_def by (rule by_fours_map) (rule portable_chunk_eq)

lemma subcell_avx2_eq: "subcell_avx2 data round = map (\<lambda>cell. subcell_cell cell round) data"
  unfolding subcell_avx2_def by (rule by_fours_map) (rule avx2_chunk_eq)

lemma subcell_flat:
  "wide_ok (wide E) \<Longrightarrow> subcell E W g round = chunks W (map (\<lambda>cell. subcell_cell cell round) (concat g))"
  by (simp add: subcell_def subcell_portable_eq subcell_avx2_eq)

lemma rect_map_map: "rect W H g \<Longrightarrow> rect W H (map (map f) g)"
  by (auto simp: rect_def)

lemma subcell_eq:
  assumes "wide_ok (wide E)" and "wf_grid W H g"
  shows "subcell E W g round = map (map (\<lambda>cell. subcell_cell cell round)) g"
proof -
  have "wf_grid W H (map (map (\<lambda>cell. subcell_cell cell round)) g)"
    using assms(2) by (simp add: wf_grid_def rect_map_map)
  from wf_chunks_concat [OF this] show ?thesis
    by (simp add: subcell_flat [OF assms(1)] map_concat)
qed

lemma wf_subcell: "wide_ok (wide E) \<Longrightarrow> wf_grid W H g \<Longrightarrow> wf_grid W H (subcell E W g round)"
  using subcell_eq [of E W H g round] by (simp add: wf_grid_def rect_map_map)

section \<open>The transform is a permutation of cells\<close>

lemma low_half_eq_iff:
  fixes x y :: u64
  shows "take_bit 32 x = take_bit 32 y \<longleftrightarrow> (ucast x :: u32) = ucast y"
proof
  assume e: "take_bit 32 x = take_bit 32 y"
  show "(ucast x :: u32) = ucast y"
  proof (rule bit_word_eqI)
    fix n :: nat
    assume "n < LENGTH(32)"
    moreover have "bit (take_bit 32 x) n \<longleftrightarrow> bit (take_bit 32 y) n" by (simp only: e)
    ultimately show "bit (ucast x :: u32) n \<longleftrightarrow> bit (ucast y :: u32) n" by (simp add: bit_simps)
  qed
next
  assume e: "(ucast x :: u32) = ucast y"
  show "take_bit 32 x = take_bit 32 y"
  proof (rule bit_word_eqI)
    fix n :: nat
    have "bit (ucast x :: u32) n \<longleftrightarrow> bit (ucast y :: u32) n" by (simp only: e)
    then show "bit (take_bit 32 x) n \<longleftrightarrow> bit (take_bit 32 y) n" by (auto simp: bit_simps)
  qed
qed

lemma ucast_add_low: "(ucast (x + y :: u64) :: u32) = ucast x + ucast y"
proof transfer
  fix x y :: int
  have "take_bit 32 (take_bit 64 x + take_bit 64 y) =
      take_bit 32 (take_bit 32 (take_bit 64 x) + take_bit 32 (take_bit 64 y))"
    by (simp only: take_bit_add)
  also have "\<dots> = take_bit 32 (x + y)" by (simp add: take_bit_add)
  finally show "take_bit LENGTH(32) (take_bit LENGTH(64) (x + y)) =
      take_bit LENGTH(32) (take_bit LENGTH(64) x + take_bit LENGTH(64) y)" by simp
qed

lemma take_bit_add_cancel:
  fixes a b t :: u64
  assumes "take_bit 32 (a + t) = take_bit 32 (b + t)"
  shows "take_bit 32 a = take_bit 32 b"
  using assms by (simp add: low_half_eq_iff ucast_add_low)

lemma arx_rounds_inj:
  assumes "arx_rounds n s a0 a1 = arx_rounds n s b0 b1"
    and "take_bit 32 a0 = a0" "take_bit 32 a1 = a1" "take_bit 32 b0 = b0" "take_bit 32 b1 = b1"
  shows "a0 = b0 \<and> a1 = b1"
  using assms
proof (induction n arbitrary: s a0 a1 b0 b1)
  case (Suc n)
  let ?F = "\<lambda>v. ((push_bit 4 v XOR drop_bit 5 v) + v) XOR (s + ucast DELTA_32)"
  let ?a0 = "take_bit 32 (a0 + ?F a1)" and ?b0 = "take_bit 32 (b0 + ?F b1)"
  have "?a0 = ?b0 \<and> take_bit 32 (a1 + ?F ?a0) = take_bit 32 (b1 + ?F ?b0)"
    by (rule Suc.IH) (use Suc.prems(1) in \<open>simp_all add: Let_def and_MASK\<close>)
  then have e0: "?a0 = ?b0" and e1: "take_bit 32 (a1 + ?F ?a0) = take_bit 32 (b1 + ?F ?a0)" by auto
  from take_bit_add_cancel [OF e1] Suc.prems have a1: "a1 = b1" by simp
  with e0 have "take_bit 32 (a0 + ?F a1) = take_bit 32 (b0 + ?F a1)" by simp
  from take_bit_add_cancel [OF this] Suc.prems a1 show ?case by simp
qed simp

lemma arx_rounds_masked:
  "take_bit 32 v0 = v0 \<Longrightarrow> take_bit 32 v1 = v1 \<Longrightarrow>
   take_bit 32 (fst (arx_rounds n s v0 v1)) = fst (arx_rounds n s v0 v1) \<and>
   take_bit 32 (snd (arx_rounds n s v0 v1)) = snd (arx_rounds n s v0 v1)"
  by (induction n arbitrary: s v0 v1) (simp_all add: Let_def and_MASK)

lemma masked_xor_inj:
  fixes a b t :: u64
  shows "take_bit 32 (a XOR t) = take_bit 32 (b XOR t) \<longleftrightarrow> take_bit 32 a = take_bit 32 b"
  by (auto simp: bit_eq_iff bit_simps)

lemma low_of_join: "take_bit 32 (push_bit 32 x OR take_bit 32 (y :: u64)) = take_bit 32 y"
  by (rule bit_word_eqI) (auto simp: bit_simps)

lemma high_of_join: "drop_bit 32 (push_bit 32 (take_bit 32 x) OR take_bit 32 (y :: u64)) = take_bit 32 x"
  by (rule bit_word_eqI) (auto simp: bit_simps)

lemma join_halves_inj:
  fixes a b c d :: u64
  assumes "push_bit 32 (take_bit 32 a) OR take_bit 32 b = push_bit 32 (take_bit 32 c) OR take_bit 32 d"
  shows "take_bit 32 a = take_bit 32 c \<and> take_bit 32 b = take_bit 32 d"
  by (metis assms low_of_join high_of_join)

lemma join_tweaked_inj:
  fixes p q r s t :: u64
  assumes "push_bit 32 (take_bit 32 (p XOR t)) OR q = push_bit 32 (take_bit 32 (r XOR t)) OR s"
    and "take_bit 32 p = p" "take_bit 32 q = q" "take_bit 32 r = r" "take_bit 32 s = s"
  shows "p = r \<and> q = s"
proof -
  have "take_bit 32 (p XOR t) = take_bit 32 (r XOR t) \<and> take_bit 32 q = take_bit 32 s"
    by (rule join_halves_inj) (simp only: assms)
  then show ?thesis unfolding masked_xor_inj assms(2-5) .
qed
lemma take_bit_take_bit_same: "take_bit 32 (take_bit 32 (x :: u64)) = take_bit 32 x"
  by simp

lemma subcell_cell_inj: "inj (\<lambda>cell. subcell_cell cell round)"
proof (rule injI)
  fix x y :: i64
  let ?v0 = "\<lambda>z :: u64. take_bit 32 (take_bit 32 z XOR of_nat round)"
  let ?v1 = "\<lambda>z :: u64. take_bit 32 (drop_bit 32 z)"
  let ?w = "\<lambda>z. arx_rounds SUBCELL_ROUNDS 0 (?v0 z) (?v1 z)"
  assume "subcell_cell x round = subcell_cell y round"
  then have joined: "push_bit 32 (take_bit 32 (snd (?w x) XOR of_nat round)) OR fst (?w x) =
      push_bit 32 (take_bit 32 (snd (?w y) XOR of_nat round)) OR fst (?w y)"
    by (simp only: subcell_cell_def Let_def case_prod_beta and_MASK)
  have masked: "take_bit 32 (fst (?w z)) = fst (?w z)" "take_bit 32 (snd (?w z)) = snd (?w z)" for z
    using arx_rounds_masked [of "?v0 z" "?v1 z"] by auto
  have "snd (?w x) = snd (?w y) \<and> fst (?w x) = fst (?w y)"
    by (rule join_tweaked_inj [OF joined masked(2) masked(1) masked(2) masked(1)])
  then have "?v0 x = ?v0 y \<and> ?v1 x = ?v1 y"
    by (intro arx_rounds_inj [of SUBCELL_ROUNDS 0] prod_eqI take_bit_take_bit_same) blast+
  then have "take_bit 32 x = take_bit 32 y" and "take_bit 32 (drop_bit 32 x) = take_bit 32 (drop_bit 32 y)"
    by (simp_all only: masked_xor_inj take_bit_take_bit_same)
  moreover have "z = push_bit 32 (take_bit 32 (drop_bit 32 z)) OR take_bit 32 z" for z :: u64
    by (rule bit_word_eqI) (auto simp: bit_simps)
  ultimately show "x = y" by metis
qed

lemma subcell_inj:
  assumes "wide_ok (wide E)" "wf_grid W H g" "wf_grid W H h"
    and "subcell E W g round = subcell E W h round"
  shows "g = h"
  using assms subcell_cell_inj [of round] by (simp add: subcell_eq inj_map_eq_map inj_mapI)

section \<open>Property of the nonlinear layer\<close>

text \<open>
  The portable \<open>i64x4\<close> body and the AVX2 body of \<open>subcell\<close> both apply the
  scalar \<open>subcell_cell\<close> to every cell, whatever the CPU, and that cell function is injective for every round
  tweak, so the layer loses no information.
\<close>

theorem subcell_backends_agree:
  assumes "wide_ok (wide E)" and "wf_grid W H g"
  shows "subcell E W g round = map (map (\<lambda>cell. subcell_cell cell round)) g \<and>
    inj (\<lambda>cell. subcell_cell cell round)"
  using subcell_eq [OF assms] subcell_cell_inj by blast

theorem subcell_backends_agree_witness:
  "subcell (ref_env\<lparr> has_avx2 := True \<rparr>) 2 (replicate 4 [1, 2]) 3 =
   map (map (\<lambda>cell. subcell_cell cell 3)) (replicate 4 [1, 2])"
  using subcell_backends_agree [of "ref_env\<lparr> has_avx2 := True \<rparr>" 2 4 "replicate 4 [1, 2]" 3]
  by (simp add: ref_env_def wide_ok_ref wf_grid_def valid_dims_def) (simp add: rect_def)

end
