(* ===== verification/Shift_Rows.thy ===== *)
theory Shift_Rows
  imports Grid
begin

text \<open>
  The row permutation of \<open>core/src/grid.rs\<close>: the shift amounts derived from a round key and
  the rotation of the rows, once as the data-oblivious barrel shifter of the \<open>constant-time\<close>
  feature and once as \<open>slice::rotate_left\<close>. The lemmas bound the shifts by the width, show that the
  barrel shifter is the rotation, and that rotating rows loses nothing.
\<close>

unbundle bit_operations_syntax

section \<open>Shift amounts\<close>

definition row_shift :: "nat \<Rightarrow> i64 list \<Rightarrow> nat" where
  "row_shift W row =
     (let hash_chunk = fold (\<lambda>x acc. acc XOR x) row 0
      in unat (drop_bit 64 ((ucast hash_chunk :: u128) * of_nat W)))"

definition precalculate_shifts :: "nat \<Rightarrow> grid \<Rightarrow> nat list" where
  "precalculate_shifts W g = map (row_shift W) g"

section \<open>Rotating the rows\<close>

text \<open>
  One stage of the barrel shifter: the select between the cell and its rotation source is a
  mask of all ones or all zeroes, made from bit \<open>b\<close> of the shift through \<open>subtle\<close>.
\<close>

definition barrel_stage :: "('v, 'r) rex_env \<Rightarrow> nat \<Rightarrow> nat \<Rightarrow> nat \<Rightarrow> nat \<Rightarrow> i64 list \<Rightarrow> i64 list" where
  "barrel_stage E W shift stride b tmp =
     (let msk = 0 - ucast (choice_u8 E (of_nat (drop_bit b shift AND 1))) :: i64;
          split = W - stride;
          rotated = replicate W 0;
          rotated1 = fold (\<lambda>j r. r[j := tmp ! j XOR ((tmp ! j XOR tmp ! (j + stride)) AND msk)])
            [0..<split] rotated
      in fold (\<lambda>j r. r[j := tmp ! j XOR ((tmp ! j XOR tmp ! (j - split)) AND msk)])
            [split..<W] rotated1)"

text \<open>
  The loop \<open>while stride < W\<close> with \<open>stride\<close> doubling from 1. The second conjunct of the guard
  holds throughout; it is what makes the recursion well-founded on all arguments.
\<close>

function barrel :: "('v, 'r) rex_env \<Rightarrow> nat \<Rightarrow> nat \<Rightarrow> nat \<Rightarrow> nat \<Rightarrow> i64 list \<Rightarrow> i64 list" where
  "barrel E W shift stride b tmp =
     (if stride < W \<and> 0 < stride
      then barrel E W shift (2 * stride) (Suc b) (barrel_stage E W shift stride b tmp)
      else tmp)"
  by pat_completeness auto
termination
  by (relation "measure (\<lambda>(E, W, shift, stride, b, tmp). W - stride)") auto

declare barrel.simps [simp del]

text \<open>\<open>slice::rotate_left\<close> panics when the amount exceeds the length.\<close>

definition rotate_left_slice :: "nat \<Rightarrow> 'a list \<Rightarrow> fault + 'a list" where
  "rotate_left_slice mid xs = (if mid \<le> length xs then Inr (rotate mid xs) else Inl Panic)"

definition shift_row :: "('v, 'r) rex_env \<Rightarrow> nat \<Rightarrow> nat \<Rightarrow> i64 list \<Rightarrow> fault + i64 list" where
  "shift_row E W shift row =
     (if constant_time E then Inr (barrel E W shift 1 0 row)
      else if shift = 0 then Inr row
      else rotate_left_slice shift row)"

definition shift_rows :: "('v, 'r) rex_env \<Rightarrow> nat \<Rightarrow> grid \<Rightarrow> nat list \<Rightarrow> fault + grid" where
  "shift_rows E W g shifts =
     collect_result (map (\<lambda>i. shift_row E W (shifts ! i) (g ! i)) [0..<length g])"

section \<open>The shifts are below the width\<close>

lemma unat_mult_high:
  fixes h :: u64
  assumes "W < 2 ^ 64"
  shows "unat (drop_bit 64 ((ucast h :: u128) * of_nat W)) = unat h * W div 2 ^ 64"
proof -
  have "unat h * W < 2 ^ 64 * 2 ^ 64"
    using unat_u64_less [of h] assms by (intro mult_strict_mono) auto
  moreover have "unat (ucast h :: u128) = unat h"
    using unat_u64_less [of h] by (simp add: unsigned_ucast_eq take_bit_nat_eq_self)
  moreover have "unat (of_nat W :: u128) = W"
    using assms by (simp add: unat_of_nat)
  ultimately have "unat ((ucast h :: u128) * of_nat W) = unat h * W"
    by (simp add: unat_word_ariths)
  then show ?thesis unfolding unat_drop_bit_eq by (simp add: drop_bit_nat_def)
qed

lemma row_shift_eq:
  "W < 2 ^ 64 \<Longrightarrow> row_shift W row = unat (fold (\<lambda>x acc. acc XOR x) row 0) * W div 2 ^ 64"
  unfolding row_shift_def Let_def by (rule unat_mult_high)

lemma row_shift_less: "0 < W \<Longrightarrow> W < 2 ^ 64 \<Longrightarrow> row_shift W row < W"
proof -
  assume W: "0 < W" "W < 2 ^ 64"
  let ?h = "unat (fold (\<lambda>x acc. acc XOR x) row 0 :: u64)"
  have "?h * W < 2 ^ 64 * W" using W unat_u64_less by simp
  then have "?h * W div 2 ^ 64 < W" by (intro less_mult_imp_div_less) (simp add: mult.commute)
  with W show ?thesis by (simp add: row_shift_eq)
qed

section \<open>The barrel shifter rotates\<close>

lemma select_mask:
  "a XOR ((a XOR c) AND (0 - (if s then 1 else 0))) = (if s then c else (a :: i64))"
  by (simp flip: xor.assoc)

lemma fold_fill_from:
  "m \<le> n \<Longrightarrow> n \<le> length xs \<Longrightarrow>
   fold (\<lambda>j r. r[j := f j]) [m..<n] xs = take m xs @ map f [m..<n] @ drop n xs"
proof (induction n)
  case (Suc n)
  show ?case
  proof (cases "m = Suc n")
    case False
    with Suc have "fold (\<lambda>j r. r[j := f j]) [m..<Suc n] xs = (take m xs @ map f [m..<n] @ drop n xs)[n := f n]"
      by simp
    also have "\<dots> = take m xs @ map f [m..<n] @ (drop n xs)[0 := f n]"
      using Suc.prems False by (simp add: list_update_append)
    also have "(drop n xs)[0 := f n] = f n # drop (Suc n) xs"
      using Suc.prems by (simp add: Cons_nth_drop_Suc [symmetric])
    finally show ?thesis using Suc.prems False by simp
  qed simp
qed simp

lemma barrel_stage_eq:
  assumes E: "subtle_ok E" and len: "length tmp = W" and stride: "stride < W"
  shows "barrel_stage E W shift stride b tmp =
    (if odd (drop_bit b shift) then rotate stride tmp else tmp)"
proof -
  let ?o = "odd (drop_bit b shift)"
  let ?split = "W - stride"
  have "choice_u8 E (of_nat (drop_bit b shift AND 1)) = (if ?o then 1 else 0)"
    using E by (auto simp: subtle_ok_def and_one_eq mod_2_eq_odd)
  then have m: "(0 - ucast (choice_u8 E (of_nat (drop_bit b shift AND 1))) :: i64) =
      0 - (if ?o then 1 else 0)" by simp
  let ?f = "\<lambda>j. if ?o then tmp ! (j + stride) else tmp ! j"
  let ?h = "\<lambda>j. if ?o then tmp ! (j - ?split) else tmp ! j"
  have "barrel_stage E W shift stride b tmp = map ?f [0..<?split] @ map ?h [?split..<W]"
    unfolding barrel_stage_def Let_def m select_mask using stride
    by (simp add: fold_fill_from)
  also have "\<dots> = (if ?o then rotate stride tmp else tmp)"
  proof (cases ?o)
    case True
    have "map ?f [0..<?split] @ map ?h [?split..<W] = rotate stride tmp"
      using len stride True
      by (intro nth_equalityI) (auto simp: nth_rotate nth_append mod_if add.commute)
    with True show ?thesis by simp
  next
    case False
    have "map ?f [0..<?split] @ map ?h [?split..<W] = tmp"
      using len stride False by (intro nth_equalityI) (auto simp: nth_append)
    with False show ?thesis by simp
  qed
  finally show ?thesis .
qed

lemma barrel_rotate:
  assumes E: "subtle_ok E" and len: "length tmp = W" and shift: "shift < W"
  shows "barrel E W shift (2 ^ b) b tmp = rotate (drop_bit b shift * 2 ^ b) tmp"
  using len
proof (induction "W - 2 ^ b" arbitrary: b tmp rule: less_induct)
  case less
  show ?case
  proof (cases "2 ^ b < W")
    case True
    let ?t = "barrel_stage E W shift (2 ^ b) b tmp"
    have t: "?t = (if odd (drop_bit b shift) then rotate (2 ^ b) tmp else tmp)"
      by (rule barrel_stage_eq [OF E less.prems True])
    have "barrel E W shift (2 ^ b) b tmp = barrel E W shift (2 ^ Suc b) (Suc b) ?t"
      using True by (simp add: barrel.simps [of E W shift "2 ^ b"])
    also have "\<dots> = rotate (drop_bit (Suc b) shift * 2 ^ Suc b) ?t"
      by (rule less.hyps) (use True less.prems t in \<open>auto simp: diff_less_mono2\<close>)
    also have "\<dots> = rotate (drop_bit (Suc b) shift * 2 ^ Suc b + drop_bit b shift mod 2 * 2 ^ b) tmp"
      by (simp add: t rotate_rotate mod_2_eq_odd)
    also have "drop_bit (Suc b) shift * 2 ^ Suc b + drop_bit b shift mod 2 * 2 ^ b = drop_bit b shift * 2 ^ b"
      using div_mult_mod_eq [of "drop_bit b shift" 2]
      by (simp add: drop_bit_Suc drop_bit_half flip: mult.assoc add_mult_distrib)
    finally show ?thesis .
  next
    case False
    with shift have "drop_bit b shift = 0" by (simp add: drop_bit_eq_div)
    with False show ?thesis by (simp add: barrel.simps)
  qed
qed

lemma shift_row_eq:
  assumes "subtle_ok E" and "length row = W" and "shift < W"
  shows "shift_row E W shift row = Inr (rotate shift row)"
  using barrel_rotate [OF assms, of 0] assms
  by (simp add: shift_row_def rotate_left_slice_def)

definition shift_ref :: "nat list \<Rightarrow> grid \<Rightarrow> grid" where
  "shift_ref shifts g = map2 rotate shifts g"

lemma shift_rows_eq:
  assumes "subtle_ok E" and "wf_grid W H g" and "length shifts = H" and "\<And>s. s \<in> set shifts \<Longrightarrow> s < W"
  shows "shift_rows E W g shifts = Inr (shift_ref shifts g)"
proof -
  have "collect_result (map (\<lambda>i. shift_row E W (shifts ! i) (g ! i)) [0..<length g]) =
      Inr (map (\<lambda>i. rotate (shifts ! i) (g ! i)) [0..<length g])"
    by (rule collect_result_map_cong) (use assms wf_gridD in \<open>auto simp: shift_row_eq\<close>)
  also have "map (\<lambda>i. rotate (shifts ! i) (g ! i)) [0..<length g] = shift_ref shifts g"
    unfolding shift_ref_def by (rule nth_equalityI) (use assms wf_gridD in auto)
  finally show ?thesis by (simp add: shift_rows_def)
qed

lemma wf_shift_ref: "wf_grid W H g \<Longrightarrow> length shifts = H \<Longrightarrow> wf_grid W H (shift_ref shifts g)"
  by (auto simp: wf_grid_def rect_def shift_ref_def dest: set_zip_rightD)

lemma rotate_inj: "rotate n xs = rotate n ys \<Longrightarrow> xs = ys"
  using inj_rotate1 by (induction n) (auto dest: injD)

lemma shift_ref_inj:
  assumes "length shifts = length g" "length shifts = length h" "shift_ref shifts g = shift_ref shifts h"
  shows "g = h"
proof (rule nth_equalityI)
  fix i
  assume i: "i < length g"
  have "shift_ref shifts g ! i = shift_ref shifts h ! i" using assms(3) by simp
  with i assms(1,2) have "rotate (shifts ! i) (g ! i) = rotate (shifts ! i) (h ! i)"
    by (simp add: shift_ref_def)
  then show "g ! i = h ! i" by (rule rotate_inj)
qed (use assms in simp)

lemma length_precalculate_shifts [simp, shape_simps]: "length (precalculate_shifts W g) = length g"
  by (simp add: precalculate_shifts_def)

lemma precalculate_shifts_less:
  "0 < W \<Longrightarrow> W < 2 ^ 64 \<Longrightarrow> s \<in> set (precalculate_shifts W g) \<Longrightarrow> s < W"
  by (auto simp: precalculate_shifts_def row_shift_less)

section \<open>Property of the row layer\<close>

text \<open>
  The shifts that \<open>precalculate_shifts\<close> derives from a key grid are below the
  width, and with them \<open>shift_rows\<close> rotates every row left by its shift: the constant-time barrel shifter and
  \<open>rotate_left\<close> agree, and neither panics.
\<close>

theorem shift_rows_rotates:
  assumes "subtle_ok E" and "wf_grid W H g" and "wf_grid W H key" and "W < 2 ^ 64"
  shows "shift_rows E W g (precalculate_shifts W key) =
      Inr (map2 rotate (precalculate_shifts W key) g) \<and>
    (\<forall>s \<in> set (precalculate_shifts W key). s < W)"
proof -
  note less = precalculate_shifts_less [OF wf_gridD(5) [OF assms(3)] assms(4)]
  show ?thesis
    using shift_rows_eq [OF assms(1,2) _ less] wf_gridD(2) [OF assms(3)] less
    by (auto simp: shift_ref_def)
qed

theorem shift_rows_rotates_witness:
  "shift_rows ref_env 2 (replicate 4 [1, 2]) (precalculate_shifts 2 (replicate 4 [- 1, 0])) =
   Inr (map2 rotate (precalculate_shifts 2 (replicate 4 [- 1, 0])) (replicate 4 [1, 2]))"
  using shift_rows_rotates [OF env_okD(2) [OF env_ok_ref], of 2 4 "replicate 4 [1, 2]" "replicate 4 [- 1, 0]"]
  by (simp add: wf_grid_def valid_dims_def) (simp add: rect_def)

end
