(* ===== verification/Mix_Columns.thy ===== *)
theory Mix_Columns
  imports Grid
begin

text \<open>
  The diffusion layer of \<open>core/src/grid.rs\<close>: the macro-generated \<open>mix_4\<close>, \<open>mix_8\<close> and \<open>mix_16\<close>
  over lanes of four columns, and the loop of \<open>mix_columns_inner\<close> that gathers, multiplies and scatters
  lane after lane. The lemmas show that the shift-and-XOR code computes the documented matrix
  product over the field action of \<open>Gf\<close>, that the layer is its own inverse, and that it never
  reaches its \<open>unreachable!\<close> arm on a grid.
\<close>

unbundle bit_operations_syntax

section \<open>Lanes\<close>

type_synonym lane = "u64 list"

definition xor_lane :: "lane \<Rightarrow> lane \<Rightarrow> lane" where
  "xor_lane a b = map (\<lambda>i. a ! i XOR b ! i) [0..<LANE]"

definition xtime_lane :: "lane \<Rightarrow> lane" where
  "xtime_lane v = map (\<lambda>i. xtime (v ! i)) [0..<LANE]"

section \<open>The macros\<close>

definition leading_zeros :: "u64 \<Rightarrow> nat" where
  "leading_zeros w = length (takeWhile (\<lambda>k. \<not> bit w k) (rev [0..<64]))"

text \<open>\<open>EXP\<close>: one more than the highest power of \<open>x\<close> any coefficient uses.\<close>

definition mix_exp :: "nat \<Rightarrow> u64 list \<Rightarrow> nat" where
  "mix_exp n m = 64 - leading_zeros (fold (\<lambda>i bits. bits OR m ! i) [0..<n] 0)"

text \<open>One pass of \<open>mix_terms!\<close> over exponent \<open>e\<close>: the running value and the output rows.\<close>

definition mix_step :: "nat \<Rightarrow> u64 list \<Rightarrow> nat \<Rightarrow> nat \<Rightarrow> lane \<times> lane list \<Rightarrow> lane \<times> lane list" where
  "mix_step n m k e st =
     (let (s, out) = st;
          s' = (if 0 < e then xtime_lane s else s)
      in (s', fold (\<lambda>i out. if bit (m ! (i XOR k)) e then out[i := xor_lane (out ! i) s'] else out)
            [0..<n] out))"

definition mix_terms :: "nat \<Rightarrow> u64 list \<Rightarrow> nat \<Rightarrow> lane list \<Rightarrow> lane list \<Rightarrow> nat \<Rightarrow> lane list" where
  "mix_terms n m exp x out k = snd (fold (mix_step n m k) [0..<exp] (x ! k, out))"

definition mix_hadamard :: "nat \<Rightarrow> u64 list \<Rightarrow> lane list \<Rightarrow> lane list" where
  "mix_hadamard n m x =
     fold (\<lambda>k out. mix_terms n m (mix_exp n m) x out k) [0..<n] (replicate n (replicate LANE 0))"

definition mix_4 :: "lane list \<Rightarrow> lane list" where
  "mix_4 x = mix_hadamard 4 (MDS_4 ! 0) x"

definition mix_8 :: "lane list \<Rightarrow> lane list" where
  "mix_8 x = mix_hadamard 8 (MDS_8 ! 0) x"

definition mix_16 :: "lane list \<Rightarrow> lane list" where
  "mix_16 x = mix_hadamard 16 (MDS_16 ! 0) x"

section \<open>mix\_columns\<close>

definition gather :: "nat \<Rightarrow> grid \<Rightarrow> nat \<Rightarrow> nat \<Rightarrow> lane list" where
  "gather H g col tk =
     fold (\<lambda>k x. fold (\<lambda>c x. set_cell k c (g ! k ! (col + c)) x) [0..<tk] x) [0..<H]
       (replicate 16 (replicate LANE 0))"

definition scatter :: "nat \<Rightarrow> grid \<Rightarrow> nat \<Rightarrow> nat \<Rightarrow> lane list \<Rightarrow> grid" where
  "scatter H g col tk out =
     fold (\<lambda>k g. fold (\<lambda>c g. set_cell k (col + c) (out ! k ! c) g) [0..<tk] g) [0..<H] g"

text \<open>The \<open>match H\<close>, with the slices it takes of the 16-row scratch space.\<close>

definition mix_lane :: "nat \<Rightarrow> lane list \<Rightarrow> fault + lane list" where
  "mix_lane H x =
     (let out = replicate 16 (replicate LANE 0) in
      if H = 4 then Inr (mix_4 (take 4 x) @ drop 4 out)
      else if H = 8 then Inr (mix_8 (take 8 x) @ drop 8 out)
      else if H = 16 then Inr (mix_16 x)
      else Inl Panic)"

function mix_columns_inner :: "nat \<Rightarrow> nat \<Rightarrow> nat \<Rightarrow> grid \<Rightarrow> fault + grid" where
  "mix_columns_inner W H col g =
     (if col < W then
        let tk = (if W - col < LANE then W - col else LANE) in
        rbind (mix_lane H (gather H g col tk)) (\<lambda>out.
          mix_columns_inner W H (col + tk) (scatter H g col tk out))
      else Inr g)"
  by pat_completeness auto
termination
  by (relation "measure (\<lambda>(W, H, col, g). W - col)") (auto simp: LANE_def)

declare mix_columns_inner.simps [simp del]

text \<open>
  \<open>mix_columns\<close> dispatches to \<open>mix_columns_avx2\<close> or straight to the body; the AVX2 entry point
  only changes the registers the same body is compiled for.
\<close>

definition mix_columns_avx2 :: "nat \<Rightarrow> nat \<Rightarrow> grid \<Rightarrow> fault + grid" where
  "mix_columns_avx2 W H g = mix_columns_inner W H 0 g"

definition mix_columns :: "('v, 'r) rex_env \<Rightarrow> nat \<Rightarrow> nat \<Rightarrow> grid \<Rightarrow> fault + grid" where
  "mix_columns E W H g = (if has_avx2 E then mix_columns_avx2 W H g else mix_columns_inner W H 0 g)"

section \<open>The exponent bound covers every coefficient\<close>

lemma bit_fold_or:
  fixes m :: "nat \<Rightarrow> u64"
  shows "bit (fold (\<lambda>i bits. bits OR m i) [0..<n] a) e \<longleftrightarrow> bit a e \<or> (\<exists>i<n. bit (m i) e)"
  by (induction n) (auto simp: bit_or_iff less_Suc_eq)

lemma leading_zeros_bound: "bit w e \<Longrightarrow> e < 64 - leading_zeros w"
proof -
  assume b: "bit w e"
  then have e: "e < 64" using bit_u64_ge not_less by blast
  let ?P = "\<lambda>k. \<not> bit w k"
  have "\<not> 63 - e < length (takeWhile ?P (rev [0..<64]))"
  proof
    assume l: "63 - e < length (takeWhile ?P (rev [0..<64]))"
    then have "rev [0..<64] ! (63 - e) = e" using e by (simp add: rev_nth)
    with l have "takeWhile ?P (rev [0..<64]) ! (63 - e) = e" by (metis takeWhile_nth)
    with l have "\<not> bit w e" by (metis nth_mem set_takeWhileD)
    with b show False by simp
  qed
  with e show ?thesis by (simp add: leading_zeros_def)
qed

lemma mix_exp_bound: "i < n \<Longrightarrow> bit (m ! i) e \<Longrightarrow> e < mix_exp n m"
  unfolding mix_exp_def
  by (rule leading_zeros_bound) (auto simp: bit_fold_or [of "\<lambda>i. m ! i"])

lemma mix_exp_le: "mix_exp n m \<le> 64"
  by (simp add: mix_exp_def)

section \<open>The macro computes the matrix product\<close>

definition lanes :: "nat \<Rightarrow> lane list \<Rightarrow> bool" where
  "lanes n x \<longleftrightarrow> length x = n \<and> (\<forall>v \<in> set x. length v = LANE)"

lemma lanes_nth: "lanes n x \<Longrightarrow> i < n \<Longrightarrow> length (x ! i) = LANE"
  by (auto simp: lanes_def)

lemma xor_lane_simps [simp]:
  "length (xor_lane a b) = LANE" "c < LANE \<Longrightarrow> xor_lane a b ! c = a ! c XOR b ! c"
  by (simp_all add: xor_lane_def)

lemma xtime_lane_simps [simp]:
  "length (xtime_lane v) = LANE" "c < LANE \<Longrightarrow> xtime_lane v ! c = xtime (v ! c)"
  by (simp_all add: xtime_lane_def)

lemma mix_row_loop:
  "fold (\<lambda>i out. if P i then out[i := xor_lane (out ! i) s] else out) [0..<n] out =
   par_for_each [0..<n] (\<lambda>i v. if P i then xor_lane v s else v) out"
  unfolding par_for_each_def
  by (rule fold_cong) (auto simp: list_update_id)

lemma mix_steps:
  assumes out: "lanes n out" and s: "length s = LANE"
  shows "let (s', out') = fold (mix_step n m k) [0..<E] (s, out) in
    lanes n out' \<and> length s' = LANE \<and>
    (\<forall>c<LANE. s' ! c = (xtime ^^ (E - 1)) (s ! c)) \<and>
    (\<forall>i<n. \<forall>c<LANE. out' ! i ! c = out ! i ! c XOR
       xor_sum.F (\<lambda>e. if bit (m ! (i XOR k)) e then (xtime ^^ e) (s ! c) else 0) {..<E})"
proof (induction E)
  case 0
  then show ?case using assms by simp
next
  case (Suc E)
  obtain s' out' where st: "fold (mix_step n m k) [0..<E] (s, out) = (s', out')" by force
  let ?s = "if 0 < E then xtime_lane s' else s'"
  let ?out = "par_for_each [0..<n] (\<lambda>i v. if bit (m ! (i XOR k)) E then xor_lane v ?s else v) out'"
  from Suc st have lout: "lanes n out'" and ls: "length s' = LANE"
    and IHs: "\<And>c. c < LANE \<Longrightarrow> s' ! c = (xtime ^^ (E - 1)) (s ! c)"
    and IHo: "\<And>i c. i < n \<Longrightarrow> c < LANE \<Longrightarrow> out' ! i ! c = out ! i ! c XOR
       xor_sum.F (\<lambda>e. if bit (m ! (i XOR k)) e then (xtime ^^ e) (s ! c) else 0) {..<E}"
    by auto
  have s2: "?s ! c = (xtime ^^ E) (s ! c)" if "c < LANE" for c
    using IHs [OF that] that by (cases E) auto
  have step: "fold (mix_step n m k) [0..<Suc E] (s, out) = (?s, ?out)"
    by (simp add: st mix_step_def mix_row_loop Let_def)
  have nth: "?out ! i = (if bit (m ! (i XOR k)) E then xor_lane (out' ! i) ?s else out' ! i)" if "i < n" for i
    using that lout by (simp add: par_for_each_nth lanes_def)
  have "length (?out ! i) = LANE" if "i < n" for i
    unfolding nth [OF that] using lanes_nth [OF lout that] by simp
  then have "lanes n ?out"
    using lout unfolding lanes_def set_conv_nth by (simp only: length_par_for_each) blast
  moreover have "?out ! i ! c = out ! i ! c XOR
       xor_sum.F (\<lambda>e. if bit (m ! (i XOR k)) e then (xtime ^^ e) (s ! c) else 0) {..<Suc E}"
    if "i < n" "c < LANE" for i c
    using that by (simp add: nth IHo s2 lessThan_Suc ac_simps)
  ultimately show ?case using s2 ls unfolding step by simp
qed

lemma mix_terms_nth:
  assumes out: "lanes n out" and x: "lanes n x" and k: "k < 2 ^ p" and n: "n = 2 ^ p"
  shows "lanes n (mix_terms n m (mix_exp n m) x out k)"
    and "i < n \<Longrightarrow> c < LANE \<Longrightarrow> mix_terms n m (mix_exp n m) x out k ! i ! c =
      out ! i ! c XOR gmul (m ! (i XOR k)) (x ! k ! c)"
proof -
  have "length (x ! k) = LANE" using lanes_nth [OF x] k n by simp
  note steps = mix_steps [OF out this, of m k "mix_exp n m"]
  show "lanes n (mix_terms n m (mix_exp n m) x out k)"
    using steps k n by (auto simp: mix_terms_def Let_def case_prod_beta)
  assume i: "i < n" and c: "c < LANE"
  have "gmul (m ! (i XOR k)) (x ! k ! c) =
      xor_sum.F (\<lambda>e. if bit (m ! (i XOR k)) e then (xtime ^^ e) (x ! k ! c) else 0) {..<mix_exp n m}"
    by (rule gmul_upto [OF mix_exp_bound mix_exp_le]) (use i k n xor_nat_less in auto)
  then show "mix_terms n m (mix_exp n m) x out k ! i ! c =
      out ! i ! c XOR gmul (m ! (i XOR k)) (x ! k ! c)"
    using steps k n i c by (auto simp: mix_terms_def Let_def case_prod_beta)
qed

lemma mix_hadamard_nth:
  assumes x: "lanes n x" and n: "n = 2 ^ p"
  shows "lanes n (mix_hadamard n m x)"
    and "i < n \<Longrightarrow> c < LANE \<Longrightarrow> mix_hadamard n m x ! i ! c =
      xor_sum.F (\<lambda>k. gmul (m ! (i XOR k)) (x ! k ! c)) {..<n}"
proof -
  let ?f = "\<lambda>q. fold (\<lambda>k out. mix_terms n m (mix_exp n m) x out k) [0..<q] (replicate n (replicate LANE 0))"
  have "q \<le> n \<Longrightarrow> lanes n (?f q) \<and> (\<forall>i<n. \<forall>c<LANE. ?f q ! i ! c =
      xor_sum.F (\<lambda>k. gmul (m ! (i XOR k)) (x ! k ! c)) {..<q})" for q
  proof (induction q)
    case (Suc q)
    then have IH: "lanes n (?f q)" and q: "q < 2 ^ p" using n by auto
    show ?case
      using mix_terms_nth [OF IH x q n, where m = m] Suc by (simp add: lessThan_Suc xor.commute)
  qed (auto simp: lanes_def)
  from this [of n] show "lanes n (mix_hadamard n m x)"
    and "i < n \<Longrightarrow> c < LANE \<Longrightarrow> mix_hadamard n m x ! i ! c =
      xor_sum.F (\<lambda>k. gmul (m ! (i XOR k)) (x ! k ! c)) {..<n}"
    by (auto simp: mix_hadamard_def)
qed

section \<open>Gather and scatter\<close>

lemma segment_loop:
  assumes "k < length g"
  shows "fold (\<lambda>c g. set_cell k (off + c) (f c) g) [0..<t] g =
    g[k := fold (\<lambda>c row. row[off + c := f c]) [0..<t] (g ! k)]"
  by (induction t) (use assms in \<open>simp_all add: set_cell_def\<close>)

lemma segment_nth:
  "length (fold (\<lambda>c row. row[off + c := f c]) [0..<t] row) = length row"
  "j < length row \<Longrightarrow> fold (\<lambda>c row. row[off + c := f c]) [0..<t] row ! j =
    (if off \<le> j \<and> j < off + t then f (j - off) else row ! j)"
proof -
  show len: "length (fold (\<lambda>c row. row[off + c := f c]) [0..<t] row) = length row" for t
    by (induction t) auto
  show "j < length row \<Longrightarrow> fold (\<lambda>c row. row[off + c := f c]) [0..<t] row ! j =
    (if off \<le> j \<and> j < off + t then f (j - off) else row ! j)"
    by (induction t) (auto simp: nth_list_update len less_Suc_eq)
qed

text \<open>The double loop writes a vertical strip of \<open>t\<close> columns, starting at \<open>off\<close>, of the first \<open>n\<close> rows.\<close>

lemma strip_loop:
  assumes "n \<le> length g"
  shows "fold (\<lambda>k g. fold (\<lambda>c g. set_cell k (off + c) (f k c) g) [0..<t] g) [0..<n] g =
    map (\<lambda>k. fold (\<lambda>c row. row[off + c := f k c]) [0..<t] (g ! k)) [0..<n] @ drop n g"
  using assms
proof (induction n)
  case (Suc n)
  let ?h = "map (\<lambda>k. fold (\<lambda>c row. row[off + c := f k c]) [0..<t] (g ! k)) [0..<n]"
  have "drop n g = g ! n # drop (Suc n) g"
    using Suc.prems by (simp add: Cons_nth_drop_Suc)
  moreover have "n < length (?h @ drop n g)" using Suc.prems by simp
  from segment_loop [OF this, of off "f n" t]
  have "fold (\<lambda>c g. set_cell n (off + c) (f n c) g) [0..<t] (?h @ drop n g) =
      (?h @ drop n g)[n := fold (\<lambda>c row. row[off + c := f n c]) [0..<t] ((?h @ drop n g) ! n)]" .
  ultimately show ?case
    using Suc by (simp add: nth_append list_update_append)
qed simp

lemma gather_nth:
  assumes "H \<le> 16" and "tk \<le> LANE"
  shows "lanes 16 (gather H g col tk)"
    and "k < H \<Longrightarrow> c < tk \<Longrightarrow> gather H g col tk ! k ! c = g ! k ! (col + c)"
  using assms strip_loop [of H "replicate 16 (replicate LANE 0)" 0 "\<lambda>k c. g ! k ! (col + c)" tk]
  by (auto simp: gather_def lanes_def segment_nth(1) [of 0, simplified] nth_append
      segment_nth(2) [of _ _ 0, simplified])

lemma scatter_nth:
  assumes "rect W H g"
  shows "rect W H (scatter H g col tk out)"
    and "k < H \<Longrightarrow> j < W \<Longrightarrow> scatter H g col tk out ! k ! j =
      (if col \<le> j \<and> j < col + tk then out ! k ! (j - col) else g ! k ! j)"
  using assms strip_loop [of H g col "\<lambda>k c. out ! k ! c" tk]
  by (auto simp: scatter_def rect_def segment_nth)

section \<open>The layer is the documented matrix product\<close>

definition mds_of :: "nat \<Rightarrow> u64 list list" where
  "mds_of H = (if H = 4 then MDS_4 else if H = 8 then MDS_8 else MDS_16)"

lemma mds_of_checks:
  "valid_dims W H \<Longrightarrow> is_hadamard H (mds_of H)" "valid_dims W H \<Longrightarrow> is_involutory H (mds_of H)"
  by (auto simp: valid_dims_def mds_of_def mds_4_checks mds_8_checks mds_16_checks)

lemma valid_dims_pow: "valid_dims W H \<Longrightarrow> \<exists>p. H = 2 ^ p"
proof -
  assume "valid_dims W H"
  then have "H = 2 ^ 2 \<or> H = 2 ^ 3 \<or> H = 2 ^ 4" by (auto simp: valid_dims_def)
  then show ?thesis by blast
qed

text \<open>The specification: every column is multiplied by the matrix of the grid's height.\<close>

definition mix_ref :: "nat \<Rightarrow> nat \<Rightarrow> grid \<Rightarrow> grid" where
  "mix_ref W H g = map (\<lambda>r. map (\<lambda>c.
     mds_apply H (\<lambda>i j. mds_of H ! i ! j) (\<lambda>k. g ! k ! c) r) [0..<W]) [0..<H]"

lemma mix_hadamard_product:
  assumes "valid_dims W H" and "lanes H x" and "i < H" and "c < LANE"
  shows "mix_hadamard H (mds_of H ! 0) x ! i ! c =
    mds_apply H (\<lambda>i j. mds_of H ! i ! j) (\<lambda>k. x ! k ! c) i"
proof -
  obtain p where p: "H = 2 ^ p" using valid_dims_pow assms(1) by blast
  have "mds_of H ! i ! k = mds_of H ! 0 ! (i XOR k)" if "k < H" for k
    using is_hadamardD [OF mds_of_checks(1) [OF assms(1)] assms(3) that] .
  then show ?thesis
    unfolding mix_hadamard_nth(2) [OF assms(2) p assms(3,4)] mds_apply_def
    by (intro xor_sum.cong) auto
qed

lemma mix_lane_ok:
  assumes "valid_dims W H" and "lanes 16 x"
  shows "\<exists>out. mix_lane H x = Inr out \<and> (\<forall>i<H. \<forall>c<LANE. out ! i ! c =
    mds_apply H (\<lambda>i j. mds_of H ! i ! j) (\<lambda>k. x ! k ! c) i)"
proof -
  obtain p where p: "H = 2 ^ p" using valid_dims_pow assms(1) by blast
  have h: "H \<le> 16" using assms(1) by (auto simp: valid_dims_def)
  have x: "lanes H (take H x)" using assms(2) h by (auto simp: lanes_def dest: in_set_takeD)
  let ?m = "mix_hadamard H (mds_of H ! 0) (take H x)"
  have "mix_lane H x = Inr (?m @ drop H (replicate 16 (replicate LANE 0)))"
    using assms by (auto simp: mix_lane_def mix_4_def mix_8_def mix_16_def mds_of_def valid_dims_def lanes_def)
  moreover have "length ?m = H"
    using mix_hadamard_nth(1) [OF x p] by (simp add: lanes_def)
  moreover have "mds_apply H (\<lambda>i j. mds_of H ! i ! j) (\<lambda>k. take H x ! k ! c) i =
      mds_apply H (\<lambda>i j. mds_of H ! i ! j) (\<lambda>k. x ! k ! c) i" for c i
    unfolding mds_apply_def by (intro xor_sum.cong) auto
  ultimately show ?thesis
    using mix_hadamard_product [OF assms(1) x] by (auto simp: nth_append)
qed

lemma mix_columns_inner_nth:
  assumes "wf_grid W H g"
  shows "\<exists>g'. mix_columns_inner W H col g = Inr g' \<and> rect W H g' \<and>
    (\<forall>r<H. \<forall>c<W. g' ! r ! c = (if col \<le> c
       then mds_apply H (\<lambda>i j. mds_of H ! i ! j) (\<lambda>k. g ! k ! c) r else g ! r ! c))"
  using assms
proof (induction W H col g rule: mix_columns_inner.induct)
  case (1 W H col g)
  then have dims: "valid_dims W H" and rect: "rect W H g" by (simp_all add: wf_grid_def)
  show ?case
  proof (cases "col < W")
    case False
    then show ?thesis using rect by (subst mix_columns_inner.simps) auto
  next
    case True
    define tk where "tk = (if W - col < LANE then W - col else LANE)"
    have tk: "0 < tk" "tk \<le> LANE" "col + tk \<le> W" using True by (auto simp: tk_def LANE_def)
    have h: "H \<le> 16" using dims by (auto simp: valid_dims_def)
    note gat = gather_nth [OF h tk(2), where g = g and col = col]
    obtain out where out: "mix_lane H (gather H g col tk) = Inr out"
      and prod: "\<And>i c. i < H \<Longrightarrow> c < LANE \<Longrightarrow> out ! i ! c =
        mds_apply H (\<lambda>i j. mds_of H ! i ! j) (\<lambda>k. gather H g col tk ! k ! c) i"
      using mix_lane_ok [OF dims gat(1)] by blast
    have prod': "out ! i ! c = mds_apply H (\<lambda>i j. mds_of H ! i ! j) (\<lambda>k. g ! k ! (col + c)) i"
      if "i < H" "c < tk" for i c
      using that tk gat(2) prod [of i c] unfolding mds_apply_def by (auto intro!: xor_sum.cong)
    let ?s = "scatter H g col tk out"
    note sc = scatter_nth [OF rect, where col = col and tk = tk and out = out]
    have col: "mds_apply H (\<lambda>i j. mds_of H ! i ! j) (\<lambda>k. ?s ! k ! c) r =
        mds_apply H (\<lambda>i j. mds_of H ! i ! j) (\<lambda>k. g ! k ! c) r" if "col + tk \<le> c" "c < W" for r c
      using that sc(2) unfolding mds_apply_def by (auto intro!: xor_sum.cong)
    from "1.IH" [OF True tk_def, of out] sc(1) dims obtain g' where
      g': "mix_columns_inner W H (col + tk) ?s = Inr g'" "rect W H g'"
      and cells: "\<And>r c. r < H \<Longrightarrow> c < W \<Longrightarrow> g' ! r ! c = (if col + tk \<le> c
         then mds_apply H (\<lambda>i j. mds_of H ! i ! j) (\<lambda>k. ?s ! k ! c) r else ?s ! r ! c)"
      by (auto simp: wf_grid_def)
    have "mix_columns_inner W H col g = Inr g'"
      using True out g'(1) by (subst mix_columns_inner.simps) (simp add: tk_def [symmetric])
    moreover have "g' ! r ! c = (if col \<le> c
        then mds_apply H (\<lambda>i j. mds_of H ! i ! j) (\<lambda>k. g ! k ! c) r else g ! r ! c)"
      if "r < H" "c < W" for r c
      using that tk prod' [of r "c - col"] by (auto simp: cells sc(2) col)
    ultimately show ?thesis using g'(2) by blast
  qed
qed

lemma mix_columns_ok:
  assumes "wf_grid W H g"
  shows "mix_columns E W H g = Inr (mix_ref W H g)"
proof -
  obtain g' where g': "mix_columns_inner W H 0 g = Inr g'" "rect W H g'"
    and c: "\<And>r c. r < H \<Longrightarrow> c < W \<Longrightarrow>
      g' ! r ! c = mds_apply H (\<lambda>i j. mds_of H ! i ! j) (\<lambda>k. g ! k ! c) r"
    using mix_columns_inner_nth [OF assms, of 0] by auto
  have "g' = mix_ref W H g"
    by (rule nth_equalityI) (use g'(2) c in \<open>auto simp: mix_ref_def rect_def intro!: nth_equalityI\<close>)
  with g'(1) show ?thesis by (simp add: mix_columns_def mix_columns_avx2_def)
qed

lemma wf_mix_ref: "valid_dims W H \<Longrightarrow> wf_grid W H (mix_ref W H g)"
  by (auto simp: wf_grid_def rect_def mix_ref_def)

lemma mix_ref_involution:
  assumes "wf_grid W H g"
  shows "mix_ref W H (mix_ref W H g) = g"
proof -
  note wf = wf_gridD [OF assms]
  have dims: "valid_dims W H" using assms by (simp add: wf_grid_def)
  obtain p where p: "H = 2 ^ p" using valid_dims_pow dims by blast
  let ?M = "\<lambda>i j. mds_of H ! i ! j"
  have "mds_apply H ?M (\<lambda>k. mix_ref W H g ! k ! c) r = g ! r ! c" if "r < H" "c < W" for r c
  proof -
    have "mds_apply H ?M (\<lambda>k. mix_ref W H g ! k ! c) r =
        mds_apply H ?M (mds_apply H ?M (\<lambda>k. g ! k ! c)) r"
      using that unfolding mds_apply_def [of H ?M _ r] by (intro xor_sum.cong) (auto simp: mix_ref_def)
    also have "\<dots> = g ! r ! c"
      by (rule checked_matrix_involution [OF mds_of_checks [OF dims] p that(1)])
    finally show ?thesis .
  qed
  then have cell: "mix_ref W H (mix_ref W H g) ! r ! c = g ! r ! c" if "r < H" "c < W" for r c
    using that by (simp add: mix_ref_def [of W H "mix_ref W H g"])
  show ?thesis
    using assms wf_mix_ref [OF dims, of "mix_ref W H g"] cell
    by (intro nth_equalityI) (auto simp: wf_grid_def rect_def)
qed

lemma mix_ref_inj:
  "wf_grid W H g \<Longrightarrow> wf_grid W H h \<Longrightarrow> mix_ref W H g = mix_ref W H h \<Longrightarrow> g = h"
  by (metis mix_ref_involution)

section \<open>Property of the column layer\<close>

text \<open>
  C6 (mix_columns_is_matrix_product). On a well-formed grid \<open>mix_columns\<close> never reaches its
  \<open>unreachable!\<close> arm; the shift-and-XOR macros compute for every column the documented product with the
  matrix of the grid's height, and applying the layer twice is the identity.
\<close>

theorem mix_columns_is_matrix_product:
  assumes "wf_grid W H g"
  shows "\<exists>g'. mix_columns E W H g = Inr g' \<and> wf_grid W H g' \<and> mix_columns E W H g' = Inr g \<and>
    (\<forall>r<H. \<forall>c<W. g' ! r ! c = mds_apply H (\<lambda>i j. mds_of H ! i ! j) (\<lambda>k. g ! k ! c) r)"
proof -
  have wf: "wf_grid W H (mix_ref W H g)" by (rule wf_mix_ref [OF wf_gridD(1) [OF assms]])
  have "mix_columns E W H (mix_ref W H g) = Inr g"
    using mix_columns_ok [OF wf] mix_ref_involution [OF assms] by simp
  then show ?thesis
    by (intro exI [of _ "mix_ref W H g"]) (simp add: mix_columns_ok [OF assms] wf, simp add: mix_ref_def)
qed

theorem mix_columns_is_matrix_product_witness:
  "\<exists>g'. mix_columns ref_env 2 4 [[1, 0], [0, 0], [0, 0], [0, 0]] = Inr g' \<and>
     mix_columns ref_env 2 4 g' = Inr [[1, 0], [0, 0], [0, 0], [0, 0]]"
  using mix_columns_is_matrix_product [of 2 4 "[[1, 0], [0, 0], [0, 0], [0, 0]]" ref_env]
  by (simp add: wf_grid_def valid_dims_def) (auto simp: rect_def)

end
