(* ===== verification/Crypto_Core.thy ===== *)
theory Crypto_Core
  imports Subcell Shift_Rows Mix_Columns
begin

text \<open>
  \<open>core/src/crypto.rs\<close>: key generation, the key schedule, the row shifts it drives, the WHY2 block cipher
  (\<open>keystream_block\<close>) and counter mode over a slice of grids, sequential below
  \<open>PARALLEL_THRESHOLD\<close> and on the \<open>rayon\<close> pool above it. The lemmas reduce the whole pipeline
  to one reference function, show that it is a permutation of grids and that the keystream of distinct counters
  differs, and that no assertion or index of the pipeline can fail on a schedule the crate builds.
  The locale \<open>ctr_mode\<close> is what the callers of counter mode rely on.
\<close>

section \<open>Keys\<close>

definition sha256_seed_grid :: "('v, 'r) rex_env \<Rightarrow> grid \<Rightarrow> u8 list" where
  "sha256_seed_grid E key =
     sha256 E (fold (\<lambda>row fed. fold (\<lambda>val fed. fed @ to_be_bytes val) row fed) key [])"

definition generate_key_deterministic :: "('v, 'r) rex_env \<Rightarrow> nat \<Rightarrow> nat \<Rightarrow> 'r \<Rightarrow> i64 list \<times> 'r" where
  "generate_key_deterministic E W H rng = chacha_fill E rng (2 * W * H)"

text \<open>
  \<open>seed\<close> is what \<open>SysRng.try_fill_bytes\<close> leaves in the 32-byte buffer, \<open>None\<close> when the system
  has no entropy to give, which the code turns into a panic.
\<close>

definition generate_key :: "('v, 'r) rex_env \<Rightarrow> nat \<Rightarrow> nat \<Rightarrow> u8 list option \<Rightarrow> fault + i64 list" where
  "generate_key E W H seed = (case seed of
     None \<Rightarrow> Inl Panic
   | Some s \<Rightarrow> Inr (fst (generate_key_deterministic E W H (chacha_from_seed E s))))"

fun round_key_loop ::
  "('v, 'r) rex_env \<Rightarrow> nat \<Rightarrow> nat \<Rightarrow> nat \<Rightarrow> 'r \<Rightarrow> grid list \<Rightarrow> fault + grid list" where
  "round_key_loop E W H 0 rng keys = Inr keys"
| "round_key_loop E W H (Suc n) rng keys =
     (let (key, rng') = generate_key_deterministic E W H rng
      in rbind (from_key W H key) (\<lambda>g. round_key_loop E W H n rng' (keys @ [g])))"

definition generate_round_keys :: "('v, 'r) rex_env \<Rightarrow> nat \<Rightarrow> nat \<Rightarrow> grid \<Rightarrow> fault + grid list" where
  "generate_round_keys E W H master_key =
     (let seed = sha256_seed_grid E master_key
      in round_key_loop E W H ROUND_KEYS (chacha_from_seed E seed) [])"

definition generate_nonce :: "('v, 'r) rex_env \<Rightarrow> nat \<Rightarrow> nat \<Rightarrow> u8 list option \<Rightarrow> fault + grid" where
  "generate_nonce E W H seed = rbind (generate_key E W H seed) (from_key W H)"

definition derive_round_shifts :: "nat \<Rightarrow> grid list \<Rightarrow> fault + nat list list" where
  "derive_round_shifts W round_keys =
     (if length round_keys < 2 then Inl Panic
      else Inr (map (precalculate_shifts W) (take (length round_keys - 2) (drop 1 round_keys))))"

section \<open>The block cipher\<close>

text \<open>
  One pass of the round loop; \<open>round_shifts[i]\<close> is a checked index. \<open>keys\<close> are the keys
  still to come, \<open>i\<close> the zero-based round.
\<close>

fun round_loop ::
  "('v, 'r) rex_env \<Rightarrow> nat \<Rightarrow> nat \<Rightarrow> nat list list \<Rightarrow> nat \<Rightarrow> grid list \<Rightarrow> grid \<Rightarrow> fault + grid" where
  "round_loop E W H round_shifts i [] block = Inr block"
| "round_loop E W H round_shifts i (round_key # keys) block =
     (let b1 = xor_grids (wide E) W block round_key;
          b2 = subcell E W b1 i
      in if length round_shifts \<le> i then Inl Panic
         else rbind (shift_rows E W b2 (round_shifts ! i)) (\<lambda>b3.
              rbind (mix_columns E W H b3) (\<lambda>b4.
              round_loop E W H round_shifts (Suc i) keys b4)))"

definition keystream_block ::
  "('v, 'r) rex_env \<Rightarrow> nat \<Rightarrow> nat \<Rightarrow> grid \<Rightarrow> grid list \<Rightarrow> nat list list \<Rightarrow> u64 \<Rightarrow> grid \<Rightarrow> fault + grid" where
  "keystream_block E W H nonce round_keys round_shifts counter g =
     (if length round_keys < 2 then Inl Panic
      else let b0 = increment E W nonce counter;
               b1 = xor_grids (wide E) W b0 (round_keys ! 0)
           in rbind (round_loop E W H round_shifts 0 (take (length round_keys - 2) (drop 1 round_keys)) b1)
                (\<lambda>b2. let b3 = xor_grids (wide E) W b2 (round_keys ! (length round_keys - 1))
                      in Inr (xor_grids (wide E) W g b3)))"

text \<open>A loop over the items in the given order that stops when a visit panics.\<close>

definition try_for_each :: "nat list \<Rightarrow> (nat \<Rightarrow> 'a \<Rightarrow> fault + 'a) \<Rightarrow> 'a list \<Rightarrow> fault + 'a list" where
  "try_for_each ord f xs =
     fold (\<lambda>i r. rbind r (\<lambda>ys. rbind (f i (ys ! i)) (\<lambda>y. Inr (ys[i := y])))) ord (Inr xs)"

definition apply_ctr_with_shifts ::
  "('v, 'r) rex_env \<Rightarrow> nat \<Rightarrow> nat \<Rightarrow> grid list \<Rightarrow> grid \<Rightarrow> grid list \<Rightarrow> nat list list \<Rightarrow> u64 option
     \<Rightarrow> fault + grid list" where
  "apply_ctr_with_shifts E W H grids nonce round_keys round_shifts counter_offset =
     (if length round_keys < 2 then Inl Panic
      else if length round_shifts < length round_keys - 2 then Inl Panic
      else let offset = (case counter_offset of None \<Rightarrow> 0 | Some c \<Rightarrow> c);
               visit = (\<lambda>i g. keystream_block E W H nonce round_keys round_shifts (offset + of_nat i) g)
           in if length grids < PARALLEL_THRESHOLD
              then try_for_each [0..<length grids] visit grids
              else try_for_each (par_order E (length grids)) visit grids)"

definition apply_ctr ::
  "('v, 'r) rex_env \<Rightarrow> nat \<Rightarrow> nat \<Rightarrow> grid list \<Rightarrow> grid \<Rightarrow> grid list \<Rightarrow> u64 option \<Rightarrow> fault + grid list" where
  "apply_ctr E W H grids nonce round_keys counter_offset =
     rbind (derive_round_shifts W round_keys) (\<lambda>round_shifts.
       apply_ctr_with_shifts E W H grids nonce round_keys round_shifts counter_offset)"

section \<open>Key material\<close>

lemma sha256_seed_grid_eq: "sha256_seed_grid E key = sha256 E (grid_bytes key)"
proof -
  have row: "fold (\<lambda>val fed. fed @ to_be_bytes val) row fed = fed @ concat (map to_be_bytes row)" for row fed
    by (induction row arbitrary: fed) auto
  have "fold (\<lambda>row fed. fold (\<lambda>val fed. fed @ to_be_bytes val) row fed) key fed = fed @ grid_bytes key" for fed
    by (induction key arbitrary: fed) (auto simp: row grid_bytes_def)
  then show ?thesis by (simp add: sha256_seed_grid_def)
qed

lemma wf_from_key:
  assumes "valid_dims W H" and "length vec = 2 * (W * H)"
  obtains g where "from_key W H vec = Inr g" and "wf_grid W H g"
  using from_key_ok [OF assms] wf_chunks [OF assms(1)] by auto

lemma round_key_loop_ok:
  assumes "env_ok E" and "valid_dims W H" and "\<And>k. k \<in> set keys \<Longrightarrow> wf_grid W H k"
  shows "\<exists>ks. round_key_loop E W H n rng keys = Inr ks \<and> length ks = length keys + n \<and>
    (\<forall>k \<in> set ks. wf_grid W H k)"
  using assms(3)
proof (induction n arbitrary: rng keys)
  case (Suc n)
  obtain key rng' where k: "generate_key_deterministic E W H rng = (key, rng')" by force
  then have "length key = 2 * (W * H)"
    using length_chacha_fill [OF assms(1), of rng "2 * W * H"] by (simp add: generate_key_deterministic_def)
  then obtain g where g: "from_key W H key = Inr g" "wf_grid W H g" by (rule wf_from_key [OF assms(2)])
  with Suc.prems Suc.IH [of "keys @ [g]" rng'] k show ?case by auto
qed simp

lemma generate_round_keys_ok:
  assumes "env_ok E" and "valid_dims W H"
  obtains ks where "generate_round_keys E W H mk = Inr ks" and "length ks = ROUND_KEYS"
    and "\<forall>k \<in> set ks. wf_grid W H k"
  using round_key_loop_ok [OF assms, of "[]" ROUND_KEYS] by (auto simp: generate_round_keys_def Let_def)

lemma generate_nonce_ok:
  assumes "env_ok E" and "valid_dims W H"
  obtains n where "generate_nonce E W H (Some s) = Inr n" and "wf_grid W H n"
proof -
  have "length (fst (chacha_fill E (chacha_from_seed E s) (2 * W * H))) = 2 * (W * H)"
    using length_chacha_fill [OF assms(1)] by simp
  then obtain n where "from_key W H (fst (chacha_fill E (chacha_from_seed E s) (2 * W * H))) = Inr n"
    "wf_grid W H n" by (rule wf_from_key [OF assms(2)])
  then show ?thesis
    by (intro that) (simp_all add: generate_nonce_def generate_key_def generate_key_deterministic_def)
qed

lemma middle_keys_subset: "set (take (length ks - 2) (drop 1 ks)) \<subseteq> set ks"
  by (meson set_drop_subset set_take_subset subset_trans)

section \<open>The reference cipher\<close>

definition subcell_ref :: "nat \<Rightarrow> grid \<Rightarrow> grid" where
  "subcell_ref i g = map (map (\<lambda>cell. subcell_cell cell i)) g"

definition round_ref :: "nat \<Rightarrow> nat \<Rightarrow> nat \<Rightarrow> grid \<Rightarrow> nat list \<Rightarrow> grid \<Rightarrow> grid" where
  "round_ref W H i key shifts g = mix_ref W H (shift_ref shifts (subcell_ref i (xor_ref g key)))"

fun rounds_ref :: "nat \<Rightarrow> nat \<Rightarrow> nat list list \<Rightarrow> nat \<Rightarrow> grid list \<Rightarrow> grid \<Rightarrow> grid" where
  "rounds_ref W H shifts i [] g = g"
| "rounds_ref W H shifts i (key # keys) g =
     rounds_ref W H shifts (Suc i) keys (round_ref W H i key (shifts ! i) g)"

text \<open>The block cipher \<open>E_K\<close> of the documentation: whitening, keyed rounds, whitening.\<close>

definition block_ref :: "nat \<Rightarrow> nat \<Rightarrow> grid list \<Rightarrow> nat list list \<Rightarrow> grid \<Rightarrow> grid" where
  "block_ref W H keys shifts g =
     xor_ref (rounds_ref W H shifts 0 (take (length keys - 2) (drop 1 keys)) (xor_ref g (hd keys))) (last keys)"

definition increment_ref :: "nat \<Rightarrow> grid \<Rightarrow> u64 \<Rightarrow> grid" where
  "increment_ref W g a = chunks W (increment_ct (concat g) a)"

definition shifts_ok :: "nat \<Rightarrow> nat \<Rightarrow> nat list list \<Rightarrow> bool" where
  "shifts_ok W H shifts \<longleftrightarrow> (\<forall>s \<in> set shifts. length s = H \<and> (\<forall>x \<in> set s. x < W))"

definition schedule_ok :: "nat \<Rightarrow> nat \<Rightarrow> grid list \<Rightarrow> nat list list \<Rightarrow> bool" where
  "schedule_ok W H keys shifts \<longleftrightarrow>
     2 \<le> length keys \<and> (\<forall>k \<in> set keys. wf_grid W H k) \<and>
     length keys - 2 \<le> length shifts \<and> shifts_ok W H shifts"

lemma wf_subcell_ref: "wf_grid W H g \<Longrightarrow> wf_grid W H (subcell_ref i g)"
  by (simp add: wf_grid_def subcell_ref_def rect_map_map)

lemma wf_round_ref: "valid_dims W H \<Longrightarrow> wf_grid W H (round_ref W H i key shifts g)"
  by (simp add: round_ref_def wf_mix_ref)

lemma wf_rounds_ref: "wf_grid W H g \<Longrightarrow> wf_grid W H (rounds_ref W H shifts i keys g)"
  by (induction keys arbitrary: i g) (auto simp: wf_round_ref wf_gridD)

lemma schedule_okD:
  assumes "schedule_ok W H keys shifts"
  shows "keys \<noteq> []" and "2 \<le> length keys" and "wf_grid W H (hd keys)" and "wf_grid W H (last keys)"
    and "\<And>k. k \<in> set (take (length keys - 2) (drop 1 keys)) \<Longrightarrow> wf_grid W H k"
    and "length keys - 2 \<le> length shifts" and "shifts_ok W H shifts" and "valid_dims W H"
proof -
  from assms show len: "2 \<le> length keys" "keys \<noteq> []" by (auto simp: schedule_ok_def)
  with assms show "wf_grid W H (hd keys)" "wf_grid W H (last keys)" by (auto simp: schedule_ok_def)
  then show "valid_dims W H" by (simp add: wf_gridD)
  show "wf_grid W H k" if "k \<in> set (take (length keys - 2) (drop 1 keys))" for k
    using assms that middle_keys_subset [of keys] by (auto simp: schedule_ok_def)
qed (use assms in \<open>auto simp: schedule_ok_def\<close>)

lemma wf_block_ref:
  "schedule_ok W H keys shifts \<Longrightarrow> wf_grid W H g \<Longrightarrow> wf_grid W H (block_ref W H keys shifts g)"
  by (simp add: block_ref_def wf_xor_ref wf_rounds_ref schedule_okD)

section \<open>The detailed cipher computes the reference\<close>

lemma round_step_eq:
  assumes "env_ok E" and "wf_grid W H g" and "wf_grid W H key"
    and "length s = H" and "\<And>x. x \<in> set s \<Longrightarrow> x < W"
  shows "rbind (shift_rows E W (subcell E W (xor_grids (wide E) W g key) i) s) (mix_columns E W H) =
    Inr (round_ref W H i key s g)"
proof -
  note E = env_okD [OF assms(1)]
  have x: "wf_grid W H (xor_ref g key)" using assms by (simp add: wf_xor_ref)
  have "subcell E W (xor_grids (wide E) W g key) i = subcell_ref i (xor_ref g key)"
    using subcell_eq [OF E(1) x] xor_grids_eq [OF E(1) assms(2,3)] by (simp add: subcell_ref_def)
  moreover have "wf_grid W H (subcell_ref i (xor_ref g key))" by (rule wf_subcell_ref [OF x])
  ultimately show ?thesis
    using shift_rows_eq [OF E(2) _ assms(4,5)] mix_columns_ok [OF wf_shift_ref [OF _ assms(4)]]
    by (simp add: round_ref_def)
qed

lemma round_loop_eq:
  assumes "env_ok E" and "wf_grid W H g" and "shifts_ok W H shifts"
    and "\<And>k. k \<in> set keys \<Longrightarrow> wf_grid W H k" and "i + length keys \<le> length shifts"
  shows "round_loop E W H shifts i keys g = Inr (rounds_ref W H shifts i keys g)"
  using assms(2,4,5)
proof (induction keys arbitrary: i g)
  case (Cons key keys)
  have s: "length (shifts ! i) = H" "\<And>x. x \<in> set (shifts ! i) \<Longrightarrow> x < W"
    using assms(3) Cons.prems(3) nth_mem [of i shifts] by (auto simp: shifts_ok_def)
  have "round_loop E W H shifts i (key # keys) g =
      rbind (rbind (shift_rows E W (subcell E W (xor_grids (wide E) W g key) i) (shifts ! i))
        (mix_columns E W H)) (round_loop E W H shifts (Suc i) keys)"
    using Cons.prems(3)
    by (cases "shift_rows E W (subcell E W (xor_grids (wide E) W g key) i) (shifts ! i)")
      (auto simp: Let_def)
  also have "\<dots> = round_loop E W H shifts (Suc i) keys (round_ref W H i key (shifts ! i) g)"
    using round_step_eq [OF assms(1) Cons.prems(1) _ s] Cons.prems(2) by simp
  also have "\<dots> = Inr (rounds_ref W H shifts i (key # keys) g)"
    using Cons.prems by (simp add: Cons.IH wf_round_ref wf_gridD)
  finally show ?case .
qed simp

lemma increment_increment_ref: "increment E W g a = increment_ref W g a"
  by (simp add: increment_eq increment_ref_def)

lemma wf_increment_ref: "wf_grid W H g \<Longrightarrow> wf_grid W H (increment_ref W g a)"
  using wf_increment [of W H g ref_env a] by (simp add: increment_increment_ref)

lemma keystream_block_eq:
  assumes "env_ok E" and "schedule_ok W H keys shifts" and "wf_grid W H nonce" and "wf_grid W H g"
  shows "keystream_block E W H nonce keys shifts c g =
    Inr (xor_ref g (block_ref W H keys shifts (increment_ref W nonce c)))"
proof -
  note E = env_okD(1) [OF assms(1)]
  note S = schedule_okD [OF assms(2)]
  let ?mid = "take (length keys - 2) (drop 1 keys)"
  let ?n = "increment_ref W nonce c"
  have n: "wf_grid W H ?n" by (rule wf_increment_ref [OF assms(3)])
  have x0: "xor_grids (wide E) W (increment E W nonce c) (keys ! 0) = xor_ref ?n (hd keys)"
    using S(1) xor_grids_eq [OF E n S(3)] by (simp add: increment_increment_ref hd_conv_nth)
  have x1: "wf_grid W H (xor_ref ?n (hd keys))" by (rule wf_xor_ref [OF n S(3)])
  have loop: "round_loop E W H shifts 0 ?mid (xor_ref ?n (hd keys)) =
      Inr (rounds_ref W H shifts 0 ?mid (xor_ref ?n (hd keys)))"
    by (rule round_loop_eq [OF assms(1) x1 S(7,5)]) (use S(6) in auto)
  have last: "keys ! (length keys - 1) = last keys" using S(1) by (simp add: last_conv_nth)
  show ?thesis
    using S(2) xor_grids_eq [OF E wf_rounds_ref [OF x1] S(4)]
      xor_grids_eq [OF E assms(4) wf_block_ref [OF assms(2) n]]
    unfolding keystream_block_def Let_def x0 loop last by (simp add: block_ref_def)
qed

section \<open>The cipher is a permutation\<close>

lemma mod_add_left_imp_eq: "(c + a) mod N = (c + b) mod N \<Longrightarrow> a mod N = b mod N" for a b c N :: nat
  unfolding mod_eq_iff_dvd_symdiff_nat by simp

lemma round_ref_inj:
  assumes "wf_grid W H g" "wf_grid W H h" "wf_grid W H key" "length s = H"
    and "round_ref W H i key s g = round_ref W H i key s h"
  shows "g = h"
proof -
  have x: "wf_grid W H (xor_ref g key)" "wf_grid W H (xor_ref h key)" using assms wf_xor_ref by auto
  note c = wf_subcell_ref [OF x(1), of i] wf_subcell_ref [OF x(2), of i]
  have "shift_ref s (subcell_ref i (xor_ref g key)) = shift_ref s (subcell_ref i (xor_ref h key))"
    using assms(4,5) mix_ref_inj c wf_shift_ref unfolding round_ref_def by blast
  then have "subcell_ref i (xor_ref g key) = subcell_ref i (xor_ref h key)"
    using shift_ref_inj c assms(4) by (metis wf_gridD(2))
  then have "xor_ref g key = xor_ref h key"
    using subcell_cell_inj [of i] by (simp add: subcell_ref_def inj_map_eq_map inj_mapI)
  with assms show ?thesis by (metis xor_ref_inj)
qed

lemma rounds_ref_inj:
  assumes "shifts_ok W H shifts" and "\<And>k. k \<in> set keys \<Longrightarrow> wf_grid W H k" and "i + length keys \<le> length shifts"
    and "wf_grid W H g" "wf_grid W H h" "rounds_ref W H shifts i keys g = rounds_ref W H shifts i keys h"
  shows "g = h"
  using assms(2-)
proof (induction keys arbitrary: i g h)
  case (Cons key keys)
  have "length (shifts ! i) = H"
    using assms(1) Cons.prems(2) nth_mem [of i shifts] by (auto simp: shifts_ok_def)
  moreover have "round_ref W H i key (shifts ! i) g = round_ref W H i key (shifts ! i) h"
    by (rule Cons.IH [of "Suc i"]) (use Cons.prems in \<open>auto simp: wf_round_ref wf_gridD\<close>)
  ultimately show ?case using round_ref_inj Cons.prems by (metis list.set_intros(1))
qed simp

lemma block_ref_inj:
  assumes "schedule_ok W H keys shifts" and "wf_grid W H g" "wf_grid W H h"
    and "block_ref W H keys shifts g = block_ref W H keys shifts h"
  shows "g = h"
proof -
  note S = schedule_okD [OF assms(1)]
  let ?r = "\<lambda>g. rounds_ref W H shifts 0 (take (length keys - 2) (drop 1 keys)) (xor_ref g (hd keys))"
  have "?r g = ?r h"
    using assms S xor_ref_inj wf_rounds_ref wf_xor_ref unfolding block_ref_def by metis
  then have "xor_ref g (hd keys) = xor_ref h (hd keys)"
    by (rule rounds_ref_inj [OF S(7,5), rotated -1]) (use assms S wf_xor_ref in auto)
  with assms S show ?thesis by (metis xor_ref_inj)
qed

lemma increment_ref_inj:
  assumes wf: "wf_grid W H g" and eq: "increment_ref W g a = increment_ref W g b"
  shows "a = b"
proof -
  let ?N = "2 ^ (64 * (W * H)) :: nat"
  have "1 \<le> W * H" using wf_gridD(5,6) [OF wf] by simp
  then have "(2 :: nat) ^ (64 * 1) \<le> ?N" by (intro power_increasing mult_le_mono2) auto
  then have N: "2 ^ 64 \<le> ?N" by simp
  have ab: "unat a < ?N" "unat b < ?N" using unat_u64_less N by (meson less_le_trans)+
  have "(grid_val g + unat a) mod ?N = (grid_val g + unat b) mod ?N"
    using grid_val_increment [OF wf, of ref_env] eq by (metis increment_increment_ref)
  then have "unat a mod ?N = unat b mod ?N"
    by (rule mod_add_left_imp_eq)
  with ab show ?thesis by (simp add: word_unat_eq_iff)
qed

section \<open>Counter mode\<close>

definition ctr_blocks :: "('b \<Rightarrow> 'b \<Rightarrow> 'b) \<Rightarrow> (u64 \<Rightarrow> 'b) \<Rightarrow> u64 \<Rightarrow> 'b list \<Rightarrow> 'b list" where
  "ctr_blocks mix ks off bs = map (\<lambda>i. mix (bs ! i) (ks (off + of_nat i))) [0..<length bs]"

text \<open>
  What the callers of counter mode rely on: the keystream block of a legal key and counter is a
  legal block, and mixing it in twice gives the block back.
\<close>

locale ctr_mode =
  fixes key_ok :: "'k \<Rightarrow> bool"
    and good :: "'k \<Rightarrow> 'b \<Rightarrow> bool"
    and stream :: "'k \<Rightarrow> u64 \<Rightarrow> 'b"
    and mix :: "'b \<Rightarrow> 'b \<Rightarrow> 'b"
  assumes stream_good: "key_ok k \<Longrightarrow> good k (stream k c)"
    and mix_good: "good k b \<Longrightarrow> good k s \<Longrightarrow> good k (mix b s)"
    and mix_cancel: "good k b \<Longrightarrow> good k s \<Longrightarrow> mix (mix b s) s = b"
begin

lemma blocks_good:
  assumes "key_ok k" and "\<And>b. b \<in> set bs \<Longrightarrow> good k b" and "b \<in> set (ctr_blocks mix (stream k) off bs)"
  shows "good k b"
  using assms by (auto simp: ctr_blocks_def mix_good stream_good)

lemma blocks_involution:
  assumes "key_ok k" and "\<And>b. b \<in> set bs \<Longrightarrow> good k b"
  shows "ctr_blocks mix (stream k) off (ctr_blocks mix (stream k) off bs) = bs"
  by (rule nth_equalityI) (use assms in \<open>auto simp: ctr_blocks_def mix_cancel [of k] stream_good\<close>)

lemma blocks_append:
  "ctr_blocks mix (stream k) off (bs @ cs) =
   ctr_blocks mix (stream k) off bs @ ctr_blocks mix (stream k) (off + of_nat (length bs)) cs"
  by (rule nth_equalityI) (auto simp: ctr_blocks_def nth_append algebra_simps)

lemma length_blocks: "length (ctr_blocks mix (stream k) off bs) = length bs"
  by (simp add: ctr_blocks_def)

end

text \<open>What one run of counter mode is keyed with.\<close>

record ctr_ctx =
  cx_w :: nat
  cx_h :: nat
  cx_nonce :: grid
  cx_keys :: "grid list"
  cx_shifts :: "nat list list"

definition ctx_ok :: "ctr_ctx \<Rightarrow> bool" where
  "ctx_ok k \<longleftrightarrow> schedule_ok (cx_w k) (cx_h k) (cx_keys k) (cx_shifts k) \<and> wf_grid (cx_w k) (cx_h k) (cx_nonce k)"

definition ctx_stream :: "ctr_ctx \<Rightarrow> u64 \<Rightarrow> grid" where
  "ctx_stream k c = block_ref (cx_w k) (cx_h k) (cx_keys k) (cx_shifts k) (increment_ref (cx_w k) (cx_nonce k) c)"

interpretation rex_ctr: ctr_mode ctx_ok "\<lambda>k. wf_grid (cx_w k) (cx_h k)" ctx_stream xor_ref
  by unfold_locales
    (auto simp: ctx_ok_def ctx_stream_def wf_block_ref wf_increment_ref intro: wf_xor_ref xor_ref_cancel)

lemma ctx_stream_inj: "ctx_ok k \<Longrightarrow> ctx_stream k c = ctx_stream k d \<Longrightarrow> c = d"
  unfolding ctx_ok_def ctx_stream_def
  using block_ref_inj increment_ref_inj wf_increment_ref by metis

lemma try_for_each_eq:
  assumes "distinct ord" and "\<And>i. i \<in> set ord \<Longrightarrow> f i (xs ! i) = Inr (h i (xs ! i))"
  shows "try_for_each ord f xs = Inr (par_for_each ord h xs)"
  using assms unfolding try_for_each_def par_for_each_def
proof (induction ord arbitrary: xs)
  case (Cons k ord)
  then have "f i (xs[k := h k (xs ! k)] ! i) = Inr (h i (xs[k := h k (xs ! k)] ! i))" if "i \<in> set ord" for i
    using that by (cases "i = k") auto
  with Cons show ?case by simp
qed simp

lemma apply_ctr_with_shifts_eq:
  assumes "env_ok E" and "ctx_ok k" and "\<And>g. g \<in> set grids \<Longrightarrow> wf_grid (cx_w k) (cx_h k) g"
  shows "apply_ctr_with_shifts E (cx_w k) (cx_h k) grids (cx_nonce k) (cx_keys k) (cx_shifts k) off =
    Inr (ctr_blocks xor_ref (ctx_stream k) (case off of None \<Rightarrow> 0 | Some c \<Rightarrow> c) grids)"
proof -
  let ?off = "case off of None \<Rightarrow> 0 | Some c \<Rightarrow> c"
  let ?f = "\<lambda>i g. keystream_block E (cx_w k) (cx_h k) (cx_nonce k) (cx_keys k) (cx_shifts k) (?off + of_nat i) g"
  let ?h = "\<lambda>i g. xor_ref g (ctx_stream k (?off + of_nat i))"
  have S: "schedule_ok (cx_w k) (cx_h k) (cx_keys k) (cx_shifts k)" using assms(2) by (simp add: ctx_ok_def)
  have f: "?f i (grids ! i) = Inr (?h i (grids ! i))" if "i < length grids" for i
    using assms that by (simp add: keystream_block_eq ctx_ok_def ctx_stream_def)
  have each: "try_for_each ord ?f grids = Inr (ctr_blocks xor_ref (ctx_stream k) ?off grids)"
    if "distinct ord" "set ord = {..<length grids}" for ord
    using try_for_each_eq [of ord ?f grids ?h] f par_for_each_eq [OF that] that
    by (simp add: ctr_blocks_def)
  have par: "distinct (par_order E n)" "set (par_order E n) = {..<n}" for n
    using env_okD(5) [OF assms(1)] by (auto simp: rayon_ok_def)
  show ?thesis
    using schedule_okD(2,6) [OF S] each [OF par] each [of "[0..<length grids]"]
    by (simp add: apply_ctr_with_shifts_def Let_def atLeast0LessThan)
qed

text \<open>The schedule that \<open>generate_round_keys\<close> and \<open>derive_round_shifts\<close> build is always legal.\<close>

lemma derive_round_shifts_ok:
  assumes "2 \<le> length keys" and "\<forall>k \<in> set keys. wf_grid W H k" and "W < 2 ^ 64"
  obtains shifts where "derive_round_shifts W keys = Inr shifts" and "schedule_ok W H keys shifts"
proof -
  let ?s = "map (precalculate_shifts W) (take (length keys - 2) (drop 1 keys))"
  have W: "0 < W" using assms(1,2) wf_gridD(5) by (cases keys) auto
  have "shifts_ok W H ?s"
    using assms middle_keys_subset [of keys] precalculate_shifts_less [OF W assms(3)]
    by (force simp: shifts_ok_def wf_gridD)
  then show ?thesis
    using assms by (intro that [of ?s]) (auto simp: derive_round_shifts_def schedule_ok_def)
qed

section \<open>Properties of the cipher\<close>

lemma apply_ctr_eq:
  assumes "env_ok E" and "derive_round_shifts W keys = Inr sh" and "schedule_ok W H keys sh"
    and "wf_grid W H nonce" and "\<forall>g \<in> set gs. wf_grid W H g"
  shows "apply_ctr E W H gs nonce keys off = Inr (ctr_blocks xor_ref
    (ctx_stream \<lparr> cx_w = W, cx_h = H, cx_nonce = nonce, cx_keys = keys, cx_shifts = sh \<rparr>)
    (case off of None \<Rightarrow> 0 | Some c \<Rightarrow> c) gs)"
  using apply_ctr_with_shifts_eq [OF assms(1),
      of "\<lparr> cx_w = W, cx_h = H, cx_nonce = nonce, cx_keys = keys, cx_shifts = sh \<rparr>" gs off] assms
  by (simp add: apply_ctr_def ctx_ok_def)

lemma xor_ref_commute:
  "wf_grid W H g \<Longrightarrow> wf_grid W H k \<Longrightarrow> xor_ref g k = xor_ref k g"
  unfolding xor_ref_def
  by (rule nth_equalityI)
    (auto simp: wf_gridD intro!: nth_equalityI simp: xor.commute)

text \<open>
  C2 (keystream_never_repeats). For a legal key schedule the block cipher runs without a failing
  index or \<open>unreachable!\<close>, and the same data under two different 64-bit counters never gives the same
  ciphertext block: the cipher is a permutation and the counter addition is injective, so one nonce
  never repeats a keystream block.
\<close>

theorem keystream_never_repeats:
  assumes "env_ok E" and "schedule_ok W H keys shifts" and "wf_grid W H nonce" and "wf_grid W H g"
  shows "(\<exists>x. keystream_block E W H nonce keys shifts c g = Inr x \<and> wf_grid W H x) \<and>
    (c \<noteq> d \<longrightarrow> keystream_block E W H nonce keys shifts c g \<noteq> keystream_block E W H nonce keys shifts d g)"
proof -
  let ?s = "\<lambda>c. block_ref W H keys shifts (increment_ref W nonce c)"
  have wf: "wf_grid W H (?s c)" for c
    by (rule wf_block_ref [OF assms(2) wf_increment_ref [OF assms(3)]])
  note eq = keystream_block_eq [OF assms]
  have "?s c \<noteq> ?s d" if "c \<noteq> d"
    using block_ref_inj [OF assms(2)] wf_increment_ref [OF assms(3)] increment_ref_inj [OF assms(3)] that by blast
  then have "xor_ref (?s c) g \<noteq> xor_ref (?s d) g" if "c \<noteq> d"
    using xor_ref_inj [OF wf wf assms(4)] that by blast
  then show ?thesis
    using eq wf_xor_ref [OF assms(4) wf] xor_ref_commute [OF wf assms(4)] by simp
qed

theorem keystream_never_repeats_witness:
  "keystream_block ref_env 2 4 (replicate 4 [1, 2]) (replicate 2 (replicate 4 [3, 4])) [] 0 (replicate 4 [5, 6]) \<noteq>
   keystream_block ref_env 2 4 (replicate 4 [1, 2]) (replicate 2 (replicate 4 [3, 4])) [] 1 (replicate 4 [5, 6])"
proof -
  have wf: "wf_grid 2 4 (replicate 4 [a, b])" for a b
    by (simp add: wf_grid_def valid_dims_def) (simp add: rect_def)
  have "schedule_ok 2 4 (replicate 2 (replicate 4 [3, 4])) []"
    using wf by (simp add: schedule_ok_def shifts_ok_def)
  from keystream_never_repeats [OF env_ok_ref this wf wf, where c = 0 and d = 1] show ?thesis by simp
qed

text \<open>
  Counter mode succeeds on any schedule of at least two well-formed keys and
  is its own inverse, block by block, and the CPU, the \<open>constant-time\<close> feature and the order in which the
  thread pool visits the blocks do not change the result: what one environment encrypts, any other decrypts.
\<close>

theorem apply_ctr_involution:
  assumes "env_ok E" and "env_ok E'" and "2 \<le> length keys" and "\<forall>k \<in> set keys. wf_grid W H k" and "W < 2 ^ 64"
    and "wf_grid W H nonce" and "\<forall>g \<in> set gs. wf_grid W H g"
  shows "\<exists>cs. apply_ctr E W H gs nonce keys off = Inr cs \<and> apply_ctr E' W H gs nonce keys off = Inr cs \<and>
    length cs = length gs \<and> (\<forall>g \<in> set cs. wf_grid W H g) \<and> apply_ctr E' W H cs nonce keys off = Inr gs"
proof -
  obtain sh where sh: "derive_round_shifts W keys = Inr sh" "schedule_ok W H keys sh"
    by (rule derive_round_shifts_ok [OF assms(3-5)])
  let ?cx = "\<lparr> cx_w = W, cx_h = H, cx_nonce = nonce, cx_keys = keys, cx_shifts = sh \<rparr>"
  let ?cs = "ctr_blocks xor_ref (ctx_stream ?cx) (case off of None \<Rightarrow> 0 | Some c \<Rightarrow> c) gs"
  have cx: "ctx_ok ?cx" using sh assms(6) by (simp add: ctx_ok_def)
  note eq = apply_ctr_eq [OF _ sh assms(6)]
  have "\<forall>g \<in> set ?cs. wf_grid W H g"
    using rex_ctr.blocks_good [OF cx, of gs] assms(7) by auto
  moreover have "ctr_blocks xor_ref (ctx_stream ?cx) (case off of None \<Rightarrow> 0 | Some c \<Rightarrow> c) ?cs = gs"
    using rex_ctr.blocks_involution [OF cx, of gs] assms(7) by auto
  ultimately show ?thesis
    using eq [OF assms(1)] eq [OF assms(2)] assms(7)
    by (intro exI [of _ ?cs]) (simp add: rex_ctr.length_blocks)
qed

theorem apply_ctr_involution_witness:
  "\<exists>cs. apply_ctr ref_env 2 4 (replicate 5 (replicate 4 [7, 8])) (replicate 4 [1, 2])
       (replicate 3 (replicate 4 [3, 4])) None = Inr cs \<and>
     apply_ctr (ref_env\<lparr> has_avx2 := True \<rparr>) 2 4 cs (replicate 4 [1, 2])
       (replicate 3 (replicate 4 [3, 4])) None = Inr (replicate 5 (replicate 4 [7, 8]))"
proof -
  have wf: "wf_grid 2 4 (replicate 4 [a, b])" for a b
    by (simp add: wf_grid_def valid_dims_def) (simp add: rect_def)
  have "env_ok (ref_env\<lparr> has_avx2 := True \<rparr>)"
    using env_ok_ref by (simp add: env_ok_def subtle_ok_def digest_ok_def chacha_ok_def rayon_ok_def)
  from apply_ctr_involution [OF env_ok_ref this, of "replicate 3 (replicate 4 [3, 4])" 2 4
      "replicate 4 [1, 2]" "replicate 5 (replicate 4 [7, 8])" None] wf
  show ?thesis by auto
qed

text \<open>
  For legal dimensions the schedule always holds \<open>ROUND_KEYS\<close> well-formed
  keys, and the row shifts derived from it satisfy every assertion of \<open>apply_ctr_with_shifts\<close>, one shift list
  per keyed round with each amount below the width.
\<close>

theorem key_schedule_total:
  assumes "env_ok E" and "valid_dims W H" and "W < 2 ^ 64"
  shows "\<exists>keys shifts. generate_round_keys E W H mk = Inr keys \<and> length keys = ROUND_KEYS \<and>
    derive_round_shifts W keys = Inr shifts \<and> length shifts = ROUND_KEYS - 2 \<and> schedule_ok W H keys shifts"
proof -
  obtain ks where ks: "generate_round_keys E W H mk = Inr ks" "length ks = ROUND_KEYS"
    "\<forall>k \<in> set ks. wf_grid W H k"
    by (rule generate_round_keys_ok [OF assms(1,2)])
  then obtain sh where sh: "derive_round_shifts W ks = Inr sh" "schedule_ok W H ks sh"
    using derive_round_shifts_ok [of ks W H, OF _ _ assms(3)] by (auto simp: ROUND_KEYS_def)
  moreover have "length sh = ROUND_KEYS - 2"
    using sh(1) ks(2) by (auto simp: derive_round_shifts_def ROUND_KEYS_def split: if_splits)
  ultimately show ?thesis using ks by blast
qed

theorem key_schedule_total_witness:
  "\<exists>keys shifts. generate_round_keys ref_env 2 4 (replicate 4 [1, 2]) = Inr keys \<and> length keys = 17 \<and>
     derive_round_shifts 2 keys = Inr shifts \<and> length shifts = 15"
  using key_schedule_total [OF env_ok_ref, of 2 4 "replicate 4 [1, 2]"]
  by (auto simp: valid_dims_def ROUND_KEYS_def)

end
