(* ===== verification/Encrypter.thy ===== *)
theory Encrypter
  imports Crypto_Core
begin

text \<open>
  \<open>core/src/types.rs\<close>, \<open>encrypter.rs\<close> and \<open>decrypter.rs\<close>: one-shot encryption of cells and of strings.
  A Rust \<open>char\<close> is a Unicode scalar value, modelled by its 32-bit number; a \<open>&str\<close> is the list of
  its scalar values. The system entropy each call may draw (one seed for a fresh key, one for
  the nonce) is an argument. The lemmas show that decryption returns the input, extended by the zeroes
  that fill the last grid, and that a string survives the trip exactly.
\<close>

unbundle bit_operations_syntax

section \<open>types.rs\<close>

record encrypted_data =
  ed_output :: "grid list"
  ed_key :: grid
  ed_nonce :: grid

record decrypted_data =
  dd_output :: "i64 list"
  dd_key :: "i64 list"

section \<open>encrypter.rs\<close>

definition encrypt ::
  "('v, 'r) rex_env \<Rightarrow> nat \<Rightarrow> nat \<Rightarrow> i64 list \<Rightarrow> i64 list option \<Rightarrow> u8 list option \<Rightarrow> u8 list option
     \<Rightarrow> fault + encrypted_data" where
  "encrypt E W H input key key_seed nonce_seed =
     rbind (case key of Some k \<Rightarrow> Inr k | None \<Rightarrow> generate_key E W H key_seed) (\<lambda>key_used.
     if W * H = 0 then Inl Panic else
     rbind (collect_result (map (from_flat W H) (chunks (W * H) input))) (\<lambda>grids.
     rbind (from_key W H key_used) (\<lambda>key_grid.
     rbind (generate_round_keys E W H key_grid) (\<lambda>round_keys.
     rbind (generate_nonce E W H nonce_seed) (\<lambda>nonce.
     rbind (apply_ctr E W H grids nonce round_keys None) (\<lambda>grids'.
     Inr \<lparr> ed_output = grids', ed_key = key_grid, ed_nonce = nonce \<rparr>))))))"

text \<open>Two units per cell, the first one in the high half.\<close>

fun pack_units :: "u32 list \<Rightarrow> i64 list" where
  "pack_units (a # b # us) = (push_bit 32 (ucast a) OR ucast b) # pack_units us"
| "pack_units us = []"

definition string_cells :: "u32 list \<Rightarrow> i64 list" where
  "string_cells input =
     (let units = input @ [- 1];
          units' = (if length units mod 2 \<noteq> 0 then units @ [0] else units)
      in pack_units units')"

definition encrypt_string ::
  "('v, 'r) rex_env \<Rightarrow> nat \<Rightarrow> nat \<Rightarrow> u32 list \<Rightarrow> i64 list option \<Rightarrow> u8 list option \<Rightarrow> u8 list option
     \<Rightarrow> fault + encrypted_data" where
  "encrypt_string E W H input key key_seed nonce_seed =
     encrypt E W H (string_cells input) key key_seed nonce_seed"

section \<open>decrypter.rs\<close>

definition decrypt :: "('v, 'r) rex_env \<Rightarrow> nat \<Rightarrow> nat \<Rightarrow> encrypted_data \<Rightarrow> fault + decrypted_data" where
  "decrypt E W H input =
     rbind (generate_round_keys E W H (ed_key input)) (\<lambda>round_keys.
     rbind (apply_ctr E W H (ed_output input) (ed_nonce input) round_keys None) (\<lambda>grids.
     Inr \<lparr> dd_output = concat (map to_flat grids), dd_key = concat (ed_key input) \<rparr>))"

text \<open>\<open>char::from_u32\<close>: surrogates and values above \<open>0x10FFFF\<close> are no scalar values.\<close>

definition char_from_u32 :: "u32 \<Rightarrow> u32 option" where
  "char_from_u32 u = (if u < 0xD800 \<or> 0xE000 \<le> u \<and> u < 0x110000 then Some u else None)"

fun read_units :: "u32 list \<Rightarrow> u32 list \<Rightarrow> grid_error + u32 list \<times> bool" where
  "read_units [] out = Inr (out, False)"
| "read_units (unit # units) out =
     (if unit = - 1 then Inr (out, True)
      else case char_from_u32 unit of
          None \<Rightarrow> Inl InvalidUnicode
        | Some c \<Rightarrow> read_units units (out @ [c]))"

definition cell_units :: "i64 \<Rightarrow> u32 list" where
  "cell_units n = [ucast (drop_bit 32 n), ucast n]"

definition decrypt_string :: "('v, 'r) rex_env \<Rightarrow> nat \<Rightarrow> nat \<Rightarrow> encrypted_data \<Rightarrow> fault + u32 list" where
  "decrypt_string E W H input =
     rbind (decrypt E W H input) (\<lambda>decrypted.
       case read_units (concat (map cell_units (dd_output decrypted))) [] of
         Inl e \<Rightarrow> Inl (Err e)
       | Inr (output, terminated) \<Rightarrow>
           if \<not> terminated then Inl (Err InvalidUnicode) else Inr output)"

section \<open>Filling the last grid\<close>

definition zero_pad :: "nat \<Rightarrow> i64 list \<Rightarrow> i64 list" where
  "zero_pad n xs = xs @ replicate ((n - length xs mod n) mod n) 0"

lemma zero_pad_dvd: "n dvd length xs \<Longrightarrow> zero_pad n xs = xs"
  by (simp add: zero_pad_def)

lemma length_zero_pad: "0 < n \<Longrightarrow> n dvd length (zero_pad n xs)"
proof -
  assume "0 < n"
  then have "(length xs + (n - length xs mod n) mod n) mod n = (length xs mod n + (n - length xs mod n)) mod n"
    by (metis mod_add_eq mod_mod_trivial)
  also have "\<dots> = 0" using \<open>0 < n\<close> mod_less_divisor [of n "length xs"] by (simp del: mod_less_divisor)
  finally show ?thesis by (simp add: zero_pad_def mod_eq_0_iff_dvd)
qed

definition pad_block :: "nat \<Rightarrow> i64 list \<Rightarrow> i64 list" where
  "pad_block n xs = xs @ replicate (n - length xs) 0"

lemma concat_pad_chunks: "0 < n \<Longrightarrow> concat (map (pad_block n) (chunks n xs)) = zero_pad n xs"
proof (induction n xs rule: chunks.induct)
  case (1 n xs)
  show ?case
  proof (cases "xs = []")
    case False
    show ?thesis
    proof (cases "length xs < n")
      case True
      with False "1.prems" show ?thesis
        by (simp add: chunks_step pad_block_def zero_pad_def)
    next
      case False
      with "1.prems" \<open>xs \<noteq> []\<close> 1 have "concat (map (pad_block n) (chunks n xs)) = take n xs @ zero_pad n (drop n xs)"
        by (simp add: chunks_step pad_block_def [of n "take n xs"])
      also have "\<dots> = zero_pad n xs"
        using False by (simp add: zero_pad_def le_mod_geq)
      finally show ?thesis .
    qed
  qed (simp add: zero_pad_def)
qed

lemma from_flat_block:
  "valid_dims W H \<Longrightarrow> length xs \<le> W * H \<Longrightarrow> from_flat W H xs = Inr (chunks W (pad_block (W * H) xs))"
  by (simp add: from_flat_ok pad_block_def)

lemma wf_pad_block:
  "valid_dims W H \<Longrightarrow> length xs \<le> W * H \<Longrightarrow> wf_grid W H (chunks W (pad_block (W * H) xs))"
  by (rule wf_chunks) (simp_all add: pad_block_def)

definition input_grids :: "nat \<Rightarrow> nat \<Rightarrow> i64 list \<Rightarrow> grid list" where
  "input_grids W H input = map (\<lambda>xs. chunks W (pad_block (W * H) xs)) (chunks (W * H) input)"

lemma input_grids_ok:
  assumes "valid_dims W H"
  shows "collect_result (map (from_flat W H) (chunks (W * H) input)) = Inr (input_grids W H input)"
    and "g \<in> set (input_grids W H input) \<Longrightarrow> wf_grid W H g"
    and "concat (map to_flat (input_grids W H input)) = zero_pad (W * H) input"
proof -
  note len = chunks_length_le [THEN conjunct1]
  show "collect_result (map (from_flat W H) (chunks (W * H) input)) = Inr (input_grids W H input)"
    unfolding input_grids_def by (rule collect_result_map_cong) (auto simp: from_flat_block assms len)
  show "g \<in> set (input_grids W H input) \<Longrightarrow> wf_grid W H g"
    by (auto simp: input_grids_def intro: wf_pad_block [OF assms len])
  show "concat (map to_flat (input_grids W H input)) = zero_pad (W * H) input"
    using concat_pad_chunks [of "W * H" input] valid_dimsD [OF assms]
    by (simp add: input_grids_def comp_def to_flat_concat)
qed

section \<open>Counter mode under a generated schedule\<close>

text \<open>The context counter mode runs in for a master key grid and a nonce.\<close>

definition key_ctx :: "('v, 'r) rex_env \<Rightarrow> nat \<Rightarrow> nat \<Rightarrow> grid \<Rightarrow> grid \<Rightarrow> ctr_ctx" where
  "key_ctx E W H key nonce =
     (let keys = projr (generate_round_keys E W H key)
      in \<lparr> cx_w = W, cx_h = H, cx_nonce = nonce, cx_keys = keys,
           cx_shifts = projr (derive_round_shifts W keys) \<rparr>)"

lemma key_ctx_simps [simp]:
  "cx_w (key_ctx E W H key nonce) = W" "cx_h (key_ctx E W H key nonce) = H"
  "cx_nonce (key_ctx E W H key nonce) = nonce"
  by (simp_all add: key_ctx_def Let_def)

lemma key_ctx_ok:
  assumes "env_ok E" and "valid_dims W H" and "W < 2 ^ 64"
  shows "generate_round_keys E W H key = Inr (cx_keys (key_ctx E W H key nonce))"
    and "derive_round_shifts W (cx_keys (key_ctx E W H key nonce)) = Inr (cx_shifts (key_ctx E W H key nonce))"
    and "wf_grid W H nonce \<Longrightarrow> ctx_ok (key_ctx E W H key nonce)"
proof -
  obtain ks where ks: "generate_round_keys E W H key = Inr ks" "length ks = ROUND_KEYS"
    "\<forall>k \<in> set ks. wf_grid W H k"
    by (rule generate_round_keys_ok [OF assms(1,2)])
  then obtain sh where sh: "derive_round_shifts W ks = Inr sh" "schedule_ok W H ks sh"
    using derive_round_shifts_ok [of ks W H, OF _ _ assms(3)] by (auto simp: ROUND_KEYS_def)
  from ks(1) sh show "generate_round_keys E W H key = Inr (cx_keys (key_ctx E W H key nonce))"
    "derive_round_shifts W (cx_keys (key_ctx E W H key nonce)) = Inr (cx_shifts (key_ctx E W H key nonce))"
    "wf_grid W H nonce \<Longrightarrow> ctx_ok (key_ctx E W H key nonce)"
    by (simp_all add: key_ctx_def ctx_ok_def)
qed

lemma apply_ctr_key_ctx:
  assumes "env_ok E" and "valid_dims W H" and "W < 2 ^ 64" and "wf_grid W H nonce"
    and "\<And>g. g \<in> set grids \<Longrightarrow> wf_grid W H g"
  shows "apply_ctr E W H grids nonce (cx_keys (key_ctx E W H key nonce)) None =
    Inr (ctr_blocks xor_ref (ctx_stream (key_ctx E W H key nonce)) 0 grids)"
  using apply_ctr_with_shifts_eq [OF assms(1) key_ctx_ok(3) [OF assms(1-4)], of grids key None] assms(5)
    key_ctx_ok(2) [OF assms(1-3), of key nonce]
  by (simp add: apply_ctr_def)

lemma encrypt_eq:
  assumes E: "env_ok E" "valid_dims W H" "W < 2 ^ 64" and key: "length key = 2 * (W * H)"
  obtains kg nonce where "from_key W H key = Inr kg" "wf_grid W H kg" "wf_grid W H nonce"
    "generate_nonce E W H (Some seed) = Inr nonce"
    "encrypt E W H input (Some key) ks (Some seed) = Inr \<lparr>
       ed_output = ctr_blocks xor_ref (ctx_stream (key_ctx E W H kg nonce)) 0 (input_grids W H input),
       ed_key = kg, ed_nonce = nonce \<rparr>"
proof -
  obtain kg where kg: "from_key W H key = Inr kg" "wf_grid W H kg"
    by (rule wf_from_key [OF E(2) key])
  obtain nonce where n: "generate_nonce E W H (Some seed) = Inr nonce" "wf_grid W H nonce"
    by (rule generate_nonce_ok [OF E(1,2)])
  have "encrypt E W H input (Some key) ks (Some seed) = Inr \<lparr>
       ed_output = ctr_blocks xor_ref (ctx_stream (key_ctx E W H kg nonce)) 0 (input_grids W H input),
       ed_key = kg, ed_nonce = nonce \<rparr>"
    using valid_dimsD [OF E(2)] input_grids_ok [OF E(2)] apply_ctr_key_ctx [OF E n(2)] kg n
      key_ctx_ok(1) [OF E, of kg nonce]
    by (simp add: encrypt_def)
  with kg n that show ?thesis by blast
qed

lemma decrypt_encrypted:
  assumes E: "env_ok E" "valid_dims W H" "W < 2 ^ 64" and wf: "wf_grid W H nonce"
    and gs: "\<And>g. g \<in> set gs \<Longrightarrow> wf_grid W H g"
  shows "decrypt E W H \<lparr> ed_output = ctr_blocks xor_ref (ctx_stream (key_ctx E W H kg nonce)) 0 gs,
       ed_key = kg, ed_nonce = nonce \<rparr> = Inr \<lparr> dd_output = concat (map to_flat gs), dd_key = concat kg \<rparr>"
proof -
  note cx = key_ctx_ok(3) [OF E wf, of kg]
  let ?c = "ctr_blocks xor_ref (ctx_stream (key_ctx E W H kg nonce)) 0 gs"
  have "wf_grid W H g" if "g \<in> set ?c" for g
    using rex_ctr.blocks_good [OF cx _ that] gs by simp
  moreover have "ctr_blocks xor_ref (ctx_stream (key_ctx E W H kg nonce)) 0 ?c = gs"
    using rex_ctr.blocks_involution [OF cx] gs by simp
  ultimately show ?thesis
    using apply_ctr_key_ctx [OF E wf, of ?c kg] key_ctx_ok(1) [OF E, of kg nonce]
    by (simp add: decrypt_def)
qed

lemma decrypt_encrypt:
  assumes E: "env_ok E" "valid_dims W H" "W < 2 ^ 64" and key: "length key = 2 * (W * H)"
  obtains d kg where "encrypt E W H input (Some key) ks (Some seed) = Inr d"
    "from_key W H key = Inr kg"
    "decrypt E W H d = Inr \<lparr> dd_output = zero_pad (W * H) input, dd_key = concat kg \<rparr>"
proof -
  obtain kg nonce where kg: "from_key W H key = Inr kg" and nonce: "wf_grid W H nonce"
    and enc: "encrypt E W H input (Some key) ks (Some seed) = Inr \<lparr>
       ed_output = ctr_blocks xor_ref (ctx_stream (key_ctx E W H kg nonce)) 0 (input_grids W H input),
       ed_key = kg, ed_nonce = nonce \<rparr>"
    by (rule encrypt_eq [OF E key])
  from decrypt_encrypted [OF E nonce input_grids_ok(2) [OF E(2)], where kg = kg] input_grids_ok(3) [OF E(2)]
  show ?thesis by (intro that [OF enc kg]) simp
qed

section \<open>Strings\<close>

definition valid_str :: "u32 list \<Rightarrow> bool" where
  "valid_str s \<longleftrightarrow> (\<forall>c \<in> set s. char_from_u32 c = Some c)"

lemma cell_units_pack: "cell_units (push_bit 32 (ucast a) OR ucast b) = [a, b]"
  unfolding cell_units_def by (auto intro!: bit_word_eqI simp: bit_simps bit_u32_ge)

lemma units_pack: "even (length us) \<Longrightarrow> concat (map cell_units (pack_units us)) = us"
  by (induction us rule: pack_units.induct) (simp_all add: cell_units_pack)

lemma read_units_terminated:
  assumes "valid_str s"
  shows "read_units (s @ (- 1) # rest) out = Inr (out @ s, True)"
  using assms
proof (induction s arbitrary: out)
  case (Cons c s)
  then have "c \<noteq> - 1" by (auto simp: valid_str_def char_from_u32_def split: if_splits)
  with Cons show ?case by (simp add: valid_str_def)
qed simp

lemma read_units_unterminated:
  "(- 1) \<notin> set us \<Longrightarrow> read_units us out = Inl InvalidUnicode \<or> (\<exists>o'. read_units us out = Inr (o', False))"
  by (induction us arbitrary: out) (auto simp: char_from_u32_def)

lemma string_cells_units:
  "\<exists>rest. concat (map cell_units (string_cells s)) = s @ (- 1) # rest"
  unfolding string_cells_def Let_def by (subst units_pack) (auto simp: mod_2_eq_odd split: if_splits)

lemma read_units_string:
  assumes "valid_str s"
  shows "read_units (concat (map cell_units (zero_pad n (string_cells s)))) [] = Inr (s, True)"
proof -
  obtain rest where "concat (map cell_units (string_cells s)) = s @ (- 1) # rest"
    using string_cells_units by blast
  then show ?thesis
    using read_units_terminated [OF assms] by (simp add: zero_pad_def)
qed

section \<open>Properties of one-shot encryption\<close>

text \<open>
  Two environments that share the hash and the generator: they may differ in the CPU, the
  vector library, the feature flag and the thread pool.
\<close>

definition same_primitives :: "('v, 'r) rex_env \<Rightarrow> ('w, 'r) rex_env \<Rightarrow> bool" where
  "same_primitives E E' \<longleftrightarrow> sha256 E = sha256 E' \<and> chacha_from_seed E = chacha_from_seed E' \<and>
     chacha_fill E = chacha_fill E'"

lemma key_ctx_same:
  assumes "same_primitives E E'"
  shows "key_ctx E W H key nonce = key_ctx E' W H key nonce"
proof -
  have "round_key_loop E W H n rng ks = round_key_loop E' W H n rng ks" for n rng ks
    using assms by (induction n arbitrary: rng ks)
      (auto simp: generate_key_deterministic_def same_primitives_def Let_def split: prod.splits
        intro!: arg_cong [where f = "rbind _"])
  then have "generate_round_keys E W H key = generate_round_keys E' W H key"
    using assms by (simp add: generate_round_keys_def sha256_seed_grid_def same_primitives_def)
  then show ?thesis by (simp add: key_ctx_def)
qed

text \<open>
  C1 (decrypt_encrypt_roundtrip). With a key of the right length \<open>encrypt\<close> always succeeds, and
  \<open>decrypt\<close>, on the same or on any other machine that shares SHA-256 and ChaCha20, returns the input followed by
  the zeroes that complete the last grid, and the key grid.
\<close>

theorem decrypt_encrypt_roundtrip:
  assumes "env_ok E" and "env_ok E'" and "same_primitives E E'" and "valid_dims W H" and "W < 2 ^ 64"
    and "length key = 2 * (W * H)"
  shows "\<exists>d kg. encrypt E W H input (Some key) ks (Some seed) = Inr d \<and> from_key W H key = Inr kg \<and>
    decrypt E' W H d = Inr \<lparr> dd_output = zero_pad (W * H) input, dd_key = concat kg \<rparr>"
proof -
  obtain kg nonce where kg: "from_key W H key = Inr kg" and nonce: "wf_grid W H nonce"
    and enc: "encrypt E W H input (Some key) ks (Some seed) = Inr \<lparr>
       ed_output = ctr_blocks xor_ref (ctx_stream (key_ctx E W H kg nonce)) 0 (input_grids W H input),
       ed_key = kg, ed_nonce = nonce \<rparr>"
    by (rule encrypt_eq [OF assms(1,4-6)])
  from decrypt_encrypted [OF assms(2,4,5) nonce input_grids_ok(2) [OF assms(4)], where kg = kg]
    input_grids_ok(3) [OF assms(4)] key_ctx_same [OF assms(3)]
  show ?thesis unfolding enc kg by simp
qed

lemma zero_pad_example: "zero_pad 8 [1, 2, 3] = [1, 2, 3, 0, 0, 0, 0, 0]"
  by code_simp

theorem decrypt_encrypt_roundtrip_witness:
  "\<exists>d kg. encrypt ref_env 2 4 [1, 2, 3] (Some (replicate 16 5)) None (Some []) = Inr d \<and>
     decrypt ref_env 2 4 d = Inr \<lparr> dd_output = [1, 2, 3, 0, 0, 0, 0, 0], dd_key = kg \<rparr>"
  using decrypt_encrypt_roundtrip [OF env_ok_ref env_ok_ref, of 2 4 "replicate 16 5" "[1, 2, 3]" None "[]"]
  by (auto simp: same_primitives_def valid_dims_def zero_pad_example)

text \<open>
  Every Rust string, whatever its length and including embedded and trailing NUL
  characters, decrypts to itself: the terminator is found and the padding is ignored.
\<close>

theorem string_roundtrip:
  assumes "env_ok E" and "valid_dims W H" and "W < 2 ^ 64" and "length key = 2 * (W * H)" and "valid_str s"
  shows "\<exists>d. encrypt_string E W H s (Some key) ks (Some seed) = Inr d \<and> decrypt_string E W H d = Inr s"
proof -
  obtain d kg where "encrypt E W H (string_cells s) (Some key) ks (Some seed) = Inr d"
    "decrypt E W H d = Inr \<lparr> dd_output = zero_pad (W * H) (string_cells s), dd_key = concat kg \<rparr>"
    by (rule decrypt_encrypt [OF assms(1-4)])
  then show ?thesis
    using read_units_string [OF assms(5)] by (simp add: encrypt_string_def decrypt_string_def)
qed

theorem string_roundtrip_witness:
  "\<exists>d. encrypt_string ref_env 2 4 [0x41, 0, 0x1F600, 0] (Some (replicate 16 5)) None (Some []) = Inr d \<and>
     decrypt_string ref_env 2 4 d = Inr [0x41, 0, 0x1F600, 0]"
  using string_roundtrip [OF env_ok_ref, of 2 4 "replicate 16 5" "[0x41, 0, 0x1F600, 0]" None "[]"]
  by (simp add: valid_dims_def valid_str_def char_from_u32_def)

text \<open>
  \<open>encrypt\<close> refuses a key of the wrong length with the expected and the actual length,
  panics when it must draw entropy and there is none, and \<open>decrypt_string\<close> never returns a string
  whose terminator is missing.
\<close>

theorem encrypt_rejects:
  assumes "env_ok E" and "valid_dims W H"
  shows "(length key \<noteq> 2 * (W * H) \<longrightarrow> encrypt E W H input (Some key) ks ns =
      Inl (Err (InvalidKeyLength (W * H * 2) (length key)))) \<and>
    encrypt E W H input None None ns = Inl Panic \<and>
    (length key = 2 * (W * H) \<longrightarrow> encrypt E W H input (Some key) ks None = Inl Panic) \<and>
    (decrypt E W H d = Inr r \<and> (- 1) \<notin> set (concat (map cell_units (dd_output r))) \<longrightarrow>
      decrypt_string E W H d = Inl (Err InvalidUnicode))"
proof (intro conjI impI)
  have pos: "W * H \<noteq> 0" using valid_dimsD [OF assms(2)] by simp
  note g = input_grids_ok(1) [OF assms(2), of input]
  show "encrypt E W H input (Some key) ks ns = Inl (Err (InvalidKeyLength (W * H * 2) (length key)))"
    if "length key \<noteq> 2 * (W * H)"
    using pos g that by (simp add: encrypt_def from_key_def Let_def mult.commute)
  show "encrypt E W H input None None ns = Inl Panic"
    by (simp add: encrypt_def generate_key_def)
  show "encrypt E W H input (Some key) ks None = Inl Panic" if len: "length key = 2 * (W * H)"
  proof -
    obtain kg where kg: "from_key W H key = Inr kg" by (rule wf_from_key [OF assms(2) len])
    obtain rk where "generate_round_keys E W H kg = Inr rk" by (rule generate_round_keys_ok [OF assms])
    with kg show ?thesis using pos g by (simp add: encrypt_def generate_nonce_def generate_key_def)
  qed
  show "decrypt_string E W H d = Inl (Err InvalidUnicode)"
    if "decrypt E W H d = Inr r \<and> (- 1) \<notin> set (concat (map cell_units (dd_output r)))"
    using that read_units_unterminated [of "concat (map cell_units (dd_output r))" "[]"]
    unfolding decrypt_string_def by (auto simp del: set_concat)
qed

theorem encrypt_rejects_witness:
  "encrypt ref_env 2 4 [1] (Some [1, 2, 3]) None None = Inl (Err (InvalidKeyLength 16 3))"
  using encrypt_rejects [OF env_ok_ref, of 2 4 "[1, 2, 3]" "[1]" None None] by (simp add: valid_dims_def)

end
