(* ===== verification/Rex_Stream.thy ===== *)
theory Rex_Stream
  imports Encrypter
begin

text \<open>
  \<open>core/src/stream.rs\<close>: incremental encryption with a buffer of at most one incomplete grid and a
  running block counter. The methods take \<open>&mut self\<close>, so they return the result together with
  the state they leave. The locale \<open>cell_stream\<close> is the contract the packet and disk
  layers above rely on; it is interpreted on \<open>RexStream\<close>. The counter addition wraps, as it does in the
  release profile.
\<close>

unbundle bit_operations_syntax

section \<open>The stream state and its operations\<close>

record rex_stream =
  rs_round_keys :: "grid list"
  rs_round_shifts :: "nat list list"
  rs_nonce :: grid
  rs_block_counter :: u64
  rs_buffer :: "i64 list"

definition stream_new :: "('v, 'r) rex_env \<Rightarrow> nat \<Rightarrow> nat \<Rightarrow> grid \<Rightarrow> grid \<Rightarrow> fault + rex_stream" where
  "stream_new E W H key_grid nonce =
     rbind (generate_round_keys E W H key_grid) (\<lambda>round_keys.
     rbind (derive_round_shifts W round_keys) (\<lambda>round_shifts.
     Inr \<lparr> rs_round_keys = round_keys, rs_round_shifts = round_shifts, rs_nonce = nonce,
           rs_block_counter = 0, rs_buffer = [] \<rparr>))"

text \<open>Counter mode over some grids at the stream's counter.\<close>

definition stream_ctr :: "('v, 'r) rex_env \<Rightarrow> nat \<Rightarrow> nat \<Rightarrow> rex_stream \<Rightarrow> grid list \<Rightarrow> fault + grid list" where
  "stream_ctr E W H st grids =
     apply_ctr_with_shifts E W H grids (rs_nonce st) (rs_round_keys st) (rs_round_shifts st)
       (Some (rs_block_counter st))"

text \<open>
  The leftovers of the previous call: the buffer is topped up and, once full, encrypted. The
  result is the output so far and the data still to process. A \<open>usize\<close> subtraction wraps when the buffer is
  longer than a grid, which the invariant excludes.
\<close>

definition update_leftover ::
  "('v, 'r) rex_env \<Rightarrow> nat \<Rightarrow> nat \<Rightarrow> rex_stream \<Rightarrow> i64 list \<Rightarrow> (fault + i64 list \<times> i64 list) \<times> rex_stream" where
  "update_leftover E W H st data =
     (if rs_buffer st = [] then (Inr ([], data), st)
      else let grid_area = W * H;
               len = length (rs_buffer st);
               needed = (if len \<le> grid_area then grid_area - len else 2 ^ 64 + grid_area - len);
               tk = min needed (length data);
               buffer = rs_buffer st @ take tk data;
               st1 = st\<lparr> rs_buffer := buffer \<rparr>
           in if length buffer = grid_area
              then case rbind (from_flat W H buffer) (\<lambda>g. stream_ctr E W H st1 [g]) of
                     Inl e \<Rightarrow> (Inl e, st1)
                   | Inr gs \<Rightarrow> (Inr (to_flat (gs ! 0), drop tk data),
                       st1\<lparr> rs_block_counter := rs_block_counter st1 + 1, rs_buffer := [] \<rparr>)
              else (Inr ([], drop tk data), st1))"

definition update_full ::
  "('v, 'r) rex_env \<Rightarrow> nat \<Rightarrow> nat \<Rightarrow> rex_stream \<Rightarrow> i64 list \<Rightarrow> (fault + i64 list \<times> i64 list) \<times> rex_stream" where
  "update_full E W H st data =
     (let grid_area = W * H in
      if grid_area = 0 then (Inl Panic, st)
      else let full_grids_count = length data div grid_area;
               chunk_size = full_grids_count * grid_area
           in if 0 < full_grids_count
              then case rbind (collect_result (map (from_flat W H) (chunks grid_area (take chunk_size data))))
                         (stream_ctr E W H st) of
                     Inl e \<Rightarrow> (Inl e, st)
                   | Inr gs \<Rightarrow> (Inr (concat (map to_flat gs), drop chunk_size data),
                       st\<lparr> rs_block_counter := rs_block_counter st + of_nat full_grids_count \<rparr>)
              else (Inr ([], data), st))"

definition stream_update ::
  "('v, 'r) rex_env \<Rightarrow> nat \<Rightarrow> nat \<Rightarrow> rex_stream \<Rightarrow> i64 list \<Rightarrow> (fault + i64 list) \<times> rex_stream" where
  "stream_update E W H st data =
     (case update_leftover E W H st data of
        (Inl e, st1) \<Rightarrow> (Inl e, st1)
      | (Inr (out1, data1), st1) \<Rightarrow>
          (case update_full E W H st1 data1 of
             (Inl e, st2) \<Rightarrow> (Inl e, st2)
           | (Inr (out2, data2), st2) \<Rightarrow>
               (Inr (out1 @ out2), st2\<lparr> rs_buffer := rs_buffer st2 @ data2 \<rparr>)))"

definition stream_finalize ::
  "('v, 'r) rex_env \<Rightarrow> nat \<Rightarrow> nat \<Rightarrow> rex_stream \<Rightarrow> (fault + i64 list) \<times> rex_stream" where
  "stream_finalize E W H st =
     (if rs_buffer st = [] then (Inr [], st)
      else case rbind (from_flat W H (rs_buffer st)) (\<lambda>g. stream_ctr E W H st [g]) of
             Inl e \<Rightarrow> (Inl e, st)
           | Inr gs \<Rightarrow> (Inr (take (length (rs_buffer st)) (to_flat (gs ! 0))),
               st\<lparr> rs_block_counter := rs_block_counter st + 1, rs_buffer := [] \<rparr>))"

section \<open>The contract of a stream\<close>

definition xor_with :: "(nat \<Rightarrow> i64) \<Rightarrow> i64 list \<Rightarrow> i64 list" where
  "xor_with ks xs = map (\<lambda>i. xs ! i XOR ks i) [0..<length xs]"

lemma length_xor_with [simp, shape_simps]: "length (xor_with ks xs) = length xs"
  by (simp add: xor_with_def)

lemma xor_with_Nil [simp]: "xor_with ks [] = []"
  by (simp add: xor_with_def)

lemma xor_with_append:
  "xor_with ks (xs @ ys) = xor_with ks xs @ xor_with (\<lambda>j. ks (length xs + j)) ys"
  by (rule nth_equalityI) (auto simp: xor_with_def nth_append)

lemma xor_with_cancel [codec_simps]: "xor_with ks (xor_with ks xs) = xs"
  by (rule nth_equalityI) (auto simp: xor_with_def xor.assoc)

text \<open>Feeding a stream a list of pieces and finishing it, the outputs in order.\<close>

fun run_stream :: "('s \<Rightarrow> i64 list \<Rightarrow> (fault + i64 list) \<times> 's) \<Rightarrow> ('s \<Rightarrow> (fault + i64 list) \<times> 's) \<Rightarrow>
    's \<Rightarrow> i64 list list \<Rightarrow> fault + i64 list" where
  "run_stream upd fin s [] = fst (fin s)"
| "run_stream upd fin s (d # ds) =
     (case upd s d of
        (Inl e, s') \<Rightarrow> Inl e
      | (Inr out, s') \<Rightarrow> rbind (run_stream upd fin s' ds) (\<lambda>rest. Inr (out @ rest)))"

text \<open>
  \<open>ks s\<close> is the keystream from the first cell that the stream has not put out yet, \<open>pending s\<close>
  the cells it holds back. An update never fails, keeps the stream usable and puts out a prefix
  of the cells held and given, encrypted; \<open>finalize\<close> puts out the rest.
\<close>

locale cell_stream =
  fixes live :: "'s \<Rightarrow> bool"
    and ks :: "'s \<Rightarrow> nat \<Rightarrow> i64"
    and pending :: "'s \<Rightarrow> i64 list"
    and upd :: "'s \<Rightarrow> i64 list \<Rightarrow> (fault + i64 list) \<times> 's"
    and fin :: "'s \<Rightarrow> (fault + i64 list) \<times> 's"
  assumes upd_ok: "live s \<Longrightarrow> \<exists>out s'. upd s d = (Inr out, s') \<and> live s' \<and>
      (\<forall>j. ks s' j = ks s (length out + j)) \<and>
      out @ xor_with (ks s') (pending s') = xor_with (ks s) (pending s @ d)"
    and fin_ok: "live s \<Longrightarrow> fst (fin s) = Inr (xor_with (ks s) (pending s))"
begin

lemma run_ok: "live s \<Longrightarrow> run_stream upd fin s ds = Inr (xor_with (ks s) (pending s @ concat ds))"
proof (induction ds arbitrary: s)
  case (Cons d ds)
  obtain out s' where u: "upd s d = (Inr out, s')" and l: "live s'"
    and k: "\<And>j. ks s' j = ks s (length out + j)"
    and o: "out @ xor_with (ks s') (pending s') = xor_with (ks s) (pending s @ d)"
    using upd_ok [OF Cons.prems] by blast
  have len: "length out + length (pending s') = length (pending s) + length d"
    using arg_cong [OF o, of length] by simp
  have "out @ xor_with (ks s') (pending s' @ concat ds) =
      xor_with (ks s) (pending s @ d) @ xor_with (\<lambda>j. ks s' (length (pending s') + j)) (concat ds)"
    unfolding o [symmetric] by (simp add: xor_with_append)
  also have "\<dots> = xor_with (ks s) (pending s @ concat (d # ds))"
    using len by (simp add: xor_with_append k add.assoc [symmetric])
  finally show ?case using Cons.IH [OF l] u by simp
qed (simp add: fin_ok)

lemma run_chunking:
  "live s \<Longrightarrow> concat ds = concat es \<Longrightarrow> run_stream upd fin s ds = run_stream upd fin s es"
  by (simp add: run_ok)

lemma run_round_trip:
  assumes "live s" "live t" "ks s = ks t" "pending s = []" "pending t = []"
    and "run_stream upd fin s ds = Inr c" "concat es = c"
  shows "run_stream upd fin t es = Inr (concat ds)"
  using assms by (auto simp: run_ok xor_with_cancel)

end

section \<open>RexStream keeps the contract\<close>

text \<open>A stream together with the environment and dimensions it runs in.\<close>

type_synonym ('v, 'r) sited = "('v, 'r) rex_env \<times> nat \<times> nat \<times> rex_stream"

definition stream_ctx :: "nat \<Rightarrow> nat \<Rightarrow> rex_stream \<Rightarrow> ctr_ctx" where
  "stream_ctx W H st = \<lparr> cx_w = W, cx_h = H, cx_nonce = rs_nonce st, cx_keys = rs_round_keys st,
     cx_shifts = rs_round_shifts st \<rparr>"

definition stream_ok :: "nat \<Rightarrow> nat \<Rightarrow> rex_stream \<Rightarrow> bool" where
  "stream_ok W H st \<longleftrightarrow> ctx_ok (stream_ctx W H st) \<and> length (rs_buffer st) < W * H"

definition stream_cell :: "nat \<Rightarrow> nat \<Rightarrow> rex_stream \<Rightarrow> nat \<Rightarrow> i64" where
  "stream_cell W H st j =
     concat (ctx_stream (stream_ctx W H st) (rs_block_counter st + of_nat (j div (W * H)))) ! (j mod (W * H))"

lemma stream_okD:
  assumes "stream_ok W H st"
  shows "ctx_ok (stream_ctx W H st)" and "length (rs_buffer st) < W * H" and "valid_dims W H"
    and "0 < W * H" and "wf_grid W H (ctx_stream (stream_ctx W H st) c)"
proof -
  from assms show cx: "ctx_ok (stream_ctx W H st)" and b: "length (rs_buffer st) < W * H"
    by (auto simp: stream_ok_def)
  then show "valid_dims W H" by (auto simp: ctx_ok_def stream_ctx_def wf_gridD)
  from b show "0 < W * H" by linarith
  show "wf_grid W H (ctx_stream (stream_ctx W H st) c)"
    using rex_ctr.stream_good [OF cx, of c] by (simp add: stream_ctx_def)
qed

lemma stream_ctr_eq:
  assumes "env_ok E" and "stream_ok W H st" and "\<And>g. g \<in> set gs \<Longrightarrow> wf_grid W H g"
  shows "stream_ctr E W H st gs =
    Inr (ctr_blocks xor_ref (ctx_stream (stream_ctx W H st)) (rs_block_counter st) gs)"
  using apply_ctr_with_shifts_eq [OF assms(1) stream_okD(1) [OF assms(2)], of gs "Some (rs_block_counter st)"]
    assms(3)
  by (simp add: stream_ctr_def stream_ctx_def)

lemma stream_cell_step:
  "0 < W * H \<Longrightarrow> stream_cell W H st (W * H * n + j) =
    stream_cell W H (st\<lparr> rs_block_counter := rs_block_counter st + of_nat n \<rparr>) j"
  by (simp add: stream_cell_def stream_ctx_def add.assoc)

lemma block_cells:
  assumes "stream_ok W H st" and "wf_grid W H g"
  shows "concat (xor_ref g (ctx_stream (stream_ctx W H st) (rs_block_counter st))) =
    xor_with (stream_cell W H st) (concat g)"
proof -
  note s = stream_okD(5) [OF assms(1), of "rs_block_counter st"]
  show ?thesis
    unfolding concat_xor_ref [OF assms(2) s]
    by (rule nth_equalityI)
      (use wf_length_concat [OF assms(2)] wf_length_concat [OF s] in \<open>auto simp: xor_with_def stream_cell_def\<close>)
qed

lemma stream_ok_counter: "stream_ok W H (st\<lparr> rs_block_counter := c \<rparr>) = stream_ok W H st"
  by (simp add: stream_ok_def stream_ctx_def)

lemma ctr_cells:
  assumes "stream_ok W H st" and "\<And>g. g \<in> set gs \<Longrightarrow> wf_grid W H g"
  shows "concat (map to_flat (ctr_blocks xor_ref (ctx_stream (stream_ctx W H st)) (rs_block_counter st) gs)) =
    xor_with (stream_cell W H st) (concat (map to_flat gs))"
  using assms
proof (induction gs arbitrary: st)
  case (Cons g gs)
  let ?st = "st\<lparr> rs_block_counter := rs_block_counter st + 1 \<rparr>"
  have cx: "stream_ctx W H ?st = stream_ctx W H st" by (simp add: stream_ctx_def)
  have "ctr_blocks xor_ref (ctx_stream (stream_ctx W H st)) (rs_block_counter st) (g # gs) =
      xor_ref g (ctx_stream (stream_ctx W H st) (rs_block_counter st)) #
      ctr_blocks xor_ref (ctx_stream (stream_ctx W H ?st)) (rs_block_counter ?st) gs"
    using rex_ctr.blocks_append [of "stream_ctx W H st" "rs_block_counter st" "[g]" gs]
    by (simp add: cx) (simp add: ctr_blocks_def)
  moreover have "stream_cell W H ?st = (\<lambda>j. stream_cell W H st (W * H + j))"
    using stream_cell_step [OF stream_okD(4) [OF Cons.prems(1)], of st 1] by (auto simp: fun_eq_iff)
  moreover have "concat (map to_flat (ctr_blocks xor_ref (ctx_stream (stream_ctx W H ?st)) (rs_block_counter ?st) gs)) =
      xor_with (stream_cell W H ?st) (concat (map to_flat gs))"
    by (rule Cons.IH) (use Cons.prems in \<open>simp_all add: stream_ok_counter\<close>)
  moreover have "length (concat g) = W * H" using Cons.prems(2) by (simp add: wf_length_concat)
  ultimately show ?case
    using block_cells [OF Cons.prems(1), of g] Cons.prems(2)
    by (simp add: to_flat_concat [of g] to_flat_concat [of "xor_ref g s" for s] xor_with_append)
qed (simp add: ctr_blocks_def)

text \<open>The two halves of an update on a legal stream.\<close>

lemma full_block:
  assumes E: "env_ok E" and ok: "stream_ok W H st'" "stream_cell W H st' = stream_cell W H st"
    "stream_ctx W H st' = stream_ctx W H st" "rs_block_counter st' = rs_block_counter st"
    and xs: "length xs \<le> W * H"
  shows "\<exists>gs. rbind (from_flat W H xs) (\<lambda>g. stream_ctr E W H st' [g]) = Inr gs \<and>
    to_flat (gs ! 0) = xor_with (stream_cell W H st) (pad_block (W * H) xs)"
proof -
  note d = stream_okD(3) [OF ok(1)]
  let ?g = "chunks W (pad_block (W * H) xs)"
  have wf: "wf_grid W H ?g" by (rule wf_pad_block [OF d xs])
  have "concat ?g = pad_block (W * H) xs" using valid_dimsD [OF d] by simp
  with stream_ctr_eq [OF E ok(1), of "[?g]"] ctr_cells [OF ok(1), of "[?g]"] wf ok from_flat_block [OF d xs]
  show ?thesis by (simp add: to_flat_concat ctr_blocks_def)
qed

lemma xor_with_take: "take n (xor_with ks xs) = xor_with ks (take n xs)"
  by (rule nth_equalityI) (auto simp: xor_with_def)

lemma stream_buffer_simps [simp]:
  "stream_ctx W H (st\<lparr> rs_buffer := b \<rparr>) = stream_ctx W H st"
  "stream_cell W H (st\<lparr> rs_buffer := b \<rparr>) = stream_cell W H st"
  "stream_ctx W H (st\<lparr> rs_block_counter := c \<rparr>) = stream_ctx W H st"
  by (simp_all add: stream_ctx_def stream_cell_def fun_eq_iff)

lemma stream_cell_next:
  assumes "0 < W * H" "length out = W * H * n"
  shows "stream_cell W H (st\<lparr> rs_block_counter := rs_block_counter st + of_nat n, rs_buffer := b \<rparr>) j =
    stream_cell W H st (length out + j)"
  using stream_cell_step [OF assms(1), of st n j] assms(2) by (simp add: stream_cell_def)

text \<open>A step of the update: the output is a prefix of the encrypted input, the rest is carried on.\<close>

definition steps_to ::
  "nat \<Rightarrow> nat \<Rightarrow> rex_stream \<Rightarrow> i64 list \<Rightarrow> i64 list \<Rightarrow> i64 list \<Rightarrow> rex_stream \<Rightarrow> bool" where
  "steps_to W H st xs out ys st' \<longleftrightarrow>
     (\<forall>j. stream_cell W H st' j = stream_cell W H st (length out + j)) \<and>
     out @ xor_with (stream_cell W H st') ys = xor_with (stream_cell W H st) xs"

lemma steps_to_trans:
  assumes "steps_to W H st xs out1 ys st1" and "steps_to W H st1 ys out2 zs st2"
  shows "steps_to W H st xs (out1 @ out2) zs st2"
  using assms by (simp add: steps_to_def add.assoc)

lemma steps_toI:
  assumes "xs = as @ ys" and "out = xor_with (stream_cell W H st) as"
    and "\<And>j. stream_cell W H st' j = stream_cell W H st (length as + j)"
  shows "steps_to W H st xs out ys st'"
proof -
  have "stream_cell W H st' = (\<lambda>j. stream_cell W H st (length as + j))" using assms(3) by auto
  with assms show ?thesis by (simp add: steps_to_def xor_with_append)
qed

text \<open>The split a step describes is forced: XOR with the same keystream is injective.\<close>

lemma steps_to_split:
  assumes "steps_to W H st xs out ys st'"
  shows "out = xor_with (stream_cell W H st) (take (length out) xs)" and "ys = drop (length out) xs"
    and "length out + length ys = length xs"
proof -
  have eq: "out @ xor_with (stream_cell W H st') ys = xor_with (stream_cell W H st) xs"
    and k: "stream_cell W H st' = (\<lambda>j. stream_cell W H st (length out + j))"
    using assms by (auto simp: steps_to_def fun_eq_iff)
  show len: "length out + length ys = length xs" using arg_cong [OF eq, of length] by simp
  show out: "out = xor_with (stream_cell W H st) (take (length out) xs)"
    using arg_cong [OF eq, of "take (length out)"] by (simp add: xor_with_take)
  have "xor_with (stream_cell W H st) xs =
      xor_with (stream_cell W H st) (take (length out) xs) @ xor_with (stream_cell W H st') (drop (length out) xs)"
    using xor_with_append [of "stream_cell W H st" "take (length out) xs" "drop (length out) xs"] len k
    by (simp add: min_absorb2)
  with eq out have "xor_with (stream_cell W H st') ys = xor_with (stream_cell W H st') (drop (length out) xs)"
    by (metis append_eq_append_conv)
  then show "ys = drop (length out) xs" by (metis xor_with_cancel)
qed

lemma update_leftover_ok:
  assumes E: "env_ok E" and ok: "stream_ok W H st"
  shows "\<exists>out rest st1. update_leftover E W H st data = (Inr (out, rest), st1) \<and> stream_ok W H st1 \<and>
    steps_to W H st (rs_buffer st @ data) out (rs_buffer st1 @ rest) st1 \<and> (rs_buffer st1 = [] \<or> rest = []) \<and>
    (W * H) dvd length out"
proof (cases "rs_buffer st = []")
  case True
  then show ?thesis using ok by (simp add: update_leftover_def steps_to_def)
next
  case False
  note O = stream_okD [OF ok]
  define need where "need = W * H - length (rs_buffer st)"
  define buf where "buf = rs_buffer st @ take (min need (length data)) data"
  let ?st = "st\<lparr> rs_buffer := buf \<rparr>"
  have split: "rs_buffer st @ data = buf @ drop (min need (length data)) data" by (simp add: buf_def)
  have le: "length buf \<le> W * H" using O(2) by (auto simp: buf_def need_def)
  have upd: "update_leftover E W H st data =
      (if length buf = W * H
       then case rbind (from_flat W H buf) (\<lambda>g. stream_ctr E W H ?st [g]) of
              Inl e \<Rightarrow> (Inl e, ?st)
            | Inr gs \<Rightarrow> (Inr (to_flat (gs ! 0), drop (min need (length data)) data),
                ?st\<lparr> rs_block_counter := rs_block_counter ?st + 1, rs_buffer := [] \<rparr>)
       else (Inr ([], drop (min need (length data)) data), ?st))"
    unfolding update_leftover_def Let_def buf_def need_def if_not_P [OF False]
      if_P [OF less_imp_le [OF O(2)]] ..
  show ?thesis
  proof (cases "length buf = W * H")
    case True
    have ctr: "stream_ctr E W H ?st gs = stream_ctr E W H st gs" for gs by (simp add: stream_ctr_def)
    obtain gs where gs: "rbind (from_flat W H buf) (\<lambda>g. stream_ctr E W H ?st [g]) = Inr gs"
      "to_flat (gs ! 0) = xor_with (stream_cell W H st) buf"
      using full_block [OF E ok refl refl refl le] True unfolding ctr by (auto simp: pad_block_def)
    let ?st1 = "st\<lparr> rs_block_counter := rs_block_counter st + 1, rs_buffer := [] \<rparr>"
    have "update_leftover E W H st data =
        (Inr (to_flat (gs ! 0), drop (min need (length data)) data), ?st1)"
      using True gs(1) by (simp add: upd)
    moreover have "steps_to W H st (rs_buffer st @ data) (to_flat (gs ! 0))
        (drop (min need (length data)) data) ?st1"
      by (rule steps_toI [OF split gs(2)]) (use stream_cell_next [OF O(4), where out = buf and n = 1 and b = "[]"] True in simp)
    moreover have "stream_ok W H ?st1" using O(1,4) by (simp add: stream_ok_def)
    moreover have "length (to_flat (gs ! 0)) = W * H" using gs(2) True by simp
    ultimately show ?thesis by auto
  next
    case neq: False
    have rest: "drop (min need (length data)) data = []"
      using neq O(2) by (auto simp: buf_def need_def min_def split: if_splits)
    have "update_leftover E W H st data = (Inr ([], []), ?st)"
      using neq rest by (simp add: upd)
    moreover have "stream_ok W H ?st" using O(1) le neq by (simp add: stream_ok_def)
    ultimately show ?thesis using split rest by (auto simp: steps_to_def)
  qed
qed

lemma take_full_grids:
  assumes "valid_dims W H" and "length xs = n * (W * H)"
  shows "concat (map to_flat (input_grids W H xs)) = xs" "length (input_grids W H xs) = n"
  using input_grids_ok(3) [OF assms(1), of xs] valid_dimsD [OF assms(1)] assms(2)
  by (simp_all add: zero_pad_dvd input_grids_def length_chunks_mult)

lemma update_full_eq:
  fixes data :: "i64 list"
  assumes E: "env_ok E" and ok: "stream_ok W H st"
  defines "n \<equiv> length data div (W * H)"
  shows "update_full E W H st data =
    (Inr (xor_with (stream_cell W H st) (take (n * (W * H)) data), drop (n * (W * H)) data),
     st\<lparr> rs_block_counter := rs_block_counter st + of_nat n \<rparr>)"
proof (cases "0 < n")
  case False
  then show ?thesis using stream_okD(4) [OF ok] by (simp add: update_full_def n_def [symmetric])
next
  case True
  note O = stream_okD [OF ok]
  define xs where "xs = take (n * (W * H)) data"
  have "n * (W * H) \<le> length data" by (simp add: n_def)
  then have len: "length xs = n * (W * H)" by (simp add: xs_def)
  let ?gs = "input_grids W H xs"
  note gs = input_grids_ok [OF O(3), where input = xs]
  have "stream_ctr E W H st ?gs =
      Inr (ctr_blocks xor_ref (ctx_stream (stream_ctx W H st)) (rs_block_counter st) ?gs)"
    by (rule stream_ctr_eq [OF E ok gs(2)])
  moreover have "W * H \<noteq> 0" using O(4) by simp
  ultimately show ?thesis
    using gs(1) True ctr_cells [OF ok gs(2)] take_full_grids(1) [OF O(3) len]
    by (simp only: update_full_def n_def [symmetric] xs_def [symmetric] Let_def
        if_False if_True rbind.simps sum.case)
qed

lemma update_full_ok:
  assumes E: "env_ok E" and ok: "stream_ok W H st" and empty: "rs_buffer st = [] \<or> data = []"
  shows "\<exists>out rest st2. update_full E W H st data = (Inr (out, rest), st2) \<and>
    stream_ok W H (st2\<lparr> rs_buffer := rs_buffer st2 @ rest \<rparr>) \<and>
    steps_to W H st (rs_buffer st @ data) out (rs_buffer st2 @ rest) st2 \<and> (W * H) dvd length out"
proof -
  note O = stream_okD [OF ok]
  define n where "n = length data div (W * H)"
  let ?xs = "take (n * (W * H)) data"
  let ?st = "st\<lparr> rs_block_counter := rs_block_counter st + of_nat n \<rparr>"
  have len: "length ?xs = n * (W * H)" by (simp add: n_def)
  have "steps_to W H st (rs_buffer st @ data) (xor_with (stream_cell W H st) ?xs)
      (rs_buffer ?st @ drop (n * (W * H)) data) ?st"
  proof (cases "data = []")
    case True
    then show ?thesis by (simp add: n_def steps_to_def)
  next
    case False
    show ?thesis
      by (rule steps_toI [where as = ?xs])
        (use False empty stream_cell_step [OF O(4), of st n] len in \<open>simp_all add: mult.commute\<close>)
  qed
  moreover have "length data - n * (W * H) < W * H"
    using O(4) mod_less_divisor [of "W * H" "length data"] by (simp add: n_def minus_div_mult_eq_mod)
  then have "stream_ok W H (?st\<lparr> rs_buffer := rs_buffer st @ drop (n * (W * H)) data \<rparr>)"
    using O(1,2) empty by (auto simp: stream_ok_def)
  ultimately show ?thesis
    using update_full_eq [OF E ok, of data] len unfolding n_def [symmetric] by simp
qed

lemma stream_update_ok:
  assumes E: "env_ok E" and ok: "stream_ok W H st"
  shows "\<exists>out st'. stream_update E W H st data = (Inr out, st') \<and> stream_ok W H st' \<and>
    steps_to W H st (rs_buffer st @ data) out (rs_buffer st') st' \<and> (W * H) dvd length out"
proof -
  obtain out1 rest1 st1 where l: "update_leftover E W H st data = (Inr (out1, rest1), st1)"
    "stream_ok W H st1" "steps_to W H st (rs_buffer st @ data) out1 (rs_buffer st1 @ rest1) st1"
    "rs_buffer st1 = [] \<or> rest1 = []" "(W * H) dvd length out1"
    using update_leftover_ok [OF E ok] by blast
  obtain out2 rest2 st2 where f: "update_full E W H st1 rest1 = (Inr (out2, rest2), st2)"
    "stream_ok W H (st2\<lparr> rs_buffer := rs_buffer st2 @ rest2 \<rparr>)"
    "steps_to W H st1 (rs_buffer st1 @ rest1) out2 (rs_buffer st2 @ rest2) st2" "(W * H) dvd length out2"
    using update_full_ok [OF E l(2,4)] by blast
  from steps_to_trans [OF l(3) f(3)] f(2,4) l(5) show ?thesis
    by (simp add: stream_update_def l(1) f(1) steps_to_def)
qed

lemma stream_finalize_state:
  assumes E: "env_ok E" and ok: "stream_ok W H st"
  shows "snd (stream_finalize E W H st) =
    (if rs_buffer st = [] then st else st\<lparr> rs_block_counter := rs_block_counter st + 1, rs_buffer := [] \<rparr>)"
proof -
  obtain gs where "rbind (from_flat W H (rs_buffer st)) (\<lambda>g. stream_ctr E W H st [g]) = Inr gs"
    using full_block [OF E ok refl refl refl less_imp_le [OF stream_okD(2) [OF ok]]] by blast
  then show ?thesis by (simp add: stream_finalize_def)
qed

lemma stream_finalize_ok:
  assumes E: "env_ok E" and ok: "stream_ok W H st"
  shows "fst (stream_finalize E W H st) = Inr (xor_with (stream_cell W H st) (rs_buffer st))"
    and "stream_ok W H (snd (stream_finalize E W H st))"
    and "rs_buffer (snd (stream_finalize E W H st)) = []"
proof -
  note O = stream_okD [OF ok]
  obtain gs where "rbind (from_flat W H (rs_buffer st)) (\<lambda>g. stream_ctr E W H st [g]) = Inr gs"
    "to_flat (gs ! 0) = xor_with (stream_cell W H st) (pad_block (W * H) (rs_buffer st))"
    using full_block [OF E ok refl refl refl less_imp_le [OF O(2)]] by blast
  then show "fst (stream_finalize E W H st) = Inr (xor_with (stream_cell W H st) (rs_buffer st))"
    "stream_ok W H (snd (stream_finalize E W H st))" "rs_buffer (snd (stream_finalize E W H st)) = []"
    using O(1,4) ok by (auto simp: stream_finalize_def xor_with_take pad_block_def stream_ok_def)
qed

lemma div_ceiling_small: "r < d \<Longrightarrow> (r + (d - 1)) div d = (if r = 0 then 0 else 1)" for r d :: nat
  by (cases "r = 0") (auto intro!: div_nat_eqI)

text \<open>One whole message through a stream with nothing buffered: \<open>update\<close>, then \<open>finalize\<close>.\<close>

definition stream_message ::
  "('v, 'r) rex_env \<Rightarrow> nat \<Rightarrow> nat \<Rightarrow> rex_stream \<Rightarrow> i64 list \<Rightarrow> (fault + i64 list) \<times> rex_stream" where
  "stream_message E W H st data =
     (case stream_update E W H st data of
        (Inl e, st1) \<Rightarrow> (Inl e, st1)
      | (Inr out, st1) \<Rightarrow> (case stream_finalize E W H st1 of
            (Inl e, st2) \<Rightarrow> (Inl e, st2)
          | (Inr rest, st2) \<Rightarrow> (Inr (out @ rest), st2)))"

lemma stream_message_eq:
  fixes data :: "i64 list"
  assumes E: "env_ok E" and ok: "stream_ok W H st" and empty: "rs_buffer st = []"
  defines "n \<equiv> (length data + (W * H - 1)) div (W * H)"
  shows "stream_message E W H st data = (Inr (xor_with (stream_cell W H st) data),
    st\<lparr> rs_block_counter := rs_block_counter st + of_nat n \<rparr>)"
proof -
  note O = stream_okD [OF ok]
  define q where "q = length data div (W * H)"
  let ?rest = "drop (q * (W * H)) data"
  let ?st = "st\<lparr> rs_block_counter := rs_block_counter st + of_nat q, rs_buffer := ?rest \<rparr>"
  have up: "stream_update E W H st data = (Inr (xor_with (stream_cell W H st) (take (q * (W * H)) data)), ?st)"
    using update_full_eq [OF E ok, of data] empty unfolding q_def [symmetric]
    by (simp add: stream_update_def update_leftover_def)
  have r: "length ?rest = length data mod (W * H)" by (simp add: q_def minus_div_mult_eq_mod)
  have n: "n = (if ?rest = [] then q else Suc q)"
  proof -
    have d: "length data = q * (W * H) + length ?rest" by (simp add: r q_def)
    have "n = q + (length ?rest + (W * H - 1)) div (W * H)"
      unfolding n_def using O(4) by (subst d) (simp add: add.assoc)
    also have "(length ?rest + (W * H - 1)) div (W * H) = (if ?rest = [] then 0 else 1)"
    proof -
      have "length ?rest < W * H" using r mod_less_divisor [OF O(4), of "length data"] by linarith
      from div_ceiling_small [OF this] show ?thesis by (simp only: length_0_conv)
    qed
    finally show ?thesis by simp
  qed
  have ok2: "stream_ok W H ?st" using O(1,4) r by (simp add: stream_ok_def del: length_drop)
  have cat: "xor_with (stream_cell W H st) (take (q * (W * H)) data) @ xor_with (stream_cell W H ?st) ?rest =
      xor_with (stream_cell W H st) data"
  proof -
    let ?t = "take (q * (W * H)) data"
    have "length ?t = W * H * q" by (simp add: q_def mult.commute)
    then have "stream_cell W H ?st = (\<lambda>j. stream_cell W H st (length ?t + j))"
      using stream_cell_next [OF O(4), of ?t q] by blast
    with xor_with_append [of "stream_cell W H st" ?t ?rest] show ?thesis
      by (simp only: append_take_drop_id)
  qed
  have fin: "stream_finalize E W H ?st = (Inr (xor_with (stream_cell W H ?st) ?rest),
      st\<lparr> rs_block_counter := rs_block_counter st + of_nat n, rs_buffer := [] \<rparr>)"
    using stream_finalize_ok(1) [OF E ok2] stream_finalize_state [OF E ok2] n empty
    by (auto simp: prod_eq_iff ac_simps simp del: drop_eq_Nil)
  show ?thesis unfolding stream_message_def up fin prod.case sum.case cat by (simp add: empty)
qed

lemma stream_new_ok:
  assumes "env_ok E" and "W < 2 ^ 64" and "wf_grid W H key" and "wf_grid W H nonce"
  obtains st where "stream_new E W H key nonce = Inr st" "stream_ok W H st" "rs_buffer st = []"
    "stream_ctx W H st = key_ctx E W H key nonce" "rs_block_counter st = 0"
proof -
  note d = wf_gridD(1) [OF assms(3)]
  let ?k = "key_ctx E W H key nonce"
  let ?st = "\<lparr> rs_round_keys = cx_keys ?k, rs_round_shifts = cx_shifts ?k, rs_nonce = nonce,
    rs_block_counter = 0, rs_buffer = [] \<rparr>"
  note k = key_ctx_ok [OF assms(1) d assms(2), where key = key and nonce = nonce]
  have cx: "stream_ctx W H ?st = ?k"
    by (rule ctr_ctx.equality) (simp_all add: stream_ctx_def key_ctx_def Let_def)
  have "stream_new E W H key nonce = Inr ?st" using k by (simp add: stream_new_def)
  moreover have "stream_ok W H ?st" using k(3) [OF assms(4)] cx valid_dimsD [OF d] by (simp add: stream_ok_def)
  ultimately show ?thesis using cx that by auto
qed

definition sited_live :: "('v, 'r) sited \<Rightarrow> bool" where
  "sited_live = (\<lambda>(E, W, H, st). env_ok E \<and> stream_ok W H st)"

definition sited_ks :: "('v, 'r) sited \<Rightarrow> nat \<Rightarrow> i64" where
  "sited_ks = (\<lambda>(E, W, H, st). stream_cell W H st)"

definition sited_pending :: "('v, 'r) sited \<Rightarrow> i64 list" where
  "sited_pending = (\<lambda>(E, W, H, st). rs_buffer st)"

definition sited_update :: "('v, 'r) sited \<Rightarrow> i64 list \<Rightarrow> (fault + i64 list) \<times> ('v, 'r) sited" where
  "sited_update = (\<lambda>(E, W, H, st) d. let (r, st') = stream_update E W H st d in (r, (E, W, H, st')))"

definition sited_finalize :: "('v, 'r) sited \<Rightarrow> (fault + i64 list) \<times> ('v, 'r) sited" where
  "sited_finalize = (\<lambda>(E, W, H, st). let (r, st') = stream_finalize E W H st in (r, (E, W, H, st')))"

lemmas sited_defs = sited_live_def sited_ks_def sited_pending_def sited_update_def sited_finalize_def

interpretation rex: cell_stream sited_live sited_ks sited_pending sited_update sited_finalize
proof unfold_locales
  fix s :: "('v, 'r) sited" and d
  assume live: "sited_live s"
  obtain E W H st where s: "s = (E, W, H, st)" by (cases s)
  with live have E: "env_ok E" "stream_ok W H st" by (simp_all add: sited_live_def)
  from stream_update_ok [OF E, of d]
  show "\<exists>out s'. sited_update s d = (Inr out, s') \<and> sited_live s' \<and>
      (\<forall>j. sited_ks s' j = sited_ks s (length out + j)) \<and>
      out @ xor_with (sited_ks s') (sited_pending s') = xor_with (sited_ks s) (sited_pending s @ d)"
    using E(1) by (auto simp: s sited_defs steps_to_def)
  from stream_finalize_ok(1) [OF E]
  show "fst (sited_finalize s) = Inr (xor_with (sited_ks s) (sited_pending s))"
    by (simp add: s sited_defs case_prod_beta Let_def)
qed

lemma run_sited:
  "run_stream sited_update sited_finalize (E, W, H, st) ds =
   run_stream (stream_update E W H) (stream_finalize E W H) st ds"
  by (induction ds arbitrary: st)
    (auto simp: sited_update_def sited_finalize_def case_prod_beta Let_def split: prod.splits sum.splits)

section \<open>Properties of the stream\<close>

text \<open>
  Every \<open>update\<close> and \<open>finalize\<close> of a legal stream succeeds and keeps it legal, with
  less than one grid buffered. The output of an update is the encrypted prefix of what was buffered and
  given, whole grids only, and the rest stays in the buffer unencrypted.
\<close>

theorem stream_update_invariant:
  assumes "env_ok E" and "stream_ok W H st"
  shows "(\<exists>out st'. stream_update E W H st data = (Inr out, st') \<and> stream_ok W H st' \<and>
      length (rs_buffer st') < W * H \<and> (W * H) dvd length out \<and>
      length out + length (rs_buffer st') = length (rs_buffer st) + length data \<and>
      out = xor_with (stream_cell W H st) (take (length out) (rs_buffer st @ data)) \<and>
      rs_buffer st' = drop (length out) (rs_buffer st @ data)) \<and>
    (\<exists>out st'. stream_finalize E W H st = (Inr out, st') \<and> stream_ok W H st' \<and> rs_buffer st' = [] \<and>
      length out = length (rs_buffer st))"
proof (rule conjI)
  obtain out st' where u: "stream_update E W H st data = (Inr out, st')" "stream_ok W H st'"
    "steps_to W H st (rs_buffer st @ data) out (rs_buffer st') st'" "(W * H) dvd length out"
    using stream_update_ok [OF assms, of data] by blast
  note step = steps_to_split [OF u(3)]
  show "\<exists>out st'. stream_update E W H st data = (Inr out, st') \<and> stream_ok W H st' \<and>
      length (rs_buffer st') < W * H \<and> (W * H) dvd length out \<and>
      length out + length (rs_buffer st') = length (rs_buffer st) + length data \<and>
      out = xor_with (stream_cell W H st) (take (length out) (rs_buffer st @ data)) \<and>
      rs_buffer st' = drop (length out) (rs_buffer st @ data)"
    using u stream_okD(2) [OF u(2)] step by (intro exI [of _ out] exI [of _ st']) simp
  show "\<exists>out st'. stream_finalize E W H st = (Inr out, st') \<and> stream_ok W H st' \<and> rs_buffer st' = [] \<and>
      length out = length (rs_buffer st)"
    using stream_finalize_ok [OF assms]
    by (intro exI [of _ "xor_with (stream_cell W H st) (rs_buffer st)"] exI [of _ "snd (stream_finalize E W H st)"])
      (simp add: prod_eq_iff)
qed

theorem stream_update_invariant_witness:
  "\<exists>st out st'. stream_new ref_env 2 4 (replicate 4 [1, 2]) (replicate 4 [3, 4]) = Inr st \<and>
     stream_update ref_env 2 4 st [1, 2, 3, 4, 5, 6, 7, 8, 9] = (Inr out, st') \<and> length (rs_buffer st') < 8"
proof -
  have wf: "wf_grid 2 4 (replicate 4 [a, b])" for a b
    by (simp add: wf_grid_def valid_dims_def) (simp add: rect_def)
  obtain st where st: "stream_new ref_env 2 4 (replicate 4 [1, 2]) (replicate 4 [3, 4]) = Inr st" "stream_ok 2 4 st"
    by (rule stream_new_ok [OF env_ok_ref _ wf wf]) simp_all
  from stream_update_invariant [OF env_ok_ref st(2), of "[1, 2, 3, 4, 5, 6, 7, 8, 9]"] st(1)
  show ?thesis by auto
qed

text \<open>
  C3 (stream_chunking_roundtrip). Two streams made from the same key and nonce: whatever pieces the
  plaintext is fed in, and whatever pieces the ciphertext is fed back in, the second stream returns the
  plaintext exactly, without padding, and the ciphertext does not depend on how the plaintext was cut.
\<close>

theorem stream_chunking_roundtrip:
  assumes "env_ok E" and "W < 2 ^ 64" and "wf_grid W H key" and "wf_grid W H nonce"
  shows "\<exists>st c. stream_new E W H key nonce = Inr st \<and>
    run_stream (stream_update E W H) (stream_finalize E W H) st pieces = Inr c \<and>
    length c = length (concat pieces) \<and>
    (\<forall>pieces'. concat pieces' = concat pieces \<longrightarrow>
       run_stream (stream_update E W H) (stream_finalize E W H) st pieces' = Inr c) \<and>
    (\<forall>back. concat back = c \<longrightarrow>
       run_stream (stream_update E W H) (stream_finalize E W H) st back = Inr (concat pieces))"
proof -
  obtain st where st: "stream_new E W H key nonce = Inr st" "stream_ok W H st" "rs_buffer st = []"
    by (rule stream_new_ok [OF assms])
  then have live: "sited_live (E, W, H, st)" using assms(1) by (simp add: sited_live_def)
  note run = rex.run_ok [OF live] run_sited
  from st(3) have "sited_pending (E, W, H, st) = []" by (simp add: sited_pending_def)
  with st(1) show ?thesis
    by (intro exI [of _ st] exI [of _ "xor_with (stream_cell W H st) (concat pieces)"])
      (auto simp: run [symmetric] rex.run_ok [OF live] sited_ks_def xor_with_cancel)
qed

theorem stream_chunking_roundtrip_witness:
  "\<exists>st c. stream_new ref_env 2 4 (replicate 4 [1, 2]) (replicate 4 [3, 4]) = Inr st \<and>
     run_stream (stream_update ref_env 2 4) (stream_finalize ref_env 2 4) st [[1, 2, 3], [], [4, 5, 6, 7, 8, 9, 10]] = Inr c \<and>
     run_stream (stream_update ref_env 2 4) (stream_finalize ref_env 2 4) st [take 9 c, drop 9 c] =
       Inr [1, 2, 3, 4, 5, 6, 7, 8, 9, 10]"
proof -
  have wf: "wf_grid 2 4 (replicate 4 [a, b])" for a b
    by (simp add: wf_grid_def valid_dims_def) (simp add: rect_def)
  obtain st c where "stream_new ref_env 2 4 (replicate 4 [1, 2]) (replicate 4 [3, 4]) = Inr st"
    "run_stream (stream_update ref_env 2 4) (stream_finalize ref_env 2 4) st [[1, 2, 3], [], [4, 5, 6, 7, 8, 9, 10]] = Inr c"
    and inverse: "\<And>back. concat back = c \<Longrightarrow> run_stream (stream_update ref_env 2 4) (stream_finalize ref_env 2 4) st back =
      Inr (concat [[1, 2, 3], [], [4, 5, 6, 7, 8, 9, 10]])"
    using stream_chunking_roundtrip [OF env_ok_ref _ wf wf, of 1 2 3 4 "[[1, 2, 3], [], [4, 5, 6, 7, 8, 9, 10]]"]
    by (auto simp del: run_stream.simps)
  with inverse [of "[take 9 c, drop 9 c]"] show ?thesis
    by (intro exI [of _ st] exI [of _ c]) (simp del: run_stream.simps)
qed

text \<open>
  The stream and the one-shot \<open>encrypt\<close> are the same cipher: the cells a
  stream puts out for an input are the first cells of the grids \<open>encrypt\<close> returns for it under the nonce it drew.
\<close>

theorem stream_agrees_with_encrypt:
  assumes "env_ok E" and "valid_dims W H" and "W < 2 ^ 64" and "length key = 2 * (W * H)"
  shows "\<exists>d st. encrypt E W H (concat pieces) (Some key) ks (Some seed) = Inr d \<and>
    stream_new E W H (ed_key d) (ed_nonce d) = Inr st \<and>
    run_stream (stream_update E W H) (stream_finalize E W H) st pieces =
      Inr (take (length (concat pieces)) (concat (map to_flat (ed_output d))))"
proof -
  let ?in = "concat pieces"
  obtain kg nonce where kg: "wf_grid W H kg" and nonce: "wf_grid W H nonce"
    and enc: "encrypt E W H ?in (Some key) ks (Some seed) = Inr \<lparr>
       ed_output = ctr_blocks xor_ref (ctx_stream (key_ctx E W H kg nonce)) 0 (input_grids W H ?in),
       ed_key = kg, ed_nonce = nonce \<rparr>"
    by (rule encrypt_eq [OF assms])
  obtain st where st: "stream_new E W H kg nonce = Inr st" "stream_ok W H st" "rs_buffer st = []"
    "stream_ctx W H st = key_ctx E W H kg nonce" "rs_block_counter st = 0"
    by (rule stream_new_ok [OF assms(1,3) kg nonce])
  then have live: "sited_live (E, W, H, st)" using assms(1) by (simp add: sited_live_def)
  have "run_stream (stream_update E W H) (stream_finalize E W H) st pieces = Inr (xor_with (stream_cell W H st) ?in)"
    using rex.run_ok [OF live, of pieces] st(3) by (simp add: run_sited sited_ks_def sited_pending_def)
  moreover have "concat (map to_flat (ctr_blocks xor_ref (ctx_stream (key_ctx E W H kg nonce)) 0 (input_grids W H ?in))) =
      xor_with (stream_cell W H st) (zero_pad (W * H) ?in)"
    using ctr_cells [OF st(2) input_grids_ok(2) [OF assms(2)]] st(4,5) input_grids_ok(3) [OF assms(2)] by simp
  ultimately show ?thesis using st(1) unfolding enc by (simp add: xor_with_take zero_pad_def)
qed

theorem stream_agrees_with_encrypt_witness:
  "\<exists>d st. encrypt ref_env 2 4 [1, 2, 3] (Some (replicate 16 5)) None (Some []) = Inr d \<and>
    stream_new ref_env 2 4 (ed_key d) (ed_nonce d) = Inr st \<and>
    run_stream (stream_update ref_env 2 4) (stream_finalize ref_env 2 4) st [[1], [2, 3]] =
      Inr (take 3 (concat (map to_flat (ed_output d))))"
  using stream_agrees_with_encrypt [OF env_ok_ref, of 2 4 "replicate 16 5" "[[1], [2, 3]]" None "[]"]
  by (auto simp: valid_dims_def numeral_3_eq_3 simp del: run_stream.simps)

end
