(* ===== verification/Auth.thy ===== *)
theory Auth
  imports Rex_Stream
begin

text \<open>
  \<open>core/src/auth.rs\<close>: the encrypt-then-MAC package, its byte layout tag, nonce, ciphertext, and the
  parser that accepts it back. The lemmas show that parsing inverts serializing in both
  directions, that exactly the byte strings of a legal length parse, and that \<open>open\<close> hands out a
  ciphertext only under the tag the HMAC of the received nonce and ciphertext demands.
\<close>

record authenticated_data =
  ad_mac :: "u8 list"
  ad_encrypted_data :: encrypted_data

record authenticated_packet =
  ap_mac :: "u8 list"
  ap_nonce :: grid
  ap_output :: "grid list"

section \<open>The MAC\<close>

text \<open>
  \<open>compute_mac\<close> returns the HMAC state; keyed with \<open>mac_key\<close>, it is the bytes fed so far. A key of 32 bytes is
  never refused, so the \<open>expect\<close> cannot fail.
\<close>

definition feed_grid :: "grid \<Rightarrow> u8 list \<Rightarrow> u8 list" where
  "feed_grid g fed = fold (\<lambda>row fed. fold (\<lambda>val fed. fed @ to_be_bytes val) row fed) g fed"

definition compute_mac :: "grid \<Rightarrow> grid list \<Rightarrow> u8 list" where
  "compute_mac nonce output = fold feed_grid output (feed_grid nonce [])"

definition authenticate :: "('v, 'r) rex_env \<Rightarrow> encrypted_data \<Rightarrow> u8 list \<Rightarrow> authenticated_data" where
  "authenticate E d mac_key =
     \<lparr> ad_mac = hmac_sha256 E mac_key (compute_mac (ed_nonce d) (ed_output d)), ad_encrypted_data = d \<rparr>"

definition data_verify :: "('v, 'r) rex_env \<Rightarrow> authenticated_data \<Rightarrow> u8 list \<Rightarrow> bool" where
  "data_verify E a mac_key =
     hmac_verify E mac_key (compute_mac (ed_nonce (ad_encrypted_data a)) (ed_output (ad_encrypted_data a))) (ad_mac a)"

definition packet_verify :: "('v, 'r) rex_env \<Rightarrow> authenticated_packet \<Rightarrow> u8 list \<Rightarrow> bool" where
  "packet_verify E p mac_key = hmac_verify E mac_key (compute_mac (ap_nonce p) (ap_output p)) (ap_mac p)"

definition packet_open ::
  "('v, 'r) rex_env \<Rightarrow> authenticated_packet \<Rightarrow> u8 list \<Rightarrow> grid \<Rightarrow> encrypted_data option" where
  "packet_open E p mac_key key =
     (if \<not> packet_verify E p mac_key then None
      else Some \<lparr> ed_output = ap_output p, ed_key = key, ed_nonce = ap_nonce p \<rparr>)"

section \<open>Bytes\<close>

definition auth_to_bytes :: "authenticated_data \<Rightarrow> u8 list" where
  "auth_to_bytes a =
     fold feed_grid (ed_output (ad_encrypted_data a)) (feed_grid (ed_nonce (ad_encrypted_data a)) (ad_mac a))"

definition packet_try_from :: "nat \<Rightarrow> nat \<Rightarrow> u8 list \<Rightarrow> fault + authenticated_packet" where
  "packet_try_from W H bytes =
     (let grid_size = W * H * 8 in
      if length bytes < 32 + grid_size then Inl (Err (InvalidByteLength grid_size (length bytes)))
      else rbind (from_bytes W H (drop 32 bytes)) (\<lambda>grids. case grids of
             [] \<Rightarrow> Inl Panic
           | nonce # output \<Rightarrow> Inr \<lparr> ap_mac = take 32 bytes, ap_nonce = nonce, ap_output = output \<rparr>))"

section \<open>Layout\<close>

lemma feed_grid_eq: "feed_grid g fed = fed @ grid_bytes g"
proof -
  have row: "fold (\<lambda>val fed. fed @ to_be_bytes val) row fed = fed @ concat (map to_be_bytes row)" for row fed
    by (induction row arbitrary: fed) auto
  show ?thesis unfolding feed_grid_def
    by (induction g arbitrary: fed) (auto simp: row grid_bytes_def)
qed

lemma feed_grids_eq: "fold feed_grid gs fed = fed @ concat (map grid_bytes gs)"
  by (induction gs arbitrary: fed) (simp_all add: feed_grid_eq)

lemma compute_mac_eq: "compute_mac nonce output = concat (map grid_bytes (nonce # output))"
  by (simp add: compute_mac_def feed_grids_eq feed_grid_eq)

lemma auth_to_bytes_eq:
  "auth_to_bytes a = ad_mac a @ concat (map grid_bytes (ed_nonce (ad_encrypted_data a) # ed_output (ad_encrypted_data a)))"
  by (simp add: auth_to_bytes_def feed_grids_eq feed_grid_eq)

lemma length_grids_bytes:
  "(\<And>g. g \<in> set gs \<Longrightarrow> wf_grid W H g) \<Longrightarrow> length (concat (map grid_bytes gs)) = length gs * (W * H * 8)"
proof (induction gs)
  case (Cons g gs)
  then have "rect W H g" by (simp add: wf_grid_def)
  with Cons show ?case by (simp add: length_grid_bytes)
qed simp

lemma packet_try_from_bytes:
  assumes "length tag = 32" and "wf_grid W H nonce" and "\<And>g. g \<in> set gs \<Longrightarrow> wf_grid W H g"
  shows "packet_try_from W H (tag @ concat (map grid_bytes (nonce # gs))) =
    Inr \<lparr> ap_mac = tag, ap_nonce = nonce, ap_output = gs \<rparr>"
proof -
  have wf: "wf_grid W H g" if "g \<in> set (nonce # gs)" for g using assms that by auto
  have "from_bytes W H (concat (map grid_bytes (nonce # gs))) = Inr (nonce # gs)"
    by (rule from_bytes_grids [OF wf_gridD(1) [OF assms(2)] wf])
  then show ?thesis
    using assms(1) length_grids_bytes [of "nonce # gs", OF wf]
    by (simp add: packet_try_from_def Let_def)
qed

text \<open>Reading bytes as grids loses nothing: the grids give the bytes back.\<close>

lemma chunk_grid_inverse:
  assumes "valid_dims W H" and "length bs = W * H * 8"
  obtains g where "chunk_grid W H bs = Inr g" "wf_grid W H g" "grid_bytes g = bs"
proof -
  let ?cell = "\<lambda>k. from_be_bytes (take 8 (drop (k * 8) bs))"
  let ?g = "map (\<lambda>j. map (\<lambda>i. ?cell (j * W + i)) [0..<W]) [0..<H]"
  have wf: "wf_grid W H ?g" using assms(1) by (auto simp: wf_grid_def rect_def)
  have "concat ?g = map ?cell [0..<W * H]"
  proof (rule nth_equalityI)
    show "length (concat ?g) = length (map ?cell [0..<W * H])"
      using wf_length_concat [OF wf] by simp
    fix k assume "k < length (concat ?g)"
    then have k: "k < W * H" using wf_length_concat [OF wf] by simp
    then have W: "0 < W" by (cases W) auto
    have "concat ?g ! (k div W * W + k mod W) = ?g ! (k div W) ! (k mod W)"
      by (rule nth_concat_rect [of W H])
        (use wf k W in \<open>auto simp: wf_grid_def less_mult_imp_div_less mult.commute\<close>)
    then have "concat ?g ! k = ?g ! (k div W) ! (k mod W)" by simp
    also have "\<dots> = ?cell (k div W * W + k mod W)"
    proof -
      have "k div W < H" "k mod W < W"
        using k W by (simp_all add: less_mult_imp_div_less mult.commute)
      then show ?thesis by (simp only: nth_map length_upt nth_upt diff_zero add_0)
    qed
    also have "\<dots> = map ?cell [0..<W * H] ! k" using k by simp
    finally show "concat ?g ! k = map ?cell [0..<W * H] ! k" .
  qed
  then have "grid_bytes ?g = concat (map to_be_bytes (map ?cell [0..<W * H]))"
    by (simp add: grid_bytes_concat)
  also have "map to_be_bytes (map ?cell [0..<W * H]) = chunks 8 bs"
    using assms(2) by (intro nth_equalityI) (simp_all add: length_chunks_mult nth_chunks [of 8 bs "W * H"])
  finally have "grid_bytes ?g = bs" by simp
  with wf show ?thesis using that chunk_grid_ok [OF assms(1), of bs] by blast
qed

lemma chunk_grids_inverse:
  assumes "valid_dims W H" and "\<And>bs. bs \<in> set bss \<Longrightarrow> length bs = W * H * 8"
  shows "\<exists>gs. collect_result (map (chunk_grid W H) bss) = Inr gs \<and> length gs = length bss \<and>
    (\<forall>g \<in> set gs. wf_grid W H g) \<and> concat (map grid_bytes gs) = concat bss"
  using assms(2)
proof (induction bss)
  case (Cons bs bss)
  obtain g where g: "chunk_grid W H bs = Inr g" "wf_grid W H g" "grid_bytes g = bs"
    by (rule chunk_grid_inverse [OF assms(1)]) (use Cons.prems in auto)
  from Cons obtain gs where "collect_result (map (chunk_grid W H) bss) = Inr gs" "length gs = length bss"
    "\<forall>g \<in> set gs. wf_grid W H g" "concat (map grid_bytes gs) = concat bss" by auto
  with g show ?case by (intro exI [of _ "g # gs"]) simp
qed simp

lemma from_bytes_inverse:
  assumes "valid_dims W H" and "(W * H * 8) dvd length bytes"
  obtains gs where "from_bytes W H bytes = Inr gs" "length gs * (W * H * 8) = length bytes"
    "\<forall>g \<in> set gs. wf_grid W H g" "concat (map grid_bytes gs) = bytes"
proof -
  have pos: "0 < W * H * 8" using valid_dimsD [OF assms(1)] by simp
  obtain gs where gs: "collect_result (map (chunk_grid W H) (chunks (W * H * 8) bytes)) = Inr gs"
    "\<forall>g \<in> set gs. wf_grid W H g" "concat (map grid_bytes gs) = concat (chunks (W * H * 8) bytes)"
    using chunk_grids_inverse [OF assms(1) chunks_exact_length [OF assms(2)]] by blast
  have "concat (map grid_bytes gs) = bytes" using gs(3) pos by simp
  moreover from this have "length gs * (W * H * 8) = length bytes"
    using length_grids_bytes [of gs W H] gs(2) by simp
  moreover have "from_bytes W H bytes = Inr gs"
    using gs(1) pos assms(2) by (simp add: from_bytes_def Let_def)
  ultimately show ?thesis using that gs(2) by blast
qed

text \<open>The parser accepts exactly a tag, a nonce grid and whole grids after it.\<close>

lemma packet_try_from_cases:
  assumes "valid_dims W H"
  shows "(\<exists>p. packet_try_from W H bytes = Inr p \<and> length (ap_mac p) = 32 \<and> wf_grid W H (ap_nonce p) \<and>
      (\<forall>g \<in> set (ap_output p). wf_grid W H g) \<and>
      bytes = ap_mac p @ concat (map grid_bytes (ap_nonce p # ap_output p)) \<and>
      32 + W * H * 8 \<le> length bytes \<and> (W * H * 8) dvd (length bytes - 32)) \<or>
    (packet_try_from W H bytes = Inl (Err (InvalidByteLength (W * H * 8) (length bytes))) \<and>
      length bytes < 32 + W * H * 8) \<or>
    (packet_try_from W H bytes = Inl (Err (InvalidByteLength (W * H * 8) (length bytes - 32))) \<and>
      \<not> (W * H * 8) dvd (length bytes - 32))"
proof (cases "length bytes < 32 + W * H * 8")
  case True
  then show ?thesis by (simp add: packet_try_from_def)
next
  case long: False
  have pos: "W * H * 8 \<noteq> 0" using valid_dimsD [OF assms] by simp
  show ?thesis
  proof (cases "(W * H * 8) dvd (length bytes - 32)")
    case False
    then have "from_bytes W H (drop 32 bytes) = Inl (Err (InvalidByteLength (W * H * 8) (length bytes - 32)))"
      using pos by (simp add: from_bytes_def Let_def dvd_eq_mod_eq_0)
    with False long show ?thesis by (simp add: packet_try_from_def Let_def)
  next
    case dvd: True
    then obtain gs where gs: "from_bytes W H (drop 32 bytes) = Inr gs"
      "length gs * (W * H * 8) = length (drop 32 bytes)" "\<forall>g \<in> set gs. wf_grid W H g"
      "concat (map grid_bytes gs) = drop 32 bytes"
      using from_bytes_inverse [OF assms, of "drop 32 bytes"] by auto
    have "0 < length (drop 32 bytes)" unfolding length_drop using long pos by linarith
    with gs(2) obtain nonce out where c: "gs = nonce # out" by (cases gs) auto
    have "packet_try_from W H bytes = Inr \<lparr> ap_mac = take 32 bytes, ap_nonce = nonce, ap_output = out \<rparr>"
      using gs(1) long by (simp add: packet_try_from_def Let_def c)
    moreover have "take 32 bytes @ concat (map grid_bytes (nonce # out)) = bytes"
      using gs(4) by (simp only: c append_take_drop_id)
    moreover have "length (take 32 bytes) = 32" using long by simp
    moreover have "wf_grid W H nonce" "\<forall>g \<in> set out. wf_grid W H g" using gs(3) c by auto
    ultimately show ?thesis using dvd long by auto
  qed
qed

lemma packet_open_eq:
  "env_ok E \<Longrightarrow> packet_open E p mac_key key =
    (if ap_mac p = hmac_sha256 E mac_key (concat (map grid_bytes (ap_nonce p # ap_output p)))
     then Some \<lparr> ed_output = ap_output p, ed_key = key, ed_nonce = ap_nonce p \<rparr> else None)"
  by (simp add: packet_open_def packet_verify_def hmac_verify_iff compute_mac_eq)

lemma transmit_open:
  assumes "env_ok E" and "wf_grid W H nonce" and "\<And>g. g \<in> set gs \<Longrightarrow> wf_grid W H g"
  shows "\<exists>p. packet_try_from W H (auth_to_bytes (authenticate E
      \<lparr> ed_output = gs, ed_key = key, ed_nonce = nonce \<rparr> mac_key)) = Inr p \<and>
    packet_open E p mac_key key' = Some \<lparr> ed_output = gs, ed_key = key', ed_nonce = nonce \<rparr>"
  using packet_try_from_bytes [OF length_hmac [OF assms(1), of mac_key "compute_mac nonce gs"] assms(2,3)]
  by (simp add: auth_to_bytes_eq authenticate_def packet_open_eq assms(1) compute_mac_eq)

section \<open>Properties of the authenticated package\<close>

text \<open>
  C4 (authenticated_delivery). The whole chain: what a sender encrypts, authenticates and
  serializes, a receiver with the same keys parses, opens and decrypts to the input with the zeroes that complete
  the last grid.
\<close>

theorem authenticated_delivery:
  assumes "env_ok E" and "valid_dims W H" and "W < 2 ^ 64" and "length key = 2 * (W * H)"
  shows "\<exists>d p d' r. encrypt E W H input (Some key) ks (Some seed) = Inr d \<and>
    packet_try_from W H (auth_to_bytes (authenticate E d mac_key)) = Inr p \<and>
    packet_open E p mac_key (ed_key d) = Some d' \<and>
    decrypt E W H d' = Inr r \<and> dd_output r = zero_pad (W * H) input"
proof -
  obtain kg nonce where kg: "wf_grid W H kg" and nonce: "wf_grid W H nonce"
    and enc: "encrypt E W H input (Some key) ks (Some seed) = Inr \<lparr>
       ed_output = ctr_blocks xor_ref (ctx_stream (key_ctx E W H kg nonce)) 0 (input_grids W H input),
       ed_key = kg, ed_nonce = nonce \<rparr>"
    by (rule encrypt_eq [OF assms])
  let ?gs = "ctr_blocks xor_ref (ctx_stream (key_ctx E W H kg nonce)) 0 (input_grids W H input)"
  have wf: "wf_grid W H g" if "g \<in> set ?gs" for g
    using rex_ctr.blocks_good [OF key_ctx_ok(3) [OF assms(1-3) nonce] _ that] input_grids_ok(2) [OF assms(2)] by simp
  obtain p where "packet_try_from W H (auth_to_bytes (authenticate E
      \<lparr> ed_output = ?gs, ed_key = kg, ed_nonce = nonce \<rparr> mac_key)) = Inr p"
    "packet_open E p mac_key kg = Some \<lparr> ed_output = ?gs, ed_key = kg, ed_nonce = nonce \<rparr>"
    using transmit_open [OF assms(1) nonce, of ?gs kg mac_key kg] wf by blast
  moreover have "decrypt E W H \<lparr> ed_output = ?gs, ed_key = kg, ed_nonce = nonce \<rparr> =
      Inr \<lparr> dd_output = zero_pad (W * H) input, dd_key = concat kg \<rparr>"
    using decrypt_encrypted [OF assms(1-3) nonce, of "input_grids W H input" kg] input_grids_ok [OF assms(2)] by simp
  ultimately show ?thesis unfolding enc by auto
qed

theorem authenticated_delivery_witness:
  "\<exists>d p d' r. encrypt ref_env 2 4 [7] (Some (replicate 16 5)) None (Some []) = Inr d \<and>
    packet_try_from 2 4 (auth_to_bytes (authenticate ref_env d (replicate 32 9))) = Inr p \<and>
    packet_open ref_env p (replicate 32 9) (ed_key d) = Some d' \<and>
    decrypt ref_env 2 4 d' = Inr r \<and> hd (dd_output r) = 7"
proof -
  have "hd (zero_pad (2 * 4) [7]) = 7" by (simp add: zero_pad_def)
  with authenticated_delivery [OF env_ok_ref, of 2 4 "replicate 16 5" "[7]" None "[]" "replicate 32 9"]
  show ?thesis by (fastforce simp: valid_dims_def)
qed

text \<open>
  The parser accepts a byte string exactly when it is a 32-byte tag, a nonce
  grid and a whole number of grids; then serializing the parsed fields gives the same bytes back, so no two byte
  strings parse to the same packet. Every other length is the documented error, and nothing panics.
\<close>

theorem packet_parser_canonical:
  assumes "valid_dims W H"
  shows "if 32 + W * H * 8 \<le> length bytes \<and> (W * H * 8) dvd (length bytes - 32)
    then \<exists>p. packet_try_from W H bytes = Inr p \<and> length (ap_mac p) = 32 \<and>
      wf_grid W H (ap_nonce p) \<and> (\<forall>g \<in> set (ap_output p). wf_grid W H g) \<and>
      auth_to_bytes \<lparr> ad_mac = ap_mac p, ad_encrypted_data =
        \<lparr> ed_output = ap_output p, ed_key = key, ed_nonce = ap_nonce p \<rparr> \<rparr> = bytes
    else \<exists>n. packet_try_from W H bytes = Inl (Err (InvalidByteLength (W * H * 8) n))"
  using packet_try_from_cases [OF assms, of bytes] by (auto simp: auth_to_bytes_eq)

theorem packet_parser_canonical_witness:
  "(\<exists>p. packet_try_from 2 4 (replicate 96 1) = Inr p) \<and>
   (\<exists>n. packet_try_from 2 4 (replicate 97 1) = Inl (Err (InvalidByteLength 64 n)))"
  using packet_parser_canonical [of 2 4 "replicate 96 1"] packet_parser_canonical [of 2 4 "replicate 97 1"]
  by (auto simp: valid_dims_def)

text \<open>
  C7 (open_only_authentic). \<open>open\<close> releases the ciphertext of a received packet exactly when its tag is the HMAC
  of the received nonce and ciphertext bytes under the MAC key; with any other tag it returns nothing, and the data
  it releases is the received data with the key the receiver supplied.
\<close>

theorem open_only_authentic:
  assumes "env_ok E" and "valid_dims W H" and "packet_try_from W H bytes = Inr p"
  shows "packet_open E p mac_key key =
    (if take 32 bytes = hmac_sha256 E mac_key (drop 32 bytes)
     then Some \<lparr> ed_output = ap_output p, ed_key = key, ed_nonce = ap_nonce p \<rparr> else None)"
proof -
  from packet_try_from_cases [OF assms(2), of bytes] assms(3)
  have len: "length (ap_mac p) = 32" and b: "bytes = ap_mac p @ concat (map grid_bytes (ap_nonce p # ap_output p))"
    by auto
  have "take 32 bytes = ap_mac p" "drop 32 bytes = concat (map grid_bytes (ap_nonce p # ap_output p))"
    using len by (simp_all add: b)
  then show ?thesis by (simp add: packet_open_eq [OF assms(1)])
qed

theorem open_only_authentic_witness:
  "\<exists>p. packet_try_from 2 4 (replicate 96 1) = Inr p \<and> packet_open ref_env p [] [] = None"
proof -
  obtain p where p: "packet_try_from 2 4 (replicate 96 1) = Inr p"
    using packet_try_from_cases [of 2 4 "replicate 96 1"] by (auto simp: valid_dims_def)
  have "take 32 (replicate 96 (1 :: u8)) \<noteq> hmac_sha256 ref_env [] (drop 32 (replicate 96 1))"
    by (auto simp: ref_env_def dest!: arg_cong [where f = hd])
  with open_only_authentic [OF env_ok_ref _ p, of "[]" "[]"] p show ?thesis by (simp add: valid_dims_def)
qed

end
