(* ===== verification/Chat_Crypto.thy ===== *)
theory Chat_Crypto
  imports Auth
begin

text \<open>
  \<open>chat/src/crypto/mod.rs\<close>: the three protections of the chat. One-shot packets under the session keys
  (\<open>encrypt_packet\<close>, \<open>decrypt_packet\<close>), the authenticated packet stream of the auxiliary sockets
  (\<open>RexPacketStream\<close>), and the tags and keys of files at rest. HKDF is a parameter beside the environment of
  the cipher crate. A function that can panic returns \<open>fault + _\<close>; an \<open>Option\<close> of the source is an
  \<open>option\<close> inside it.
\<close>

unbundle bit_operations_syntax

section \<open>Environment and types\<close>

type_synonym shared_keys = "i64 list \<times> u8 list"
type_synonym disk_key_set = "i64 list \<times> i64 list \<times> u8 list"

record ('v, 'r) chat_env =
  core :: "('v, 'r) rex_env"
  hkdf_expand :: "u8 list option \<Rightarrow> u8 list \<Rightarrow> u8 list \<Rightarrow> nat \<Rightarrow> u8 list option"
    \<comment> \<open>\<open>Hkdf::<Sha256>::new(salt, ikm).expand(info, okm)\<close> for an output of that many bytes\<close>

text \<open>HKDF-SHA256 gives exactly the bytes asked for, up to 255 digests, and refuses more.\<close>

definition hkdf_ok :: "('v, 'r) chat_env \<Rightarrow> bool" where
  "hkdf_ok C \<longleftrightarrow> (\<forall>salt ikm info n. (n \<le> 255 * 32 \<longrightarrow>
      (\<exists>okm. hkdf_expand C salt ikm info n = Some okm \<and> length okm = n)) \<and>
      (255 * 32 < n \<longrightarrow> hkdf_expand C salt ikm info n = None))"

definition chat_ok :: "('v, 'r) chat_env \<Rightarrow> bool" where
  "chat_ok C \<longleftrightarrow> env_ok (core C) \<and> hkdf_ok C"

definition ref_chat :: "(i64 list, nat) chat_env" where
  "ref_chat = \<lparr> core = ref_env,
     hkdf_expand = (\<lambda>salt ikm info n. if n \<le> 255 * 32 then Some (replicate n (of_nat (length info))) else None) \<rparr>"

lemma chat_ok_ref: "chat_ok ref_chat"
  by (simp add: chat_ok_def ref_chat_def hkdf_ok_def env_ok_ref)

lemma chat_okD: "chat_ok C \<Longrightarrow> env_ok (core C)" "chat_ok C \<Longrightarrow> hkdf_ok C"
  by (simp_all add: chat_ok_def)

text \<open>Byte string literals, and the decimal digits \<open>format!\<close> prints.\<close>

definition bytes_of :: "string \<Rightarrow> u8 list" where
  "bytes_of s = map of_char s"

fun show_nat :: "nat \<Rightarrow> string" where
  "show_nat n = (if n < 10 then [char_of (48 + n)] else show_nat (n div 10) @ [char_of (48 + n mod 10)])"

declare show_nat.simps [simp del]

text \<open>\<open>expect\<close> and \<open>unwrap\<close> turn an error into a panic; \<open>.ok()\<close> turns it into \<open>None\<close>.\<close>

fun unwrap :: "fault + 'a \<Rightarrow> fault + 'a" where
  "unwrap (Inl e) = Inl Panic"
| "unwrap (Inr x) = Inr x"

fun unwrap_option :: "'a option \<Rightarrow> fault + 'a" where
  "unwrap_option None = Inl Panic"
| "unwrap_option (Some x) = Inr x"

fun ok_result :: "fault + 'a \<Rightarrow> fault + 'a option" where
  "ok_result (Inl Panic) = Inl Panic"
| "ok_result (Inl (Err e)) = Inr None"
| "ok_result (Inr x) = Inr (Some x)"

text \<open>The \<open>?\<close> of a function that returns \<open>Option\<close>.\<close>

fun obind :: "fault + 'a option \<Rightarrow> ('a \<Rightarrow> fault + 'b option) \<Rightarrow> fault + 'b option" where
  "obind (Inl e) f = Inl e"
| "obind (Inr None) f = Inr None"
| "obind (Inr (Some x)) f = f x"

section \<open>Bytes and cells\<close>

definition pad8 :: "u8 list \<Rightarrow> u8 list" where
  "pad8 chunk = fold (\<lambda>i buf. buf[i := chunk ! i]) [0..<length chunk] (replicate 8 0)"

definition bytes_to_i64 :: "u8 list \<Rightarrow> i64 list" where
  "bytes_to_i64 bytes = map (\<lambda>chunk. from_be_bytes (pad8 chunk)) (chunks 8 bytes)"

definition i64_to_bytes :: "i64 list \<Rightarrow> u8 list" where
  "i64_to_bytes vals = concat (map to_be_bytes vals)"

text \<open>\<open>bytes.chunks_exact(8)\<close> read as cells; a shorter tail is dropped.\<close>

definition exact_cells :: "u8 list \<Rightarrow> i64 list" where
  "exact_cells bytes = map from_be_bytes (chunks 8 (take (length bytes div 8 * 8) bytes))"

section \<open>Key derivation\<close>

definition get_correct_key :: "('v, 'r) chat_env \<Rightarrow> nat \<Rightarrow> nat \<Rightarrow> i64 list \<Rightarrow> fault + i64 list" where
  "get_correct_key C W H key =
     (let key_bytes = concat (map to_be_bytes key);
          required_len = W * H * 2;
          info = bytes_of (''WHY2-DERIVED-KEY-'' @ show_nat W @ ''x'' @ show_nat H)
      in rbind (unwrap_option (hkdf_expand C None key_bytes info (required_len * 8)))
           (\<lambda>okm. Inr (exact_cells okm)))"

definition derive_stream_nonce :: "('v, 'r) chat_env \<Rightarrow> u8 list \<Rightarrow> fault + i64 list" where
  "derive_stream_nonce C context =
     rbind (unwrap_option (hkdf_expand C None context (bytes_of ''WHY2-STREAM-NONCE'')
       (DEFAULT_GRID_WIDTH * DEFAULT_GRID_HEIGHT * 8))) (\<lambda>okm. Inr (exact_cells okm))"

definition derive_stream_mac_key :: "('v, 'r) chat_env \<Rightarrow> u8 list \<Rightarrow> u8 list \<Rightarrow> fault + u8 list" where
  "derive_stream_mac_key C hmac_key context =
     unwrap_option (hkdf_expand C (Some context) hmac_key (bytes_of ''WHY2-STREAM-MAC'') 32)"

definition disk_keys :: "('v, 'r) chat_env \<Rightarrow> u8 list \<Rightarrow> u8 list \<Rightarrow> fault + disk_key_set" where
  "disk_keys C salt ikm =
     (let KEY_LEN = DEFAULT_GRID_WIDTH * DEFAULT_GRID_HEIGHT * 2;
          NONCE_LEN = DEFAULT_GRID_WIDTH * DEFAULT_GRID_HEIGHT
      in rbind (unwrap_option (hkdf_expand C (Some salt) ikm (bytes_of ''WHY2-IMAGE-KEY'') (KEY_LEN * 8))) (\<lambda>key_bytes.
         rbind (unwrap_option (hkdf_expand C (Some salt) ikm (bytes_of ''WHY2-IMAGE-NONCE'') (NONCE_LEN * 8))) (\<lambda>nonce_bytes.
         rbind (unwrap_option (hkdf_expand C (Some salt) ikm (bytes_of ''WHY2-DISK-MAC'') 32)) (\<lambda>mac_bytes.
         Inr (exact_cells key_bytes, exact_cells nonce_bytes, mac_bytes)))))"

text \<open>The master keys of the two stores come from \<open>kex::image_key\<close> and \<open>kex::cache_key\<close>, read from disk.\<close>

definition image_keys :: "('v, 'r) chat_env \<Rightarrow> u8 list \<Rightarrow> u8 list \<Rightarrow> fault + disk_key_set" where
  "image_keys C image_key hash = disk_keys C hash image_key"

definition cache_keys :: "('v, 'r) chat_env \<Rightarrow> u8 list \<Rightarrow> u8 list \<Rightarrow> u8 list \<Rightarrow> fault + disk_key_set" where
  "cache_keys C cache_key fingerprint hash = disk_keys C (fingerprint @ hash) cache_key"

definition history_keys :: "('v, 'r) chat_env \<Rightarrow> u8 list \<Rightarrow> fault + shared_keys" where
  "history_keys C history_key =
     (let KEY_LEN = DEFAULT_GRID_WIDTH * DEFAULT_GRID_HEIGHT * 2
      in rbind (unwrap_option (hkdf_expand C None history_key (bytes_of ''WHY2-HISTORY-KEY'') (KEY_LEN * 8))) (\<lambda>key_bytes.
         rbind (unwrap_option (hkdf_expand C None history_key (bytes_of ''WHY2-HISTORY-MAC'') 32)) (\<lambda>mac_key.
         Inr (exact_cells key_bytes, mac_key))))"

section \<open>Packets on the main connection\<close>

definition packet_key :: "('v, 'r) chat_env \<Rightarrow> nat \<Rightarrow> nat \<Rightarrow> shared_keys \<Rightarrow> fault + i64 list" where
  "packet_key C W H keys =
     (if length (fst keys) = W * H * 2 then Inr (fst keys) else get_correct_key C W H (fst keys))"

definition encrypt_packet ::
  "('v, 'r) chat_env \<Rightarrow> nat \<Rightarrow> nat \<Rightarrow> u8 list \<Rightarrow> shared_keys \<Rightarrow> u8 list option \<Rightarrow> fault + u8 list" where
  "encrypt_packet C W H packet_bytes keys nonce_seed =
     (let input_i64 = bytes_to_i64 packet_bytes
      in rbind (packet_key C W H keys) (\<lambda>key.
         rbind (unwrap (encrypt (core C) W H input_i64 (Some key) None nonce_seed)) (\<lambda>encrypted_data.
         if length (snd keys) \<noteq> 32 then Inl Panic
         else Inr (auth_to_bytes (authenticate (core C) encrypted_data (snd keys))))))"

definition decrypt_packet ::
  "('v, 'r) chat_env \<Rightarrow> nat \<Rightarrow> nat \<Rightarrow> u8 list \<Rightarrow> shared_keys \<Rightarrow> fault + u8 list option" where
  "decrypt_packet C W H decoded_packet keys =
     obind (ok_result (packet_try_from W H decoded_packet)) (\<lambda>auth_packet.
     obind (ok_result (rbind (packet_key C W H keys) (from_key W H))) (\<lambda>key_grid.
     if length (snd keys) \<noteq> 32 then Inr None else
     obind (Inr (packet_open (core C) auth_packet (snd keys) key_grid)) (\<lambda>encrypted_data.
     obind (ok_result (decrypt (core C) W H encrypted_data)) (\<lambda>decrypted_packet.
     Inr (Some (i64_to_bytes (dd_output decrypted_packet)))))))"

section \<open>Packets on auxiliary sockets\<close>

record packet_stream =
  ps_stream :: rex_stream
  ps_mac_key :: "u8 list"
  ps_counter :: u64

text \<open>\<open>RexStream\<close> without parameters has the default dimensions.\<close>

abbreviation GW :: nat where "GW \<equiv> DEFAULT_GRID_WIDTH"
abbreviation GH :: nat where "GH \<equiv> DEFAULT_GRID_HEIGHT"

text \<open>What \<open>mac\<close> feeds: counter, length, ciphertext.\<close>

definition ps_mac :: "packet_stream \<Rightarrow> u8 list \<Rightarrow> u8 list" where
  "ps_mac st ciphertext = to_be_bytes (ps_counter st) @ to_be_bytes (of_nat (length ciphertext)) @ ciphertext"

definition seal :: "('v, 'r) chat_env \<Rightarrow> packet_stream \<Rightarrow> u8 list \<Rightarrow> fault + u8 list \<times> packet_stream" where
  "seal C st plaintext =
     (let input_i64 = bytes_to_i64 plaintext;
          (res, stream') = stream_message (core C) GW GH (ps_stream st) input_i64;
          st1 = st\<lparr> ps_stream := stream' \<rparr>
      in rbind (unwrap res) (\<lambda>encrypted_i64.
         let ciphertext = take (length plaintext) (i64_to_bytes encrypted_i64);
             tag = hmac_sha256 (core C) (ps_mac_key st1) (ps_mac st1 ciphertext);
             st2 = st1\<lparr> ps_counter := ps_counter st1 + 1 \<rparr>
         in Inr (tag @ ciphertext, st2)))"

definition open_packet ::
  "('v, 'r) chat_env \<Rightarrow> packet_stream \<Rightarrow> u8 list \<Rightarrow> fault + u8 list option \<times> packet_stream" where
  "open_packet C st data =
     (if length data < 32 then Inr (None, st)
      else let tag = take 32 data; ciphertext = drop 32 data
           in if \<not> hmac_verify (core C) (ps_mac_key st) (ps_mac st ciphertext) tag then Inr (None, st)
              else let st1 = st\<lparr> ps_counter := ps_counter st + 1 \<rparr>;
                       input_i64 = bytes_to_i64 ciphertext;
                       (res, stream') = stream_message (core C) GW GH (ps_stream st1) input_i64;
                       st2 = st1\<lparr> ps_stream := stream' \<rparr>
                   in rbind (ok_result res) (\<lambda>decrypted. case decrypted of
                        None \<Rightarrow> Inr (None, st2)
                      | Some decrypted_i64 \<Rightarrow>
                          Inr (Some (take (length ciphertext) (i64_to_bytes decrypted_i64)), st2)))"

definition init_rex_stream :: "('v, 'r) chat_env \<Rightarrow> shared_keys \<Rightarrow> u8 list \<Rightarrow> fault + packet_stream option" where
  "init_rex_stream C keys token =
     obind (ok_result (from_key GW GH (fst keys))) (\<lambda>key_grid.
     rbind (derive_stream_nonce C token) (\<lambda>derived.
     obind (ok_result (from_flat GW GH derived)) (\<lambda>nonce_grid.
     obind (ok_result (stream_new (core C) GW GH key_grid nonce_grid)) (\<lambda>stream.
     rbind (derive_stream_mac_key C (snd keys) token) (\<lambda>mac_key.
     Inr (Some \<lparr> ps_stream = stream, ps_mac_key = mac_key, ps_counter = 0 \<rparr>))))))"

definition init_reverse_stream :: "('v, 'r) chat_env \<Rightarrow> shared_keys \<Rightarrow> u8 list \<Rightarrow> fault + packet_stream option" where
  "init_reverse_stream C keys token =
     init_rex_stream C keys (sha256 (core C) (bytes_of ''WHY2-REVERSE-STREAM'' @ token))"

section \<open>Tags of files at rest\<close>

definition DISK_TAG_SIZE :: nat where "DISK_TAG_SIZE = 32"

text \<open>The state of \<open>disk_mac\<close> is its key and the bytes fed; \<open>disk_tag\<close> binds the length and finishes it.\<close>

definition disk_tag :: "('v, 'r) chat_env \<Rightarrow> u8 list \<Rightarrow> u8 list \<Rightarrow> u64 \<Rightarrow> u8 list" where
  "disk_tag C mac_key fed len = hmac_sha256 (core C) mac_key (fed @ to_be_bytes len)"

definition disk_seal :: "('v, 'r) chat_env \<Rightarrow> u8 list \<Rightarrow> u8 list \<Rightarrow> u8 list" where
  "disk_seal C mac_key ciphertext = disk_tag C mac_key ciphertext (of_nat (length ciphertext))"

definition disk_open :: "('v, 'r) chat_env \<Rightarrow> u8 list \<Rightarrow> u8 list \<Rightarrow> u8 list option" where
  "disk_open C mac_key sealed =
     (if length sealed < DISK_TAG_SIZE then None
      else let n = length sealed - DISK_TAG_SIZE; ciphertext = take n sealed; tag = drop n sealed
           in if hmac_verify (core C) mac_key (ciphertext @ to_be_bytes (of_nat (length ciphertext))) tag
              then Some ciphertext else None)"

section \<open>The byte keystream\<close>

lemma length_i64_to_bytes [simp, shape_simps]: "length (i64_to_bytes xs) = 8 * length xs"
  by (simp add: i64_to_bytes_def length_concat_to_be_bytes)

lemma i64_to_bytes_Cons: "i64_to_bytes (x # xs) = to_be_bytes x @ i64_to_bytes xs"
  by (simp add: i64_to_bytes_def)

lemma i64_to_bytes_append: "i64_to_bytes (xs @ ys) = i64_to_bytes xs @ i64_to_bytes ys"
  by (simp add: i64_to_bytes_def)

lemma pad8_eq: "length chunk \<le> 8 \<Longrightarrow> pad8 chunk = chunk @ replicate (8 - length chunk) 0"
  using fill_loop_eq [of "length chunk" "replicate 8 0" "\<lambda>i. chunk ! i"] map_nth [of chunk]
  by (simp add: pad8_def fill_loop_def)

lemma length_pad8 [simp, shape_simps]: "length (pad8 chunk) = 8"
proof -
  have "length (fill_loop n f xs) = length xs" for n f and xs :: "u8 list"
    by (induction n) (simp_all add: fill_loop_Suc)
  then show ?thesis by (simp add: pad8_def flip: fill_loop_def)
qed

lemma i64_to_bytes_bytes: "\<exists>k. i64_to_bytes (bytes_to_i64 bytes) = bytes @ replicate k 0"
proof (induction "8 :: nat" bytes rule: chunks.induct)
  case (1 xs)
  show ?case
  proof (cases "length xs \<le> 8")
    case True
    then show ?thesis
      by (cases "xs = []") (auto simp: bytes_to_i64_def chunks_short i64_to_bytes_def pad8_eq)
  next
    case False
    then have ne: "xs \<noteq> []" by auto
    with 1 obtain k where "i64_to_bytes (bytes_to_i64 (drop 8 xs)) = drop 8 xs @ replicate k 0" by auto
    moreover have "length (take 8 xs) = 8" using False by simp
    then have "to_be_bytes (from_be_bytes (pad8 (take 8 xs))) = take 8 xs" by (simp add: pad8_eq)
    moreover have "bytes_to_i64 xs = from_be_bytes (pad8 (take 8 xs)) # bytes_to_i64 (drop 8 xs)"
      using ne by (simp add: bytes_to_i64_def chunks_step)
    ultimately have "i64_to_bytes (bytes_to_i64 xs) = (take 8 xs @ drop 8 xs) @ replicate k 0"
      by (simp only: i64_to_bytes_Cons append_assoc)
    then show ?thesis by auto
  qed
qed

definition xor_bytes :: "(nat \<Rightarrow> u8) \<Rightarrow> u8 list \<Rightarrow> u8 list" where
  "xor_bytes ks bs = map (\<lambda>i. bs ! i XOR ks i) [0..<length bs]"

definition byte_ks :: "(nat \<Rightarrow> i64) \<Rightarrow> nat \<Rightarrow> u8" where
  "byte_ks ks j = to_be_bytes (ks (j div 8)) ! (j mod 8)"

lemma length_xor_bytes [simp, shape_simps]: "length (xor_bytes ks bs) = length bs"
  by (simp add: xor_bytes_def)

lemma xor_bytes_cancel [codec_simps]: "xor_bytes ks (xor_bytes ks bs) = bs"
  by (rule nth_equalityI) (auto simp: xor_bytes_def xor.assoc)

lemma xor_bytes_take: "take n (xor_bytes ks bs) = xor_bytes ks (take n bs)"
  by (rule nth_equalityI) (auto simp: xor_bytes_def)

lemma to_be_bytes_xor: "r < 8 \<Longrightarrow> to_be_bytes (a XOR b) ! r = to_be_bytes a ! r XOR to_be_bytes b ! r"
  by (auto simp: to_be_bytes_def intro!: bit_word_eqI simp: bit_simps)

lemma nth_i64_to_bytes:
  "q < length xs \<Longrightarrow> r < 8 \<Longrightarrow> i64_to_bytes xs ! (8 * q + r) = to_be_bytes (xs ! q) ! r"
proof (induction xs arbitrary: q)
  case (Cons x xs)
  then show ?case by (cases q) (auto simp: i64_to_bytes_Cons nth_append)
qed simp

lemma i64_to_bytes_xor_with: "i64_to_bytes (xor_with ks xs) = xor_bytes (byte_ks ks) (i64_to_bytes xs)"
proof (rule nth_equalityI)
  fix i
  assume "i < length (i64_to_bytes (xor_with ks xs))"
  then have i: "i < 8 * length xs" by simp
  define q r where "q = i div 8" and "r = i mod 8"
  have qr: "i = 8 * q + r" "q < length xs" "r < 8" using i by (simp_all add: q_def r_def)
  have "i64_to_bytes (xor_with ks xs) ! i = to_be_bytes (xs ! q XOR ks q) ! r"
    using qr by (simp add: nth_i64_to_bytes xor_with_def)
  also have "\<dots> = i64_to_bytes xs ! i XOR byte_ks ks i"
    using qr by (simp add: to_be_bytes_xor nth_i64_to_bytes byte_ks_def)
  finally show "i64_to_bytes (xor_with ks xs) ! i = xor_bytes (byte_ks ks) (i64_to_bytes xs) ! i"
    using i by (simp add: xor_bytes_def)
qed simp

text \<open>A byte message through the cells of a stream is XORed with the byte keystream.\<close>

lemma message_bytes:
  "take (length bs) (i64_to_bytes (xor_with ks (bytes_to_i64 bs))) = xor_bytes (byte_ks ks) bs"
proof -
  obtain k where "i64_to_bytes (bytes_to_i64 bs) = bs @ replicate k 0" using i64_to_bytes_bytes by blast
  then show ?thesis by (simp add: i64_to_bytes_xor_with xor_bytes_take)
qed

lemma length_bytes_to_i64: "length bs = length cs \<Longrightarrow> length (bytes_to_i64 bs) = length (bytes_to_i64 cs)"
proof -
  have "length (chunks 8 bs) = (length bs + 7) div 8" for bs :: "u8 list"
  proof (induction "8 :: nat" bs rule: chunks.induct)
    case (1 xs)
    show ?case
    proof (cases "length xs < 8")
      case True
      then show ?thesis by (cases "xs = []") (auto simp: chunks_short Suc_le_eq intro!: div_nat_eqI [symmetric])
    next
      case False
      then have "xs \<noteq> []" by auto
      with 1 False show ?thesis by (simp add: chunks_step le_div_geq)
    qed
  qed
  then show "length bs = length cs \<Longrightarrow> length (bytes_to_i64 bs) = length (bytes_to_i64 cs)"
    by (simp add: bytes_to_i64_def)
qed

section \<open>The packet stream\<close>

definition ps_ok :: "packet_stream \<Rightarrow> bool" where
  "ps_ok st \<longleftrightarrow> stream_ok GW GH (ps_stream st) \<and> rs_buffer (ps_stream st) = []"

definition ps_ks :: "packet_stream \<Rightarrow> nat \<Rightarrow> u8" where
  "ps_ks st = byte_ks (stream_cell GW GH (ps_stream st))"

text \<open>The state after a packet of \<open>n\<close> bytes, sealed or opened.\<close>

definition ps_next :: "packet_stream \<Rightarrow> nat \<Rightarrow> packet_stream" where
  "ps_next st n = st\<lparr> ps_counter := ps_counter st + 1,
     ps_stream := (ps_stream st)\<lparr> rs_block_counter := rs_block_counter (ps_stream st) +
       of_nat ((length (bytes_to_i64 (replicate n 0)) + (GW * GH - 1)) div (GW * GH)) \<rparr> \<rparr>"

lemma ps_ok_next: "ps_ok st \<Longrightarrow> ps_ok (ps_next st n)"
  by (simp add: ps_ok_def ps_next_def stream_ok_counter)

definition seal_frame :: "('v, 'r) chat_env \<Rightarrow> packet_stream \<Rightarrow> u8 list \<Rightarrow> u8 list" where
  "seal_frame C st ciphertext = hmac_sha256 (core C) (ps_mac_key st) (ps_mac st ciphertext) @ ciphertext"

lemma stream_bytes:
  assumes "chat_ok C" and "ps_ok st"
  shows "stream_message (core C) GW GH (ps_stream st) (bytes_to_i64 bs) =
    (Inr (xor_with (stream_cell GW GH (ps_stream st)) (bytes_to_i64 bs)), ps_stream (ps_next st (length bs)))"
  using stream_message_eq [OF chat_okD(1) [OF assms(1)], of GW GH "ps_stream st" "bytes_to_i64 bs"] assms(2)
    length_bytes_to_i64 [of bs "replicate (length bs) 0"]
  by (simp add: ps_ok_def ps_next_def)

lemma seal_eq:
  assumes "chat_ok C" and "ps_ok st"
  shows "seal C st bs = Inr (seal_frame C st (xor_bytes (ps_ks st) bs), ps_next st (length bs))"
  using stream_bytes [OF assms, of bs]
  unfolding seal_def Let_def ps_ks_def by (simp only: prod.case unwrap.simps rbind.simps message_bytes)
    (simp add: seal_frame_def ps_mac_def ps_next_def)

lemma open_eq:
  assumes "chat_ok C" and "ps_ok st"
  shows "open_packet C st data =
    (if 32 \<le> length data \<and> take 32 data = hmac_sha256 (core C) (ps_mac_key st) (ps_mac st (drop 32 data))
     then Inr (Some (xor_bytes (ps_ks st) (drop 32 data)), ps_next st (length data - 32))
     else Inr (None, st))"
  using stream_bytes [OF assms, of "drop 32 data"] message_bytes [of "drop 32 data" "stream_cell GW GH (ps_stream st)"]
  by (auto simp: open_packet_def Let_def hmac_verify_iff [OF chat_okD(1) [OF assms(1)]] ps_ks_def ps_next_def)

lemma open_seal_frame:
  assumes "chat_ok C" and "ps_ok st"
  shows "open_packet C st (seal_frame C st ct) = Inr (Some (xor_bytes (ps_ks st) ct), ps_next st (length ct))"
  using length_hmac [OF chat_okD(1) [OF assms(1)]]
  by (simp add: open_eq [OF assms] seal_frame_def)

text \<open>The MAC input determines the counter and the ciphertext.\<close>

lemma ps_mac_inj: "ps_mac st ct = ps_mac st' ct' \<Longrightarrow> ps_counter st = ps_counter st' \<and> ct = ct'"
  by (auto simp: ps_mac_def)

fun seal_all :: "('v, 'r) chat_env \<Rightarrow> packet_stream \<Rightarrow> u8 list list \<Rightarrow> fault + u8 list list \<times> packet_stream" where
  "seal_all C st [] = Inr ([], st)"
| "seal_all C st (p # ps) = rbind (seal C st p) (\<lambda>(d, st1).
     rbind (seal_all C st1 ps) (\<lambda>(ds, st2). Inr (d # ds, st2)))"

fun open_all ::
  "('v, 'r) chat_env \<Rightarrow> packet_stream \<Rightarrow> u8 list list \<Rightarrow> fault + u8 list option list \<times> packet_stream" where
  "open_all C st [] = Inr ([], st)"
| "open_all C st (d # ds) = rbind (open_packet C st d) (\<lambda>(p, st1).
     rbind (open_all C st1 ds) (\<lambda>(ps, st2). Inr (p # ps, st2)))"

lemma seal_open_all:
  assumes "chat_ok C" and "ps_ok st"
  shows "\<exists>ds st'. seal_all C st ps = Inr (ds, st') \<and> open_all C st ds = Inr (map Some ps, st')"
  using assms(2)
proof (induction ps arbitrary: st)
  case (Cons p ps)
  let ?d = "seal_frame C st (xor_bytes (ps_ks st) p)"
  obtain ds st' where "seal_all C (ps_next st (length p)) ps = Inr (ds, st')"
    "open_all C (ps_next st (length p)) ds = Inr (map Some ps, st')"
    using Cons.IH [OF ps_ok_next [OF Cons.prems]] by blast
  then show ?case
    using open_seal_frame [OF assms(1) Cons.prems, of "xor_bytes (ps_ks st) p"]
    by (intro exI [of _ "?d # ds"] exI [of _ st'])
      (simp add: seal_eq [OF assms(1) Cons.prems] xor_bytes_cancel)
qed simp

lemma hkdf_some:
  assumes "chat_ok C" and "n \<le> 8160"
  obtains okm where "hkdf_expand C salt ikm info n = Some okm" "length okm = n"
proof -
  have "n \<le> 255 * 32" using assms(2) by simp
  then show ?thesis using chat_okD(2) [OF assms(1)] that unfolding hkdf_ok_def by blast
qed

lemma length_exact_cells: "length (exact_cells bs) = length bs div 8"
  by (simp add: exact_cells_def length_chunks_mult)

lemma default_dims: "valid_dims GW GH" "GW < 2 ^ 64" "GW * GH = 64"
  by (simp_all add: valid_dims_def DEFAULT_GRID_WIDTH_def DEFAULT_GRID_HEIGHT_def)

lemma init_rex_stream_ok:
  assumes "chat_ok C" and "length (fst keys) = 128"
  obtains st where "init_rex_stream C keys token = Inr (Some st)" "ps_ok st" "ps_counter st = 0"
proof -
  note d = default_dims
  obtain kg where kg: "from_key GW GH (fst keys) = Inr kg" "wf_grid GW GH kg"
    by (rule wf_from_key [OF d(1)]) (use assms(2) d(3) in simp)
  obtain okm where okm: "hkdf_expand C None token (bytes_of ''WHY2-STREAM-NONCE'') 512 = Some okm" "length okm = 512"
    by (rule hkdf_some [OF assms(1), of 512]) simp_all
  have n: "derive_stream_nonce C token = Inr (exact_cells okm)"
    using okm(1) d(3) by (simp add: derive_stream_nonce_def)
  have "length (exact_cells okm) \<le> GW * GH" using okm(2) d(3) by (simp add: length_exact_cells)
  then obtain ng where ng: "from_flat GW GH (exact_cells okm) = Inr ng" "wf_grid GW GH ng"
    using from_flat_block [OF d(1)] wf_pad_block [OF d(1)] by blast
  obtain s where s: "stream_new (core C) GW GH kg ng = Inr s" "stream_ok GW GH s" "rs_buffer s = []"
    by (rule stream_new_ok [OF chat_okD(1) [OF assms(1)] d(2) kg(2) ng(2)])
  obtain mk where "hkdf_expand C (Some token) (snd keys) (bytes_of ''WHY2-STREAM-MAC'') 32 = Some mk"
    by (rule hkdf_some [OF assms(1), of 32]) simp_all
  then have "derive_stream_mac_key C (snd keys) token = Inr mk" by (simp add: derive_stream_mac_key_def)
  then show ?thesis
    using kg(1) n ng(1) s by (intro that) (auto simp: init_rex_stream_def ps_ok_def)
qed

section \<open>The session packets\<close>

lemma packet_key_ok:
  assumes "chat_ok C" and "length (fst keys) = W * H * 2 \<or> W * H \<le> 510"
  obtains key where "packet_key C W H keys = Inr key" "length key = 2 * (W * H)"
proof (cases "length (fst keys) = W * H * 2")
  case True
  then show ?thesis by (intro that [of "fst keys"]) (simp_all add: packet_key_def)
next
  case False
  then have "W * H * 2 * 8 \<le> 8160" using assms(2) by linarith
  then obtain okm where "hkdf_expand C None (concat (map to_be_bytes (fst keys)))
      (bytes_of (''WHY2-DERIVED-KEY-'' @ show_nat W @ ''x'' @ show_nat H)) (W * H * 2 * 8) = Some okm"
    "length okm = W * H * 2 * 8"
    by (rule hkdf_some [OF assms(1)])
  then show ?thesis
    using False by (intro that [of "exact_cells okm"])
      (simp_all add: packet_key_def get_correct_key_def Let_def length_exact_cells)
qed

lemma i64_to_bytes_padded:
  "\<exists>k. i64_to_bytes (zero_pad n (bytes_to_i64 bytes)) = bytes @ replicate k 0"
proof -
  obtain k where "i64_to_bytes (bytes_to_i64 bytes) = bytes @ replicate k 0" using i64_to_bytes_bytes by blast
  moreover have "i64_to_bytes (replicate m 0) = replicate (8 * m) 0" for m
  proof -
    have "to_be_bytes 0 = replicate 8 0" by (rule nth_equalityI) (simp_all add: to_be_bytes_def)
    then show ?thesis by (induction m) (simp_all add: i64_to_bytes_def replicate_add)
  qed
  ultimately show ?thesis
    by (intro exI [of _ "k + 8 * ((n - length (bytes_to_i64 bytes) mod n) mod n)"])
      (simp add: zero_pad_def i64_to_bytes_append replicate_add)
qed

lemma decrypt_encrypt_packet:
  assumes C: "chat_ok C" and d: "valid_dims W H" "W < 2 ^ 64"
    and k: "length (fst keys) = W * H * 2 \<or> W * H \<le> 510" and m: "length (snd keys) = 32"
  shows "\<exists>enc k. encrypt_packet C W H bytes keys (Some seed) = Inr enc \<and>
    decrypt_packet C W H enc keys = Inr (Some (bytes @ replicate k 0))"
proof -
  note E = chat_okD(1) [OF C]
  obtain key where key: "packet_key C W H keys = Inr key" "length key = 2 * (W * H)"
    by (rule packet_key_ok [OF C k])
  let ?in = "bytes_to_i64 bytes"
  obtain kg nonce where kg: "from_key W H key = Inr kg" and nonce: "wf_grid W H nonce"
    and enc: "encrypt (core C) W H ?in (Some key) None (Some seed) = Inr \<lparr>
       ed_output = ctr_blocks xor_ref (ctx_stream (key_ctx (core C) W H kg nonce)) 0 (input_grids W H ?in),
       ed_key = kg, ed_nonce = nonce \<rparr>"
    by (rule encrypt_eq [OF E d key(2)])
  let ?gs = "ctr_blocks xor_ref (ctx_stream (key_ctx (core C) W H kg nonce)) 0 (input_grids W H ?in)"
  have wf: "wf_grid W H g" if "g \<in> set ?gs" for g
    using rex_ctr.blocks_good [OF key_ctx_ok(3) [OF E d nonce] _ that] input_grids_ok(2) [OF d(1)] by simp
  obtain p where p: "packet_try_from W H (auth_to_bytes (authenticate (core C)
      \<lparr> ed_output = ?gs, ed_key = kg, ed_nonce = nonce \<rparr> (snd keys))) = Inr p"
    "packet_open (core C) p (snd keys) kg = Some \<lparr> ed_output = ?gs, ed_key = kg, ed_nonce = nonce \<rparr>"
    using transmit_open [OF E nonce, of ?gs kg "snd keys" kg] wf by blast
  have dec: "decrypt (core C) W H \<lparr> ed_output = ?gs, ed_key = kg, ed_nonce = nonce \<rparr> =
      Inr \<lparr> dd_output = zero_pad (W * H) ?in, dd_key = concat kg \<rparr>"
    using decrypt_encrypted [OF E d nonce, of "input_grids W H ?in" kg] input_grids_ok [OF d(1)] by simp
  obtain k where "i64_to_bytes (zero_pad (W * H) ?in) = bytes @ replicate k 0"
    using i64_to_bytes_padded by blast
  with key(1) enc m kg p dec show ?thesis
    by (auto simp: encrypt_packet_def decrypt_packet_def)
qed

section \<open>Files at rest\<close>

lemma disk_open_iff:
  assumes "chat_ok C"
  shows "disk_open C mac_key sealed = Some ct \<longleftrightarrow> sealed = ct @ disk_seal C mac_key ct"
proof -
  note E = chat_okD(1) [OF assms]
  have len: "length (disk_seal C mac_key ct) = 32" for ct by (simp add: disk_seal_def disk_tag_def length_hmac [OF E])
  show ?thesis
  proof
    assume "disk_open C mac_key sealed = Some ct"
    then show "sealed = ct @ disk_seal C mac_key ct"
      by (auto simp: disk_open_def Let_def hmac_verify_iff [OF E] disk_seal_def disk_tag_def split: if_splits)
        (metis append_take_drop_id)
  next
    assume s: "sealed = ct @ disk_seal C mac_key ct"
    then show "disk_open C mac_key sealed = Some ct"
      using len [of ct] by (simp add: disk_open_def Let_def hmac_verify_iff [OF E] DISK_TAG_SIZE_def)
        (simp add: disk_seal_def disk_tag_def)
  qed
qed

section \<open>Properties of the chat cryptography\<close>

text \<open>
  A packet encrypted under the session keys, stretched by HKDF when the grid needs
  a key of another size, decrypts under the same keys to the packet followed by zero bytes only. It holds for every
  legal grid whose key is given or at most 8160 bytes long, the most HKDF expands.
\<close>

theorem session_packet_roundtrip:
  assumes "chat_ok C" and "valid_dims W H" and "W < 2 ^ 64"
    and "length (fst keys) = W * H * 2 \<or> W * H \<le> 510" and "length (snd keys) = 32"
  shows "\<exists>enc k. encrypt_packet C W H bytes keys (Some seed) = Inr enc \<and>
    decrypt_packet C W H enc keys = Inr (Some (bytes @ replicate k 0))"
  using decrypt_encrypt_packet [OF assms] .

theorem session_packet_roundtrip_witness:
  "\<exists>enc k. encrypt_packet ref_chat 2 4 [1, 2, 3] ([5], replicate 32 9) (Some []) = Inr enc \<and>
    decrypt_packet ref_chat 2 4 enc ([5], replicate 32 9) = Inr (Some ([1, 2, 3] @ replicate k 0))"
  using session_packet_roundtrip [OF chat_ok_ref, of 2 4 "([5], replicate 32 9)" "[1, 2, 3]" "[]"]
  by (simp add: valid_dims_def)

text \<open>
  Two packet streams opened from the same session keys and token start in the same
  state, and whatever packets one seals, the other opens in the same order to the same bytes, of the same length, and both
  end in the same state.
\<close>

theorem packet_stream_in_order:
  assumes "chat_ok C" and "length (fst keys) = 128"
  shows "\<exists>st ds st'. init_rex_stream C keys token = Inr (Some st) \<and>
    seal_all C st ps = Inr (ds, st') \<and> open_all C st ds = Inr (map Some ps, st')"
proof -
  obtain st where "init_rex_stream C keys token = Inr (Some st)" "ps_ok st"
    by (rule init_rex_stream_ok [OF assms])
  then show ?thesis using seal_open_all [OF assms(1), of st ps] by blast
qed

theorem packet_stream_in_order_witness:
  "\<exists>st ds st'. init_rex_stream ref_chat (replicate 128 3, [4]) [7] = Inr (Some st) \<and>
    seal_all ref_chat st [[1, 2, 3], [], [4]] = Inr (ds, st') \<and>
    open_all ref_chat st ds = Inr ([Some [1, 2, 3], Some [], Some [4]], st')"
  using packet_stream_in_order [OF chat_ok_ref, of "(replicate 128 3, [4])" "[7]" "[[1, 2, 3], [], [4]]"]
  by simp



text \<open>
  If a packet sealed at one counter is ever accepted at another counter of the same
  stream key, two different byte strings have the same HMAC under that key: replay and reordering succeed only
  through a collision of HMAC-SHA256.
\<close>

theorem replay_needs_collision:
  assumes "chat_ok C" and "ps_ok st" and "ps_ok st'" and "ps_mac_key st' = ps_mac_key st"
    and "seal C st bs = Inr (data, st1)" and "open_packet C st' data = Inr (Some pt, st2)"
    and "ps_counter st' \<noteq> ps_counter st"
  shows "\<exists>m m'. m \<noteq> m' \<and> hmac_sha256 (core C) (ps_mac_key st) m = hmac_sha256 (core C) (ps_mac_key st) m'"
proof -
  let ?ct = "xor_bytes (ps_ks st) bs"
  have "data = seal_frame C st ?ct" using assms(5) by (simp add: seal_eq [OF assms(1,2)])
  then have "take 32 data = hmac_sha256 (core C) (ps_mac_key st) (ps_mac st ?ct)" "drop 32 data = ?ct"
    using length_hmac [OF chat_okD(1) [OF assms(1)]] by (simp_all add: seal_frame_def)
  with assms(4,6) have "hmac_sha256 (core C) (ps_mac_key st) (ps_mac st ?ct) =
      hmac_sha256 (core C) (ps_mac_key st) (ps_mac st' ?ct)"
    by (auto simp: open_eq [OF assms(1,3)] split: if_splits)
  moreover have "ps_mac st ?ct \<noteq> ps_mac st' ?ct" using assms(7) ps_mac_inj by metis
  ultimately show ?thesis by blast
qed

theorem replay_needs_collision_witness:
  "\<exists>st d st1 pt st2. init_rex_stream ref_chat (replicate 128 3, [4]) [7] = Inr (Some st) \<and>
     seal ref_chat st [] = Inr (d, st1) \<and> open_packet ref_chat (ps_next st 0) d = Inr (Some pt, st2) \<and>
     (\<exists>m m'. m \<noteq> m' \<and> hmac_sha256 ref_env (ps_mac_key st) m = hmac_sha256 ref_env (ps_mac_key st) m')"
proof -
  obtain st where st: "init_rex_stream ref_chat (replicate 128 3, [4]) [7] = Inr (Some st)" "ps_ok st"
    by (rule init_rex_stream_ok [OF chat_ok_ref, of "(replicate 128 3, [4])"]) simp
  let ?st' = "ps_next st 0"
  have ok': "ps_ok ?st'" by (rule ps_ok_next [OF st(2)])
  have s: "seal ref_chat st [] = Inr (seal_frame ref_chat st [], ?st')"
    using seal_eq [OF chat_ok_ref st(2), of "[]"] by (simp add: xor_bytes_def)
  have o: "open_packet ref_chat ?st' (seal_frame ref_chat st []) = Inr (Some [], ps_next ?st' 0)"
    unfolding open_eq [OF chat_ok_ref ok'] seal_frame_def
    by (simp add: ref_chat_def ref_env_def ps_mac_def xor_bytes_def)
  have "ps_mac_key ?st' = ps_mac_key st" "ps_counter ?st' \<noteq> ps_counter st" by (simp_all add: ps_next_def)
  from replay_needs_collision [OF chat_ok_ref st(2) ok' this(1) s o this(2)] st(1) s o
  show ?thesis by (auto simp: ref_chat_def)
qed

text \<open>
  A sealed file opens exactly when it is a ciphertext followed by its own tag, which binds the
  length; then \<open>disk_open\<close> returns that ciphertext. No other byte string opens, in particular none shorter than
  a tag.
\<close>

theorem disk_seal_exact:
  assumes "chat_ok C"
  shows "(disk_open C mac_key sealed = Some ct \<longleftrightarrow> sealed = ct @ disk_seal C mac_key ct) \<and>
    (length sealed < DISK_TAG_SIZE \<longrightarrow> disk_open C mac_key sealed = None)"
  using disk_open_iff [OF assms] by (simp add: disk_open_def)

theorem disk_seal_exact_witness:
  "disk_open ref_chat [1] ([5, 6] @ disk_seal ref_chat [1] [5, 6]) = Some [5, 6] \<and> disk_open ref_chat [1] [5, 6] = None"
  using disk_seal_exact [OF chat_ok_ref, of "[1]" "[5, 6] @ disk_seal ref_chat [1] [5, 6]" "[5, 6]"]
    disk_seal_exact [OF chat_ok_ref, of "[1]" "[5, 6]" "[]"] by (simp add: DISK_TAG_SIZE_def)

end
