(* ===== verification/Chat_Misc.thy ===== *)
theory Chat_Misc
  imports Why2_Prelude
begin

text \<open>
  The small vocabulary of the chat crate: ranks (\<open>chat/src/role.rs\<close>), the colour table
  (\<open>colors.rs\<close>) and the pure helpers of \<open>misc.rs\<close>: sniffing an image header, the link check and the hex
  codec of content hashes. A \<open>&str\<close> is the list of its Unicode scalar values; where the code
  works on \<open>as_bytes\<close>, it is the list of its bytes.
\<close>

unbundle bit_operations_syntax

section \<open>Strings\<close>

type_synonym ustr = "u32 list"

definition ustr :: "string \<Rightarrow> ustr" where
  "ustr s = map of_char s"

definition ascii_bytes :: "string \<Rightarrow> u8 list" where
  "ascii_bytes s = map of_char s"

text \<open>\<open>char::is_whitespace\<close>: the Unicode \<open>White_Space\<close> property.\<close>

definition is_whitespace :: "u32 \<Rightarrow> bool" where
  "is_whitespace c \<longleftrightarrow> (0x09 \<le> c \<and> c \<le> 0x0D) \<or> c = 0x20 \<or> c = 0x85 \<or> c = 0xA0 \<or> c = 0x1680 \<or>
     (0x2000 \<le> c \<and> c \<le> 0x200A) \<or> c = 0x2028 \<or> c = 0x2029 \<or> c = 0x202F \<or> c = 0x205F \<or> c = 0x3000"

definition trim :: "ustr \<Rightarrow> ustr" where
  "trim s = rev (dropWhile is_whitespace (rev (dropWhile is_whitespace s)))"

definition ascii_lower :: "u32 \<Rightarrow> u32" where
  "ascii_lower c = (if 0x41 \<le> c \<and> c \<le> 0x5A then c + 0x20 else c)"

definition eq_ignore_ascii_case :: "ustr \<Rightarrow> ustr \<Rightarrow> bool" where
  "eq_ignore_ascii_case a b \<longleftrightarrow> map ascii_lower a = map ascii_lower b"

definition utf8_len :: "u32 \<Rightarrow> nat" where
  "utf8_len c = (if c < 0x80 then 1 else if c < 0x800 then 2 else if c < 0x10000 then 3 else 4)"

text \<open>\<open>s.len()\<close> counts bytes; \<open>s.get(..n)\<close> is a prefix when byte \<open>n\<close> is a character boundary.\<close>

definition str_len :: "ustr \<Rightarrow> nat" where
  "str_len s = sum_list (map utf8_len s)"

fun str_get_to :: "nat \<Rightarrow> ustr \<Rightarrow> ustr option" where
  "str_get_to n [] = (if n = 0 then Some [] else None)"
| "str_get_to n (c # s) =
     (if n = 0 then Some []
      else if utf8_len c \<le> n then map_option ((#) c) (str_get_to (n - utf8_len c) s)
      else None)"

text \<open>\<open>as_bytes\<close>: the UTF-8 encoding.\<close>

definition utf8_char :: "u32 \<Rightarrow> u8 list" where
  "utf8_char c =
     (if c < 0x80 then [ucast c]
      else if c < 0x800 then [0xC0 OR ucast (drop_bit 6 c), 0x80 OR ucast (c AND 0x3F)]
      else if c < 0x10000 then
        [0xE0 OR ucast (drop_bit 12 c), 0x80 OR ucast (drop_bit 6 c AND 0x3F), 0x80 OR ucast (c AND 0x3F)]
      else [0xF0 OR ucast (drop_bit 18 c), 0x80 OR ucast (drop_bit 12 c AND 0x3F),
        0x80 OR ucast (drop_bit 6 c AND 0x3F), 0x80 OR ucast (c AND 0x3F)])"

definition utf8 :: "ustr \<Rightarrow> u8 list" where
  "utf8 s = concat (map utf8_char s)"

definition from_ascii :: "u8 list \<Rightarrow> ustr" where
  "from_ascii bs = map ucast bs"

lemma length_utf8: "length (utf8 s) = str_len s"
  by (induction s) (auto simp: utf8_def str_len_def utf8_char_def utf8_len_def)

lemma utf8_from_ascii:
  assumes "\<forall>b \<in> set bs. b < 0x80"
  shows "utf8 (from_ascii bs) = bs"
proof -
  have "utf8_char (ucast b) = [b]" if "b < 0x80" for b :: u8
  proof -
    have "unat b < 128" using that by (simp add: word_less_nat_alt)
    then have "(ucast b :: u32) < 0x80" by (simp add: word_less_nat_alt unsigned_ucast_eq take_bit_nat_eq_self)
    moreover have "ucast (ucast b :: u32) = b" by (rule bit_word_eqI) (simp add: bit_simps)
    ultimately show ?thesis by (simp add: utf8_char_def)
  qed
  then show ?thesis using assms by (induction bs) (auto simp: utf8_def from_ascii_def)
qed

section \<open>role.rs\<close>

datatype role = User | Moderator | Owner

definition role_ALL :: "role list" where
  "role_ALL = [User, Moderator, Owner]"

fun role_name :: "role \<Rightarrow> ustr" where
  "role_name User = ustr ''user''"
| "role_name Moderator = ustr ''moderator''"
| "role_name Owner = ustr ''owner''"

definition role_default :: role where
  "role_default = User"

text \<open>\<open>find\<close> over \<open>ALL\<close>; the error carries nothing.\<close>

definition role_from_str :: "ustr \<Rightarrow> role option" where
  "role_from_str text = find (\<lambda>role. eq_ignore_ascii_case (role_name role) (trim text)) role_ALL"

text \<open>The derived \<open>Ord\<close> follows the declaration order.\<close>

fun role_rank :: "role \<Rightarrow> nat" where
  "role_rank User = 0"
| "role_rank Moderator = 1"
| "role_rank Owner = 2"

lemma role_rank_inj: "role_rank a = role_rank b \<Longrightarrow> a = b"
  by (cases a; cases b) auto

instantiation role :: linorder
begin

definition less_eq_role :: "role \<Rightarrow> role \<Rightarrow> bool" where
  "less_eq_role a b \<longleftrightarrow> role_rank a \<le> role_rank b"

definition less_role :: "role \<Rightarrow> role \<Rightarrow> bool" where
  "less_role a b \<longleftrightarrow> role_rank a < role_rank b"

instance
  by standard (auto simp: less_eq_role_def less_role_def dest: role_rank_inj)

end

section \<open>colors.rs\<close>

definition COLORS :: "ustr list" where
  "COLORS = map ustr [''black'', ''dark_red'', ''dark_green'', ''dark_yellow'', ''dark_blue'',
     ''dark_magenta'', ''dark_cyan'', ''grey'', ''dark_grey'', ''red'', ''green'', ''yellow'', ''blue'',
     ''magenta'', ''cyan'', ''white'']"

definition color_name :: "u8 option \<Rightarrow> ustr" where
  "color_name code = (case code of
     None \<Rightarrow> ustr ''none''
   | Some c \<Rightarrow> if unat c < length COLORS then COLORS ! unat c else ustr ''none'')"

text \<open>\<open>iter().position(..)\<close>.\<close>

fun position :: "('a \<Rightarrow> bool) \<Rightarrow> 'a list \<Rightarrow> nat option" where
  "position P [] = None"
| "position P (x # xs) = (if P x then Some 0 else map_option Suc (position P xs))"

definition color_code :: "ustr \<Rightarrow> u8 option" where
  "color_code name = map_option of_nat (position (\<lambda>color. eq_ignore_ascii_case color name) COLORS)"

section \<open>misc.rs: image headers\<close>

definition AVATAR_DIMENSION :: u32 where "AVATAR_DIMENSION = 512"

definition starts_with :: "u8 list \<Rightarrow> u8 list \<Rightarrow> bool" where
  "starts_with xs p \<longleftrightarrow> take (length p) xs = p"

definition be32 :: "u8 list \<Rightarrow> nat \<Rightarrow> u32" where
  "be32 h i = push_bit 24 (ucast (h ! i)) OR push_bit 16 (ucast (h ! (i + 1))) OR
     push_bit 8 (ucast (h ! (i + 2))) OR ucast (h ! (i + 3))"

definition le16 :: "u8 list \<Rightarrow> nat \<Rightarrow> u32" where
  "le16 h i = ucast (h ! i) OR push_bit 8 (ucast (h ! (i + 1)))"

definition PNG_MAGIC :: "u8 list" where
  "PNG_MAGIC = [0x89, 0x50, 0x4E, 0x47, 0x0D, 0x0A, 0x1A, 0x0A]"

definition image_dimensions :: "u8 list \<Rightarrow> (u32 \<times> u32) option" where
  "image_dimensions header =
     (if 24 \<le> length header \<and> starts_with header PNG_MAGIC \<and>
         take 4 (drop 12 header) = ascii_bytes ''IHDR''
      then Some (be32 header 16, be32 header 20)
      else if 10 \<le> length header \<and>
         (starts_with header (ascii_bytes ''GIF87a'') \<or> starts_with header (ascii_bytes ''GIF89a''))
      then Some (le16 header 6, le16 header 8)
      else None)"

definition is_avatar :: "u8 list \<Rightarrow> bool" where
  "is_avatar header = (case image_dimensions header of
     Some (width, height) \<Rightarrow> width = height \<and> 0 < width \<and> width \<le> AVATAR_DIMENSION
   | None \<Rightarrow> False)"

definition MAGIC_NUMBERS :: "u8 list list" where
  "MAGIC_NUMBERS = [PNG_MAGIC, [0xFF, 0xD8, 0xFF], ascii_bytes ''GIF87a'', ascii_bytes ''GIF89a'',
     ascii_bytes ''BM'', [0, 0, 1, 0], ascii_bytes ''qoif'', ascii_bytes ''#?'', ascii_bytes ''farbfeld'',
     ascii_bytes ''DDS '']"

definition is_ascii_whitespace :: "u8 \<Rightarrow> bool" where
  "is_ascii_whitespace b \<longleftrightarrow> b = 0x20 \<or> b = 0x09 \<or> b = 0x0A \<or> b = 0x0C \<or> b = 0x0D"

definition is_image :: "u8 list \<Rightarrow> bool" where
  "is_image header =
     (if list_ex (starts_with header) MAGIC_NUMBERS then True
      else (12 \<le> length header \<and> starts_with header (ascii_bytes ''RIFF'') \<and>
              take 4 (drop 8 header) = ascii_bytes ''WEBP'') \<or>
           (3 \<le> length header \<and> header ! 0 = 0x50 \<and> 0x31 \<le> header ! 1 \<and> header ! 1 \<le> 0x37 \<and>
              is_ascii_whitespace (header ! 2)))"

section \<open>misc.rs: links and hex\<close>

definition is_web_url :: "ustr \<Rightarrow> bool" where
  "is_web_url url =
     (let scheme = (\<lambda>n s. case str_get_to n url of None \<Rightarrow> False | Some head \<Rightarrow> eq_ignore_ascii_case head (ustr s))
      in scheme 7 ''http://'' \<or> scheme 8 ''https://'')"

text \<open>\<open>{byte:02x}\<close>.\<close>

definition hex_digit :: "u8 \<Rightarrow> u8" where
  "hex_digit d = (if d < 10 then 0x30 + d else 0x57 + d)"

definition hex :: "u8 list \<Rightarrow> u8 list" where
  "hex bytes = fold (\<lambda>b out. out @ [hex_digit (drop_bit 4 b), hex_digit (b AND 15)]) bytes []"

text \<open>\<open>char::to_digit(16)\<close> on an ASCII byte.\<close>

definition to_digit16 :: "u8 \<Rightarrow> u8 option" where
  "to_digit16 c =
     (if 0x30 \<le> c \<and> c \<le> 0x39 then Some (c - 0x30)
      else if 0x61 \<le> c \<and> c \<le> 0x66 then Some (c - 0x57)
      else if 0x41 \<le> c \<and> c \<le> 0x46 then Some (c - 0x37)
      else None)"

text \<open>
  \<open>u8::from_str_radix(pair, 16)\<close> on the two bytes of a pair: an optional leading \<open>+\<close> is accepted, as the
  standard library does for every integer type; a pair that is not UTF-8 is refused before, and holds no digit.
\<close>

definition parse_pair :: "u8 \<Rightarrow> u8 \<Rightarrow> u8 option" where
  "parse_pair a b =
     (if a = 0x2B then to_digit16 b
      else case (to_digit16 a, to_digit16 b) of
             (Some x, Some y) \<Rightarrow> Some (x * 16 + y)
           | _ \<Rightarrow> None)"

fun unhex_pairs :: "u8 list \<Rightarrow> u8 list option" where
  "unhex_pairs (a # b # rest) =
     (case parse_pair a b of None \<Rightarrow> None | Some x \<Rightarrow> map_option ((#) x) (unhex_pairs rest))"
| "unhex_pairs _ = Some []"

definition unhex :: "u8 list \<Rightarrow> u8 list option" where
  "unhex text = (if length text \<noteq> 64 then None else unhex_pairs text)"

section \<open>Round trips\<close>

lemma hex_concat: "hex bytes = concat (map (\<lambda>b. [hex_digit (drop_bit 4 b), hex_digit (b AND 15)]) bytes)"
proof -
  have "fold (\<lambda>b out. out @ [hex_digit (drop_bit 4 b), hex_digit (b AND 15)]) bytes out =
      out @ concat (map (\<lambda>b. [hex_digit (drop_bit 4 b), hex_digit (b AND 15)]) bytes)" for out
    by (induction bytes arbitrary: out) auto
  then show ?thesis by (simp add: hex_def)
qed

lemma length_hex [simp]: "length (hex bytes) = 2 * length bytes"
  by (induction bytes) (auto simp: hex_concat)

text \<open>The sixteen digits, checked one by one.\<close>

lemma hex_digit_nibble:
  assumes "d < 16"
  shows "to_digit16 (hex_digit d) = Some d" and "hex_digit d \<noteq> 0x2B"
proof -
  have all: "list_all (\<lambda>d :: u8. to_digit16 (hex_digit d) = Some d \<and> hex_digit d \<noteq> 0x2B) (map of_nat [0..<16])"
    by code_simp
  have "unat d < 16" using assms by (simp add: word_less_nat_alt)
  then have "of_nat (unat d) \<in> set (map of_nat [0..<16] :: u8 list)" by (metis atLeastLessThan_iff image_eqI le0 list.set_map set_upt)
  then have "d \<in> set (map of_nat [0..<16] :: u8 list)" by simp
  with all show "to_digit16 (hex_digit d) = Some d" "hex_digit d \<noteq> 0x2B"
    unfolding list_all_iff by blast+
qed

lemma nibbles:
  fixes b :: u8
  shows "drop_bit 4 b < 16" and "b AND 15 < 16" and "drop_bit 4 b * 16 + (b AND 15) = b"
proof -
  have and15: "b AND 15 = take_bit 4 b"
    by (simp add: take_bit_eq_mask mask_eq_exp_minus_1)
  have u: "unat b < 256" using unsigned_less [of b] by simp
  have d: "unat (drop_bit 4 b) = unat b div 16" unfolding unat_drop_bit_eq by (simp add: drop_bit_nat_def)
  have t: "unat (take_bit 4 b) = unat b mod 16" unfolding unsigned_take_bit_eq by (simp add: take_bit_nat_def)
  show "drop_bit 4 b < 16" using u by (simp add: word_less_nat_alt d less_mult_imp_div_less)
  show "b AND 15 < 16" by (simp add: and15 word_less_nat_alt t)
  have "push_bit 4 (drop_bit 4 b) + take_bit 4 b = b" by (rule bits_ident)
  then show "drop_bit 4 b * 16 + (b AND 15) = b" by (simp add: and15 push_bit_eq_mult)
qed

lemma parse_hex_pair: "parse_pair (hex_digit (drop_bit 4 b)) (hex_digit (b AND 15)) = Some b"
  using hex_digit_nibble [OF nibbles(1), of b] hex_digit_nibble(1) [OF nibbles(2), of b] nibbles(3) [of b]
  by (simp add: parse_pair_def)

lemma unhex_pairs_hex: "unhex_pairs (hex bytes) = Some bytes"
  by (induction bytes) (simp_all add: hex_concat parse_hex_pair)

lemma hex_ascii: "\<forall>c \<in> set (hex bytes). c < 0x80"
proof -
  have all: "list_all (\<lambda>d :: u8. hex_digit d < 0x80) (map of_nat [0..<16])" by code_simp
  have "hex_digit d < 0x80" if "d < 16" for d
  proof -
    have "unat d < 16" using that by (simp add: word_less_nat_alt)
    then have "of_nat (unat d) \<in> set (map of_nat [0..<16] :: u8 list)"
      by (metis atLeastLessThan_iff image_eqI le0 list.set_map set_upt)
    then have "d \<in> set (map of_nat [0..<16] :: u8 list)" by simp
    with all show ?thesis unfolding list_all_iff by blast
  qed
  then show ?thesis using nibbles(1,2) by (induction bytes) (auto simp: hex_concat)
qed

lemma unhex_hex: "length bytes = 32 \<Longrightarrow> unhex (hex bytes) = Some bytes"
  by (simp add: unhex_def unhex_pairs_hex)

lemma trim_pad:
  assumes "list_all is_whitespace l" "list_all is_whitespace r"
    and "s \<noteq> []" "\<not> is_whitespace (hd s)" "\<not> is_whitespace (last s)"
  shows "trim (l @ s @ r) = s"
proof -
  have l: "dropWhile is_whitespace (l @ xs) = dropWhile is_whitespace xs" if "list_all is_whitespace l" for l xs
    using that by (induction l) auto
  have "dropWhile is_whitespace (l @ s @ r) = s @ r"
    using assms l [of l "s @ r"] by (cases s) auto
  moreover have "dropWhile is_whitespace (rev (s @ r)) = rev s"
    using assms l [of "rev r" "rev s"] by (cases s rule: rev_cases) (auto simp: list_all_iff)
  ultimately show ?thesis by (simp add: trim_def)
qed

lemma role_name_ends:
  "role_name r \<noteq> []" "\<not> is_whitespace (hd (role_name r))" "\<not> is_whitespace (last (role_name r))"
  by (cases r; simp add: ustr_def is_whitespace_def)+

lemma role_lower: "map ascii_lower (role_name r) = role_name r"
  by (cases r) (simp_all add: ustr_def ascii_lower_def)

lemma role_name_inj: "role_name r = role_name r' \<Longrightarrow> r = r'"
  by (cases r; cases r') (simp_all add: ustr_def)

lemma role_from_str_name:
  assumes "eq_ignore_ascii_case (trim s) (role_name r)"
  shows "role_from_str s = Some r"
proof -
  have "eq_ignore_ascii_case (role_name r') (trim s) \<longleftrightarrow> r' = r" for r'
    using assms role_lower role_name_inj by (auto simp: eq_ignore_ascii_case_def)
  then show ?thesis by (cases r) (simp_all add: role_from_str_def role_ALL_def)
qed

lemma position_Some:
  "position P xs = Some i \<longleftrightarrow> i < length xs \<and> P (xs ! i) \<and> (\<forall>j<i. \<not> P (xs ! j))"
proof (induction xs arbitrary: i)
  case (Cons x xs)
  show ?case
  proof (cases i)
    case 0
    then show ?thesis by auto
  next
    case (Suc k)
    then show ?thesis using Cons.IH [of k] by (auto simp: less_Suc_eq_0_disj)
  qed
qed simp

lemma position_None: "position P xs = None \<longleftrightarrow> (\<forall>x \<in> set xs. \<not> P x)"
  by (induction xs) auto

lemma colors_distinct:
  "distinct (map (map ascii_lower) COLORS)" "length COLORS = 16"
  by code_simp+

lemma color_code_name:
  assumes "unat c < 16"
  shows "color_code (color_name (Some c)) = Some c"
proof -
  let ?P = "\<lambda>color. eq_ignore_ascii_case color (COLORS ! unat c)"
  have "\<not> ?P (COLORS ! j)" if "j < unat c" for j
    using that assms colors_distinct nth_eq_iff_index_eq [OF colors_distinct(1), of j "unat c"]
    by (auto simp: eq_ignore_ascii_case_def)
  then have "position ?P COLORS = Some (unat c)"
    using assms colors_distinct by (auto simp: position_Some eq_ignore_ascii_case_def)
  then show ?thesis using assms colors_distinct by (simp add: color_code_def color_name_def)
qed

section \<open>Properties\<close>

text \<open>
  Every 32-byte hash survives \<open>hex\<close> and \<open>unhex\<close>, so a picture is found under the name it
  was stored under; no text of another length decodes.
\<close>

theorem hash_hex_roundtrip:
  assumes "length hash = 32"
  shows "unhex (hex hash) = Some hash \<and> length (hex hash) = 64 \<and>
    (\<forall>text. length text \<noteq> 64 \<longrightarrow> unhex text = None)"
  using unhex_hex [OF assms] assms by (simp add: unhex_def)

theorem hash_hex_roundtrip_witness: "unhex (hex (replicate 32 0xAB)) = Some (replicate 32 0xAB)"
  using hash_hex_roundtrip [of "replicate 32 0xAB"] by simp

text \<open>
  \<open>unhex\<close> is not limited to hex digits: a pair \<open>+f\<close> decodes like \<open>0f\<close>, so two
  different texts decode to the same hash.
\<close>

theorem unhex_accepts_plus:
  "\<exists>t t'. t \<noteq> t' \<and> (\<exists>c \<in> set t. to_digit16 c = None) \<and> unhex t = unhex t' \<and> unhex t \<noteq> None"
proof -
  let ?t = "concat (replicate 32 [0x2B, 0x66]) :: u8 list" and ?t' = "concat (replicate 32 [0x30, 0x66]) :: u8 list"
  have "unhex ?t = Some (replicate 32 15)" "unhex ?t' = Some (replicate 32 15)" by code_simp+
  moreover have "?t \<noteq> ?t'" "(0x2B :: u8) \<in> set ?t" by code_simp+
  moreover have "to_digit16 0x2B = None" by (simp add: to_digit16_def)
  ultimately show ?thesis by (metis option.distinct(1))
qed

text \<open>
  A rank is read back from its name, in any ASCII case and with any surrounding white
  space, and \<open>ALL\<close> lists the ranks in the order the permission checks compare, lowest first.
\<close>

theorem role_names_roundtrip:
  assumes "list_all is_whitespace l" and "list_all is_whitespace r" and "map ascii_lower s = role_name x"
    and "\<not> is_whitespace (hd s)" and "\<not> is_whitespace (last s)"
  shows "role_from_str (l @ s @ r) = Some x \<and> sorted role_ALL \<and> set role_ALL = UNIV \<and> hd role_ALL = role_default"
proof -
  have "s \<noteq> []" using assms(3) role_name_ends(1) [of x] by auto
  with trim_pad [OF assms(1,2) this assms(4,5)] assms(3) role_lower [of x]
  have "role_from_str (l @ s @ r) = Some x" by (intro role_from_str_name) (simp add: eq_ignore_ascii_case_def)
  moreover have "y \<in> set role_ALL" for y by (cases y) (simp_all add: role_ALL_def)
  then have "set role_ALL = UNIV" by auto
  ultimately show ?thesis by (simp add: role_ALL_def role_default_def less_eq_role_def)
qed

theorem role_names_roundtrip_witness:
  "role_from_str (ustr ''  OwNeR '') = Some Owner"
  using role_names_roundtrip [of "[0x20, 0x20]" "[0x20]" "ustr ''OwNeR''" Owner]
  by (simp add: ustr_def is_whitespace_def ascii_lower_def)

text \<open>
  The sixteen colour codes and their names are inverse to each other, and a code outside the
  table is shown as no colour.
\<close>

theorem colors_roundtrip:
  "(unat c < 16 \<longrightarrow> color_code (color_name (Some c)) = Some c) \<and>
   (16 \<le> unat c \<longrightarrow> color_name (Some c) = color_name None)"
  using color_code_name colors_distinct(2) by (simp add: color_name_def)

theorem colors_roundtrip_witness:
  "color_code (color_name (Some 9)) = Some 9 \<and> color_name (Some 16) = color_name None"
  using colors_roundtrip [of 9] colors_roundtrip [of 16] by simp

end
