(* ===== verification/Packet_Codes.thy ===== *)
theory Packet_Codes
  imports Chat_Misc
begin

text \<open>
  The wire vocabulary of \<open>chat/src/network/codes.rs\<close>: every control code with its fields, in the order the source
  declares them, the structures they carry and the names the server logs them under. The two
  halves of a key exchange, whose keys are types of the elliptic-curve and ML-KEM crates, are the type
  parameters. The 111 variants of the one enum are declared in seven groups by subject, joined by \<open>packet_code\<close>:
  the kernel needs minutes to derive the facts of a flat type of that size, and a variant is still one
  constructor with the fields of the source.
\<close>

section \<open>Structures\<close>

datatype device = TUI | Desktop | Phone

record message_colors =
  username_color :: "u8 option"
  message_color :: "u8 option"

record voice_note =
  vn_hash :: "u8 list"
  vn_duration :: u32

record stored_message =
  sm_message_id :: u64
  sm_username :: ustr
  sm_text :: ustr
  sm_colors :: message_colors
  sm_image :: "u8 list option"
  sm_timestamp :: "u64 option"
  sm_reply :: "u64 option"
  sm_hearts :: "ustr list"
  sm_edited :: bool
  sm_voice :: "voice_note option"
  sm_pinned :: bool

datatype setting_value = Toggle bool | Number i64 | Text ustr

record server_setting =
  ss_key :: ustr
  ss_value :: setting_value
  ss_section :: ustr
  ss_description :: ustr
  ss_restart :: bool

record user_profile =
  up_bio :: ustr
  up_pronouns :: ustr
  up_website :: ustr
  up_status :: ustr
  up_avatar :: "u8 list option"
  up_role :: role

record user_file =
  uf_username :: ustr
  uf_id :: nat
  uf_upload :: "(ustr \<times> nat) list"

record user_screen =
  us_username :: ustr
  us_id :: nat

record ban_entry =
  be_id :: nat
  be_subject :: ustr

record online_user =
  on_username :: ustr
  on_username_color :: "u8 option"
  on_id :: nat
  on_channel :: "ustr option"
  on_device :: "device option"
  on_role :: role

record offline_user =
  of_username :: ustr
  of_username_color :: "u8 option"
  of_role :: role

section \<open>Profile fields\<close>

definition profile_KEYS :: "ustr list" where
  "profile_KEYS = map ustr [''bio'', ''pronouns'', ''website'', ''status'']"

definition profile_fields :: "user_profile \<Rightarrow> ustr list" where
  "profile_fields p = [up_bio p, up_pronouns p, up_website p, up_status p]"

text \<open>\<open>field_mut\<close> hands out the field to write; its model returns the reader and the writer of that field.\<close>

definition profile_field_mut ::
  "ustr \<Rightarrow> ((user_profile \<Rightarrow> ustr) \<times> (ustr \<Rightarrow> user_profile \<Rightarrow> user_profile)) option" where
  "profile_field_mut key =
     (if key = ustr ''bio'' then Some (up_bio, \<lambda>v p. p\<lparr> up_bio := v \<rparr>)
      else if key = ustr ''pronouns'' then Some (up_pronouns, \<lambda>v p. p\<lparr> up_pronouns := v \<rparr>)
      else if key = ustr ''website'' then Some (up_website, \<lambda>v p. p\<lparr> up_website := v \<rparr>)
      else if key = ustr ''status'' then Some (up_status, \<lambda>v p. p\<lparr> up_status := v \<rparr>)
      else None)"

section \<open>Control codes\<close>

datatype chat_code =
    MessageRequest ustr "u64 option"
  | Message ustr ustr nat u64 message_colors "(ustr option) option" "u64 option" "u64 option"
  | PrivateMessageRequest ustr nat
  | PrivateMessage ustr ustr nat message_colors
  | PrivateMessageBack ustr ustr nat message_colors
  | Re ustr
  | EditRequest u64 ustr
  | Edited u64 ustr
  | DeleteRequest u64
  | Deleted u64
  | HeartRequest u64
  | Heart u64 "ustr list"
  | PinRequest u64
  | Pinned u64 bool
  | PinsRequest
  | Pins "stored_message list"
  | TypingRequest
  | Typing ustr

datatype (dead 'o, dead 'r) session_code =
    KeyExchangeOffer 'o
  | KeyExchangeReply 'r
  | Rekey
  | Welcome u64 u64 u64 ustr ustr ustr
  | Version ustr
  | UsernameRequest
  | Username ustr "device option"
  | LoginRequest
  | Login ustr
  | RegisterRequest
  | Register ustr
  | RegisterDisabled
  | FirstUser
  | Accept nat role message_colors
  | Join ustr "u8 option" nat "device option" role
  | Leave ustr nat bool
  | KeepAlive
  | Disconnect

datatype lobby_code =
    HistoryRequest u64
  | History "stored_message list" u64 bool u64 bool
  | ListRequest
  | List "online_user list" "(offline_user list) option"
  | Channel "ustr option"
  | ChannelCreated ustr
  | ChannelDestroyed ustr
  | SpamWarning
  | Muted
  | InvalidUsage
  | InvalidFeature

datatype file_code =
    UploadRequest "u8 list"
  | Upload "u8 list" "u8 list" u64
  | Uploaded ustr ustr
  | UploadLimit
  | DownloadRequest nat nat
  | Download "u8 list"
  | FilesRequest
  | Files "user_file list"
  | ImageRequest "u8 list" ustr
  | Image "u8 list" "u8 list" u64
  | ImageDuplicate "u8 list"
  | ImageDisplay ustr ustr u64 "u8 list" "(u8 list) option" "u8 option" "(ustr option) option" "u64 option"
  | ImageDataRequest "u8 list"
  | ImageData "u8 list" "u8 list"
  | VoiceMessageRequest "u8 list"
  | VoiceMessageUpload "u8 list" "u8 list" u64
  | VoiceMessage ustr u64 voice_note "(u8 list) option" "u8 option" "(ustr option) option" "u64 option"

datatype media_code =
    VoiceRequest
  | Voice "(u8 list) option"
  | VoiceJoin ustr nat "ustr option"
  | VoiceLeave nat "ustr option"
  | VoiceClients "(nat \<times> ustr) list"
  | ScreenRequest
  | Screen "(u8 list) option"
  | Screenshare ustr
  | ScreenshareEnd ustr
  | ScreensRequest
  | Screens "user_screen list"
  | AttachRequest nat
  | Attach ustr "u8 list"
  | Attached ustr
  | DeattachRequest
  | Deattach ustr
  | Deattached ustr
  | MuteScreenRequest
  | MuteScreen bool

datatype server_code =
    ServerKick nat
  | ServerMute nat
  | ServerBan ustr
  | ServerBanIp nat
  | ServerPardon nat
  | ServerPardonIp nat
  | ServerBansRequest
  | ServerBans "ban_entry list" "ban_entry list"
  | ServerRoleRequest ustr role
  | ServerRole ustr role
  | ServerSay ustr
  | ServerSettingsRequest
  | ServerSettingsSave "server_setting list"
  | ServerSettings "server_setting list" bool
  | ServerIconRequest
  | ServerIconSave "(u8 list) option"
  | ServerIcon "(u8 list) option" bool
  | ServerRestart

datatype account_code =
    AccountPasswdRequest ustr ustr
  | AccountPasswd bool
  | AccountDeleteRequest ustr
  | AccountDelete bool
  | ColorRequest bool u8
  | Color
  | ProfileRequest "ustr option"
  | ProfileSave user_profile
  | Profile ustr user_profile bool bool
  | AvatarRequest "(u8 list) option"

datatype (dead 'o, dead 'r) packet_code =
    Chat_Code chat_code
  | Session_Code "('o, 'r) session_code"
  | Lobby_Code lobby_code
  | File_Code file_code
  | Media_Code media_code
  | Server_Code server_code
  | Account_Code account_code

section \<open>Names\<close>

primrec chat_code_name :: "chat_code \<Rightarrow> string" where
  "chat_code_name (MessageRequest x0 x1) = ''MessageRequest''"
| "chat_code_name (Message x0 x1 x2 x3 x4 x5 x6 x7) = ''Message''"
| "chat_code_name (PrivateMessageRequest x0 x1) = ''PrivateMessageRequest''"
| "chat_code_name (PrivateMessage x0 x1 x2 x3) = ''PrivateMessage''"
| "chat_code_name (PrivateMessageBack x0 x1 x2 x3) = ''PrivateMessageBack''"
| "chat_code_name (Re x0) = ''Re''"
| "chat_code_name (EditRequest x0 x1) = ''EditRequest''"
| "chat_code_name (Edited x0 x1) = ''Edited''"
| "chat_code_name (DeleteRequest x0) = ''DeleteRequest''"
| "chat_code_name (Deleted x0) = ''Deleted''"
| "chat_code_name (HeartRequest x0) = ''HeartRequest''"
| "chat_code_name (Heart x0 x1) = ''Heart''"
| "chat_code_name (PinRequest x0) = ''PinRequest''"
| "chat_code_name (Pinned x0 x1) = ''Pinned''"
| "chat_code_name PinsRequest = ''PinsRequest''"
| "chat_code_name (Pins x0) = ''Pins''"
| "chat_code_name TypingRequest = ''TypingRequest''"
| "chat_code_name (Typing x0) = ''Typing''"

primrec session_code_name :: "('o, 'r) session_code \<Rightarrow> string" where
  "session_code_name (KeyExchangeOffer x0) = ''KeyExchangeOffer''"
| "session_code_name (KeyExchangeReply x0) = ''KeyExchangeReply''"
| "session_code_name Rekey = ''Rekey''"
| "session_code_name (Welcome x0 x1 x2 x3 x4 x5) = ''Welcome''"
| "session_code_name (Version x0) = ''Version''"
| "session_code_name UsernameRequest = ''UsernameRequest''"
| "session_code_name (Username x0 x1) = ''Username''"
| "session_code_name LoginRequest = ''LoginRequest''"
| "session_code_name (Login x0) = ''Login''"
| "session_code_name RegisterRequest = ''RegisterRequest''"
| "session_code_name (Register x0) = ''Register''"
| "session_code_name RegisterDisabled = ''RegisterDisabled''"
| "session_code_name FirstUser = ''FirstUser''"
| "session_code_name (Accept x0 x1 x2) = ''Accept''"
| "session_code_name (Join x0 x1 x2 x3 x4) = ''Join''"
| "session_code_name (Leave x0 x1 x2) = ''Leave''"
| "session_code_name KeepAlive = ''KeepAlive''"
| "session_code_name Disconnect = ''Disconnect''"

primrec lobby_code_name :: "lobby_code \<Rightarrow> string" where
  "lobby_code_name (HistoryRequest x0) = ''HistoryRequest''"
| "lobby_code_name (History x0 x1 x2 x3 x4) = ''History''"
| "lobby_code_name ListRequest = ''ListRequest''"
| "lobby_code_name (List x0 x1) = ''List''"
| "lobby_code_name (Channel x0) = ''Channel''"
| "lobby_code_name (ChannelCreated x0) = ''ChannelCreated''"
| "lobby_code_name (ChannelDestroyed x0) = ''ChannelDestroyed''"
| "lobby_code_name SpamWarning = ''SpamWarning''"
| "lobby_code_name Muted = ''Muted''"
| "lobby_code_name InvalidUsage = ''InvalidUsage''"
| "lobby_code_name InvalidFeature = ''InvalidFeature''"

primrec file_code_name :: "file_code \<Rightarrow> string" where
  "file_code_name (UploadRequest x0) = ''UploadRequest''"
| "file_code_name (Upload x0 x1 x2) = ''Upload''"
| "file_code_name (Uploaded x0 x1) = ''Uploaded''"
| "file_code_name UploadLimit = ''UploadLimit''"
| "file_code_name (DownloadRequest x0 x1) = ''DownloadRequest''"
| "file_code_name (Download x0) = ''Download''"
| "file_code_name FilesRequest = ''FilesRequest''"
| "file_code_name (Files x0) = ''Files''"
| "file_code_name (ImageRequest x0 x1) = ''ImageRequest''"
| "file_code_name (Image x0 x1 x2) = ''Image''"
| "file_code_name (ImageDuplicate x0) = ''ImageDuplicate''"
| "file_code_name (ImageDisplay x0 x1 x2 x3 x4 x5 x6 x7) = ''ImageDisplay''"
| "file_code_name (ImageDataRequest x0) = ''ImageDataRequest''"
| "file_code_name (ImageData x0 x1) = ''ImageData''"
| "file_code_name (VoiceMessageRequest x0) = ''VoiceMessageRequest''"
| "file_code_name (VoiceMessageUpload x0 x1 x2) = ''VoiceMessageUpload''"
| "file_code_name (VoiceMessage x0 x1 x2 x3 x4 x5 x6) = ''VoiceMessage''"

primrec media_code_name :: "media_code \<Rightarrow> string" where
  "media_code_name VoiceRequest = ''VoiceRequest''"
| "media_code_name (Voice x0) = ''Voice''"
| "media_code_name (VoiceJoin x0 x1 x2) = ''VoiceJoin''"
| "media_code_name (VoiceLeave x0 x1) = ''VoiceLeave''"
| "media_code_name (VoiceClients x0) = ''VoiceClients''"
| "media_code_name ScreenRequest = ''ScreenRequest''"
| "media_code_name (Screen x0) = ''Screen''"
| "media_code_name (Screenshare x0) = ''Screenshare''"
| "media_code_name (ScreenshareEnd x0) = ''ScreenshareEnd''"
| "media_code_name ScreensRequest = ''ScreensRequest''"
| "media_code_name (Screens x0) = ''Screens''"
| "media_code_name (AttachRequest x0) = ''AttachRequest''"
| "media_code_name (Attach x0 x1) = ''Attach''"
| "media_code_name (Attached x0) = ''Attached''"
| "media_code_name DeattachRequest = ''DeattachRequest''"
| "media_code_name (Deattach x0) = ''Deattach''"
| "media_code_name (Deattached x0) = ''Deattached''"
| "media_code_name MuteScreenRequest = ''MuteScreenRequest''"
| "media_code_name (MuteScreen x0) = ''MuteScreen''"

primrec server_code_name :: "server_code \<Rightarrow> string" where
  "server_code_name (ServerKick x0) = ''ServerKick''"
| "server_code_name (ServerMute x0) = ''ServerMute''"
| "server_code_name (ServerBan x0) = ''ServerBan''"
| "server_code_name (ServerBanIp x0) = ''ServerBanIp''"
| "server_code_name (ServerPardon x0) = ''ServerPardon''"
| "server_code_name (ServerPardonIp x0) = ''ServerPardonIp''"
| "server_code_name ServerBansRequest = ''ServerBansRequest''"
| "server_code_name (ServerBans x0 x1) = ''ServerBans''"
| "server_code_name (ServerRoleRequest x0 x1) = ''ServerRoleRequest''"
| "server_code_name (ServerRole x0 x1) = ''ServerRole''"
| "server_code_name (ServerSay x0) = ''ServerSay''"
| "server_code_name ServerSettingsRequest = ''ServerSettingsRequest''"
| "server_code_name (ServerSettingsSave x0) = ''ServerSettingsSave''"
| "server_code_name (ServerSettings x0 x1) = ''ServerSettings''"
| "server_code_name ServerIconRequest = ''ServerIconRequest''"
| "server_code_name (ServerIconSave x0) = ''ServerIconSave''"
| "server_code_name (ServerIcon x0 x1) = ''ServerIcon''"
| "server_code_name ServerRestart = ''ServerRestart''"

primrec account_code_name :: "account_code \<Rightarrow> string" where
  "account_code_name (AccountPasswdRequest x0 x1) = ''AccountPasswdRequest''"
| "account_code_name (AccountPasswd x0) = ''AccountPasswd''"
| "account_code_name (AccountDeleteRequest x0) = ''AccountDeleteRequest''"
| "account_code_name (AccountDelete x0) = ''AccountDelete''"
| "account_code_name (ColorRequest x0 x1) = ''ColorRequest''"
| "account_code_name Color = ''Color''"
| "account_code_name (ProfileRequest x0) = ''ProfileRequest''"
| "account_code_name (ProfileSave x0) = ''ProfileSave''"
| "account_code_name (Profile x0 x1 x2 x3) = ''Profile''"
| "account_code_name (AvatarRequest x0) = ''AvatarRequest''"

primrec packet_name :: "('o, 'r) packet_code \<Rightarrow> string" where
  "packet_name (Chat_Code c) = chat_code_name c"
| "packet_name (Session_Code c) = session_code_name c"
| "packet_name (Lobby_Code c) = lobby_code_name c"
| "packet_name (File_Code c) = file_code_name c"
| "packet_name (Media_Code c) = media_code_name c"
| "packet_name (Server_Code c) = server_code_name c"
| "packet_name (Account_Code c) = account_code_name c"

end
