(* ===== verification/F32.thy ===== *)
theory F32
  imports Complex_Main Why2_Prelude
begin

text \<open>
  Rust's \<open>f32\<close> as far as the rate limiter of the chat server uses it: IEEE 754 binary32 with round-to-nearest,
  ties to even, subnormals, infinities and NaN. The two zeros are one value, which no operation used here can
  tell apart. A finite value is the rational it denotes, and every operation rounds the exact result.
\<close>

section \<open>Values and rounding\<close>

datatype f32 = Fin rat | Inf bool | NaN
  \<comment> \<open>\<open>Inf True\<close> is positive infinity\<close>

text \<open>Round to the nearest integer, ties to even.\<close>

definition round_even :: "rat \<Rightarrow> int" where
  "round_even x = (let n = \<lfloor>x\<rfloor>; r = x - of_int n in
     if r < 1 / 2 then n else if 1 / 2 < r then n + 1 else if even n then n else n + 1)"

text \<open>
  The distance of neighbouring values around \<open>x\<close>: it starts at the subnormal \<open>2\<^sup>-\<^sup>1\<^sup>4\<^sup>9\<close> and doubles
  until 24 bits reach \<open>x\<close>, at most 253 times (the exponents of finite values).
\<close>

fun ulp_from :: "nat \<Rightarrow> rat \<Rightarrow> rat \<Rightarrow> rat" where
  "ulp_from 0 q x = q"
| "ulp_from (Suc n) q x = (if \<bar>x\<bar> < q * 2 ^ 24 then q else ulp_from n (2 * q) x)"

definition ulp :: "rat \<Rightarrow> rat" where
  "ulp x = ulp_from 253 (1 / 2 ^ 149) x"

definition F32_OVERFLOW :: rat where
  "F32_OVERFLOW = 2 ^ 128"

definition round_f32 :: "rat \<Rightarrow> f32" where
  "round_f32 x = (let y = of_int (round_even (x / ulp x)) * ulp x in
     if F32_OVERFLOW \<le> y then Inf True else if y \<le> - F32_OVERFLOW then Inf False else Fin y)"

section \<open>Operations\<close>

fun f_neg :: "f32 \<Rightarrow> f32" where
  "f_neg (Fin x) = Fin (- x)"
| "f_neg (Inf b) = Inf (\<not> b)"
| "f_neg NaN = NaN"

fun f_add :: "f32 \<Rightarrow> f32 \<Rightarrow> f32" where
  "f_add (Fin x) (Fin y) = round_f32 (x + y)"
| "f_add (Inf a) (Inf b) = (if a = b then Inf a else NaN)"
| "f_add NaN y = NaN"
| "f_add x NaN = NaN"
| "f_add (Inf a) y = Inf a"
| "f_add x (Inf b) = Inf b"

definition f_sub :: "f32 \<Rightarrow> f32 \<Rightarrow> f32" where
  "f_sub x y = f_add x (f_neg y)"

fun f_mul :: "f32 \<Rightarrow> f32 \<Rightarrow> f32" where
  "f_mul (Fin x) (Fin y) = round_f32 (x * y)"
| "f_mul (Inf a) (Inf b) = Inf (a = b)"
| "f_mul NaN y = NaN"
| "f_mul x NaN = NaN"
| "f_mul (Inf a) (Fin y) = (if y = 0 then NaN else Inf (a = (0 < y)))"
| "f_mul (Fin x) (Inf b) = (if x = 0 then NaN else Inf (b = (0 < x)))"

text \<open>Division by a finite divisor other than zero, and by infinity: no divisor here is zero.\<close>

fun f_div :: "f32 \<Rightarrow> f32 \<Rightarrow> f32" where
  "f_div (Fin x) (Fin y) = (if y = 0 then NaN else round_f32 (x / y))"
| "f_div (Inf a) (Fin y) = (if y = 0 then NaN else Inf (a = (0 < y)))"
| "f_div (Fin x) (Inf b) = Fin 0"
| "f_div x y = NaN"

fun f_le :: "f32 \<Rightarrow> f32 \<Rightarrow> bool" where
  "f_le (Fin x) (Fin y) = (x \<le> y)"
| "f_le (Inf a) (Inf b) = (a \<longrightarrow> b)"
| "f_le NaN y = False"
| "f_le x NaN = False"
| "f_le (Inf a) (Fin y) = (\<not> a)"
| "f_le (Fin x) (Inf b) = b"

text \<open>\<open>f32::max\<close> and \<open>f32::min\<close> return the other operand when one is NaN.\<close>

definition f_max :: "f32 \<Rightarrow> f32 \<Rightarrow> f32" where
  "f_max x y = (if x = NaN then y else if y = NaN then x else if f_le x y then y else x)"

definition f_min :: "f32 \<Rightarrow> f32 \<Rightarrow> f32" where
  "f_min x y = (if x = NaN then y else if y = NaN then x else if f_le x y then x else y)"

section \<open>Durations\<close>

text \<open>A \<open>Duration\<close> in nanoseconds. \<open>as_secs_f32\<close> adds the seconds and the nanoseconds divided by a billion.\<close>

definition NANOS_PER_SEC :: nat where
  "NANOS_PER_SEC = 1000000000"

definition as_secs_f32 :: "nat \<Rightarrow> f32" where
  "as_secs_f32 d = f_add (round_f32 (of_nat (d div NANOS_PER_SEC)))
     (f_div (round_f32 (of_nat (d mod NANOS_PER_SEC))) (round_f32 (of_nat NANOS_PER_SEC)))"

text \<open>\<open>Duration::from_secs_f32\<close> panics (\<open>None\<close>) on a negative or overlong time and on what is not finite.\<close>

fun from_secs_f32 :: "f32 \<Rightarrow> nat option" where
  "from_secs_f32 (Fin x) = (if 0 \<le> x \<and> x < 2 ^ 64 then Some (nat (round_even (x * of_nat NANOS_PER_SEC))) else None)"
| "from_secs_f32 _ = None"

section \<open>Rounding is monotone and exact on small integers\<close>

lemma round_even_of_int [simp]: "round_even (of_int n) = n"
  by (simp add: round_even_def)

lemma round_even_mono:
  assumes "x \<le> y"
  shows "round_even x \<le> round_even y"
proof (cases "\<lfloor>x\<rfloor> = \<lfloor>y\<rfloor>")
  case True
  then show ?thesis using assms by (simp add: round_even_def Let_def)
next
  case False
  then have "\<lfloor>x\<rfloor> + 1 \<le> \<lfloor>y\<rfloor>" using floor_mono [OF assms] by linarith
  moreover have "round_even x \<le> \<lfloor>x\<rfloor> + 1" "\<lfloor>y\<rfloor> \<le> round_even y" by (simp_all add: round_even_def Let_def)
  ultimately show ?thesis by linarith
qed

text \<open>The spacing is a power of two, and 24 bits are never wasted: once it has doubled, the upper half is reached.\<close>

lemma ulp_from_power:
  "\<exists>k\<le>n. ulp_from n q x = q * 2 ^ k \<and> (k = 0 \<or> q * 2 ^ k * 2 ^ 23 \<le> \<bar>x\<bar>) \<and>
     (k = n \<or> \<bar>x\<bar> < q * 2 ^ k * 2 ^ 24)"
proof (induction n arbitrary: q)
  case (Suc n)
  show ?case
  proof (cases "\<bar>x\<bar> < q * 2 ^ 24")
    case True
    then show ?thesis by (intro exI [of _ 0]) auto
  next
    case False
    obtain k where k: "k \<le> n" "ulp_from n (2 * q) x = 2 * q * 2 ^ k" "k = 0 \<or> 2 * q * 2 ^ k * 2 ^ 23 \<le> \<bar>x\<bar>"
        "k = n \<or> \<bar>x\<bar> < 2 * q * 2 ^ k * 2 ^ 24"
      using Suc.IH [of "2 * q"] by blast
    then have "q * 2 ^ Suc k * 2 ^ 23 \<le> \<bar>x\<bar>" using False by (cases "k = 0") auto
    then show ?thesis using k(1,2,4) False by (intro exI [of _ "Suc k"]) (auto simp: mult_ac)
  qed
qed auto

lemma ulp_pos: "0 < ulp x"
proof -
  have "0 < q \<Longrightarrow> 0 < ulp_from n q x" for n q by (induction n arbitrary: q) auto
  then show ?thesis unfolding ulp_def by simp
qed

definition rounded :: "rat \<Rightarrow> rat" where
  "rounded x = of_int (round_even (x / ulp x)) * ulp x"

lemma round_f32_rounded:
  "round_f32 x = (if F32_OVERFLOW \<le> rounded x then Inf True
     else if rounded x \<le> - F32_OVERFLOW then Inf False else Fin (rounded x))"
  by (simp add: round_f32_def rounded_def Let_def)

text \<open>A multiple of the spacing bounds what is rounded.\<close>

lemma rounded_ge:
  assumes "of_int m * ulp x \<le> x"
  shows "of_int m * ulp x \<le> rounded x"
proof -
  have "of_int m \<le> x / ulp x" using assms ulp_pos [of x] by (simp add: pos_le_divide_eq)
  then have "m \<le> round_even (x / ulp x)" using round_even_mono [of "of_int m" "x / ulp x"] by simp
  then show ?thesis using ulp_pos [of x] by (simp add: rounded_def)
qed

lemma rounded_le:
  assumes "x \<le> of_int m * ulp x"
  shows "rounded x \<le> of_int m * ulp x"
proof -
  have "x / ulp x \<le> of_int m" using assms ulp_pos [of x] by (simp add: pos_divide_le_eq)
  then have "round_even (x / ulp x) \<le> m" using round_even_mono [of "x / ulp x" "of_int m"] by simp
  then show ?thesis using ulp_pos [of x] by (simp add: rounded_def)
qed

text \<open>Integers below \<open>2\<^sup>2\<^sup>4\<close> are multiples of the spacing around anything of that size.\<close>

lemma ulp_cases:
  obtains (fine) m where "of_int m * ulp x = (1 :: rat)" and "\<bar>x\<bar> < 2 ^ 24"
  | (coarse) k where "ulp x = 2 ^ Suc k" and "2 ^ Suc k * 2 ^ 23 \<le> \<bar>x\<bar>"
proof -
  obtain j where j: "ulp x = (1 / 2 ^ 149) * 2 ^ j" and big: "j = 0 \<or> 1 / 2 ^ 149 * 2 ^ j * 2 ^ 23 \<le> \<bar>x\<bar>"
    and top: "j = 253 \<or> \<bar>x\<bar> < 1 / 2 ^ 149 * 2 ^ j * 2 ^ 24"
    using ulp_from_power [of 253 "1 / 2 ^ 149" x] unfolding ulp_def by blast
  show thesis
  proof (cases "j \<le> 149")
    case True
    then have "2 ^ (149 - j) * ulp x = (1 :: rat)" by (simp add: j flip: power_add)
    moreover have "(1 :: rat) / 2 ^ 149 * 2 ^ j \<le> 1"
      using power_increasing [OF True, of "2 :: rat"] by (simp add: divide_le_eq)
    from mult_right_mono [OF this, of "2 ^ 24"] have "\<bar>x\<bar> < 2 ^ 24" using top True by auto
    ultimately show thesis by (intro fine [of "2 ^ (149 - j)"]) simp_all
  next
    case False
    then obtain k where k: "j = 149 + Suc k" using less_iff_Suc_add [of 149 j] by auto
    then have "ulp x = 2 ^ Suc k" unfolding j k power_add by simp
    then show thesis using big k j by (intro coarse [of k]) auto
  qed
qed

definition small :: "int \<Rightarrow> bool" where
  "small c \<longleftrightarrow> \<bar>c\<bar> \<le> 2 ^ 24"

lemma rounded_ge_small:
  assumes "small c" "of_int c \<le> x"
  shows "of_int c \<le> rounded x"
proof (cases x rule: ulp_cases)
  case (fine m)
  then have cm: "of_int (c * m) * ulp x = of_int c" by (simp add: mult.assoc)
  show ?thesis using rounded_ge [of "c * m" x] assms(2) unfolding cm .
next
  case (coarse k)
  have u: "(2 :: rat) \<le> ulp x" unfolding coarse(1) by simp
  have hi: "2 ^ 24 \<le> 2 ^ 23 * ulp x" using u by simp
  have "- (2 ^ 24) \<le> c" "c \<le> 2 ^ 24" using assms(1) by (auto simp: small_def)
  then have "rat_of_int (- (2 ^ 24)) \<le> of_int c" "rat_of_int c \<le> of_int (2 ^ 24)" unfolding of_int_le_iff by auto
  then have c: "- (2 ^ 24) \<le> rat_of_int c" "rat_of_int c \<le> 2 ^ 24" by simp_all
  show ?thesis
  proof (cases "0 \<le> x")
    case True
    then have "of_int (2 ^ 23) * ulp x \<le> x" using coarse by (simp add: mult.commute)
    then have "of_int (2 ^ 23) * ulp x \<le> rounded x" by (rule rounded_ge)
    then show ?thesis using hi c by simp
  next
    case False
    then have "2 ^ 23 * ulp x \<le> - x" using coarse by (simp add: mult.commute)
    moreover have "- x \<le> 2 ^ 24" using assms(2) c(1) by linarith
    ultimately have x: "of_int (- (2 ^ 23)) * ulp x = x" using hi by simp
    then have "x \<le> rounded x" using rounded_ge [of "- (2 ^ 23)" x] by simp
    then show ?thesis using assms(2) by simp
  qed
qed

lemma round_even_uminus: "round_even (- x) = - round_even x"
proof (cases "x = of_int \<lfloor>x\<rfloor>")
  case True
  then have "- x = of_int (- \<lfloor>x\<rfloor>)" by simp
  then have "round_even (- x) = - \<lfloor>x\<rfloor>" by (metis round_even_of_int)
  moreover have "round_even x = \<lfloor>x\<rfloor>" using True by (metis round_even_of_int)
  ultimately show ?thesis by simp
next
  case False
  then have f: "\<lfloor>- x\<rfloor> = - \<lfloor>x\<rfloor> - 1" by linarith
  have r: "- x - of_int (- \<lfloor>x\<rfloor> - 1) = 1 - (x - of_int \<lfloor>x\<rfloor>)" by simp
  show ?thesis unfolding round_even_def Let_def f r by auto
qed

lemma ulp_uminus [simp]: "ulp (- x) = ulp x"
proof -
  have "ulp_from n q (- x) = ulp_from n q x" for n q by (induction n arbitrary: q) auto
  then show ?thesis by (simp add: ulp_def)
qed

lemma rounded_uminus: "rounded (- x) = - rounded x"
  by (simp add: rounded_def round_even_uminus)

lemma rounded_le_small:
  assumes "small c" "x \<le> of_int c"
  shows "rounded x \<le> of_int c"
  using rounded_ge_small [of "- c" "- x"] assms by (simp add: rounded_uminus small_def)

lemma rounded_small: "small c \<Longrightarrow> rounded (of_int c) = of_int c"
  by (intro antisym rounded_le_small rounded_ge_small) auto

lemma rounded_nonneg: "0 \<le> x \<Longrightarrow> 0 \<le> rounded x"
  using rounded_ge_small [of 0 x] by (simp add: small_def)

text \<open>Below two to the 25th power nothing overflows.\<close>

lemma rounded_abs_le:
  assumes "\<bar>x\<bar> \<le> 2 ^ 24"
  shows "\<bar>rounded x\<bar> \<le> 2 ^ 24"
  using rounded_ge_small [of "- (2 ^ 24)" x] rounded_le_small [of "2 ^ 24" x] assms
  by (simp add: small_def abs_le_iff)

text \<open>So do powers of two, and the one integer past \<open>- 2\<^sup>2\<^sup>4\<close> rounds back to it.\<close>

lemma rounded_le_power:
  assumes "x \<le> 2 ^ n"
  shows "rounded x \<le> 2 ^ n"
proof (cases x rule: ulp_cases)
  case (fine m)
  then have cm: "of_int (2 ^ n * m) * ulp x = 2 ^ n" by (simp add: mult.assoc)
  show ?thesis using rounded_le [of x "2 ^ n * m"] assms unfolding cm .
next
  case (coarse k)
  show ?thesis
  proof (cases "x < 0")
    case True
    then have "rounded x \<le> 0" using rounded_le_small [of 0 x] by (simp add: small_def)
    then show ?thesis by (rule order_trans) simp
  next
    case False
    then have "(2 :: rat) ^ (Suc k + 23) \<le> 2 ^ n" using coarse(2) assms unfolding power_add by linarith
    then have "Suc k \<le> n" using power_increasing_iff [of "2 :: rat" "Suc k + 23" n] by linarith
    then have cm: "of_int (2 ^ (n - Suc k)) * ulp x = 2 ^ n" unfolding coarse(1) by (simp flip: power_add power_Suc)
    show ?thesis using rounded_le [of x "2 ^ (n - Suc k)"] assms unfolding cm .
  qed
qed

lemma rounded_ge_fraction:
  assumes "1 / 2 ^ n \<le> x" "n \<le> 149"
  shows "1 / 2 ^ n \<le> rounded x"
proof -
  obtain j where j: "ulp x = (1 / 2 ^ 149) * 2 ^ j" and big: "j = 0 \<or> 1 / 2 ^ 149 * 2 ^ j * 2 ^ 23 \<le> \<bar>x\<bar>"
    using ulp_from_power [of 253 "1 / 2 ^ 149" x] unfolding ulp_def by blast
  have "0 < (1 :: rat) / 2 ^ n" by simp
  then have pos: "0 < x" using assms(1) by linarith
  have split: "(2 :: rat) ^ 149 = 2 ^ n * 2 ^ (149 - n)" using assms(2) by (simp flip: power_add)
  show ?thesis
  proof (cases "j \<le> 149 - n")
    case True
    then have "(2 :: rat) ^ (149 - n) = 2 ^ (149 - n - j) * 2 ^ j" by (simp flip: power_add)
    then have cm: "of_int (2 ^ (149 - n - j)) * ulp x = 1 / 2 ^ n" unfolding j split by simp
    show ?thesis using rounded_ge [of "2 ^ (149 - n - j)" x] assms(1) unfolding cm .
  next
    case False
    have "of_int (2 ^ 23) * ulp x \<le> x" using big False pos unfolding j by (simp add: mult_ac)
    then have "of_int (2 ^ 23) * ulp x \<le> rounded x" by (rule rounded_ge)
    moreover have "(2 :: rat) ^ (149 - n) \<le> 2 ^ j" using False by (intro power_increasing) auto
    then have "1 / 2 ^ n \<le> ulp x" unfolding j split by (simp add: field_simps)
    moreover have "ulp x \<le> of_int (2 ^ 23) * ulp x" using ulp_pos [of x] by simp
    ultimately show ?thesis by linarith
  qed
qed

lemma rounded_past_small:
  assumes "- (2 ^ 24) - 1 \<le> x"
  shows "- (2 ^ 24) \<le> rounded x"
proof (cases "- (2 ^ 24) \<le> x")
  case True
  then show ?thesis using rounded_ge_small [of "- (2 ^ 24)" x] by (simp add: small_def)
next
  case False
  then have ax: "2 ^ 24 < \<bar>x\<bar>" "\<bar>x\<bar> \<le> 2 ^ 24 + 1" using assms by auto
  have u: "ulp x = 2"
  proof (cases x rule: ulp_cases)
    case (coarse k)
    then have "(2 :: rat) ^ k * 2 ^ 24 < 2 ^ 1 * 2 ^ 24" using ax by simp
    then have "(2 :: rat) ^ k < 2 ^ 1" by (simp only: mult_less_cancel_right) simp
    then have "k = 0" using power_strict_increasing_iff [of "2 :: rat" k 1] by linarith
    then show ?thesis using coarse by simp
  qed (use ax in simp)
  have "round_even (- (2 ^ 23) - 1 / 2) \<le> round_even (x / 2)" using assms by (intro round_even_mono) simp
  moreover have "round_even (- (2 ^ 23) - 1 / 2) = - (2 ^ 23)" by code_simp
  ultimately have "- (2 ^ 23) \<le> round_even (x / 2)" by simp
  then have "of_int (- (2 ^ 23)) \<le> rat_of_int (round_even (x / 2))" by (simp only: of_int_le_iff)
  then show ?thesis by (simp add: rounded_def u)
qed

lemma round_f32_fin: "\<bar>rounded x\<bar> < F32_OVERFLOW \<Longrightarrow> round_f32 x = Fin (rounded x)"
  by (auto simp: round_f32_rounded)

lemma round_f32_small: "\<bar>x\<bar> \<le> 2 ^ 24 \<Longrightarrow> round_f32 x = Fin (rounded x)"
  using rounded_abs_le [of x] by (intro round_f32_fin) (simp add: F32_OVERFLOW_def)

lemma round_f32_of_int: "small j \<Longrightarrow> round_f32 (of_int j) = Fin (of_int j)"
  using rounded_small [of j] by (subst round_f32_fin) (auto simp: small_def F32_OVERFLOW_def simp flip: of_int_abs)

lemma round_f32_power: "0 \<le> x \<Longrightarrow> x \<le> 2 ^ n \<Longrightarrow> n < 128 \<Longrightarrow> round_f32 x = Fin (rounded x)"
  using rounded_le_power [of x n] rounded_nonneg [of x] power_strict_increasing [of n 128 "2 :: rat"]
  by (intro round_f32_fin) (simp add: F32_OVERFLOW_def)

lemma round_f32_0 [simp]: "round_f32 0 = Fin 0"
  using round_f32_of_int [of 0] by (simp add: small_def)

end
