(* ===== verification/Connection.thy ===== *)
theory Connection
  imports "HOL-Library.Multiset" "HOL-Library.AList" Chat_Crypto Packet_Codes F32
begin

text \<open>
  \<open>chat/src/network/server/connection.rs\<close>: everything the server knows about one client. The two variants
  of the enum carry a record each, with the fields of the source. Sockets and shared cells (\<open>Arc\<close>) are
  handles, an \<open>AbortHandle\<close> is the task it aborts, instants are nanoseconds of the monotonic clock, and the
  tasks an operation aborts are part of its result. The map of transfers is shared by the clones of
  a connection, so it is reached through a handle into a store; a hash map is an association list.
\<close>

section \<open>Data\<close>

type_synonym handle = nat
type_synonym task = nat
type_synonym instant = nat
type_synonym sock_addr = "nat \<times> nat"
  \<comment> \<open>the address and the port\<close>

record available_file =
  af_hash :: "u8 list"
  af_path :: ustr
  af_filename :: ustr
  af_size :: u64
  af_key :: "i64 list"
  af_nonce :: "i64 list"

record attach =
  at_stream :: handle
  at_target_id :: nat
  at_token :: "u8 list"
  at_muted :: bool

datatype connection_type =
    CtFileUpload u64
  | CtImage u64
  | CtAvatar u64
  | CtIcon u64
  | CtVoice u64
  | CtFileDownload u64 available_file
  | CtScreen
  | CtAttach nat

record authenticated =
  a_write_stream :: handle
  a_task :: task
  a_file_streams :: handle
  a_screen_stream :: "task option"
  a_peer_addr :: sock_addr
  a_username :: ustr
  a_device :: "device option"
  a_role :: role
  a_id :: nat
  a_keys :: shared_keys
  a_attached_screen :: "attach option"
  a_last_activity :: instant
  a_last_key_exchange :: instant
  a_last_image :: instant
  a_last_typing :: instant
  a_last_pm :: "nat option"
  a_spam_violations :: u64
  a_credit :: f32
  a_refill :: instant
  a_throttles :: u64
  a_channel :: "ustr option"
  a_seq :: u64
  a_server_seq :: u64
  a_alive :: bool
  a_muted :: bool

record non_authenticated =
  n_write_stream :: handle
  n_task :: task
  n_peer_addr :: sock_addr
  n_username :: "ustr option"
  n_keys :: "shared_keys option"
  n_obfuscation_key :: "u8 list"
  n_last_activity :: instant
  n_seq :: u64
  n_connect :: instant

datatype connection = Authenticated authenticated | NonAuthenticated non_authenticated

section \<open>Accessors\<close>

fun write_stream :: "connection \<Rightarrow> handle" where
  "write_stream (Authenticated c) = a_write_stream c"
| "write_stream (NonAuthenticated c) = n_write_stream c"

fun conn_task :: "connection \<Rightarrow> task" where
  "conn_task (Authenticated c) = a_task c"
| "conn_task (NonAuthenticated c) = n_task c"

fun peer_addr :: "connection \<Rightarrow> sock_addr" where
  "peer_addr (Authenticated c) = a_peer_addr c"
| "peer_addr (NonAuthenticated c) = n_peer_addr c"

fun last_activity :: "connection \<Rightarrow> instant" where
  "last_activity (Authenticated c) = a_last_activity c"
| "last_activity (NonAuthenticated c) = n_last_activity c"

fun seq :: "connection \<Rightarrow> u64" where
  "seq (Authenticated c) = a_seq c"
| "seq (NonAuthenticated c) = n_seq c"

fun username :: "connection \<Rightarrow> ustr option" where
  "username (Authenticated c) = Some (a_username c)"
| "username (NonAuthenticated c) = n_username c"

fun keys :: "connection \<Rightarrow> shared_keys option" where
  "keys (Authenticated c) = Some (a_keys c)"
| "keys (NonAuthenticated c) = n_keys c"

fun obfuscation_key :: "connection \<Rightarrow> u8 list option" where
  "obfuscation_key (Authenticated c) = None"
| "obfuscation_key (NonAuthenticated c) = Some (n_obfuscation_key c)"

fun file_streams :: "connection \<Rightarrow> handle option" where
  "file_streams (Authenticated c) = Some (a_file_streams c)"
| "file_streams (NonAuthenticated c) = None"

fun conn_role :: "connection \<Rightarrow> role option" where
  "conn_role (Authenticated c) = Some (a_role c)"
| "conn_role (NonAuthenticated c) = None"

fun conn_id :: "connection \<Rightarrow> nat option" where
  "conn_id (Authenticated c) = Some (a_id c)"
| "conn_id (NonAuthenticated c) = None"

fun last_image :: "connection \<Rightarrow> instant option" where
  "last_image (Authenticated c) = Some (a_last_image c)"
| "last_image (NonAuthenticated c) = None"

fun last_typing :: "connection \<Rightarrow> instant option" where
  "last_typing (Authenticated c) = Some (a_last_typing c)"
| "last_typing (NonAuthenticated c) = None"

fun last_key_exchange :: "connection \<Rightarrow> instant option" where
  "last_key_exchange (Authenticated c) = Some (a_last_key_exchange c)"
| "last_key_exchange (NonAuthenticated c) = None"

fun spam_violations :: "connection \<Rightarrow> u64 option" where
  "spam_violations (Authenticated c) = Some (a_spam_violations c)"
| "spam_violations (NonAuthenticated c) = None"

fun credit :: "connection \<Rightarrow> f32 option" where
  "credit (Authenticated c) = Some (a_credit c)"
| "credit (NonAuthenticated c) = None"

fun refill :: "connection \<Rightarrow> instant option" where
  "refill (Authenticated c) = Some (a_refill c)"
| "refill (NonAuthenticated c) = None"

fun throttles :: "connection \<Rightarrow> u64 option" where
  "throttles (Authenticated c) = Some (a_throttles c)"
| "throttles (NonAuthenticated c) = None"

fun server_seq :: "connection \<Rightarrow> u64 option" where
  "server_seq (Authenticated c) = Some (a_server_seq c)"
| "server_seq (NonAuthenticated c) = None"

fun last_pm :: "connection \<Rightarrow> nat option" where
  "last_pm (Authenticated c) = a_last_pm c"
| "last_pm (NonAuthenticated c) = None"

fun conn_device :: "connection \<Rightarrow> device option" where
  "conn_device (Authenticated c) = a_device c"
| "conn_device (NonAuthenticated c) = None"

fun conn_channel :: "connection \<Rightarrow> ustr option" where
  "conn_channel (Authenticated c) = a_channel c"
| "conn_channel (NonAuthenticated c) = None"

fun screen_stream :: "connection \<Rightarrow> task option" where
  "screen_stream (Authenticated c) = a_screen_stream c"
| "screen_stream (NonAuthenticated c) = None"

fun attached_screen :: "connection \<Rightarrow> attach option" where
  "attached_screen (Authenticated c) = a_attached_screen c"
| "attached_screen (NonAuthenticated c) = None"

fun is_alive :: "connection \<Rightarrow> bool" where
  "is_alive (Authenticated c) = a_alive c"
| "is_alive (NonAuthenticated c) = False"

fun muted :: "connection \<Rightarrow> bool" where
  "muted (Authenticated c) = a_muted c"
| "muted (NonAuthenticated c) = False"

fun is_authenticated :: "connection \<Rightarrow> bool" where
  "is_authenticated (Authenticated c) = True"
| "is_authenticated (NonAuthenticated c) = False"

text \<open>
  A \<open>_mut\<close> accessor hands out a reference to write through: its model takes the write as a function. \<open>None\<close> is the
  \<open>None\<close> of the source where that returns an option, and the panic of \<open>username_mut\<close>.
\<close>

fun last_activity_mut :: "(instant \<Rightarrow> instant) \<Rightarrow> connection \<Rightarrow> connection option" where
  "last_activity_mut f (Authenticated c) = Some (Authenticated (c\<lparr> a_last_activity := f (a_last_activity c) \<rparr>))"
| "last_activity_mut f (NonAuthenticated c) = Some (NonAuthenticated (c\<lparr> n_last_activity := f (n_last_activity c) \<rparr>))"

fun seq_mut :: "(u64 \<Rightarrow> u64) \<Rightarrow> connection \<Rightarrow> connection option" where
  "seq_mut f (Authenticated c) = Some (Authenticated (c\<lparr> a_seq := f (a_seq c) \<rparr>))"
| "seq_mut f (NonAuthenticated c) = Some (NonAuthenticated (c\<lparr> n_seq := f (n_seq c) \<rparr>))"

fun last_image_mut :: "(instant \<Rightarrow> instant) \<Rightarrow> connection \<Rightarrow> connection option" where
  "last_image_mut f (Authenticated c) = Some (Authenticated (c\<lparr> a_last_image := f (a_last_image c) \<rparr>))"
| "last_image_mut f (NonAuthenticated c) = None"

fun last_typing_mut :: "(instant \<Rightarrow> instant) \<Rightarrow> connection \<Rightarrow> connection option" where
  "last_typing_mut f (Authenticated c) = Some (Authenticated (c\<lparr> a_last_typing := f (a_last_typing c) \<rparr>))"
| "last_typing_mut f (NonAuthenticated c) = None"

fun spam_violations_mut :: "(u64 \<Rightarrow> u64) \<Rightarrow> connection \<Rightarrow> connection option" where
  "spam_violations_mut f (Authenticated c) = Some (Authenticated (c\<lparr> a_spam_violations := f (a_spam_violations c) \<rparr>))"
| "spam_violations_mut f (NonAuthenticated c) = None"

fun server_seq_mut :: "(u64 \<Rightarrow> u64) \<Rightarrow> connection \<Rightarrow> connection option" where
  "server_seq_mut f (Authenticated c) = Some (Authenticated (c\<lparr> a_server_seq := f (a_server_seq c) \<rparr>))"
| "server_seq_mut f (NonAuthenticated c) = None"

fun username_mut :: "(ustr option \<Rightarrow> ustr option) \<Rightarrow> connection \<Rightarrow> connection option" where
  "username_mut f (Authenticated c) = None"
| "username_mut f (NonAuthenticated c) = Some (NonAuthenticated (c\<lparr> n_username := f (n_username c) \<rparr>))"

fun set_last_pm :: "nat \<Rightarrow> connection \<Rightarrow> connection" where
  "set_last_pm i (Authenticated c) = Authenticated (c\<lparr> a_last_pm := Some i \<rparr>)"
| "set_last_pm i (NonAuthenticated c) = NonAuthenticated c"

fun unset_last_pm :: "connection \<Rightarrow> connection" where
  "unset_last_pm (Authenticated c) = Authenticated (c\<lparr> a_last_pm := None \<rparr>)"
| "unset_last_pm (NonAuthenticated c) = NonAuthenticated c"

fun set_alive :: "bool \<Rightarrow> connection \<Rightarrow> connection" where
  "set_alive v (Authenticated c) = Authenticated (c\<lparr> a_alive := v \<rparr>)"
| "set_alive v (NonAuthenticated c) = NonAuthenticated c"

fun toggle_mute :: "connection \<Rightarrow> connection" where
  "toggle_mute (Authenticated c) = Authenticated (c\<lparr> a_muted := \<not> a_muted c \<rparr>)"
| "toggle_mute (NonAuthenticated c) = NonAuthenticated c"

fun set_role :: "role \<Rightarrow> connection \<Rightarrow> connection" where
  "set_role r (Authenticated c) = Authenticated (c\<lparr> a_role := r \<rparr>)"
| "set_role r (NonAuthenticated c) = NonAuthenticated c"

fun attach_screen :: "nat \<Rightarrow> handle \<Rightarrow> u8 list \<Rightarrow> connection \<Rightarrow> connection" where
  "attach_screen target stream token (Authenticated c) = Authenticated (c\<lparr> a_attached_screen := Some \<lparr> at_stream = stream, at_target_id = target, at_token = token, at_muted = False \<rparr> \<rparr>)"
| "attach_screen target stream token (NonAuthenticated c) = NonAuthenticated c"

fun deattach_screen :: "connection \<Rightarrow> connection" where
  "deattach_screen (Authenticated c) = Authenticated (c\<lparr> a_attached_screen := None \<rparr>)"
| "deattach_screen (NonAuthenticated c) = NonAuthenticated c"

text \<open>\<open>toggle_mute_screen\<close> also returns the new state; \<open>False\<close> when nothing is attached.\<close>

fun toggle_mute_screen :: "connection \<Rightarrow> connection \<times> bool" where
  "toggle_mute_screen (Authenticated c) = (case a_attached_screen c of
     Some a \<Rightarrow> let new_mute = \<not> at_muted a in
       (Authenticated (c\<lparr> a_attached_screen := Some (a\<lparr> at_muted := new_mute \<rparr>) \<rparr>), new_mute)
   | None \<Rightarrow> (Authenticated c, False))"
| "toggle_mute_screen (NonAuthenticated c) = (NonAuthenticated c, False)"

section \<open>Tasks\<close>

text \<open>The screen share: the tasks an operation aborts come last in its result.\<close>

fun take_screen_stream :: "connection \<Rightarrow> connection \<times> (nat \<times> task) option" where
  "take_screen_stream (Authenticated c) = (case a_screen_stream c of
     Some old \<Rightarrow> (Authenticated (c\<lparr> a_screen_stream := None \<rparr>), Some (a_id c, old))
   | None \<Rightarrow> (Authenticated c, None))"
| "take_screen_stream (NonAuthenticated c) = (NonAuthenticated c, None)"

definition remove_screen_stream :: "connection \<Rightarrow> connection \<times> nat option \<times> task list" where
  "remove_screen_stream c = (case take_screen_stream c of
     (c', Some (i, old)) \<Rightarrow> (c', Some i, [old])
   | (c', None) \<Rightarrow> (c', None, []))"

definition set_screen_stream :: "task \<Rightarrow> connection \<Rightarrow> connection \<times> task list" where
  "set_screen_stream t c = (case remove_screen_stream c of (c', _, aborted) \<Rightarrow>
     (case c' of
        Authenticated a \<Rightarrow> (Authenticated (a\<lparr> a_screen_stream := Some t \<rparr>), aborted)
      | NonAuthenticated n \<Rightarrow> (c', aborted)))"

text \<open>The store of transfer maps, indexed by handle.\<close>

type_synonym transfers = "handle \<Rightarrow> (u64 \<times> task) list"

fun add_file_stream :: "u64 \<Rightarrow> task \<Rightarrow> connection \<Rightarrow> transfers \<Rightarrow> transfers" where
  "add_file_stream uid t (Authenticated c) ts = ts(a_file_streams c := AList.update uid t (ts (a_file_streams c)))"
| "add_file_stream uid t (NonAuthenticated c) ts = ts"

fun remove_file_stream :: "u64 \<Rightarrow> connection \<Rightarrow> transfers \<Rightarrow> transfers \<times> task list" where
  "remove_file_stream uid (Authenticated c) ts =
     (ts(a_file_streams c := AList.delete uid (ts (a_file_streams c))),
      case map_of (ts (a_file_streams c)) uid of Some t \<Rightarrow> [t] | None \<Rightarrow> [])"
| "remove_file_stream uid (NonAuthenticated c) ts = (ts, [])"

section \<open>Time\<close>

text \<open>
  \<open>take_credit\<close> reads the clock twice, for \<open>elapsed\<close> and for the new \<open>refill\<close>. \<open>None\<close> is the panic of
  \<open>Duration::from_secs_f32\<close>.
\<close>

definition MIN_RATE :: f32 where
  "MIN_RATE = round_f32 (1 / 1000)"

fun take_credit ::
  "instant \<Rightarrow> instant \<Rightarrow> f32 \<Rightarrow> f32 \<Rightarrow> connection \<Rightarrow> (connection \<times> nat) option" where
  "take_credit now now' rate burst (NonAuthenticated c) = Some (NonAuthenticated c, 0)"
| "take_credit now now' rate burst (Authenticated c) =
     (let rate = f_max rate MIN_RATE;
          burst = f_max burst (Fin 1);
          credit = f_sub (f_min (f_add (a_credit c) (f_mul (as_secs_f32 (now - a_refill c)) rate)) burst) (Fin 1);
          c = c\<lparr> a_credit := credit, a_refill := now' \<rparr>
      in if f_le (Fin 0) credit
         then Some (Authenticated (c\<lparr> a_throttles := 0 \<rparr>), 0)
         else map_option (\<lambda>wait. (Authenticated (c\<lparr> a_throttles := a_throttles c + 1 \<rparr>), wait))
                (from_secs_f32 (f_div (f_neg credit) rate)))"

text \<open>\<open>duration_since\<close> saturates at zero; the configured limits are in seconds.\<close>

fun is_inactive :: "u64 \<Rightarrow> u64 \<Rightarrow> instant \<Rightarrow> connection \<Rightarrow> bool" where
  "is_inactive communication_time max_auth_time now (Authenticated c) =
     (unat communication_time * NANOS_PER_SEC < now - a_last_activity c)"
| "is_inactive communication_time max_auth_time now (NonAuthenticated c) =
     (unat max_auth_time * NANOS_PER_SEC < now - n_connect c)"

section \<open>The contract of a mutable accessor\<close>

text \<open>
  A getter and its \<open>_mut\<close> twin: where the getter finds the field, the twin gives access to that field, and the
  connection keeps the variant it has and what makes it this connection.
\<close>

definition same_client :: "connection \<Rightarrow> connection \<Rightarrow> bool" where
  "same_client c c' \<longleftrightarrow> is_authenticated c = is_authenticated c' \<and> conn_id c = conn_id c' \<and>
     peer_addr c = peer_addr c' \<and> keys c = keys c' \<and> conn_task c = conn_task c' \<and>
     write_stream c = write_stream c'"

locale mut_access =
  fixes get :: "connection \<Rightarrow> 'a option"
    and upd :: "('a \<Rightarrow> 'a) \<Rightarrow> connection \<Rightarrow> connection option"
  assumes upd_none: "upd f c = None \<longleftrightarrow> get c = None"
    and get_upd: "upd f c = Some c' \<Longrightarrow> get c' = map_option f (get c)"
    and upd_upd: "upd f c = Some c' \<Longrightarrow> upd g c' = upd (g \<circ> f) c"
    and upd_same: "upd f c = Some c' \<Longrightarrow> same_client c c'"
begin

definition put :: "'a \<Rightarrow> connection \<Rightarrow> connection option" where
  "put v = upd (\<lambda>_. v)"

lemma put_total: "get c \<noteq> None \<Longrightarrow> \<exists>c'. put v c = Some c' \<and> get c' = Some v \<and> same_client c c'"
  using upd_none [of "\<lambda>_. v" c] get_upd [of "\<lambda>_. v" c] upd_same [of "\<lambda>_. v" c]
  by (auto simp: put_def)

lemma put_put: "put v c = Some c' \<Longrightarrow> put w c' = put w c"
  using upd_upd [of "\<lambda>_. v" c c' "\<lambda>_. w"] by (simp add: put_def comp_def)

text \<open>Counting by one, over any number of calls.\<close>

lemma upd_funpow:
  assumes "get c = Some v"
  shows "\<exists>c'. ((\<lambda>c. Option.bind c (upd f)) ^^ n) (Some c) = Some c' \<and> get c' = Some ((f ^^ n) v) \<and> same_client c c'"
proof (induction n)
  case 0
  then show ?case using assms by (auto simp: same_client_def)
next
  case (Suc n)
  then obtain c' where c': "((\<lambda>c. Option.bind c (upd f)) ^^ n) (Some c) = Some c'"
    "get c' = Some ((f ^^ n) v)" "same_client c c'" by blast
  then obtain c'' where "upd f c' = Some c''" using upd_none [of f c'] by auto
  then show ?case using c' get_upd [of f c' c''] upd_same [of f c' c''] by (auto simp: same_client_def)
qed

end

text \<open>The six pairs of the source keep it; \<open>username_mut\<close> is the one that panics where its getter answers.\<close>

lemma mut_total [simp]: "last_activity_mut f c \<noteq> None" "seq_mut g c \<noteq> None"
  by (cases c; simp)+

interpretation last_activity: mut_access "\<lambda>c. Some (last_activity c)" last_activity_mut
  by unfold_locales (simp, auto simp: same_client_def simp del: not_None_eq elim!: last_activity_mut.elims)

interpretation seq: mut_access "\<lambda>c. Some (seq c)" seq_mut
  by unfold_locales (simp, auto simp: same_client_def simp del: not_None_eq elim!: seq_mut.elims)

interpretation last_image: mut_access last_image last_image_mut
  by unfold_locales (auto simp: same_client_def elim!: last_image_mut.elims last_image.elims)

interpretation last_typing: mut_access last_typing last_typing_mut
  by unfold_locales (auto simp: same_client_def elim!: last_typing_mut.elims last_typing.elims)

interpretation spam_violations: mut_access spam_violations spam_violations_mut
  by unfold_locales (auto simp: same_client_def elim!: spam_violations_mut.elims spam_violations.elims)

interpretation server_seq: mut_access server_seq server_seq_mut
  by unfold_locales (auto simp: same_client_def elim!: server_seq_mut.elims server_seq.elims)


section \<open>The rate limiter\<close>

definition nonneg :: "f32 \<Rightarrow> bool" where
  "nonneg f = f_le (Fin 0) f"

text \<open>The debt a bucket can reach: at \<open>- 2\<^sup>2\<^sup>4\<close>, taking one more token no longer changes the \<open>f32\<close>.\<close>

definition above :: "f32 \<Rightarrow> bool" where
  "above f = f_le (Fin (- (2 ^ 24))) f"

lemma nonneg_iff: "nonneg f \<longleftrightarrow> f = Inf True \<or> (\<exists>x\<ge>0. f = Fin x)"
  by (cases f) (auto simp: nonneg_def)

lemma above_iff: "above f \<longleftrightarrow> f = Inf True \<or> (\<exists>x\<ge>- (2 ^ 24). f = Fin x)"
  by (cases f) (auto simp: above_def)

lemma nonneg_round: "0 \<le> x \<Longrightarrow> nonneg (round_f32 x)"
  using rounded_nonneg [of x] by (auto simp: nonneg_iff round_f32_rounded F32_OVERFLOW_def)

lemma above_round: "- (2 ^ 24) - 1 \<le> x \<Longrightarrow> above (round_f32 x)"
  using rounded_past_small [of x] by (auto simp: above_iff round_f32_rounded F32_OVERFLOW_def)

lemma nanos: "\<exists>y>0. round_f32 (of_nat NANOS_PER_SEC) = Fin y"
  using round_f32_power [of 1000000000 30] rounded_ge_small [of 1 1000000000] by (simp add: NANOS_PER_SEC_def small_def)

lemma as_secs_f32_0: "as_secs_f32 0 = Fin 0"
  using nanos by (auto simp: as_secs_f32_def)

lemma nonneg_elapsed: "nonneg (as_secs_f32 d)"
proof -
  obtain y where y: "0 < y" and c: "round_f32 (of_nat NANOS_PER_SEC) = Fin y" using nanos by blast
  have "nonneg (f_div f (Fin y))" if "nonneg f" for f
    using that y by (auto simp: nonneg_iff [of f] intro!: nonneg_round) (simp add: nonneg_iff)
  moreover have "nonneg (f_add f g)" if "nonneg f" "nonneg g" for f g
    using that by (auto simp: nonneg_iff [of f] nonneg_iff [of g] intro!: nonneg_round) (simp_all add: nonneg_iff)
  ultimately show ?thesis by (simp add: as_secs_f32_def c nonneg_round)
qed

lemma min_rate: "\<exists>m. MIN_RATE = Fin m \<and> 1 / 1024 \<le> m"
  using round_f32_small [of "1 / 1000"] rounded_ge_fraction [of 10 "1 / 1000"] by (simp add: MIN_RATE_def)

lemma eff_rate: "f_max rate MIN_RATE = Inf True \<or> (\<exists>r\<ge>1 / 1024. f_max rate MIN_RATE = Fin r)"
proof -
  obtain m where m: "MIN_RATE = Fin m" "1 / 1024 \<le> m" using min_rate by blast
  show ?thesis unfolding f_max_def m(1) using m(2) by (cases rate) auto
qed

lemma eff_burst: "f_max burst (Fin 1) = Inf True \<or> (\<exists>b\<ge>1. f_max burst (Fin 1) = Fin b)"
  by (cases burst) (auto simp: f_max_def)

lemma topped_up:
  assumes "above cr \<or> cr = NaN" "nonneg el"
  shows "above (f_min (f_add cr (f_mul el (f_max rate MIN_RATE))) (f_max burst (Fin 1)))"
proof -
  have "nonneg (f_mul el (f_max rate MIN_RATE)) \<or> f_mul el (f_max rate MIN_RATE) = NaN" (is "nonneg ?g \<or> _")
    using assms(2) eff_rate [of rate]
    by (auto simp: nonneg_iff [of el] intro!: nonneg_round) (auto simp: nonneg_iff)
  then have "above (f_add cr ?g) \<or> f_add cr ?g = NaN"
    using assms(1) by (auto simp: nonneg_iff [of ?g] above_iff [of cr] intro!: above_round) (auto simp: above_iff)
  then show ?thesis using eff_burst [of burst] by (auto simp: f_min_def above_iff)
qed

lemma above_pay:
  assumes "above f"
  shows "above (f_sub f (Fin 1))"
  using assms by (auto simp: above_iff [of f] f_sub_def intro!: above_round) (simp add: above_iff)

text \<open>What an overdrawn packet waits is a duration: the debt is bounded and the rate is not too small.\<close>

lemma overdrawn_wait:
  assumes "above cr" "\<not> nonneg cr"
  shows "\<exists>w. from_secs_f32 (f_div (f_neg cr) (f_max rate MIN_RATE)) = Some w \<and> w \<le> 2 ^ 34 * NANOS_PER_SEC"
proof -
  obtain x where x: "cr = Fin x" "- (2 ^ 24) \<le> x" "x < 0"
    using assms by (cases cr) (auto simp: above_def nonneg_def)
  have "\<exists>y. f_div (f_neg cr) (f_max rate MIN_RATE) = Fin y \<and> 0 \<le> y \<and> y \<le> 2 ^ 34"
    using eff_rate [of rate]
  proof (elim disjE exE conjE)
    fix r assume r: "1 / 1024 \<le> r" "f_max rate MIN_RATE = Fin r"
    have rp: "0 < r" using r(1) by simp
    have "- x \<le> 2 ^ 34 * r" using x(2) r(1) by simp
    then have q: "0 \<le> - x / r" "- x / r \<le> 2 ^ 34"
      using x(3) rp by (simp_all only: pos_divide_le_eq [OF rp]) (simp add: divide_nonpos_pos)
    have "rounded (- x / r) \<le> 2 ^ 34" "0 \<le> rounded (- x / r)"
      using rounded_le_power [OF q(2)] rounded_nonneg [OF q(1)] by simp_all
    moreover from this have "round_f32 (- x / r) = Fin (rounded (- x / r))"
      by (intro round_f32_fin) (simp add: F32_OVERFLOW_def)
    ultimately show ?thesis using x r by auto
  qed (use x in auto)
  then obtain y where y: "f_div (f_neg cr) (f_max rate MIN_RATE) = Fin y" "0 \<le> y" "y \<le> 2 ^ 34" by blast
  have "y * of_nat NANOS_PER_SEC \<le> of_int (2 ^ 34 * int NANOS_PER_SEC)" using y by (simp add: mult_right_mono)
  from round_even_mono [OF this] have "round_even (y * of_nat NANOS_PER_SEC) \<le> 2 ^ 34 * int NANOS_PER_SEC"
    by (simp only: round_even_of_int)
  then show ?thesis using y by (simp add: nat_le_iff)
qed

text \<open>With no time passing, a bucket of whole tokens pays one per packet.\<close>

lemma pay_whole:
  assumes "a_credit c = Fin (of_int k)" "small k" "1 \<le> k"
    and "f_max burst (Fin 1) = Fin b" "of_int k \<le> b" "f_max rate MIN_RATE = Fin r"
  shows "take_credit (a_refill c) now rate burst (Authenticated c) =
    Some (Authenticated (c\<lparr> a_credit := Fin (of_int (k - 1)), a_refill := now, a_throttles := 0 \<rparr>), 0)"
proof -
  have "small (k - 1)" using assms(2,3) by (auto simp: small_def)
  from round_f32_of_int [OF this] round_f32_of_int [OF assms(2)] show ?thesis
    using assms by (simp add: as_secs_f32_0 f_min_def f_sub_def Let_def)
qed


text \<open>Packets handled back to back at one instant: the waits, in order.\<close>

fun pay_all :: "instant \<Rightarrow> f32 \<Rightarrow> f32 \<Rightarrow> nat \<Rightarrow> connection \<Rightarrow> (connection \<times> nat list) option" where
  "pay_all now rate burst 0 c = Some (c, [])"
| "pay_all now rate burst (Suc n) c = (case take_credit now now rate burst c of
     None \<Rightarrow> None
   | Some (c', wait) \<Rightarrow> map_option (\<lambda>(c'', waits). (c'', wait # waits)) (pay_all now rate burst n c'))"

lemma pay_all_whole:
  assumes "a_credit c = Fin (of_int k)" "small k" "int n \<le> k" "a_refill c = now"
    and "f_max burst (Fin 1) = Fin b" "of_int k \<le> b" "f_max rate MIN_RATE = Fin r"
  shows "\<exists>c'. pay_all now rate burst n (Authenticated c) = Some (Authenticated c', replicate n 0) \<and>
    a_credit c' = Fin (of_int (k - int n)) \<and> a_refill c' = now"
  using assms
proof (induction n arbitrary: c k)
  case (Suc n)
  let ?c = "c\<lparr> a_credit := Fin (of_int (k - 1)), a_refill := now, a_throttles := 0 \<rparr>"
  have pay: "take_credit now now rate burst (Authenticated c) = Some (Authenticated ?c, 0)"
    using pay_whole [of c k burst b rate r now] Suc.prems by simp
  have "of_int (k - 1) \<le> b" "small (k - 1)" using Suc.prems by (auto simp: small_def)
  then show ?case using Suc.IH [of ?c "k - 1"] Suc.prems unfolding pay_all.simps(2) pay
    by (auto simp: algebra_simps)
qed auto

section \<open>The life of a screen share task\<close>

datatype screen_op = SetScreen task | TakeScreen | RemoveScreen

text \<open>One call: the connection, the tasks aborted and the tasks handed to the caller.\<close>

fun screen_step :: "screen_op \<Rightarrow> connection \<Rightarrow> connection \<times> task list \<times> task list" where
  "screen_step (SetScreen t) c = (case set_screen_stream t c of (c', ab) \<Rightarrow> (c', ab, []))"
| "screen_step TakeScreen c = (case take_screen_stream c of (c', r) \<Rightarrow> (c', [], map snd (case r of None \<Rightarrow> [] | Some x \<Rightarrow> [x])))"
| "screen_step RemoveScreen c = (case remove_screen_stream c of (c', _, ab) \<Rightarrow> (c', ab, []))"

fun screen_ops :: "screen_op list \<Rightarrow> connection \<Rightarrow> connection \<times> task list \<times> task list" where
  "screen_ops [] c = (c, [], [])"
| "screen_ops (x # xs) c = (case screen_step x c of (c', ab, tk) \<Rightarrow>
     case screen_ops xs c' of (c'', ab', tk') \<Rightarrow> (c'', ab @ ab', tk @ tk'))"

fun started :: "screen_op list \<Rightarrow> task list" where
  "started [] = []"
| "started (SetScreen t # xs) = t # started xs"
| "started (_ # xs) = started xs"

definition running :: "connection \<Rightarrow> task list" where
  "running c = (case screen_stream c of None \<Rightarrow> [] | Some t \<Rightarrow> [t])"

lemma screen_step_accounts:
  assumes "is_authenticated c" "screen_step x c = (c', ab, tk)"
  shows "is_authenticated c' \<and> conn_id c' = conn_id c \<and>
    mset (running c') + mset ab + mset tk = mset (running c) + mset (started [x])"
proof -
  obtain a where c: "c = Authenticated a" using assms(1) by (cases c) auto
  show ?thesis using assms(2) unfolding c
    by (cases x) (auto simp: running_def set_screen_stream_def remove_screen_stream_def split: option.splits)
qed

lemma screen_ops_account:
  assumes "is_authenticated c" "screen_ops xs c = (c', ab, tk)"
  shows "conn_id c' = conn_id c \<and> mset (running c') + mset ab + mset tk = mset (running c) + mset (started xs)"
  using assms
proof (induction xs arbitrary: c c' ab tk)
  case (Cons x xs)
  obtain c1 ab1 tk1 where 1: "screen_step x c = (c1, ab1, tk1)" by (cases "screen_step x c") auto
  obtain c2 ab2 tk2 where 2: "screen_ops xs c1 = (c2, ab2, tk2)" by (cases "screen_ops xs c1") auto
  have r: "c' = c2" "ab = ab1 @ ab2" "tk = tk1 @ tk2" using Cons.prems(2) 1 2 by auto
  have s1: "is_authenticated c1" "conn_id c1 = conn_id c"
    and m1: "mset (running c1) + mset ab1 + mset tk1 = mset (running c) + mset (started [x])"
    using screen_step_accounts [OF Cons.prems(1) 1] by auto
  have m2: "conn_id c2 = conn_id c1" "mset (running c2) + mset ab2 + mset tk2 = mset (running c1) + mset (started xs)"
    using Cons.IH [OF s1(1) 2] by auto
  have "mset (started (x # xs)) = mset (started [x]) + mset (started xs)" by (cases x) auto
  then show ?case using s1 m1 m2 unfolding r by (simp add: ac_simps) (metis add.assoc add.commute)
qed (auto simp: running_def)

lemma take_credit_ok:
  assumes "above (a_credit c) \<or> a_credit c = NaN"
  shows "\<exists>c' wait. take_credit now now' rate burst (Authenticated c) = Some (Authenticated c', wait) \<and>
    above (a_credit c') \<and> a_refill c' = now' \<and>
    (if nonneg (a_credit c') then wait = 0 \<and> a_throttles c' = 0
     else a_throttles c' = a_throttles c + 1 \<and> wait \<le> 2 ^ 34 * NANOS_PER_SEC) \<and>
    same_client (Authenticated c) (Authenticated c')"
proof -
  let ?cr = "f_sub (f_min (f_add (a_credit c) (f_mul (as_secs_f32 (now - a_refill c)) (f_max rate MIN_RATE)))
    (f_max burst (Fin 1))) (Fin 1)"
  have ab: "above ?cr" by (intro above_pay topped_up assms nonneg_elapsed)
  show ?thesis
  proof (cases "nonneg ?cr")
    case True
    then show ?thesis using ab by (simp add: nonneg_def Let_def same_client_def)
  next
    case False
    from overdrawn_wait [OF ab False, of rate] ab False show ?thesis
      by (auto simp: nonneg_def Let_def same_client_def)
  qed
qed

section \<open>Properties\<close>


definition fresh_client :: authenticated where
  "fresh_client = \<lparr> a_write_stream = 0, a_task = 1, a_file_streams = 0, a_screen_stream = None, a_peer_addr = (0, 0),
     a_username = [], a_device = None, a_role = User, a_id = 0, a_keys = ([], []), a_attached_screen = None,
     a_last_activity = 0, a_last_key_exchange = 0, a_last_image = 0, a_last_typing = 0, a_last_pm = None,
     a_spam_violations = 0, a_credit = Fin 3, a_refill = 0, a_throttles = 0, a_channel = None, a_seq = 0,
     a_server_seq = 0, a_alive = True, a_muted = False \<rparr>"


text \<open>
  A bucket of \<open>k\<close> whole tokens lets exactly \<open>k\<close> packets through at one instant, with no wait,
  and the next one waits what refilling its one missing token takes at the configured rate.
\<close>

theorem burst_is_exact:
  assumes "a_credit c = Fin (of_nat k)" and "k \<le> 2 ^ 24" and "a_refill c = now"
    and "f_max burst (Fin 1) = Fin b" and "of_nat k \<le> b" and "f_max rate MIN_RATE = Fin r"
  shows "\<exists>c' c'' wait. pay_all now rate burst k (Authenticated c) = Some (Authenticated c', replicate k 0) \<and>
    take_credit now now rate burst (Authenticated c') = Some (Authenticated c'', wait) \<and>
    a_throttles c'' = a_throttles c' + 1 \<and> from_secs_f32 (f_div (Fin 1) (Fin r)) = Some wait"
proof -
  have "int k \<le> int (2 ^ 24)" using assms(2) by (simp only: of_nat_le_iff)
  then have "small (int k)" by (simp add: small_def)
  then obtain c' where c': "pay_all now rate burst k (Authenticated c) = Some (Authenticated c', replicate k 0)"
    "a_credit c' = Fin 0" "a_refill c' = now"
    using pay_all_whole [of c "int k" k now burst b rate r] assms by auto
  have m1: "round_f32 (- 1) = Fin (- 1)" using round_f32_of_int [of "- 1"] by (simp add: small_def)
  have "1 \<le> b" using assms(4) eff_burst [of burst] by auto
  then have cr: "f_sub (f_min (f_add (a_credit c') (f_mul (as_secs_f32 (now - a_refill c')) (f_max rate MIN_RATE)))
      (f_max burst (Fin 1))) (Fin 1) = Fin (- 1)"
    using c' assms(4,6) by (simp add: as_secs_f32_0 f_min_def f_sub_def m1)
  obtain w where "from_secs_f32 (f_div (f_neg (Fin (- 1))) (f_max rate MIN_RATE)) = Some w"
    using overdrawn_wait [of "Fin (- 1)" rate] by (auto simp: above_def nonneg_def)
  moreover have "f_neg (Fin (- 1)) = Fin 1" by simp
  ultimately have w: "from_secs_f32 (f_div (Fin 1) (Fin r)) = Some w" by (simp only: assms(6))
  have "take_credit now now rate burst (Authenticated c') =
    Some (Authenticated (c'\<lparr> a_credit := Fin (- 1), a_refill := now, a_throttles := a_throttles c' + 1 \<rparr>), w)"
    using w unfolding take_credit.simps Let_def cr unfolding assms(6) by (simp del: f_div.simps from_secs_f32.simps)
  then show ?thesis using c'(1) w by (intro exI conjI) (assumption | simp)+
qed

theorem burst_is_exact_witness:
  "\<exists>c' c'' wait. pay_all 0 (Fin 2) (Fin 3) 3 (Authenticated fresh_client) = Some (Authenticated c', [0, 0, 0]) \<and>
    take_credit 0 0 (Fin 2) (Fin 3) (Authenticated c') = Some (Authenticated c'', wait) \<and> a_throttles c'' = a_throttles c' + 1"
proof -
  obtain m where m: "MIN_RATE = Fin m" "m \<le> 1"
    using round_f32_small [of "1 / 1000"] rounded_le_small [of 1 "1 / 1000"] by (simp add: MIN_RATE_def small_def)
  have "f_max (Fin 2) MIN_RATE = Fin 2" unfolding f_max_def m(1) using m(2) by simp
  moreover have "f_max (Fin 3) (Fin 1) = Fin 3" by (simp add: f_max_def)
  moreover have "a_credit fresh_client = Fin (of_nat 3)" "a_refill fresh_client = 0" by (simp_all add: fresh_client_def)
  moreover have "replicate 3 (0 :: nat) = [0, 0, 0]" by (simp add: numeral_3_eq_3)
  ultimately show ?thesis
    using burst_is_exact [of fresh_client 3 0 "Fin 3" 3 "Fin 2" 2] unfolding of_nat_numeral by simp blast
qed

text \<open>
  No screen share task is lost or aborted twice: over any sequence of
  \<open>set_screen_stream\<close>, \<open>take_screen_stream\<close> and \<open>remove_screen_stream\<close> on a session, the tasks started are, as a
  multiset, those aborted, those handed back to the caller and the one still registered; and at most one runs.
\<close>

theorem screen_tasks_accounted:
  assumes "is_authenticated c" and "screen_stream c = None"
  shows "case screen_ops xs c of (c', aborted, taken) \<Rightarrow>
    mset (started xs) = mset aborted + mset taken + mset (running c') \<and> length (running c') \<le> 1 \<and> conn_id c' = conn_id c"
proof -
  obtain c' ab tk where r: "screen_ops xs c = (c', ab, tk)" by (cases "screen_ops xs c") auto
  from screen_ops_account [OF assms(1) r] show ?thesis unfolding r
    by (simp add: running_def assms(2) ac_simps split: option.splits)
qed

theorem screen_tasks_accounted_witness:
  "mset (started [SetScreen 4, SetScreen 5, TakeScreen]) =
     (case screen_ops [SetScreen 4, SetScreen 5, TakeScreen] (Authenticated fresh_client) of
        (c', aborted, taken) \<Rightarrow> mset aborted + mset taken + mset (running c'))"
  (is "mset (started ?xs) = _")
proof -
  have "is_authenticated (Authenticated fresh_client)" "screen_stream (Authenticated fresh_client) = None"
    by (simp_all add: fresh_client_def)
  from screen_tasks_accounted [OF this, of ?xs] show ?thesis
    by (cases "screen_ops ?xs (Authenticated fresh_client)") (simp only: prod.case)
qed

text \<open>
  Taking the next server sequence number through \<open>server_seq_mut\<close> any number of times
  counts up by one each time on a session, modulo the machine word, leaves who the client is alone, and is refused on a
  connection that has not logged in.
\<close>

theorem server_seq_counts:
  "(is_authenticated c \<longrightarrow> (\<exists>c'. ((\<lambda>c. Option.bind c (server_seq_mut (\<lambda>s. s + 1))) ^^ n) (Some c) = Some c' \<and>
      server_seq c' = Some (the (server_seq c) + of_nat n) \<and> same_client c c')) \<and>
   (\<not> is_authenticated c \<longrightarrow> server_seq_mut f c = None)"
proof -
  have "((\<lambda>s. s + 1) ^^ n) v = v + of_nat n" for v :: u64 by (induction n) auto
  then show ?thesis
    using server_seq.upd_funpow [where c = c and f = "\<lambda>s. s + 1" and n = n] server_seq.upd_none [of f c] by (cases c) fastforce+
qed

theorem server_seq_counts_witness:
  "\<exists>c'. ((\<lambda>c. Option.bind c (server_seq_mut (\<lambda>s. s + 1))) ^^ 3) (Some (Authenticated fresh_client)) = Some c' \<and>
      server_seq c' = Some 3"
  using server_seq_counts [of "Authenticated fresh_client" 3] by (auto simp: fresh_client_def)

end
