(* ===== verification/Config.thy ===== *)
theory Config
  imports "HOL-Library.AList" Packet_Codes
begin

text \<open>
  \<open>chat/src/config/mod.rs\<close> and \<open>config/settings.rs\<close>: reading a setting with the migration of an outdated
  file, and the remote editing of \<open>server.toml\<close>. A TOML document is the ordered map that
  \<open>toml_edit\<close> documents, an association list of keys and items; an inline table is a value, a standard table is not.
  The file is what the cache holds: the check of its time stamp is not modelled.
\<close>

section \<open>Documents\<close>

datatype item = Str ustr | Integer i64 | Boolean bool | Arr "item list" | Tbl bool "(ustr \<times> item) list" | Other
  \<comment> \<open>\<open>Tbl True\<close> is an inline table; \<open>Other\<close> a float or a date\<close>

type_synonym document = "(ustr \<times> item) list"

fun is_value :: "item \<Rightarrow> bool" where
  "is_value (Tbl inline _) = inline"
| "is_value _ = True"

fun as_str :: "item \<Rightarrow> ustr option" where
  "as_str (Str s) = Some s"
| "as_str _ = None"

fun as_table_like :: "item \<Rightarrow> document option" where
  "as_table_like (Tbl _ t) = Some t"
| "as_table_like _ = None"

fun as_array :: "item \<Rightarrow> item list option" where
  "as_array (Arr xs) = Some xs"
| "as_array _ = None"

section \<open>Reading a setting\<close>

datatype config_error = Invalid_config | Unsupported_datatype | Parsing_failed | Updating_failed

text \<open>\<open>to_string\<close> of an integer.\<close>

fun show_nat :: "nat \<Rightarrow> ustr" where
  "show_nat n = (if n < 10 then [0x30 + of_nat n] else show_nat (n div 10) @ [0x30 + of_nat (n mod 10)])"

declare show_nat.simps [simp del]

definition show_i64 :: "i64 \<Rightarrow> ustr" where
  "show_i64 i = (if sint i < 0 then 0x2D # show_nat (nat (- sint i)) else show_nat (nat (sint i)))"

fun value_text :: "item \<Rightarrow> config_error + ustr" where
  "value_text (Str s) = Inr s"
| "value_text (Integer i) = Inr (show_i64 i)"
| "value_text (Boolean b) = Inr (if b then ustr ''true'' else ustr ''false'')"
| "value_text (Tbl inline _) = Inl (if inline then Unsupported_datatype else Invalid_config)"
| "value_text _ = Inl Unsupported_datatype"

text \<open>One key of the old file copied over the default of the same name.\<close>

definition copy_old :: "document \<Rightarrow> ustr \<times> item \<Rightarrow> config_error + document" where
  "copy_old dflt entry = (case entry of (key, old) \<Rightarrow> (case map_of dflt key of
     None \<Rightarrow> Inr dflt
   | Some i \<Rightarrow> if \<not> is_value i then Inl Updating_failed
       else if \<not> is_value old then Inl Invalid_config
       else Inr (AList.update key old dflt)))"

fun migrate_config :: "document \<Rightarrow> document \<Rightarrow> config_error + document" where
  "migrate_config dflt [] = Inr dflt"
| "migrate_config dflt (entry # rest) = rbind (copy_old dflt entry) (\<lambda>dflt. migrate_config dflt rest)"

text \<open>
  \<open>config_read\<close> calls itself after the migration; a run that never ends is \<open>None\<close>. The result carries the document
  the file then holds, which a panic leaves as it was.
\<close>

partial_function (option) config_read ::
  "(ustr \<Rightarrow> 'a option) \<Rightarrow> document \<Rightarrow> document \<Rightarrow> ustr \<Rightarrow> ((config_error + 'a) \<times> document) option" where
  "config_read parse dflt doc key = (case map_of doc key of
     Some v \<Rightarrow> Some (rbind (value_text v) (\<lambda>s. case parse s of None \<Rightarrow> Inl Parsing_failed | Some x \<Rightarrow> Inr x), doc)
   | None \<Rightarrow> (case migrate_config dflt doc of
       Inl e \<Rightarrow> Some (Inl e, doc)
     | Inr doc' \<Rightarrow> config_read parse dflt doc' key))"

definition set_value :: "ustr \<Rightarrow> item \<Rightarrow> document \<Rightarrow> config_error + document" where
  "set_value key v doc = (case map_of doc key of
     Some i \<Rightarrow> if is_value i then Inr (AList.update key v doc) else Inl Updating_failed
   | None \<Rightarrow> Inr (AList.update key v doc))"

section \<open>server.toml as a client edits it\<close>

fun lines_aux :: "ustr \<Rightarrow> ustr \<Rightarrow> ustr list" where
  "lines_aux acc [] = (if acc = [] then [] else [rev acc])"
| "lines_aux acc (c # s) = (if c = 0x0A
     then rev (if acc \<noteq> [] \<and> hd acc = 0x0D then tl acc else acc) # lines_aux [] s
     else lines_aux (c # acc) s)"

text \<open>\<open>str::lines\<close>: split at line feeds, without a carriage return before them.\<close>

definition lines :: "ustr \<Rightarrow> ustr list" where
  "lines s = lines_aux [] s"

definition heading_line :: "ustr \<Rightarrow> ustr option \<Rightarrow> ustr option" where
  "heading_line line found = (case trim line of
     [] \<Rightarrow> None
   | c # comment \<Rightarrow> if c = 0x23 then Some (trim comment) else found)"

definition heading :: "ustr \<Rightarrow> ustr option" where
  "heading prefix = fold heading_line (lines prefix) None"

definition SERVER_RESTART_SETTINGS :: "ustr list" where
  "SERVER_RESTART_SETTINGS = map ustr [''server_ip'', ''server_port'', ''enable_voice_chat'', ''server_username'',
     ''log_level'']"

fun setting_of :: "item \<Rightarrow> setting_value option" where
  "setting_of (Boolean b) = Some (Toggle b)"
| "setting_of (Integer i) = Some (Number i)"
| "setting_of (Str s) = Some (Text s)"
| "setting_of _ = None"

text \<open>\<open>trim_start_matches('#')\<close>.\<close>

definition description :: "ustr option \<Rightarrow> ustr" where
  "description suffix = (case suffix of
     None \<Rightarrow> []
   | Some comment \<Rightarrow> trim (dropWhile (\<lambda>c. c = 0x23) (trim comment)))"

text \<open>The comments around a key and after a value are arguments; the section found last carries down.\<close>

fun settings_loop ::
  "(ustr \<Rightarrow> ustr option) \<Rightarrow> (ustr \<Rightarrow> ustr option) \<Rightarrow> ustr \<Rightarrow> document \<Rightarrow> server_setting list" where
  "settings_loop prefix suffix section [] = []"
| "settings_loop prefix suffix section ((key, i) # rest) =
     (if \<not> is_value i then settings_loop prefix suffix section rest
      else let section = (case Option.bind (prefix key) heading of Some found \<Rightarrow> found | None \<Rightarrow> section) in
        case setting_of i of
          None \<Rightarrow> settings_loop prefix suffix section rest
        | Some v \<Rightarrow> \<lparr> ss_key = key, ss_value = v, ss_section = section, ss_description = description (suffix key),
            ss_restart = (key \<in> set SERVER_RESTART_SETTINGS) \<rparr> # settings_loop prefix suffix section rest)"

definition settings_all :: "(ustr \<Rightarrow> ustr option) \<Rightarrow> (ustr \<Rightarrow> ustr option) \<Rightarrow> document \<Rightarrow> server_setting list" where
  "settings_all prefix suffix doc = settings_loop prefix suffix [] doc"

text \<open>The value to store for one row: of the datatype the file has, or nothing.\<close>

definition accept_setting :: "document \<Rightarrow> server_setting \<Rightarrow> (ustr \<times> item) option" where
  "accept_setting doc setting = (case (ss_value setting, map_of doc (ss_key setting)) of
     (Toggle on, Some (Boolean _)) \<Rightarrow> Some (ss_key setting, Boolean on)
   | (Number number, Some (Integer _)) \<Rightarrow> Some (ss_key setting, Integer number)
   | (Text t, Some (Str _)) \<Rightarrow> Some (ss_key setting, Str t)
   | _ \<Rightarrow> None)"

fun set_values :: "(ustr \<times> item) list \<Rightarrow> document \<Rightarrow> config_error + document" where
  "set_values [] doc = Inr doc"
| "set_values ((key, v) # rest) doc = rbind (set_value key v doc) (set_values rest)"

definition settings_write :: "server_setting list \<Rightarrow> document \<Rightarrow> config_error + (document \<times> nat)" where
  "settings_write settings doc =
     (let accepted = List.map_filter (accept_setting doc) settings in
      rbind (set_values accepted doc) (\<lambda>doc. Inr (doc, length accepted)))"

section \<open>server_icon\<close>

text \<open>The text of the icon file, if there is one.\<close>

definition server_icon :: "ustr option \<Rightarrow> u8 list option" where
  "server_icon file = Option.bind file (\<lambda>text. unhex (utf8 (trim text)))"

definition set_server_icon :: "u8 list option \<Rightarrow> ustr option" where
  "set_server_icon h = map_option (\<lambda>h. from_ascii (hex h)) h"

section \<open>Facts on migration\<close>

lemma migrate_keys: "migrate_config dflt doc = Inr doc' \<Longrightarrow> map fst doc' = map fst dflt"
proof (induction doc arbitrary: dflt)
  case (Cons e doc)
  obtain k i where e: "e = (k, i)" by (cases e)
  have "map fst d = map fst dflt" if "copy_old dflt e = Inr d" for d
    using that unfolding e copy_old_def
    by (auto simp: update_keys split: option.splits if_splits) (metis map_of_SomeD fst_conv image_eqI)
  then show ?case using Cons by (cases "copy_old dflt e") auto
qed simp

lemma migrate_value:
  assumes "migrate_config dflt doc = Inr doc'" "map_of doc k = None"
  shows "map_of doc' k = map_of dflt k"
  using assms
proof (induction doc arbitrary: dflt)
  case (Cons e doc)
  obtain k' i where e: "e = (k', i)" by (cases e)
  have "map_of d k = map_of dflt k" if "copy_old dflt e = Inr d" for d
    using that Cons.prems(2) unfolding e copy_old_def
    by (auto simp: update_conv' split: option.splits if_splits)
  then show ?case using Cons e by (cases "copy_old dflt e") (auto split: if_splits)
qed simp

lemma update_values: "(a, b) \<in> set (AList.update k i xs) \<Longrightarrow> b = i \<or> (\<exists>a. (a, b) \<in> set xs)"
  by (induction xs) (auto split: if_splits)

lemma migrate_ok:
  assumes "\<forall>i \<in> snd ` set doc. is_value i" "\<forall>i \<in> snd ` set dflt. is_value i"
  shows "\<exists>doc'. migrate_config dflt doc = Inr doc'"
  using assms
proof (induction doc arbitrary: dflt)
  case (Cons e doc)
  obtain k i where e: "e = (k, i)" by (cases e)
  have "\<exists>d. copy_old dflt e = Inr d \<and> (\<forall>i \<in> snd ` set d. is_value i)"
  proof (cases "map_of dflt k")
    case (Some j)
    then have "is_value j" using Cons.prems(2) by (metis image_eqI map_of_SomeD snd_conv)
    then show ?thesis using Some Cons.prems unfolding e copy_old_def by (fastforce dest: update_values)
  qed (use Cons.prems in \<open>auto simp: e copy_old_def\<close>)
  then obtain d where d: "copy_old dflt e = Inr d" "\<forall>i \<in> snd ` set d. is_value i" by blast
  show ?case using Cons.IH [OF _ d(2)] Cons.prems(1) d(1) by auto
qed simp

lemma migrate_values_ok:
  assumes "migrate_config dflt doc = Inr doc'" "\<forall>i \<in> snd ` set dflt. is_value i"
  shows "\<forall>i \<in> snd ` set doc'. is_value i"
  using assms
proof (induction doc arbitrary: dflt)
  case (Cons e doc)
  obtain k i where e: "e = (k, i)" by (cases e)
  then obtain d where d: "copy_old dflt e = Inr d" "migrate_config d doc = Inr doc'"
    using Cons.prems(1) by (cases "copy_old dflt e") auto
  have "\<forall>i \<in> snd ` set d. is_value i"
    using d(1) Cons.prems(2) unfolding e copy_old_def
    by (fastforce split: option.splits if_splits dest: update_values)
  from Cons.IH [OF d(2) this] show ?case .
qed simp

text \<open>A key known to the default keeps the value the old file had.\<close>

lemma migrate_keeps:
  assumes "migrate_config dflt doc = Inr doc'" "distinct (map fst doc)" "map_of doc k = Some v" "map_of dflt k \<noteq> None"
  shows "map_of doc' k = Some v"
  using assms
proof (induction doc arbitrary: dflt)
  case (Cons e doc)
  obtain k' i where e: "e = (k', i)" by (cases e)
  then obtain d where d: "copy_old dflt e = Inr d" "migrate_config d doc = Inr doc'"
    using Cons.prems(1) by (cases "copy_old dflt e") auto
  have known: "map_of d k \<noteq> None"
    using d(1) Cons.prems(4) unfolding e copy_old_def by (auto simp: update_conv' split: option.splits if_splits)
  show ?case
  proof (cases "k' = k")
    case True
    then have "map_of d k = Some v"
      using d(1) Cons.prems(3,4) unfolding e copy_old_def by (auto simp: update_conv' split: option.splits if_splits)
    moreover have "map_of doc k = None" using Cons.prems(2) True e by (auto simp: map_of_eq_None_iff)
    ultimately show ?thesis using migrate_value [OF d(2)] by simp
  next
    case False
    then show ?thesis using Cons.IH [OF d(2)] Cons.prems(2,3) known e by auto
  qed
qed simp

section \<open>Facts on edits\<close>

text \<open>Two items of the same kind.\<close>

fun same_type :: "item \<Rightarrow> item \<Rightarrow> bool" where
  "same_type (Str _) (Str _) = True"
| "same_type (Integer _) (Integer _) = True"
| "same_type (Boolean _) (Boolean _) = True"
| "same_type a b = (a = b)"

lemma same_type_refl [simp]: "same_type a a"
  by (cases a) auto

lemma same_type_trans: "same_type a b \<Longrightarrow> same_type b c \<Longrightarrow> same_type a c"
  by (cases a; cases b; cases c) auto

lemma same_type_sym: "same_type a b \<Longrightarrow> same_type b a"
  by (cases a; cases b) auto

lemma same_type_value: "same_type a b \<Longrightarrow> is_value a = is_value b"
  by (cases a; cases b) auto

definition same_schema :: "document \<Rightarrow> document \<Rightarrow> bool" where
  "same_schema d d' \<longleftrightarrow> map fst d = map fst d' \<and> (\<forall>k. rel_option same_type (map_of d k) (map_of d' k))"

lemma same_schema_refl [simp]: "same_schema d d"
  by (simp add: same_schema_def option.rel_refl)

lemma rel_type_trans: "rel_option same_type x y \<Longrightarrow> rel_option same_type y z \<Longrightarrow> rel_option same_type x z"
  by (cases x; cases y; cases z) (auto intro: same_type_trans)

lemma same_schema_trans: "same_schema a b \<Longrightarrow> same_schema b c \<Longrightarrow> same_schema a c"
  unfolding same_schema_def by (auto intro: rel_type_trans)

lemma accepted_type:
  assumes "accept_setting doc s = Some (k, v)"
  shows "k = ss_key s \<and> (\<exists>i. map_of doc k = Some i \<and> same_type i v \<and> is_value i)"
  using assms by (auto simp: accept_setting_def split: setting_value.splits option.splits item.splits)

lemma update_schema:
  assumes "map_of doc k = Some i" "same_type i v"
  shows "same_schema doc (AList.update k v doc)"
proof -
  have "k \<in> fst ` set doc" using assms(1) by (metis fst_conv image_eqI map_of_SomeD)
  then show ?thesis using assms by (auto simp: same_schema_def update_keys update_conv' option.rel_refl)
qed

lemma set_values_schema:
  assumes "\<forall>(k, v) \<in> set kvs. \<exists>i. map_of doc k = Some i \<and> same_type i v \<and> is_value i"
  shows "\<exists>doc'. set_values kvs doc = Inr doc' \<and> same_schema doc doc'"
  using assms
proof (induction kvs arbitrary: doc)
  case (Cons kv kvs)
  obtain k v where kv: "kv = (k, v)" by (cases kv)
  obtain i where i: "map_of doc k = Some i" "same_type i v" "is_value i" using Cons.prems kv by auto
  let ?d = "AList.update k v doc"
  have sch: "same_schema doc ?d" using update_schema [OF i(1,2)] .
  have "\<forall>(k', v') \<in> set kvs. \<exists>i. map_of ?d k' = Some i \<and> same_type i v' \<and> is_value i"
  proof (clarify)
    fix k' v' assume "(k', v') \<in> set kvs"
    then obtain j where j: "map_of doc k' = Some j" "same_type j v'" "is_value j" using Cons.prems by auto
    show "\<exists>i. map_of ?d k' = Some i \<and> same_type i v' \<and> is_value i"
    proof (cases "k' = k")
      case True
      then have "same_type i v'" using i(1) j(1,2) by simp
      then have "same_type v v'" by (rule same_type_trans [OF same_type_sym [OF i(2)]])
      then show ?thesis using True i same_type_value [of i v] by (simp add: update_conv')
    qed (use j in \<open>simp add: update_conv'\<close>)
  qed
  from Cons.IH [OF this] show ?case using sch i kv by (auto simp: set_value_def intro: same_schema_trans)
qed (auto simp: same_schema_def option.rel_refl)

lemma map_filter_Some: "y \<in> set (List.map_filter f xs) \<longleftrightarrow> (\<exists>x \<in> set xs. f x = Some y)"
  by (induction xs) (auto simp: List.map_filter_simps split: option.splits)

section \<open>Properties\<close>

text \<open>
  Reading a setting that the built-in default has always ends, and gives the value of
  the file if it has the key, else the default's: a missing key rebuilds the file from the default, which keeps
  every value the old file had for a key of the default, and has exactly the keys of the default.
\<close>

theorem config_read_migrates:
  assumes "map_of dflt key = Some d" and "\<forall>i \<in> snd ` set dflt. is_value i" and "\<forall>i \<in> snd ` set doc. is_value i"
    and "distinct (map fst doc)"
  shows "\<exists>doc' v. config_read parse dflt doc key =
      Some (rbind (value_text v) (\<lambda>s. case parse s of None \<Rightarrow> Inl Parsing_failed | Some x \<Rightarrow> Inr x), doc') \<and>
    v = (case map_of doc key of Some old \<Rightarrow> old | None \<Rightarrow> d) \<and>
    (case map_of doc key of
       Some _ \<Rightarrow> doc' = doc
     | None \<Rightarrow> map fst doc' = map fst dflt \<and>
         (\<forall>k. map_of dflt k \<noteq> None \<longrightarrow> map_of doc k \<noteq> None \<longrightarrow> map_of doc' k = map_of doc k))"
proof (cases "map_of doc key")
  case None
  obtain doc' where m: "migrate_config dflt doc = Inr doc'" using migrate_ok [OF assms(3,2)] by blast
  have "map_of doc' key = Some d" using migrate_value [OF m None] assms(1) by simp
  moreover have "config_read parse dflt doc key = config_read parse dflt doc' key"
    using None m by (subst config_read.simps) simp
  moreover have "map_of doc' k = map_of doc k" if "map_of dflt k \<noteq> None" "map_of doc k \<noteq> None" for k
    using migrate_keeps [OF m assms(4), of k] that by auto
  ultimately show ?thesis using None migrate_keys [OF m] by (simp add: config_read.simps)
qed (simp add: config_read.simps)

theorem config_read_migrates_witness:
  "\<exists>doc' v. config_read Some [(ustr ''a'', Boolean True), (ustr ''b'', Str [])] [(ustr ''b'', Str [0x78])] (ustr ''a'') =
      Some (rbind (value_text v) (\<lambda>s. case Some s of None \<Rightarrow> Inl Parsing_failed | Some x \<Rightarrow> Inr x), doc') \<and> v = Boolean True"
proof -
  let ?dflt = "[(ustr ''a'', Boolean True), (ustr ''b'', Str [])]" and ?doc = "[(ustr ''b'', Str [0x78])]"
  have "map_of ?dflt (ustr ''a'') = Some (Boolean True)" by simp
  moreover have "\<forall>i \<in> snd ` set ?dflt. is_value i" by (auto simp: ran_def split: if_splits)
  moreover have "\<forall>i \<in> snd ` set ?doc. is_value i" "distinct (map fst ?doc)" by auto
  moreover have "map_of ?doc (ustr ''a'') = None" by (simp add: ustr_def)
  ultimately show ?thesis
    using config_read_migrates [of ?dflt "ustr ''a''" "Boolean True" ?doc Some] by auto
qed

text \<open>
  A key that neither the file nor the built-in default has does not panic, as the
  documentation of \<open>config_read\<close> says: unless the migration itself panics, the function calls itself for ever.
\<close>

theorem config_read_diverges:
  assumes "map_of doc key = None" and "map_of dflt key = None"
    and "\<forall>i \<in> snd ` set dflt. is_value i" and "\<forall>i \<in> snd ` set doc. is_value i"
  shows "config_read parse dflt doc key = None"
proof -
  let ?P = "\<lambda>(parse :: ustr \<Rightarrow> 'a option) dflt doc key r. map_of dflt key = None \<longrightarrow> map_of doc key = None \<longrightarrow>
    (\<forall>i \<in> snd ` set dflt. is_value i) \<longrightarrow> (\<forall>i \<in> snd ` set doc. is_value i) \<longrightarrow> False"
  have "?P parse dflt doc key r" if "config_read parse dflt doc key = Some r" for r
    using _ that
  proof (rule config_read.raw_induct [where P = ?P])
    fix rec :: "(ustr \<Rightarrow> 'a option) \<Rightarrow> document \<Rightarrow> document \<Rightarrow> ustr \<Rightarrow> ((config_error + 'a) \<times> document) option"
      and parse dflt doc key r
    assume IH: "\<And>parse dflt doc key r. rec parse dflt doc key = Some r \<Longrightarrow> ?P parse dflt doc key r"
      and step: "(case map_of doc key of
        None \<Rightarrow> case migrate_config dflt doc of Inl e \<Rightarrow> Some (Inl e, doc) | Inr doc' \<Rightarrow> rec parse dflt doc' key
      | Some v \<Rightarrow> Some (rbind (value_text v) (\<lambda>s. case parse s of None \<Rightarrow> Inl Parsing_failed | Some x \<Rightarrow> Inr x), doc)) = Some r"
    show "?P parse dflt doc key r"
    proof (intro impI)
      assume none: "map_of dflt key = None" "map_of doc key = None"
        and vals: "\<forall>i \<in> snd ` set dflt. is_value i" "\<forall>i \<in> snd ` set doc. is_value i"
      obtain doc' where m: "migrate_config dflt doc = Inr doc'" using migrate_ok [OF vals(2,1)] by blast
      have r: "rec parse dflt doc' key = Some r" using step none m by simp
      have "map_of doc' key = None" using migrate_value [OF m none(2)] none(1) by simp
      from IH [OF r, rule_format, OF none(1) this] vals(1) migrate_values_ok [OF m vals(1)] show False by simp
    qed
  qed
  then show ?thesis using assms by (cases "config_read parse dflt doc key") simp_all
qed

theorem config_read_diverges_witness: "config_read Some [(ustr ''a'', Boolean True)] [] (ustr ''b'') = None"
  using config_read_diverges [of "[]" "ustr ''b''" "[(ustr ''a'', Boolean True)]" Some]
  by (simp add: ustr_def ran_def)

lemma settings_write_schema:
  "\<exists>doc'. settings_write settings doc =
      Inr (doc', length (filter (\<lambda>s. accept_setting doc s \<noteq> None) settings)) \<and> same_schema doc doc' \<and>
    ((\<forall>s \<in> set settings. accept_setting doc s = None) \<longrightarrow> doc' = doc)"
proof -
  let ?acc = "List.map_filter (accept_setting doc) settings"
  have "\<forall>(k, v) \<in> set ?acc. \<exists>i. map_of doc k = Some i \<and> same_type i v \<and> is_value i"
    using accepted_type by (fastforce simp: map_filter_Some)
  then obtain doc' where d: "set_values ?acc doc = Inr doc'" "same_schema doc doc'"
    using set_values_schema by blast
  have "length ?acc = length (filter (\<lambda>s. accept_setting doc s \<noteq> None) settings)"
    by (induction settings) (auto simp: List.map_filter_simps split: option.splits)
  moreover have "?acc = []" if "\<forall>s \<in> set settings. accept_setting doc s = None"
    using that by (induction settings) (auto simp: List.map_filter_simps)
  ultimately show ?thesis using d by (auto simp: settings_write_def)
qed

text \<open>
  A remote edit of \<open>server.toml\<close> never fails and can neither add nor drop a key nor
  change the datatype of one; it reports the number of rows it accepted, and rows for unknown keys or of another
  datatype change nothing.
\<close>

theorem settings_write_keeps_schema:
  "\<exists>doc'. settings_write settings doc =
      Inr (doc', length (filter (\<lambda>s. accept_setting doc s \<noteq> None) settings)) \<and> same_schema doc doc' \<and>
    ((\<forall>s \<in> set settings. accept_setting doc s = None) \<longrightarrow> doc' = doc)"
  by (rule settings_write_schema)

theorem settings_write_keeps_schema_witness:
  "\<exists>doc'. settings_write [\<lparr> ss_key = ustr ''x'', ss_value = Toggle True, ss_section = [], ss_description = [],
      ss_restart = False \<rparr>] [(ustr ''x'', Integer 3)] = Inr (doc', 0) \<and> doc' = [(ustr ''x'', Integer 3)]"
  using settings_write_keeps_schema [of "[\<lparr> ss_key = ustr ''x'', ss_value = Toggle True, ss_section = [],
      ss_description = [], ss_restart = False \<rparr>]" "[(ustr ''x'', Integer 3)]"]
  by (auto simp: accept_setting_def)

end
