(* ===== verification/Users.thy ===== *)
theory Users
  imports Config
begin

text \<open>
  \<open>chat/src/config/users.rs\<close> and \<open>config/bans.rs\<close>: the accounts of \<open>server_users.toml\<close>, one table per
  username with the profile in a subtable, and the two ban lists of \<open>server_bans.toml\<close>. Each operation takes the
  document and, where it writes, returns it; an \<open>expect\<close> that cannot fail because the entry was just made
  a table is no branch of the model.
\<close>

section \<open>Fields\<close>

definition COLOR_KEYS :: "ustr list" where
  "COLOR_KEYS = [ustr ''username_color'', ustr ''message_color'']"

definition PROFILE_TABLE :: ustr where
  "PROFILE_TABLE = ustr ''profile''"

definition AVATAR_KEY :: ustr where
  "AVATAR_KEY = ustr ''avatar''"

definition table_of :: "document \<Rightarrow> ustr \<Rightarrow> document option" where
  "table_of t key = Option.bind (map_of t key) as_table_like"

definition user_field :: "document \<Rightarrow> ustr \<Rightarrow> ustr \<Rightarrow> ustr option" where
  "user_field users username key =
     Option.bind (table_of users username) (\<lambda>user. Option.bind (map_of user key) as_str)"

definition profile_field :: "document \<Rightarrow> ustr \<Rightarrow> ustr \<Rightarrow> ustr option" where
  "profile_field users username key =
     Option.bind (table_of users username) (\<lambda>user.
     Option.bind (table_of user PROFILE_TABLE) (\<lambda>profile. Option.bind (map_of profile key) as_str))"

text \<open>\<open>insert\<close> into a table-like item; a table put into an inline table becomes inline.\<close>

fun table_insert :: "ustr \<Rightarrow> item \<Rightarrow> item \<Rightarrow> item" where
  "table_insert key v (Tbl inline t) =
     Tbl inline (AList.update key (case v of Tbl _ t' \<Rightarrow> Tbl inline t' | _ \<Rightarrow> v) t)"
| "table_insert key v i = i"

text \<open>A missing entry, or one that is no table, becomes an empty table.\<close>

definition ensure_user :: "ustr \<Rightarrow> document \<Rightarrow> document" where
  "ensure_user username users = (if table_of users username = None
     then AList.update username (Tbl False []) users else users)"

definition ensure_profile :: "item \<Rightarrow> item" where
  "ensure_profile user = (case as_table_like user of
     Some t \<Rightarrow> if table_of t PROFILE_TABLE = None then table_insert PROFILE_TABLE (Tbl False []) user else user
   | None \<Rightarrow> user)"

definition update_item :: "ustr \<Rightarrow> (item \<Rightarrow> item) \<Rightarrow> document \<Rightarrow> document" where
  "update_item key f t = (case map_of t key of None \<Rightarrow> t | Some i \<Rightarrow> AList.update key (f i) t)"

definition write_user_field :: "ustr \<Rightarrow> ustr \<Rightarrow> ustr \<Rightarrow> document \<Rightarrow> document" where
  "write_user_field username key v users =
     update_item username (table_insert key (Str v)) (ensure_user username users)"

fun insert_profile_field :: "ustr \<Rightarrow> ustr \<Rightarrow> item \<Rightarrow> item" where
  "insert_profile_field key v (Tbl inline t) = Tbl inline (update_item PROFILE_TABLE (table_insert key (Str v)) t)"
| "insert_profile_field key v i = i"

definition write_profile_field :: "ustr \<Rightarrow> ustr \<Rightarrow> ustr \<Rightarrow> document \<Rightarrow> document" where
  "write_profile_field username key v users =
     update_item username (\<lambda>user. insert_profile_field key v (ensure_profile user)) (ensure_user username users)"

section \<open>Accounts\<close>

definition users_len :: "document \<Rightarrow> nat" where
  "users_len users = length users"

definition users_all :: "document \<Rightarrow> ustr list" where
  "users_all users = map fst users"

definition password :: "document \<Rightarrow> ustr \<Rightarrow> ustr option" where
  "password users username = user_field users username (ustr ''password'')"

definition user_role :: "document \<Rightarrow> ustr \<Rightarrow> role option" where
  "user_role users username = Option.bind (user_field users username (ustr ''role'')) role_from_str"

definition user_colors :: "document \<Rightarrow> ustr \<Rightarrow> message_colors" where
  "user_colors users username =
     (let code = (\<lambda>key. Option.bind (user_field users username key) color_code) in
      \<lparr> username_color = code (COLOR_KEYS ! 0), message_color = code (COLOR_KEYS ! 1) \<rparr>)"

definition avatar :: "document \<Rightarrow> ustr \<Rightarrow> u8 list option" where
  "avatar users username = Option.bind (profile_field users username AVATAR_KEY) (\<lambda>s. unhex (utf8 s))"

definition or_default :: "ustr option \<Rightarrow> ustr" where
  "or_default s = (case s of None \<Rightarrow> [] | Some s \<Rightarrow> s)"

definition user_profile_of :: "document \<Rightarrow> ustr \<Rightarrow> user_profile" where
  "user_profile_of users username =
     (let f = (\<lambda>i. or_default (profile_field users username (profile_KEYS ! i))) in
      \<lparr> up_bio = f 0, up_pronouns = f 1, up_website = f 2, up_status = f 3, up_avatar = avatar users username,
        up_role = (case user_role users username of None \<Rightarrow> role_default | Some r \<Rightarrow> r) \<rparr>)"

definition set_avatar :: "ustr \<Rightarrow> u8 list option \<Rightarrow> document \<Rightarrow> document" where
  "set_avatar username h users = write_profile_field username AVATAR_KEY
     (case h of None \<Rightarrow> [] | Some h \<Rightarrow> from_ascii (hex h)) users"

definition names_avatar :: "document \<Rightarrow> u8 list \<Rightarrow> bool" where
  "names_avatar users h = list_ex (\<lambda>username. avatar users username = Some h) (users_all users)"

definition avatars :: "document \<Rightarrow> u8 list list" where
  "avatars users = List.map_filter (avatar users) (users_all users)"

definition set_profile :: "ustr \<Rightarrow> user_profile \<Rightarrow> document \<Rightarrow> document" where
  "set_profile username profile users =
     fold (\<lambda>(key, v). write_profile_field username key v) (zip profile_KEYS (profile_fields profile)) users"

definition set_color :: "ustr \<Rightarrow> bool \<Rightarrow> u8 \<Rightarrow> document \<Rightarrow> document" where
  "set_color username name_color code users =
     write_user_field username (COLOR_KEYS ! (if name_color then 0 else 1)) (color_name (Some code)) users"

definition set_user_role :: "ustr \<Rightarrow> role \<Rightarrow> document \<Rightarrow> document" where
  "set_user_role username r users = write_user_field username (ustr ''role'') (role_name r) users"

definition set_password :: "ustr \<Rightarrow> ustr \<Rightarrow> document \<Rightarrow> document" where
  "set_password username h users = write_user_field username (ustr ''password'') h users"

definition users_add :: "ustr \<Rightarrow> ustr \<Rightarrow> document \<Rightarrow> document \<times> bool" where
  "users_add username h users =
     (let first_user = users_len users = 0;
          users = set_password username h users;
          users = set_user_role username (if first_user then Owner else User) users;
          users = fold (\<lambda>key. write_user_field username key (ustr ''none'')) COLOR_KEYS users;
          users = fold (\<lambda>key. write_profile_field username key []) profile_KEYS users;
          users = write_profile_field username AVATAR_KEY [] users
      in (users, first_user))"

definition users_remove :: "ustr \<Rightarrow> document \<Rightarrow> document" where
  "users_remove username users = AList.delete username users"

definition users_contains :: "document \<Rightarrow> ustr \<Rightarrow> bool" where
  "users_contains users key = (map_of users key \<noteq> None)"

section \<open>Bans\<close>

definition set_ban :: "ustr \<Rightarrow> ustr \<Rightarrow> document \<Rightarrow> document" where
  "set_ban section key doc =
     (let doc = (case Option.bind (map_of doc section) as_array of
            None \<Rightarrow> AList.update section (Arr []) doc | Some _ \<Rightarrow> doc);
          bans = the (Option.bind (map_of doc section) as_array)
      in if list_ex (\<lambda>ban. as_str ban = Some key) bans then doc
         else AList.update section (Arr (bans @ [Str key])) doc)"

definition remove_nth :: "nat \<Rightarrow> 'a list \<Rightarrow> 'a list" where
  "remove_nth i xs = take i xs @ drop (Suc i) xs"

definition unset_ban :: "ustr \<Rightarrow> nat \<Rightarrow> document \<Rightarrow> document \<times> bool" where
  "unset_ban section i doc = (case Option.bind (map_of doc section) as_array of
     None \<Rightarrow> (doc, False)
   | Some bans \<Rightarrow> if length bans \<le> i then (doc, False)
       else (AList.update section (Arr (remove_nth i bans)) doc, True))"

definition ban_list :: "ustr \<Rightarrow> document \<Rightarrow> ban_entry list" where
  "ban_list section doc = (case Option.bind (map_of doc section) as_array of
     None \<Rightarrow> []
   | Some bans \<Rightarrow> List.map_filter (\<lambda>(i, ban). map_option (\<lambda>s. \<lparr> be_id = i, be_subject = s \<rparr>) (as_str ban))
       (enumerate 0 bans))"

definition listed :: "ustr \<Rightarrow> ustr \<Rightarrow> document \<Rightarrow> bool" where
  "listed section key doc = (case Option.bind (map_of doc section) as_array of
     None \<Rightarrow> False
   | Some bans \<Rightarrow> list_ex (\<lambda>ban. as_str ban = Some key) bans)"

text \<open>The two lists; an address is listed by its text.\<close>

definition banned :: "document \<Rightarrow> ustr \<Rightarrow> bool" where
  "banned doc username = listed (ustr ''user'') username doc"

definition banned_ip :: "document \<Rightarrow> ustr \<Rightarrow> bool" where
  "banned_ip doc ip = listed (ustr ''ip'') ip doc"

definition ban :: "ustr \<Rightarrow> document \<Rightarrow> document" where
  "ban username doc = set_ban (ustr ''user'') username doc"

definition ban_ip :: "ustr \<Rightarrow> document \<Rightarrow> document" where
  "ban_ip ip doc = set_ban (ustr ''ip'') ip doc"

definition ban_users :: "document \<Rightarrow> ban_entry list" where
  "ban_users doc = ban_list (ustr ''user'') doc"

definition ban_ips :: "document \<Rightarrow> ban_entry list" where
  "ban_ips doc = ban_list (ustr ''ip'') doc"

definition pardon :: "nat \<Rightarrow> document \<Rightarrow> document \<times> bool" where
  "pardon i doc = unset_ban (ustr ''user'') i doc"

definition pardon_ip :: "nat \<Rightarrow> document \<Rightarrow> document \<times> bool" where
  "pardon_ip i doc = unset_ban (ustr ''ip'') i doc"

section \<open>The contract of a field store\<close>

text \<open>
  Account fields and profile fields are two stores in one document: what a write leaves readable, in its own
  store and in the other.
\<close>

locale field_store =
  fixes read :: "document \<Rightarrow> ustr \<Rightarrow> ustr \<Rightarrow> ustr option"
    and store :: "ustr \<Rightarrow> ustr \<Rightarrow> ustr \<Rightarrow> document \<Rightarrow> document"
  assumes read_same: "read (store u k v d) u k = Some v"
    and read_other: "(u', k') \<noteq> (u, k) \<Longrightarrow> read (store u k v d) u' k' = read d u' k'"
    and accounts: "map_of (store u k v d) u' = None \<longleftrightarrow> u' \<noteq> u \<and> map_of d u' = None"
begin

lemma read_store: "read (store u k v d) u' k' = (if u' = u \<and> k' = k then Some v else read d u' k')"
  using read_same read_other by auto

lemma read_fold:
  assumes "distinct (map fst kvs)"
  shows "read (fold (\<lambda>(k, v). store u k v) kvs d) u' k' =
    (case map_of kvs k' of Some v \<Rightarrow> if u' = u then Some v else read d u' k' | None \<Rightarrow> read d u' k')"
  using assms
proof (induction kvs arbitrary: d)
  case (Cons kv kvs)
  obtain k v where kv: "kv = (k, v)" by (cases kv)
  have "map_of kvs k = None" using Cons.prems kv by (simp add: map_of_eq_None_iff)
  then show ?case using Cons.IH [of "store u k v d"] Cons.prems kv
    by (cases "k' = k") (simp_all add: read_store split: option.split)
qed simp

lemma accounts_fold:
  "map_of (fold (\<lambda>(k, v). store u k v) kvs d) u' = None \<longleftrightarrow> (kvs = [] \<or> u' \<noteq> u) \<and> map_of d u' = None"
proof (induction kvs arbitrary: d)
  case (Cons kv kvs)
  obtain k v where kv: "kv = (k, v)" by (cases kv)
  show ?case unfolding kv by (simp only: fold_simps prod.case Cons.IH accounts list.distinct) blast
qed simp

end

lemma table_of_Nil [simp]: "table_of [] k = None"
  by (simp add: table_of_def)

lemma table_of_ensure [simp]:
  "table_of (ensure_user u d) u = Some (case table_of d u of Some t \<Rightarrow> t | None \<Rightarrow> [])"
  by (auto simp: ensure_user_def table_of_def update_conv' split: option.splits)

lemma ensure_other [simp]: "u' \<noteq> u \<Longrightarrow> map_of (ensure_user u d) u' = map_of d u'"
  by (simp add: ensure_user_def update_conv')

lemma update_item_other [simp]: "k' \<noteq> k \<Longrightarrow> map_of (update_item k f d) k' = map_of d k'"
  by (auto simp: update_item_def update_conv' split: option.splits)

lemma map_of_update_item: "map_of (update_item k f d) k = map_option f (map_of d k)"
  by (auto simp: update_item_def update_conv' split: option.splits)

lemma ensure_entry: "\<exists>inline t. map_of (ensure_user u d) u = Some (Tbl inline t) \<and>
    t = (case table_of d u of Some t \<Rightarrow> t | None \<Rightarrow> [])"
proof (cases "map_of d u")
  case (Some i)
  then show ?thesis by (cases i) (auto simp: ensure_user_def table_of_def update_conv')
qed (auto simp: ensure_user_def table_of_def update_conv')

text \<open>What a write leaves at the account it writes to.\<close>

lemma table_user_write:
  "table_of (write_user_field u k v d) u =
     Some (AList.update k (Str v) (case table_of d u of Some t \<Rightarrow> t | None \<Rightarrow> []))"
  using ensure_entry [of u d] by (auto simp: write_user_field_def table_of_def map_of_update_item)

lemma table_write_other:
  assumes "u' \<noteq> u"
  shows "map_of (write_user_field u k v d) u' = map_of d u'" "map_of (write_profile_field u k v d) u' = map_of d u'"
  using assms by (simp_all add: write_user_field_def write_profile_field_def)

definition profile_of :: "document \<Rightarrow> document" where
  "profile_of t = (case table_of t PROFILE_TABLE of Some p \<Rightarrow> p | None \<Rightarrow> [])"

lemma ensure_profile_Tbl:
  "\<exists>b t'. ensure_profile (Tbl inline t) = Tbl inline t' \<and>
    map_of t' PROFILE_TABLE = Some (Tbl b (profile_of t)) \<and> (\<forall>k. k \<noteq> PROFILE_TABLE \<longrightarrow> map_of t' k = map_of t k)"
proof (cases "table_of t PROFILE_TABLE")
  case None
  then show ?thesis by (simp add: ensure_profile_def profile_of_def update_conv')
next
  case (Some p)
  then obtain b where "map_of t PROFILE_TABLE = Some (Tbl b p)"
    by (cases "map_of t PROFILE_TABLE") (auto simp: table_of_def elim: as_table_like.elims)
  then show ?thesis using Some by (simp add: ensure_profile_def profile_of_def)
qed

lemma table_profile_write:
  "\<exists>t b. table_of (write_profile_field u k v d) u = Some t \<and>
     map_of t PROFILE_TABLE = Some (Tbl b (AList.update k (Str v)
       (profile_of (case table_of d u of Some t \<Rightarrow> t | None \<Rightarrow> [])))) \<and>
     (\<forall>k'. k' \<noteq> PROFILE_TABLE \<longrightarrow> map_of t k' = map_of (case table_of d u of Some t \<Rightarrow> t | None \<Rightarrow> []) k')"
proof -
  obtain inline t where e: "map_of (ensure_user u d) u = Some (Tbl inline t)"
    and t: "t = (case table_of d u of Some t \<Rightarrow> t | None \<Rightarrow> [])" using ensure_entry by blast
  obtain b t' where p: "ensure_profile (Tbl inline t) = Tbl inline t'"
    "map_of t' PROFILE_TABLE = Some (Tbl b (profile_of t))" "\<forall>k. k \<noteq> PROFILE_TABLE \<longrightarrow> map_of t' k = map_of t k"
    using ensure_profile_Tbl by blast
  have "table_of (write_profile_field u k v d) u = Some (update_item PROFILE_TABLE (table_insert k (Str v)) t')"
    by (simp add: write_profile_field_def table_of_def map_of_update_item e p(1))
  then show ?thesis using p(2,3) t by (simp add: map_of_update_item)
qed

lemma field_default:
  "Option.bind (map_of (case table_of d u of Some t \<Rightarrow> t | None \<Rightarrow> []) k) as_str = user_field d u k"
  "Option.bind (map_of (profile_of (case table_of d u of Some t \<Rightarrow> t | None \<Rightarrow> [])) k) as_str = profile_field d u k"
  by (cases "table_of d u"; simp add: user_field_def profile_field_def profile_of_def split: option.splits)+

interpretation account: field_store user_field write_user_field
proof
  fix u k v d u' k'
  show "user_field (write_user_field u k v d) u k = Some v"
    by (simp add: user_field_def table_user_write update_conv')
  show "(map_of (write_user_field u k v d) u' = None) = (u' \<noteq> u \<and> map_of d u' = None)"
    using table_user_write [of u k v d] table_write_other(1) [of u' u k v d]
    by (cases "u' = u") (auto simp: table_of_def bind_eq_Some_conv)
  show "user_field (write_user_field u k v d) u' k' = user_field d u' k'" if "(u', k') \<noteq> (u, k)"
  proof (cases "u' = u")
    case True
    then show ?thesis using that field_default(1) [of d u k'] by (simp add: user_field_def table_user_write update_conv')
  qed (simp add: user_field_def table_of_def table_write_other)
qed

interpretation profile: field_store profile_field write_profile_field
proof
  fix u k v d u' k'
  obtain t b where t: "table_of (write_profile_field u k v d) u = Some t"
    "map_of t PROFILE_TABLE = Some (Tbl b (AList.update k (Str v)
       (profile_of (case table_of d u of Some t \<Rightarrow> t | None \<Rightarrow> []))))"
    using table_profile_write by blast
  show "profile_field (write_profile_field u k v d) u k = Some v"
    using t by (simp add: profile_field_def table_of_def update_conv')
  show "(map_of (write_profile_field u k v d) u' = None) = (u' \<noteq> u \<and> map_of d u' = None)"
    using t(1) table_write_other(2) [of u' u k v d] by (cases "u' = u") (auto simp: table_of_def bind_eq_Some_conv)
  show "profile_field (write_profile_field u k v d) u' k' = profile_field d u' k'" if "(u', k') \<noteq> (u, k)"
  proof (cases "u' = u")
    case True
    then show ?thesis using that t field_default(2) [of d u k']
      by (simp add: profile_field_def [of "write_profile_field u k v d"] table_of_def [of t] update_conv')
  qed (simp add: profile_field_def table_of_def table_write_other)
qed

text \<open>The two stores do not see each other.\<close>

lemma profile_write_account:
  assumes "k' \<noteq> PROFILE_TABLE"
  shows "user_field (write_profile_field u k v d) u' k' = user_field d u' k'"
proof (cases "u' = u")
  case True
  obtain t where "table_of (write_profile_field u k v d) u = Some t"
    "map_of t k' = map_of (case table_of d u of Some t \<Rightarrow> t | None \<Rightarrow> []) k'"
    using table_profile_write [of u k v d] assms by blast
  then show ?thesis using True field_default(1) [of d u k'] by (simp add: user_field_def [of "write_profile_field u k v d"])
qed (simp add: user_field_def table_of_def table_write_other)

lemma account_write_profile:
  assumes "k \<noteq> PROFILE_TABLE"
  shows "profile_field (write_user_field u k v d) u' k' = profile_field d u' k'"
proof (cases "u' = u")
  case True
  have "table_of (AList.update k (Str v) t) PROFILE_TABLE = table_of t PROFILE_TABLE" for t
    using assms by (simp add: table_of_def update_conv')
  from this this [of "[]"] show ?thesis using True
    by (cases "table_of d u") (simp_all add: profile_field_def table_user_write)
qed (simp add: profile_field_def table_of_def table_write_other)

lemma profile_fold_account:
  "k' \<noteq> PROFILE_TABLE \<Longrightarrow> user_field (fold (\<lambda>(k, v). write_profile_field u k v) kvs d) u' k' = user_field d u' k'"
  by (induction kvs arbitrary: d) (auto simp: profile_write_account)

lemma fold_other:
  assumes "u' \<noteq> u"
  shows "map_of (fold (\<lambda>(k, v). write_user_field u k v) kvs d) u' = map_of d u'"
    and "map_of (fold (\<lambda>(k, v). write_profile_field u k v) kvs d) u' = map_of d u'"
  by (induction kvs arbitrary: d) (auto simp: table_write_other [OF assms])

lemma other_account:
  "map_of d u = map_of d' u \<Longrightarrow> user_field d u k = user_field d' u k \<and> profile_field d u k = profile_field d' u k"
  by (simp add: user_field_def profile_field_def table_of_def)

lemmas key_names = PROFILE_TABLE_def AVATAR_KEY_def COLOR_KEYS_def profile_KEYS_def

lemma keys_distinct:
  "distinct (AVATAR_KEY # profile_KEYS)" "ustr ''password'' \<noteq> PROFILE_TABLE" "ustr ''role'' \<noteq> PROFILE_TABLE"
  "ustr ''password'' \<noteq> ustr ''role''" "PROFILE_TABLE \<notin> set COLOR_KEYS" "ustr ''password'' \<notin> set COLOR_KEYS"
  "ustr ''role'' \<notin> set COLOR_KEYS" "length profile_KEYS = 4"
  by code_simp+

section \<open>Bans as a set\<close>

definition bans_of :: "ustr \<Rightarrow> document \<Rightarrow> item list" where
  "bans_of section doc = (case Option.bind (map_of doc section) as_array of None \<Rightarrow> [] | Some bans \<Rightarrow> bans)"

text \<open>No subject is on the list twice; an entry that is no text is nobody's.\<close>

definition ban_wf :: "ustr \<Rightarrow> document \<Rightarrow> bool" where
  "ban_wf section doc \<longleftrightarrow> distinct (List.map_filter as_str (bans_of section doc))"

lemma listed_bans: "listed section key doc \<longleftrightarrow> key \<in> set (List.map_filter as_str (bans_of section doc))"
  by (auto simp: listed_def bans_of_def map_filter_Some list_ex_iff split: option.splits)

lemma map_filter_append: "List.map_filter f (xs @ ys) = List.map_filter f xs @ List.map_filter f ys"
  by (simp add: List.map_filter_def)

lemma bans_set_ban:
  "bans_of section (set_ban section key doc) =
     (if listed section key doc then bans_of section doc else bans_of section doc @ [Str key])"
  by (auto simp: set_ban_def bans_of_def listed_def Let_def update_conv' split: option.splits)

lemma set_ban_other: "s' \<noteq> s \<Longrightarrow> bans_of s' (set_ban s key doc) = bans_of s' doc"
  by (auto simp: set_ban_def bans_of_def Let_def update_conv' split: option.splits)

lemma bans_unset_ban:
  "unset_ban section i doc = (doc', r) \<Longrightarrow>
     r = (i < length (bans_of section doc)) \<and>
     bans_of section doc' = (if r then remove_nth i (bans_of section doc) else bans_of section doc)"
  by (auto simp: unset_ban_def bans_of_def update_conv' split: option.splits if_splits)

lemma ban_list_nth:
  "e \<in> set (ban_list section doc) \<longleftrightarrow>
     be_id e < length (bans_of section doc) \<and> as_str (bans_of section doc ! be_id e) = Some (be_subject e)"
proof -
  let ?g = "\<lambda>(i, ban). map_option (\<lambda>s. \<lparr> be_id = i, be_subject = s \<rparr>) (as_str ban)"
  have "ban_list section doc = List.map_filter ?g (enumerate 0 (bans_of section doc))"
    by (simp add: ban_list_def bans_of_def List.map_filter_def split: option.split)
  moreover have "?g (i, b) = Some e \<longleftrightarrow> i = be_id e \<and> as_str b = Some (be_subject e)" for i b
    by (cases e) auto
  ultimately show ?thesis by (auto simp: map_filter_Some in_set_enumerate_eq Bex_def)
qed

lemma remove_distinct:
  assumes "distinct (List.map_filter f xs)" "i < length xs" "f (xs ! i) = Some y"
  shows "distinct (List.map_filter f (remove_nth i xs))"
    and "set (List.map_filter f (remove_nth i xs)) = set (List.map_filter f xs) - {y}"
proof -
  have "List.map_filter f xs = List.map_filter f (take i xs @ xs ! i # drop (Suc i) xs)"
    using id_take_nth_drop [OF assms(2)] by simp
  also have "\<dots> = List.map_filter f (take i xs) @ y # List.map_filter f (drop (Suc i) xs)"
    by (simp add: map_filter_append List.map_filter_simps assms(3))
  finally have "List.map_filter f xs = List.map_filter f (take i xs) @ y # List.map_filter f (drop (Suc i) xs)" .
  with assms(1) show "distinct (List.map_filter f (remove_nth i xs))"
    "set (List.map_filter f (remove_nth i xs)) = set (List.map_filter f xs) - {y}"
    by (auto simp: remove_nth_def map_filter_append)
qed

section \<open>Properties\<close>

datatype profile_edit = EditProfile ustr user_profile | EditAvatar ustr "u8 list option"

fun apply_edit :: "profile_edit \<Rightarrow> document \<Rightarrow> document" where
  "apply_edit (EditProfile u p) = set_profile u p"
| "apply_edit (EditAvatar u h) = set_avatar u h"

lemma edit_account: "k \<noteq> PROFILE_TABLE \<Longrightarrow> user_field (apply_edit e d) u k = user_field d u k"
  by (cases e) (simp_all add: set_profile_def set_avatar_def profile_fold_account profile_write_account)

lemma edits_account: "k \<noteq> PROFILE_TABLE \<Longrightarrow> user_field (fold apply_edit es d) u k = user_field d u k"
  by (induction es arbitrary: d) (simp_all add: edit_account)

text \<open>
  No sequence of profile and avatar edits, of any account and with any text,
  changes the password hash, the role or the colours of any account.
\<close>

theorem profile_edits_keep_credentials:
  "password (fold apply_edit es d) u = password d u \<and> user_role (fold apply_edit es d) u = user_role d u \<and>
   user_colors (fold apply_edit es d) u = user_colors d u"
proof -
  have "COLOR_KEYS ! 0 \<noteq> PROFILE_TABLE" "COLOR_KEYS ! 1 \<noteq> PROFILE_TABLE" by code_simp+
  then show ?thesis using keys_distinct(2,3)
    by (simp add: password_def user_role_def user_colors_def edits_account)
qed

text \<open>Registration as two runs of writes.\<close>

definition account_kvs :: "ustr \<Rightarrow> role \<Rightarrow> (ustr \<times> ustr) list" where
  "account_kvs h r = [(ustr ''password'', h), (ustr ''role'', role_name r)] @ map (\<lambda>k. (k, ustr ''none'')) COLOR_KEYS"

definition profile_kvs :: "(ustr \<times> ustr) list" where
  "profile_kvs = map (\<lambda>k. (k, [])) (profile_KEYS @ [AVATAR_KEY])"

lemma users_add_folds:
  "users_add u h d = (fold (\<lambda>(k, v). write_profile_field u k v) profile_kvs
     (fold (\<lambda>(k, v). write_user_field u k v) (account_kvs h (if d = [] then Owner else User)) d), d = [])"
proof -
  have "fold (\<lambda>k. g k c) ks x = fold (\<lambda>(k, v). g k v) (map (\<lambda>k. (k, c)) ks) x"
    for g :: "ustr \<Rightarrow> ustr \<Rightarrow> document \<Rightarrow> document" and c ks x by (induction ks arbitrary: x) auto
  then show ?thesis
    by (simp add: users_add_def Let_def users_len_def set_password_def set_user_role_def account_kvs_def profile_kvs_def)
qed

lemma account_kvs_lookup:
  "distinct (map fst (account_kvs h r))" "map_of (account_kvs h r) (ustr ''password'') = Some h"
  "map_of (account_kvs h r) (ustr ''role'') = Some (role_name r)"
  "map_of (account_kvs h r) (COLOR_KEYS ! 0) = Some (ustr ''none'')"
  "map_of (account_kvs h r) (COLOR_KEYS ! 1) = Some (ustr ''none'')"
  by (simp_all add: account_kvs_def COLOR_KEYS_def ustr_def)

lemma profile_kvs_lookup:
  "distinct (map fst profile_kvs)" "k \<in> set (AVATAR_KEY # profile_KEYS) \<Longrightarrow> map_of profile_kvs k = Some []"
  using keys_distinct(1) by (auto simp: profile_kvs_def profile_KEYS_def)

lemma role_roundtrip: "role_from_str (role_name r) = Some r"
  using trim_pad [of "[]" "[]" "role_name r"] role_name_ends [of r]
  by (intro role_from_str_name) (simp add: eq_ignore_ascii_case_def)

lemma no_color: "color_code (ustr ''none'') = None"
  by code_simp

text \<open>
  Registering an account stores its hash, gives it the owner's role exactly when it is the
  first account of the server and the lowest role otherwise, starts it with no colours and an empty profile without a
  picture, and leaves every field of every other account as it was.
\<close>

theorem registration_spec:
  "case users_add u h d of (d', first) \<Rightarrow>
     (first \<longleftrightarrow> d = []) \<and> password d' u = Some h \<and> user_role d' u = Some (if d = [] then Owner else User) \<and>
     user_colors d' u = \<lparr> username_color = None, message_color = None \<rparr> \<and>
     (\<forall>k \<in> set (AVATAR_KEY # profile_KEYS). profile_field d' u k = Some []) \<and> avatar d' u = None \<and>
     (\<forall>u' k. u' \<noteq> u \<longrightarrow> user_field d' u' k = user_field d u' k \<and> profile_field d' u' k = profile_field d u' k)"
proof -
  let ?r = "if d = [] then Owner else User"
  define d1 where "d1 = fold (\<lambda>(k, v). write_user_field u k v) (account_kvs h ?r) d"
  define d2 where "d2 = fold (\<lambda>(k, v). write_profile_field u k v) profile_kvs d1"
  have add: "users_add u h d = (d2, d = [])" unfolding d1_def d2_def by (rule users_add_folds)
  have acc: "user_field d2 u k = Some v" if "k \<noteq> PROFILE_TABLE" "map_of (account_kvs h ?r) k = Some v" for k v
    using that account.read_fold [OF account_kvs_lookup(1), of u h ?r d u k]
    by (simp add: d2_def profile_fold_account d1_def)
  have col: "COLOR_KEYS ! 0 \<noteq> PROFILE_TABLE" "COLOR_KEYS ! 1 \<noteq> PROFILE_TABLE" by code_simp+
  have prof: "profile_field d2 u k = Some []" if "k \<in> set (AVATAR_KEY # profile_KEYS)" for k
    using profile.read_fold [OF profile_kvs_lookup(1), of u d1 u k] profile_kvs_lookup(2) [OF that] by (simp add: d2_def)
  have "password d2 u = Some h" using acc [OF keys_distinct(2) account_kvs_lookup(2)] by (simp add: password_def)
  moreover have "user_role d2 u = Some ?r"
    using acc [OF keys_distinct(3) account_kvs_lookup(3)] by (simp add: user_role_def role_roundtrip)
  moreover have "user_colors d2 u = \<lparr> username_color = None, message_color = None \<rparr>"
    using acc [OF col(1) account_kvs_lookup(4)] acc [OF col(2) account_kvs_lookup(5)]
    by (simp add: user_colors_def no_color)
  moreover have "avatar d2 u = None" using prof [of AVATAR_KEY] by (simp add: avatar_def utf8_def unhex_def)
  moreover have "user_field d2 u' k = user_field d u' k \<and> profile_field d2 u' k = profile_field d u' k" if "u' \<noteq> u" for u' k
    by (rule other_account) (simp only: d2_def d1_def fold_other [OF that])
  ultimately show ?thesis unfolding add using prof by blast
qed

theorem registration_spec_witness:
  "case users_add (ustr ''ann'') (ustr ''h'') [] of (d', first) \<Rightarrow> first \<and> user_role d' (ustr ''ann'') = Some Owner"
  using registration_spec [where u = "ustr ''ann''" and h = "ustr ''h''" and d = "[]"] by (simp split: prod.splits)

text \<open>
  A stored profile reads back with the text that was stored, the picture and the role the
  account has, and a stored picture reads back as its hash, or as none when it is cleared.
\<close>

theorem profile_roundtrip:
  assumes "h = None \<or> length (the h) = 32"
  shows "user_profile_of (set_profile u p d) u =
      p\<lparr> up_avatar := avatar d u, up_role := (case user_role d u of None \<Rightarrow> role_default | Some r \<Rightarrow> r) \<rparr> \<and>
    avatar (set_avatar u h d) u = h"
proof -
  let ?kvs = "zip profile_KEYS (profile_fields p)"
  have dk: "distinct (map fst ?kvs)" using keys_distinct(1,8) by (simp add: profile_fields_def)
  have f: "profile_field (set_profile u p d) u k = (case map_of ?kvs k of Some v \<Rightarrow> Some v | None \<Rightarrow> profile_field d u k)" for k
    using profile.read_fold [OF dk, of u d u k] by (simp add: set_profile_def split: option.splits)
  have look: "map_of ?kvs (profile_KEYS ! 0) = Some (up_bio p)" "map_of ?kvs (profile_KEYS ! 1) = Some (up_pronouns p)"
    "map_of ?kvs (profile_KEYS ! 2) = Some (up_website p)" "map_of ?kvs (profile_KEYS ! 3) = Some (up_status p)"
    "map_of ?kvs AVATAR_KEY = None"
    by (simp_all add: profile_KEYS_def profile_fields_def AVATAR_KEY_def ustr_def)
  have "user_role (set_profile u p d) u = user_role d u"
    using keys_distinct(3) by (simp add: user_role_def set_profile_def profile_fold_account)
  moreover have "avatar (set_profile u p d) u = avatar d u" by (simp add: avatar_def f look)
  ultimately have "user_profile_of (set_profile u p d) u =
      p\<lparr> up_avatar := avatar d u, up_role := (case user_role d u of None \<Rightarrow> role_default | Some r \<Rightarrow> r) \<rparr>"
    by (intro user_profile.equality)
      (simp_all add: user_profile_of_def Let_def f look or_default_def del: One_nat_def)
  moreover have "avatar (set_avatar u h d) u = h"
  proof (cases h)
    case None
    then show ?thesis by (simp add: avatar_def set_avatar_def profile.read_same utf8_def unhex_def)
  next
    case (Some x)
    then show ?thesis using assms
      by (simp add: avatar_def set_avatar_def profile.read_same utf8_from_ascii hex_ascii unhex_hex)
  qed
  ultimately show ?thesis by simp
qed

theorem profile_roundtrip_witness: "avatar (set_avatar [] (Some (replicate 32 7)) []) [] = Some (replicate 32 7)"
  using profile_roundtrip [of "Some (replicate 32 7)" "[]" "\<lparr> up_bio = [], up_pronouns = [], up_website = [],
    up_status = [], up_avatar = None, up_role = User \<rparr>" "[]"] by simp

text \<open>
  A ban list never holds a subject twice: banning adds exactly its subject, banning again
  changes nothing, and pardoning the number a subject is listed under lifts exactly that ban. The other list is not touched.
\<close>

theorem ban_list_is_a_set:
  assumes "ban_wf (ustr ''user'') d"
  shows "ban_wf (ustr ''user'') (ban u d) \<and> (\<forall>v. banned (ban u d) v \<longleftrightarrow> v = u \<or> banned d v) \<and>
    ban u (ban u d) = ban u d \<and> (\<forall>ip. banned_ip (ban u d) ip = banned_ip d ip) \<and>
    (\<forall>e \<in> set (ban_users d). case pardon (be_id e) d of (d', r) \<Rightarrow>
       r \<and> ban_wf (ustr ''user'') d' \<and> (\<forall>v. banned d' v \<longleftrightarrow> banned d v \<and> v \<noteq> be_subject e))"
proof (intro conjI ballI allI)
  let ?s = "ustr ''user''"
  have b: "bans_of ?s (ban u d) = (if listed ?s u d then bans_of ?s d else bans_of ?s d @ [Str u])"
    by (simp add: ban_def bans_set_ban)
  have mf: "List.map_filter as_str (bans_of ?s (ban u d)) =
      List.map_filter as_str (bans_of ?s d) @ (if listed ?s u d then [] else [u])"
    by (simp add: b map_filter_append List.map_filter_simps)
  show "ban_wf ?s (ban u d)" using assms by (simp add: ban_wf_def mf listed_bans)
  show on: "banned (ban u d) v \<longleftrightarrow> v = u \<or> banned d v" for v
    by (auto simp: banned_def listed_bans [of _ _ "ban u d"] mf listed_bans)
  have "listed ?s u (ban u d)" using on [of u] by (simp add: banned_def)
  then show "ban u (ban u d) = ban u d"
    by (auto simp: ban_def [of u "ban u d"] set_ban_def listed_def Let_def split: option.splits)
  have "?s \<noteq> ustr ''ip''" by code_simp
  then show "banned_ip (ban u d) ip = banned_ip d ip" for ip
    by (simp add: banned_ip_def listed_bans ban_def set_ban_other)
  fix e assume e: "e \<in> set (ban_users d)"
  obtain d' r where p: "pardon (be_id e) d = (d', r)" by (cases "pardon (be_id e) d")
  have en: "be_id e < length (bans_of ?s d)" "as_str (bans_of ?s d ! be_id e) = Some (be_subject e)"
    using e by (simp_all add: ban_users_def ban_list_nth)
  have "r" "bans_of ?s d' = remove_nth (be_id e) (bans_of ?s d)"
    using bans_unset_ban [OF p [unfolded pardon_def]] en(1) by auto
  with remove_distinct [OF assms [unfolded ban_wf_def] en] p
  show "case pardon (be_id e) d of (d', r) \<Rightarrow> r \<and> ban_wf ?s d' \<and> (\<forall>v. banned d' v \<longleftrightarrow> banned d v \<and> v \<noteq> be_subject e)"
    by (auto simp: ban_wf_def banned_def listed_bans)
qed

theorem ban_list_is_a_set_witness:
  "\<forall>v. banned (ban (ustr ''eve'') []) v \<longleftrightarrow> v = ustr ''eve'' \<or> banned [] v"
  using ban_list_is_a_set [of "[]" "ustr ''eve''"]
  by (simp add: ban_wf_def bans_of_def List.map_filter_simps)

end
