(* ===== verification/Messages.thy ===== *)
theory Messages
  imports Users Chat_Crypto
begin

text \<open>
  \<open>chat/src/config/messages.rs\<close>: the persistent history of the lobby. The records with the next id, every
  operation on them, the pages a client scrolls through and the sealed file. Operations are functions on
  the history; what they do to the disk, rewriting the file and deleting stored files, is the list of effects they
  return, in order. \<open>wincode\<close> is a parameter.
\<close>

section \<open>Data\<close>

record msg_record =
  r_id :: u64
  r_username :: ustr
  r_text :: ustr
  r_image :: "u8 list option"
  r_timestamp :: "u64 option"
  r_reply :: "u64 option"
  r_hearts :: "ustr list"
  r_edited :: bool
  r_voice :: "voice_note option"
  r_pinned :: bool

record voice_record =
  v_id :: u64
  v_username :: ustr
  v_text :: ustr
  v_image :: "u8 list option"
  v_timestamp :: "u64 option"
  v_reply :: "u64 option"
  v_hearts :: "ustr list"
  v_edited :: bool
  v_voice :: "voice_note option"

record history =
  h_next :: u64
  h_records :: "msg_record list"

record page_t =
  pg_messages :: "stored_message list"
  pg_start :: u64
  pg_more :: bool
  pg_kept :: u64

datatype msg_effect = SaveHistory "msg_record list" | RemoveImage "u8 list"
  \<comment> \<open>the file of that hash\<close>

definition MAGIC :: "u8 list" where
  "MAGIC = ascii_bytes ''WHY2MSG'' @ [7]"

definition MAGIC_V6 :: "u8 list" where
  "MAGIC_V6 = ascii_bytes ''WHY2MSG'' @ [6]"

definition from_voice_record :: "voice_record \<Rightarrow> msg_record" where
  "from_voice_record m = \<lparr> r_id = v_id m, r_username = v_username m, r_text = v_text m, r_image = v_image m,
     r_timestamp = v_timestamp m, r_reply = v_reply m, r_hearts = v_hearts m, r_edited = v_edited m,
     r_voice = v_voice m, r_pinned = False \<rparr>"

definition stored_file :: "msg_record \<Rightarrow> u8 list option" where
  "stored_file m = (case r_image m of Some h \<Rightarrow> Some h | None \<Rightarrow> map_option vn_hash (r_voice m))"

section \<open>The history\<close>

definition history_new :: "msg_record list \<Rightarrow> history" where
  "history_new records = \<lparr> h_next = (if records = [] then 0 else r_id (last records) + 1), h_records = records \<rparr>"

definition take_id :: "history \<Rightarrow> u64 \<times> history" where
  "take_id h = (h_next h, h\<lparr> h_next := h_next h + 1 \<rparr>)"

text \<open>\<open>partition_point\<close> is a binary search: the answer lies between \<open>lo\<close> and \<open>hi\<close>.\<close>

function search :: "('a \<Rightarrow> bool) \<Rightarrow> 'a list \<Rightarrow> nat \<Rightarrow> nat \<Rightarrow> nat" where
  "search P xs lo hi = (if hi \<le> lo then lo
     else let mid = (lo + hi) div 2 in
       if P (xs ! mid) then search P xs (mid + 1) hi else search P xs lo mid)"
  by pat_completeness auto
termination
  by (relation "measure (\<lambda>(P, xs, lo, hi). hi - lo)") auto

declare search.simps [simp del]

definition partition_point :: "('a \<Rightarrow> bool) \<Rightarrow> 'a list \<Rightarrow> nat" where
  "partition_point P xs = search P xs 0 (length xs)"

definition hist_position :: "history \<Rightarrow> u64 \<Rightarrow> nat" where
  "hist_position h i = partition_point (\<lambda>m. r_id m < i) (h_records h)"

definition hist_find :: "history \<Rightarrow> u64 \<Rightarrow> nat option" where
  "hist_find h i = (let index = hist_position h i in
     if index < length (h_records h) \<and> r_id (h_records h ! index) = i then Some index else None)"

definition orphans :: "document \<Rightarrow> ustr option \<Rightarrow> history \<Rightarrow> u8 list list \<Rightarrow> u8 list list" where
  "orphans users icon h dropped =
     filter (\<lambda>x. server_icon icon \<noteq> Some x)
       (filter (\<lambda>x. \<not> names_avatar users x)
         (filter (\<lambda>x. \<not> list_ex (\<lambda>m. stored_file m = Some x) (h_records h)) dropped))"

definition remove_images :: "u8 list list \<Rightarrow> msg_effect list" where
  "remove_images xs = map RemoveImage xs"

definition next_id :: "history \<Rightarrow> u64 \<times> history" where
  "next_id h = take_id h"

definition push ::
  "nat \<Rightarrow> document \<Rightarrow> ustr option \<Rightarrow> ustr \<Rightarrow> ustr \<Rightarrow> u8 list option \<Rightarrow> voice_note option \<Rightarrow> u64 option \<Rightarrow>
   u64 option \<Rightarrow> history \<Rightarrow> u64 \<times> history \<times> msg_effect list" where
  "push limit users icon name content img clip ts rep h =
     (case take_id h of (i, h) \<Rightarrow>
      if limit = 0 then (i, h, [])
      else let records = h_records h @ [\<lparr> r_id = i, r_username = name, r_text = content, r_image = img, r_timestamp = ts,
                 r_reply = rep, r_hearts = [], r_edited = False, r_voice = clip, r_pinned = False \<rparr>];
               over = length records - limit;
               dropped = List.map_filter stored_file (take over records);
               h = h\<lparr> h_records := drop over records \<rparr>
           in (i, h, SaveHistory (h_records h) # remove_images (orphans users icon h dropped)))"

definition store where
  "store limit users icon name content ts rep h = push limit users icon name content None None ts rep h"

definition store_image where
  "store_image limit users icon name filename hash ts h = push limit users icon name filename (Some hash) None ts None h"

definition store_voice where
  "store_voice limit users icon name clip ts h = push limit users icon name [] None (Some clip) ts None h"

definition msg_exists :: "history \<Rightarrow> u64 \<Rightarrow> bool" where
  "msg_exists h i = (hist_find h i \<noteq> None)"

definition author :: "history \<Rightarrow> u64 \<Rightarrow> ustr option" where
  "author h i = map_option (\<lambda>index. r_username (h_records h ! index)) (hist_find h i)"

definition delete_msg :: "document \<Rightarrow> ustr option \<Rightarrow> u64 \<Rightarrow> history \<Rightarrow> bool \<times> history \<times> msg_effect list" where
  "delete_msg users icon i h = (case hist_find h i of
     None \<Rightarrow> (False, h, [])
   | Some index \<Rightarrow>
       let dropped = List.map_filter stored_file [h_records h ! index];
           h = h\<lparr> h_records := remove_nth index (h_records h) \<rparr>
       in (True, h, SaveHistory (h_records h) # remove_images (orphans users icon h dropped)))"

definition toggle_heart :: "ustr \<Rightarrow> ustr list \<Rightarrow> ustr list" where
  "toggle_heart name hearts = (case position (\<lambda>n. n = name) hearts of
     Some heart \<Rightarrow> remove_nth heart hearts
   | None \<Rightarrow> hearts @ [name])"

definition update_record :: "nat \<Rightarrow> (msg_record \<Rightarrow> msg_record) \<Rightarrow> history \<Rightarrow> history" where
  "update_record index f h = h\<lparr> h_records := (h_records h)[index := f (h_records h ! index)] \<rparr>"

definition heart :: "u64 \<Rightarrow> ustr \<Rightarrow> history \<Rightarrow> ustr list option \<times> history \<times> msg_effect list" where
  "heart i name h = (case hist_find h i of
     None \<Rightarrow> (None, h, [])
   | Some index \<Rightarrow>
       let hearts = toggle_heart name (r_hearts (h_records h ! index));
           h = update_record index (\<lambda>m. m\<lparr> r_hearts := hearts \<rparr>) h
       in (Some hearts, h, [SaveHistory (h_records h)]))"

definition edit :: "u64 \<Rightarrow> ustr \<Rightarrow> ustr \<Rightarrow> history \<Rightarrow> bool \<times> history \<times> msg_effect list" where
  "edit i name content h = (case hist_find h i of
     None \<Rightarrow> (False, h, [])
   | Some index \<Rightarrow>
       let m = h_records h ! index in
       if r_username m \<noteq> name \<or> stored_file m \<noteq> None then (False, h, [])
       else let h = update_record index (\<lambda>m. m\<lparr> r_text := content, r_edited := True \<rparr>) h
            in (True, h, [SaveHistory (h_records h)]))"

definition pin :: "nat \<Rightarrow> u64 \<Rightarrow> history \<Rightarrow> bool option \<times> history \<times> msg_effect list" where
  "pin limit i h = (case hist_find h i of
     None \<Rightarrow> (None, h, [])
   | Some index \<Rightarrow>
       if \<not> r_pinned (h_records h ! index) \<and> limit \<le> length (filter r_pinned (h_records h)) then (None, h, [])
       else let pinned = \<not> r_pinned (h_records h ! index);
                h = update_record index (\<lambda>m. m\<lparr> r_pinned := pinned \<rparr>) h
            in (Some pinned, h, [SaveHistory (h_records h)]))"

definition has_image :: "history \<Rightarrow> u8 list \<Rightarrow> bool" where
  "has_image h hash = list_ex (\<lambda>m. r_image m = Some hash) (h_records h)"

text \<open>\<open>find_map\<close>: the first record whose clip has the hash.\<close>

fun find_voice :: "u8 list \<Rightarrow> msg_record list \<Rightarrow> voice_note option" where
  "find_voice hash [] = None"
| "find_voice hash (m # ms) = (case r_voice m of
     Some clip \<Rightarrow> if vn_hash clip = hash then Some clip else find_voice hash ms
   | None \<Rightarrow> find_voice hash ms)"

definition voice :: "history \<Rightarrow> u8 list \<Rightarrow> voice_note option" where
  "voice h hash = find_voice hash (h_records h)"

definition stored :: "document \<Rightarrow> ustr option \<Rightarrow> history \<Rightarrow> u8 list \<Rightarrow> bool" where
  "stored users icon h hash \<longleftrightarrow> has_image h hash \<or> names_avatar users hash \<or> server_icon icon = Some hash"

text \<open>The names of the files in the image directory that are deleted.\<close>

definition sweep_images :: "document \<Rightarrow> ustr option \<Rightarrow> history \<Rightarrow> ustr list \<Rightarrow> ustr list" where
  "sweep_images users icon h files =
     (let kept = map (\<lambda>x. from_ascii (hex x)) (List.map_filter stored_file (h_records h) @ avatars users @
            (case server_icon icon of None \<Rightarrow> [] | Some x \<Rightarrow> [x]))
      in filter (\<lambda>file. file \<notin> set kept) files)"

section \<open>Records on the wire\<close>

definition wire_one :: "bool \<Rightarrow> message_colors \<Rightarrow> msg_record \<Rightarrow> stored_message" where
  "wire_one timestamps colors m = \<lparr> sm_message_id = r_id m, sm_username = r_username m, sm_text = r_text m,
     sm_colors = (if stored_file m \<noteq> None then \<lparr> username_color = username_color colors, message_color = None \<rparr> else colors),
     sm_image = r_image m, sm_timestamp = (if timestamps then r_timestamp m else None), sm_reply = r_reply m,
     sm_hearts = r_hearts m, sm_edited = r_edited m, sm_voice = r_voice m, sm_pinned = r_pinned m \<rparr>"

text \<open>The senders' colours are looked up once per page; \<open>looked_up\<close> is that cache.\<close>

fun wire_loop ::
  "(ustr \<Rightarrow> message_colors) \<Rightarrow> bool \<Rightarrow> (ustr, message_colors) map \<Rightarrow> msg_record list \<Rightarrow> stored_message list" where
  "wire_loop colors timestamps looked_up [] = []"
| "wire_loop colors timestamps looked_up (m # ms) =
     (let c = (case looked_up (r_username m) of Some c \<Rightarrow> c | None \<Rightarrow> colors (r_username m))
      in wire_one timestamps c m # wire_loop colors timestamps (looked_up(r_username m \<mapsto> c)) ms)"

definition wire :: "document \<Rightarrow> bool \<Rightarrow> msg_record list \<Rightarrow> stored_message list" where
  "wire users timestamps records = wire_loop (user_colors users) timestamps Map.empty records"

definition pinned :: "document \<Rightarrow> bool \<Rightarrow> history \<Rightarrow> stored_message list" where
  "pinned users timestamps h = wire users timestamps (filter r_pinned (h_records h))"

definition record_size :: "msg_record \<Rightarrow> nat" where
  "record_size m = str_len (r_username m) + str_len (r_text m) + sum_list (map str_len (r_hearts m))"

text \<open>The walk back from \<open>to\<close>: the index of the first record of the page.\<close>

fun page_from :: "msg_record list \<Rightarrow> nat \<Rightarrow> nat \<Rightarrow> nat \<Rightarrow> nat \<Rightarrow> nat \<Rightarrow> nat" where
  "page_from records to count budget sz 0 = 0"
| "page_from records to count budget sz (Suc from) =
     (if to - Suc from < count
      then let sz = sz + record_size (records ! from) in
        if budget < sz \<and> Suc from \<noteq> to then Suc from else page_from records to count budget sz from
      else Suc from)"

definition page :: "document \<Rightarrow> bool \<Rightarrow> u64 option \<Rightarrow> nat \<Rightarrow> nat \<Rightarrow> history \<Rightarrow> page_t" where
  "page users timestamps before count budget h =
     (let to = (case before of None \<Rightarrow> length (h_records h) | Some i \<Rightarrow> hist_position h i);
          from = page_from (h_records h) to count budget 0 to
      in \<lparr> pg_messages = wire users timestamps (take (to - from) (drop from (h_records h))),
           pg_start = (if from < length (h_records h) then r_id (h_records h ! from) else h_next h),
           pg_more = (0 < from), pg_kept = of_nat (length (h_records h)) \<rparr>)"

section \<open>The file\<close>

record msg_codec =
  ser_records :: "msg_record list \<Rightarrow> u8 list option"
  de_records :: "u8 list \<Rightarrow> msg_record list option"
  de_voice_records :: "u8 list \<Rightarrow> voice_record list option"

definition save :: "('v, 'r) chat_env \<Rightarrow> msg_codec \<Rightarrow> shared_keys \<Rightarrow> u8 list \<Rightarrow> history \<Rightarrow> fault + u8 list" where
  "save C codec keys seed h =
     rbind (unwrap_option (ser_records codec (h_records h))) (\<lambda>body.
       encrypt_packet C DEFAULT_GRID_WIDTH DEFAULT_GRID_HEIGHT (MAGIC @ body) keys (Some seed))"

definition strip_prefix :: "u8 list \<Rightarrow> u8 list \<Rightarrow> u8 list option" where
  "strip_prefix p xs = (if take (length p) xs = p then Some (drop (length p) xs) else None)"

text \<open>The records read, and whether a copy of an unreadable file is kept.\<close>

definition load_plain :: "msg_codec \<Rightarrow> u8 list \<Rightarrow> msg_record list \<times> bool" where
  "load_plain codec plaintext = (case strip_prefix MAGIC_V6 plaintext of
     Some body \<Rightarrow> (case de_voice_records codec body of
         Some ms \<Rightarrow> (map from_voice_record ms, False) | None \<Rightarrow> ([], True))
   | None \<Rightarrow> (case strip_prefix MAGIC plaintext of
         None \<Rightarrow> ([], True)
       | Some body \<Rightarrow> (case de_records codec body of Some ms \<Rightarrow> (ms, False) | None \<Rightarrow> ([], True))))"

definition load ::
  "('v, 'r) chat_env \<Rightarrow> msg_codec \<Rightarrow> shared_keys \<Rightarrow> u8 list option \<Rightarrow> fault + (msg_record list \<times> bool)" where
  "load C codec keys file = (case file of
     None \<Rightarrow> Inr ([], False)
   | Some bytes \<Rightarrow> rbind (decrypt_packet C DEFAULT_GRID_WIDTH DEFAULT_GRID_HEIGHT bytes keys) (\<lambda>plaintext.
       case plaintext of None \<Rightarrow> Inr ([], False) | Some p \<Rightarrow> Inr (load_plain codec p)))"

section \<open>Binary search\<close>

lemma search_correct:
  assumes "lo \<le> n" "n \<le> hi" "\<And>i. lo \<le> i \<Longrightarrow> i < n \<Longrightarrow> P (xs ! i)" "\<And>i. n \<le> i \<Longrightarrow> i < hi \<Longrightarrow> \<not> P (xs ! i)"
  shows "search P xs lo hi = n"
  using assms
proof (induction P xs lo hi rule: search.induct)
  case (1 P xs lo hi)
  show ?case
  proof (cases "hi \<le> lo")
    case False
    define mid where "mid = (lo + hi) div 2"
    have mid: "lo \<le> mid" "mid < hi" using False by (auto simp: mid_def)
    show ?thesis
    proof (cases "P (xs ! mid)")
      case True
      then have "mid + 1 \<le> n" using "1.prems"(4) [of mid] mid by (cases "n \<le> mid") auto
      then show ?thesis using "1.IH"(1) [OF False mid_def True] "1.prems" True False mid
        by (subst search.simps) (simp add: Let_def flip: mid_def)
    next
      case np: False
      then have "n \<le> mid" using "1.prems"(3) [of mid] mid by (cases "mid < n") auto
      then show ?thesis using "1.IH"(2) [OF False mid_def np] "1.prems" np False mid
        by (subst search.simps) (simp add: Let_def flip: mid_def)
    qed
  qed (use "1.prems" in \<open>simp add: search.simps\<close>)
qed

text \<open>On a list that is partitioned by the predicate, the partition point is the length of the first part.\<close>

lemma partition_point_takeWhile:
  assumes "sorted_wrt (\<lambda>x y. P y \<longrightarrow> P x) xs"
  shows "partition_point P xs = length (takeWhile P xs)"
proof -
  have "\<not> P (xs ! i)" if "length (takeWhile P xs) \<le> i" "i < length xs" for i
  proof -
    let ?n = "length (takeWhile P xs)"
    have "\<not> P (xs ! ?n)" using that nth_length_takeWhile [of P xs] by linarith
    then show ?thesis using that sorted_wrt_nth_less [OF assms, of ?n i] by (cases "?n = i") auto
  qed
  moreover have "P (xs ! i)" if "i < length (takeWhile P xs)" for i
    using that takeWhile_nth [of i P xs] set_takeWhileD nth_mem by metis
  ultimately show ?thesis unfolding partition_point_def
    by (intro search_correct) (auto simp: length_takeWhile_le)
qed

section \<open>The invariant\<close>

definition hist_inv :: "history \<Rightarrow> bool" where
  "hist_inv h \<longleftrightarrow> sorted_wrt (\<lambda>a b. r_id a < r_id b) (h_records h) \<and>
     (\<forall>m \<in> set (h_records h). r_id m < h_next h \<and> distinct (r_hearts m))"

text \<open>
  One call of the public functions. A history whose next id is the last of its type is left out: there the counter
  overflows.
\<close>

inductive hist_step :: "history \<Rightarrow> history \<Rightarrow> bool" where
  step_next: "h_next h + 1 \<noteq> 0 \<Longrightarrow> next_id h = (i, h') \<Longrightarrow> hist_step h h'"
| step_push: "h_next h + 1 \<noteq> 0 \<Longrightarrow> push limit users icon name content img clip ts rep h = (i, h', eff) \<Longrightarrow> hist_step h h'"
| step_delete: "delete_msg users icon i h = (r, h', eff) \<Longrightarrow> hist_step h h'"
| step_heart: "heart i name h = (r, h', eff) \<Longrightarrow> hist_step h h'"
| step_edit: "edit i name content h = (r, h', eff) \<Longrightarrow> hist_step h h'"
| step_pin: "pin limit i h = (r, h', eff) \<Longrightarrow> hist_step h h'"

lemma inc_less: "n + 1 \<noteq> 0 \<Longrightarrow> n < n + 1" for n :: u64
  by (simp add: word_less_nat_alt unatSuc add.commute)

lemma remove_nth_set: "set (remove_nth i xs) \<subseteq> set xs"
  by (auto simp: remove_nth_def dest: in_set_takeD in_set_dropD)

lemma remove_nth_sorted:
  assumes "sorted_wrt R xs"
  shows "sorted_wrt R (remove_nth i xs)"
proof (cases "i < length xs")
  case True
  have "sorted_wrt R (take i xs @ xs ! i # drop (Suc i) xs)" using assms id_take_nth_drop [OF True] by simp
  then show ?thesis by (auto simp: remove_nth_def sorted_wrt_append)
qed (use assms in \<open>simp add: remove_nth_def\<close>)

lemma remove_nth_distinct: "distinct xs \<Longrightarrow> distinct (remove_nth i xs)"
  by (auto simp: remove_nth_def dest: set_take_disj_set_drop_if_distinct [of _ i "Suc i"])

lemma toggle_heart_distinct: "distinct hs \<Longrightarrow> distinct (toggle_heart n hs)"
  by (auto simp: toggle_heart_def position_None remove_nth_distinct split: option.split)

lemma hist_inv_new: "hist_inv (history_new [])"
  by (simp add: hist_inv_def history_new_def)

lemma hist_inv_sub:
  assumes "hist_inv h" "sorted_wrt (\<lambda>a b. r_id a < r_id b) ms" "set ms \<subseteq> set (h_records h)"
  shows "hist_inv (h\<lparr> h_records := ms \<rparr>)"
  using assms by (auto simp: hist_inv_def)

lemma hist_inv_take:
  assumes "hist_inv h" "h_next h + 1 \<noteq> 0"
  shows "hist_inv (h\<lparr> h_next := h_next h + 1 \<rparr>)"
  using assms inc_less [OF assms(2)] by (auto simp: hist_inv_def intro: less_trans)

lemma hist_inv_update:
  assumes "hist_inv h" "index < length (h_records h)" "r_id (f (h_records h ! index)) = r_id (h_records h ! index)"
    "distinct (r_hearts (f (h_records h ! index)))"
  shows "hist_inv (update_record index f h)"
proof -
  have "sorted_wrt (\<lambda>a b. r_id a < r_id b) ((h_records h)[index := f (h_records h ! index)])"
    using assms(1,2,3) by (auto simp: hist_inv_def sorted_wrt_iff_nth_less nth_list_update split: if_splits)
  moreover have "r_id (f (h_records h ! index)) < h_next h" using assms by (simp add: hist_inv_def)
  ultimately show ?thesis using assms(1,4) set_update_subset_insert [of "h_records h" index "f (h_records h ! index)"]
    by (auto simp: hist_inv_def update_record_def)
qed

lemma hist_find_less: "hist_find h i = Some index \<Longrightarrow> index < length (h_records h)"
  by (auto simp: hist_find_def Let_def split: if_splits)

lemma hist_inv_push:
  assumes "hist_inv h" "h_next h + 1 \<noteq> 0" "push limit users icon name content img clip ts rep h = (i, h', eff)"
  shows "hist_inv h'"
proof -
  let ?m = "\<lparr> r_id = h_next h, r_username = name, r_text = content, r_image = img, r_timestamp = ts,
     r_reply = rep, r_hearts = [], r_edited = False, r_voice = clip, r_pinned = False \<rparr>"
  let ?h = "h\<lparr> h_next := h_next h + 1 \<rparr>"
  have app: "hist_inv (?h\<lparr> h_records := h_records h @ [?m] \<rparr>)"
    using assms(1) inc_less [OF assms(2)] by (auto simp: hist_inv_def sorted_wrt_append intro: less_trans)
  then have "sorted_wrt (\<lambda>a b. r_id a < r_id b) (h_records h @ [?m])" by (simp add: hist_inv_def)
  from sorted_wrt_drop [OF this]
  have "hist_inv (?h\<lparr> h_records := h_records h @ [?m], h_records := drop k (h_records h @ [?m]) \<rparr>)" for k
    by (intro hist_inv_sub [OF app]) (auto dest: in_set_dropD simp del: drop_append)
  then show ?thesis using assms(3) hist_inv_take [OF assms(1,2)]
    by (auto simp: push_def take_id_def Let_def simp del: drop_append split: if_splits)
qed

lemma hist_step_inv:
  assumes "hist_step h h'" "hist_inv h"
  shows "hist_inv h'"
  using assms(1)
proof (cases rule: hist_step.cases)
  case step_push
  then show ?thesis using hist_inv_push [OF assms(2)] by blast
next
  case step_delete
  then show ?thesis using assms(2) remove_nth_sorted
    by (auto simp: delete_msg_def Let_def split: option.splits intro!: hist_inv_sub)
      (auto simp: hist_inv_def dest: subsetD [OF remove_nth_set])
next
  case step_heart
  then show ?thesis using assms(2) toggle_heart_distinct
    by (auto simp: heart_def Let_def dest!: hist_find_less split: option.splits intro!: hist_inv_update) (auto simp: hist_inv_def)
next
  case step_edit
  then show ?thesis using assms(2)
    by (auto simp: edit_def Let_def dest!: hist_find_less split: option.splits if_splits intro!: hist_inv_update) (auto simp: hist_inv_def)
next
  case step_pin
  then show ?thesis using assms(2)
    by (auto simp: pin_def Let_def dest!: hist_find_less split: option.splits if_splits intro!: hist_inv_update) (auto simp: hist_inv_def)
qed (use assms(2) in \<open>auto simp: next_id_def take_id_def intro: hist_inv_take\<close>)

lemma hist_reachable_inv: "hist_step\<^sup>*\<^sup>* h h' \<Longrightarrow> hist_inv h \<Longrightarrow> hist_inv h'"
  by (induction rule: rtranclp_induct) (auto intro: hist_step_inv)

text \<open>Under it the binary search finds exactly the record with the id.\<close>

lemma hist_position_eq:
  assumes "hist_inv h"
  shows "hist_position h i = length (takeWhile (\<lambda>m. r_id m < i) (h_records h))"
  unfolding hist_position_def using assms
  by (intro partition_point_takeWhile) (auto simp: hist_inv_def elim!: sorted_wrt_mono_rel [rotated])

lemma hist_position_nth:
  assumes "hist_inv h" "k < length (h_records h)"
  shows "hist_position h (r_id (h_records h ! k)) = k"
proof -
  have srt: "sorted_wrt (\<lambda>a b. r_id a < r_id b) (h_records h)" using assms(1) by (simp add: hist_inv_def)
  have "search (\<lambda>m. r_id m < r_id (h_records h ! k)) (h_records h) 0 (length (h_records h)) = k"
    using assms(2) sorted_wrt_nth_less [OF srt]
    by (intro search_correct) (auto, metis leD le_neq_implies_less less_asym order_less_irrefl)
  then show ?thesis by (simp add: hist_position_def partition_point_def)
qed

lemma hist_find_iff:
  assumes "hist_inv h"
  shows "hist_find h i = Some k \<longleftrightarrow> k < length (h_records h) \<and> r_id (h_records h ! k) = i"
  using hist_position_nth [OF assms, of k] by (auto simp: hist_find_def Let_def)

section \<open>Pages\<close>

lemma wire_loop_eq:
  assumes "\<forall>u c. looked_up u = Some c \<longrightarrow> c = colors u"
  shows "wire_loop colors timestamps looked_up ms = map (\<lambda>m. wire_one timestamps (colors (r_username m)) m) ms"
  using assms by (induction ms arbitrary: looked_up) (auto simp: Let_def split: option.split)

text \<open>The cache changes nothing: each record is converted with its sender's colours.\<close>

lemma wire_map: "wire users timestamps ms = map (\<lambda>m. wire_one timestamps (user_colors users (r_username m)) m) ms"
  by (simp add: wire_def wire_loop_eq)

lemma page_from_le: "page_from ms to count budget sz from \<le> from"
  by (induction "from" arbitrary: sz) (auto simp: Let_def intro: le_SucI)

lemma page_from_less: "0 < to \<Longrightarrow> 0 < count \<Longrightarrow> page_from ms to count budget 0 to < to"
  using page_from_le [of ms to count budget _ "to - 1"] by (cases to) (auto simp: Let_def less_Suc_eq_le)

lemma page_from_count:
  assumes "from \<le> to" "to - from \<le> count"
  shows "to - page_from ms to count budget sz from \<le> count"
  using assms by (induction "from" arbitrary: sz) (auto simp: Let_def)

lemma page_from_budget:
  assumes "from \<le> to" "to \<le> length ms" "from = to \<or> to - from = 1 \<or> sz \<le> budget"
    "sz = sum_list (map record_size (take (to - from) (drop from ms)))"
    and "k = page_from ms to count budget sz from"
  shows "k = to \<or> to - k = 1 \<or> sum_list (map record_size (take (to - k) (drop k ms))) \<le> budget"
  using assms
proof (induction "from" arbitrary: sz)
  case (Suc f)
  let ?sz = "sz + record_size (ms ! f)"
  have sl: "take (to - f) (drop f ms) = ms ! f # take (to - Suc f) (drop (Suc f) ms)"
    using Suc.prems(1,2) by (metis Cons_nth_drop_Suc Suc_diff_Suc Suc_le_lessD less_le_trans take_Suc_Cons)
  have sz: "?sz = sum_list (map record_size (take (to - f) (drop f ms)))" using Suc.prems(4) by (simp add: sl)
  show ?case
  proof (cases "to - Suc f < count \<and> \<not> (budget < ?sz \<and> Suc f \<noteq> to)")
    case True
    have "f = to \<or> to - f = 1 \<or> ?sz \<le> budget" using True Suc.prems(1) by auto
    then show ?thesis using Suc.IH [of ?sz] Suc.prems(1,2,5) sz True by (auto simp: Let_def)
  next
    case False
    then have "k = Suc f" using Suc.prems(5) by (auto simp: Let_def split: if_splits)
    then show ?thesis using Suc.prems(3,4) by auto
  qed
qed auto

text \<open>Paging back until nothing is left; \<open>None\<close> when the fuel runs out first.\<close>

fun all_pages :: "document \<Rightarrow> bool \<Rightarrow> nat \<Rightarrow> nat \<Rightarrow> history \<Rightarrow> nat \<Rightarrow> u64 option \<Rightarrow> stored_message list option" where
  "all_pages users timestamps count budget h 0 before = None"
| "all_pages users timestamps count budget h (Suc fuel) before =
     (let p = page users timestamps before count budget h in
      if pg_more p
      then map_option (\<lambda>older. older @ pg_messages p) (all_pages users timestamps count budget h fuel (Some (pg_start p)))
      else Some (pg_messages p))"

lemma all_pages_prefix:
  assumes "hist_inv h" "0 < count" "n < fuel" "n \<le> length (h_records h)"
    and "n = (case before of None \<Rightarrow> length (h_records h) | Some i \<Rightarrow> hist_position h i)"
  shows "all_pages users timestamps count budget h fuel before = Some (wire users timestamps (take n (h_records h)))"
  using assms(3-5)
proof (induction fuel arbitrary: n before)
  case (Suc fuel)
  define k where "k = page_from (h_records h) n count budget 0 n"
  have kn: "k \<le> n" by (simp add: k_def page_from_le)
  have p: "page users timestamps before count budget h = \<lparr> pg_messages = wire users timestamps (take (n - k) (drop k (h_records h))),
      pg_start = (if k < length (h_records h) then r_id (h_records h ! k) else h_next h),
      pg_more = (0 < k), pg_kept = of_nat (length (h_records h)) \<rparr>"
    using Suc.prems(3) by (simp add: page_def k_def Let_def)
  have sl: "take n (h_records h) = take k (h_records h) @ take (n - k) (drop k (h_records h))"
    using kn by (metis le_add_diff_inverse take_add)
  show ?case
  proof (cases "k = 0")
    case False
    then have "0 < n" using kn by simp
    then have lt: "k < n" using page_from_less assms(2) by (simp add: k_def)
    then have "k < length (h_records h)" using Suc.prems(2) by simp
    then have "all_pages users timestamps count budget h fuel (Some (r_id (h_records h ! k))) =
        Some (wire users timestamps (take k (h_records h)))"
      using Suc.IH [of k "Some (r_id (h_records h ! k))"] lt Suc.prems(1) hist_position_nth [OF assms(1)] by simp
    then show ?thesis using False p \<open>k < length (h_records h)\<close> sl by (simp add: Let_def wire_map)
  qed (use p in \<open>simp add: Let_def\<close>)
qed simp

section \<open>Files\<close>

lemma remove_images_set: "RemoveImage x \<in> set (remove_images xs) \<longleftrightarrow> x \<in> set xs"
  by (auto simp: remove_images_def)

lemma orphans_iff:
  "x \<in> set (orphans users icon h dropped) \<longleftrightarrow> x \<in> set dropped \<and> (\<forall>m \<in> set (h_records h). stored_file m \<noteq> Some x) \<and>
     \<not> names_avatar users x \<and> server_icon icon \<noteq> Some x"
  by (auto simp: orphans_def list_ex_iff)

text \<open>A file nothing names any more.\<close>

definition unnamed :: "document \<Rightarrow> ustr option \<Rightarrow> history \<Rightarrow> u8 list \<Rightarrow> bool" where
  "unnamed users icon h x \<longleftrightarrow> (\<forall>m \<in> set (h_records h). stored_file m \<noteq> Some x) \<and> \<not> names_avatar users x \<and>
     server_icon icon \<noteq> Some x"

definition files_of :: "msg_record list \<Rightarrow> u8 list set" where
  "files_of ms = {x. \<exists>m \<in> set ms. stored_file m = Some x}"

lemma files_of_filter: "x \<in> set (List.map_filter stored_file ms) \<longleftrightarrow> x \<in> files_of ms"
  by (auto simp: files_of_def map_filter_Some)

lemma push_files:
  assumes "push limit users icon name content img clip ts rep h = (i, h', eff)"
  shows "RemoveImage x \<in> set eff \<longleftrightarrow> x \<in> files_of (h_records h) \<and> unnamed users icon h' x"
proof (cases "limit = 0")
  case True
  then have "eff = []" "h_records h' = h_records h" using assms by (auto simp: push_def take_id_def)
  then show ?thesis by (auto simp: files_of_def unnamed_def)
next
  case False
  let ?m = "\<lparr> r_id = h_next h, r_username = name, r_text = content, r_image = img, r_timestamp = ts,
     r_reply = rep, r_hearts = [], r_edited = False, r_voice = clip, r_pinned = False \<rparr>"
  define ms where "ms = h_records h @ [?m]"
  define k where "k = length ms - limit"
  have r: "h_records h' = drop k ms" "eff = SaveHistory (drop k ms) # remove_images (orphans users icon h' (List.map_filter stored_file (take k ms)))"
    using assms False by (auto simp: push_def take_id_def Let_def ms_def k_def simp del: drop_append take_append)
  have k: "k \<le> length (h_records h)" using False by (simp add: k_def ms_def)
  have "take k ms = take k (h_records h)" "drop k ms = drop k (h_records h) @ [?m]" using k by (simp_all add: ms_def)
  moreover have "set (h_records h) = set (take k (h_records h)) \<union> set (drop k (h_records h))"
    by (metis append_take_drop_id set_append)
  ultimately show ?thesis using r
    by (auto simp: remove_images_set orphans_iff files_of_filter files_of_def unnamed_def)
qed

lemma delete_files:
  assumes "delete_msg users icon i h = (r, h', eff)"
  shows "RemoveImage x \<in> set eff \<longleftrightarrow> x \<in> files_of (h_records h) \<and> unnamed users icon h' x"
proof (cases "hist_find h i")
  case None
  then show ?thesis using assms by (auto simp: delete_msg_def files_of_def unnamed_def)
next
  case (Some k)
  have r: "h_records h' = remove_nth k (h_records h)"
    "eff = SaveHistory (h_records h') # remove_images (orphans users icon h' (List.map_filter stored_file [h_records h ! k]))"
    using assms Some by (auto simp: delete_msg_def Let_def)
  have "set (h_records h) = insert (h_records h ! k) (set (remove_nth k (h_records h)))"
    using id_take_nth_drop [OF hist_find_less [OF Some]] unfolding remove_nth_def
    by (metis insert_is_Un list.simps(15) set_append Un_insert_right)
  moreover have "x \<in> set (List.map_filter stored_file [m]) \<longleftrightarrow> stored_file m = Some x" for m
    by (simp add: map_filter_Some del: map_filter_simps)
  ultimately show ?thesis using r(1) unfolding r(2)
    by (auto simp: remove_images_set orphans_iff files_of_def unnamed_def simp del: map_filter_simps)
qed

section \<open>Properties\<close>

definition sample :: msg_record where
  "sample = \<lparr> r_id = 0, r_username = ustr ''ann'', r_text = ustr ''hi'', r_image = None, r_timestamp = None, r_reply = None,
     r_hearts = [], r_edited = False, r_voice = None, r_pinned = False \<rparr>"

lemma sample_simps:
  "r_id sample = 0" "r_username sample = ustr ''ann''" "stored_file sample = None" "r_pinned sample = False"
  "r_hearts sample = []"
  by (simp_all add: sample_def stored_file_def)

lemma sample_push:
  "store 5 [] None (ustr ''ann'') (ustr ''hi'') None None (history_new []) =
     (0, \<lparr> h_next = 1, h_records = [sample] \<rparr>, [SaveHistory [sample]])"
  by (simp add: store_def push_def take_id_def history_new_def sample_def remove_images_def orphans_def
    List.map_filter_simps)

lemma sample_step: "hist_step (history_new []) \<lparr> h_next = 1, h_records = [sample] \<rparr>"
  using hist_step.step_push [OF _ sample_push [unfolded store_def]] by (simp add: history_new_def)



text \<open>
  C34 (paging_complete). A client that scrolls back page by page sees the whole history, oldest first, every record
  exactly once and nothing else, for every page size of at least one and every byte budget; one request more
  than there are records is always enough.
\<close>

theorem paging_complete:
  assumes "hist_inv h" and "0 < count"
  shows "all_pages users timestamps count budget h (Suc (length (h_records h))) None =
    Some (map (\<lambda>m. wire_one timestamps (user_colors users (r_username m)) m) (h_records h))"
  using all_pages_prefix [OF assms, of "length (h_records h)" "Suc (length (h_records h))" None users timestamps budget]
  by (simp add: wire_map)

theorem paging_complete_witness:
  "all_pages [] True 1 0 \<lparr> h_next = 1, h_records = [sample] \<rparr> 2 None =
     Some [wire_one True (user_colors [] (ustr ''ann'')) sample]"
  using paging_complete [of "\<lparr> h_next = 1, h_records = [sample] \<rparr>" 1 "[]" True 0]
  by (simp add: hist_inv_def sample_def numeral_2_eq_2)

text \<open>
  A page never has more than the asked number of messages, moves the cursor whenever something
  older exists, and stays within its byte budget unless it is the single message that alone is over it.
\<close>

theorem page_bounds:
  assumes "hist_inv h" and "0 < count"
  shows "case page users timestamps before count budget h of p \<Rightarrow>
    length (pg_messages p) \<le> count \<and> (pg_messages p = [] \<longrightarrow> \<not> pg_more p) \<and>
    (\<exists>k n. n \<le> length (h_records h) \<and> pg_messages p = wire users timestamps (take (n - k) (drop k (h_records h))) \<and>
      (length (pg_messages p) \<le> 1 \<or> sum_list (map record_size (take (n - k) (drop k (h_records h)))) \<le> budget))"
proof -
  define n where "n = (case before of None \<Rightarrow> length (h_records h) | Some i \<Rightarrow> hist_position h i)"
  define k where "k = page_from (h_records h) n count budget 0 n"
  have n: "n \<le> length (h_records h)" by (auto simp: n_def hist_position_eq [OF assms(1)] length_takeWhile_le split: option.split)
  have kn: "k \<le> n" by (simp add: k_def page_from_le)
  have p: "pg_messages (page users timestamps before count budget h) = wire users timestamps (take (n - k) (drop k (h_records h)))"
    "pg_more (page users timestamps before count budget h) = (0 < k)"
    by (simp_all add: page_def n_def k_def Let_def)
  have len: "length (wire users timestamps (take (n - k) (drop k (h_records h)))) = n - k" using n kn by (simp add: wire_map)
  have "n - k \<le> count" using page_from_count [of n n count "h_records h" budget 0] by (simp add: k_def)
  moreover have "k = 0 \<or> k < n" using page_from_less [of n count "h_records h" budget] assms(2) kn
    by (cases "n = 0") (auto simp: k_def)
  moreover have "n - k \<le> 1 \<or> sum_list (map record_size (take (n - k) (drop k (h_records h)))) \<le> budget"
    using page_from_budget [of n n "h_records h" 0 budget k count] n k_def by auto
  ultimately show ?thesis unfolding p len using len n by (auto simp del: length_0_conv simp flip: length_0_conv simp: p)
qed

theorem page_bounds_witness:
  "length (pg_messages (page [] True None 1 0 \<lparr> h_next = 1, h_records = [sample] \<rparr>)) \<le> 1"
  using page_bounds [of "\<lparr> h_next = 1, h_records = [sample] \<rparr>" 1 "[]" True None 0]
  by (simp add: hist_inv_def sample_def)

text \<open>
  Storing and deleting messages deletes exactly the files that lost their last user: a
  file goes if and only if a record named it before and now no record, no avatar and not the server icon does.
\<close>

theorem stored_files_cleaned:
  "(push limit users icon name content img clip ts rep h = (j, h', eff) \<longrightarrow>
      (\<forall>x. RemoveImage x \<in> set eff \<longleftrightarrow> x \<in> files_of (h_records h) \<and> unnamed users icon h' x)) \<and>
   (delete_msg users icon i h = (r, h', eff) \<longrightarrow>
      (\<forall>x. RemoveImage x \<in> set eff \<longleftrightarrow> x \<in> files_of (h_records h) \<and> unnamed users icon h' x))"
  by (intro conjI impI allI) (erule push_files, erule delete_files)

theorem stored_files_cleaned_witness:
  "\<forall>x. RemoveImage x \<in> set [SaveHistory [sample]] \<longleftrightarrow>
     x \<in> files_of (h_records (history_new [])) \<and> unnamed [] None \<lparr> h_next = 1, h_records = [sample] \<rparr> x"
  using conjunct1 [OF stored_files_cleaned [of 5 "[]" None "ustr ''ann''" "ustr ''hi''" None None None None "history_new []" 0
      "\<lparr> h_next = 1, h_records = [sample] \<rparr>" "[SaveHistory [sample]]"]] sample_push [unfolded store_def]
  by blast

text \<open>
  A message is reworded exactly when it is kept, was written by the one who asks and is a
  text message; then its text changes and it is marked, and nothing else of it or of any other record does. A refused
  edit changes nothing and does not rewrite the file.
\<close>

theorem edit_only_own_text:
  assumes "hist_inv h"
  shows "case edit i name content h of (r, h', eff) \<Rightarrow>
    (r \<longleftrightarrow> (\<exists>m \<in> set (h_records h). r_id m = i \<and> r_username m = name \<and> stored_file m = None)) \<and>
    h_next h' = h_next h \<and>
    h_records h' = (if r then map (\<lambda>m. if r_id m = i then m\<lparr> r_text := content, r_edited := True \<rparr> else m) (h_records h)
      else h_records h) \<and>
    eff = (if r then [SaveHistory (h_records h')] else [])"
proof (cases "hist_find h i")
  case None
  then have "\<forall>m \<in> set (h_records h). r_id m \<noteq> i" using hist_find_iff [OF assms] by (metis in_set_conv_nth option.distinct(1))
  then show ?thesis using None by (simp add: edit_def)
next
  case (Some k)
  let ?ms = "h_records h"
  have k: "k < length ?ms" "r_id (?ms ! k) = i" using Some hist_find_iff [OF assms] by auto
  have uniq: "r_id (?ms ! j) = i \<longleftrightarrow> j = k" if "j < length ?ms" for j
    using that Some hist_find_iff [OF assms, of i j] by auto
  have "(\<exists>m \<in> set ?ms. r_id m = i \<and> r_username m = name \<and> stored_file m = None) \<longleftrightarrow>
      r_username (?ms ! k) = name \<and> stored_file (?ms ! k) = None"
    using uniq k by (metis in_set_conv_nth)
  moreover have "?ms[k := f (?ms ! k)] = map (\<lambda>m. if r_id m = i then f m else m) ?ms" for f
    using uniq k by (intro nth_equalityI) (auto simp: nth_list_update)
  ultimately show ?thesis using Some by (auto simp: edit_def Let_def update_record_def)
qed

theorem edit_only_own_text_witness:
  "fst (edit 0 (ustr ''ann'') [] \<lparr> h_next = 1, h_records = [sample] \<rparr>) \<and>
   \<not> fst (edit 0 (ustr ''bob'') [] \<lparr> h_next = 1, h_records = [sample] \<rparr>)"
proof -
  have inv: "hist_inv \<lparr> h_next = 1, h_records = [sample] \<rparr>" by (simp add: hist_inv_def sample_def)
  show ?thesis
    using edit_only_own_text [OF inv, of 0 "ustr ''ann''" "[]"] edit_only_own_text [OF inv, of 0 "ustr ''bob''" "[]"]
    by (simp add: sample_simps ustr_def split: prod.splits)
qed

text \<open>
  Pinning keeps the number of pins within the limit, or lets it fall when the limit was lowered
  below it: a pin is only set while fewer than the limit are, unpinning always works, and the answer is the new state.
\<close>

theorem pin_limit:
  assumes "hist_inv h" and "pin limit i h = (r, h', eff)"
  shows "length (filter r_pinned (h_records h')) \<le> max limit (length (filter r_pinned (h_records h))) \<and>
    (r = Some True \<longrightarrow> length (filter r_pinned (h_records h')) = Suc (length (filter r_pinned (h_records h))) \<and>
       length (filter r_pinned (h_records h')) \<le> limit) \<and>
    (r = Some False \<longrightarrow> Suc (length (filter r_pinned (h_records h'))) = length (filter r_pinned (h_records h))) \<and>
    (r = None \<longrightarrow> h' = h \<and> eff = [])"
proof (cases "hist_find h i")
  case None
  then show ?thesis using assms(2) by (simp add: pin_def)
next
  case (Some k)
  let ?ms = "h_records h"
  have k: "k < length ?ms" by (rule hist_find_less [OF Some])
  have split: "?ms = take k ?ms @ ?ms ! k # drop (Suc k) ?ms" by (rule id_take_nth_drop [OF k])
  have upd: "?ms[k := m] = take k ?ms @ m # drop (Suc k) ?ms" for m using k by (rule upd_conv_take_nth_drop)
  have cnt: "length (filter r_pinned ?ms) = length (filter r_pinned (take k ?ms)) +
      (if r_pinned (?ms ! k) then 1 else 0) + length (filter r_pinned (drop (Suc k) ?ms))"
    by (subst split) simp
  show ?thesis using assms(2) Some cnt
    by (auto simp: pin_def Let_def update_record_def upd split: if_splits)
qed

theorem pin_limit_witness:
  "length (filter r_pinned (h_records (fst (snd (pin 0 0 \<lparr> h_next = 1, h_records = [sample] \<rparr>))))) = 0"
proof -
  let ?h = "\<lparr> h_next = 1, h_records = [sample] \<rparr>"
  obtain r h' eff where p: "pin 0 0 ?h = (r, h', eff)" by (cases "pin 0 0 ?h") auto
  have "hist_inv ?h" by (simp add: hist_inv_def sample_def)
  from pin_limit [OF this p] show ?thesis by (simp add: p sample_simps)
qed

text \<open>
  What the history relies on of \<open>wincode\<close>: decoding what was encoded gives the records back, and bytes after
  the encoding are not looked at (a decrypted packet is padded with zeros).
\<close>

definition codec_ok :: "msg_codec \<Rightarrow> bool" where
  "codec_ok codec \<longleftrightarrow> (\<forall>ms body k. ser_records codec ms = Some body \<longrightarrow> de_records codec (body @ replicate k 0) = Some ms)"

lemma load_plain_magic:
  assumes "codec_ok codec" "ser_records codec ms = Some body"
  shows "load_plain codec (MAGIC @ body @ replicate k 0) = (ms, False)"
proof -
  have "strip_prefix MAGIC_V6 (MAGIC @ body @ replicate k 0) = None"
    by (simp add: strip_prefix_def MAGIC_def MAGIC_V6_def ascii_bytes_def)
  moreover have "strip_prefix MAGIC (MAGIC @ body @ replicate k 0) = Some (body @ replicate k 0)"
    by (simp add: strip_prefix_def)
  ultimately show ?thesis using assms by (simp add: load_plain_def codec_ok_def)
qed


definition one_codec :: msg_codec where
  "one_codec = \<lparr> ser_records = (\<lambda>ms. if ms = [sample] then Some [1] else None),
     de_records = (\<lambda>bs. if bs \<noteq> [] \<and> hd bs = 1 then Some [sample] else None), de_voice_records = (\<lambda>_. None) \<rparr>"


text \<open>
  The id sequence does not survive a restart, as \<open>History::new\<close> says it does: there are calls
  after which the id of a message that was stored and deleted is given to the next message after the file is
  loaded again, so a reply to the deleted message then points at another one.
\<close>

theorem restart_reuses_ids:
  "\<exists>h i h1 e1 h2 e2. hist_step\<^sup>*\<^sup>* (history_new []) h \<and> store 5 [] None (ustr ''ann'') (ustr ''hi'') None None h = (i, h1, e1) \<and>
     delete_msg [] None i h1 = (True, h2, e2) \<and> i < h_next h2 \<and> fst (next_id (history_new (h_records h2))) = i"
proof -
  have find: "hist_find \<lparr> h_next = 1, h_records = [sample] \<rparr> 0 = Some 0"
    by (subst hist_find_iff) (simp_all add: hist_inv_def sample_def)
  have "delete_msg [] None 0 \<lparr> h_next = 1, h_records = [sample] \<rparr> = (True, \<lparr> h_next = 1, h_records = [] \<rparr>, [SaveHistory []])"
    by (simp add: delete_msg_def find remove_nth_def remove_images_def orphans_def sample_simps List.map_filter_simps)
  then show ?thesis using sample_push
    by (intro exI [of _ "history_new []"] exI conjI) (auto simp: next_id_def take_id_def history_new_def)
qed

end
