(* ===== verification/Server.thy ===== *)
theory Server
  imports Connection Messages
begin

text \<open>
  The registry of \<open>chat/src/network/server/mod.rs\<close>: every connection by its address, the tokens of auxiliary
  sockets, the shared files and the operations that join, move, notify and remove clients. The concurrent maps
  (\<open>DashMap\<close>) are association lists, in the order in which they are iterated; what leaves the server, packets
  written, tasks aborted and directories deleted, is the list of effects of its state. A broadcast writes its copies in the
  order it collected the recipients; the source spawns a task for each, so their order between recipients is not
  fixed. \<open>None\<close> is the panic of an \<open>unwrap\<close>.
\<close>

section \<open>State\<close>

record server_config =
  voice_chat_enabled :: bool
  show_offline_users :: bool
  persistent_messages :: bool
  message_timestamps :: bool
  history_page :: nat
  max_history_size :: nat
  min_password_length :: nat
  min_message_delay :: nat
  max_packet_burst :: f32
  communication_time :: u64
  max_auth_time :: u64

record voice_connection =
  vc_addr :: sock_addr
  vc_id :: nat
  vc_seq :: u64
  vc_server_seq :: u64
  vc_packet_accumulator :: u64
  vc_credit :: f32
  vc_refill :: instant
  vc_throttled :: bool

datatype (dead 'o, dead 'r) effect =
    Sent handle "('o, 'r) packet_code" u64 "shared_keys option"
  | Aborted task
  | RemovedDir ustr

record ('o, 'r) server =
  sv_conns :: "(sock_addr \<times> connection) list"
  sv_transfers :: transfers
  sv_next_handle :: handle
  sv_peer :: "handle \<Rightarrow> sock_addr option"
    \<comment> \<open>the peer address of a socket\<close>
  sv_files :: "(ustr \<times> available_file list) list"
  sv_uploads :: "(u64 \<times> nat) list"
    \<comment> \<open>the uploads in progress with their \<open>client_id\<close>\<close>
  sv_pending :: "(u8 list \<times> nat \<times> connection_type \<times> instant) list"
  sv_voice :: "(nat \<times> voice_connection option \<times> ustr \<times> u8 list) list"
  sv_users :: document
  sv_bans :: document
  sv_history :: history
  sv_icon :: "ustr option"
  sv_effects :: "('o, 'r) effect list"

definition IMAGE_REQUEST_DELAY :: nat where "IMAGE_REQUEST_DELAY = 500000000"
definition TYPING_INTERVAL :: nat where "TYPING_INTERVAL = 3000000000"

definition emit :: "('o, 'r) effect \<Rightarrow> ('o, 'r) server \<Rightarrow> ('o, 'r) server" where
  "emit e s = s\<lparr> sv_effects := sv_effects s @ [e] \<rparr>"

definition alter_conn :: "sock_addr \<Rightarrow> (connection \<Rightarrow> connection) \<Rightarrow> ('o, 'r) server \<Rightarrow> ('o, 'r) server" where
  "alter_conn addr f s = s\<lparr> sv_conns := map (\<lambda>(a, c). (a, if a = addr then f c else c)) (sv_conns s) \<rparr>"

section \<open>Sending\<close>

text \<open>
  \<open>network::send\<close> on the server: the sequence number comes from the entry of the peer, if it has logged in, and is
  0 otherwise.
\<close>

fun number :: "u64 \<Rightarrow> connection \<Rightarrow> connection" where
  "number n (Authenticated c) = Authenticated (c\<lparr> a_server_seq := n \<rparr>)"
| "number n (NonAuthenticated c) = NonAuthenticated c"

definition send :: "handle \<Rightarrow> ('o, 'r) packet_code \<Rightarrow> shared_keys option \<Rightarrow> ('o, 'r) server \<Rightarrow> ('o, 'r) server" where
  "send h code ks s = (case sv_peer s h of
     None \<Rightarrow> emit (Sent h code 0 ks) s
   | Some addr \<Rightarrow> (case map_of (sv_conns s) addr of
       Some (Authenticated c) \<Rightarrow> let n = a_server_seq c + 1 in
         emit (Sent h code n ks) (alter_conn addr (number n) s)
     | _ \<Rightarrow> emit (Sent h code 0 ks) s))"

definition send_each :: "connection list \<Rightarrow> ('o, 'r) packet_code \<Rightarrow> ('o, 'r) server \<Rightarrow> ('o, 'r) server" where
  "send_each entries code s = fold (\<lambda>c. send (write_stream c) code (keys c)) entries s"

definition send_to_all_but :: "('o, 'r) packet_code \<Rightarrow> nat option \<Rightarrow> ('o, 'r) server \<Rightarrow> ('o, 'r) server" where
  "send_to_all_but code except s =
     send_each (filter (\<lambda>c. case conn_id c of Some i \<Rightarrow> except \<noteq> Some i | None \<Rightarrow> False) (map snd (sv_conns s))) code s"

definition send_to_all :: "('o, 'r) packet_code \<Rightarrow> ('o, 'r) server \<Rightarrow> ('o, 'r) server" where
  "send_to_all code s = send_to_all_but code None s"

definition send_to_others :: "('o, 'r) packet_code \<Rightarrow> ustr option \<Rightarrow> nat \<Rightarrow> ('o, 'r) server \<Rightarrow> ('o, 'r) server" where
  "send_to_others code ch except s =
     send_each (filter (\<lambda>c. case conn_id c of Some i \<Rightarrow> conn_channel c = ch \<and> i \<noteq> except | None \<Rightarrow> False)
       (map snd (sv_conns s))) code s"

text \<open>\<open>find\<close> by session id.\<close>

definition find_id :: "nat \<Rightarrow> ('o, 'r) server \<Rightarrow> (sock_addr \<times> connection) option" where
  "find_id i s = find (\<lambda>(a, c). conn_id c = Some i) (sv_conns s)"

definition notify :: "nat \<Rightarrow> ('o, 'r) packet_code \<Rightarrow> ('o, 'r) server \<Rightarrow> ('o, 'r) server" where
  "notify i code s = (case find_id i s of
     None \<Rightarrow> s
   | Some (_, c) \<Rightarrow> send (write_stream c) code (keys c) s)"

definition icon_changed :: "nat \<Rightarrow> ('o, 'r) server \<Rightarrow> ('o, 'r) server" where
  "icon_changed i s = (let hash = server_icon (sv_icon s) in
     notify i (Server_Code (ServerIcon hash True)) (send_to_all_but (Server_Code (ServerIcon hash False)) (Some i) s))"

section \<open>Lookups\<close>

text \<open>\<open>parse::<usize>\<close> of a text of ASCII digits, with an optional plus sign.\<close>

fun parse_digits :: "nat \<Rightarrow> ustr \<Rightarrow> nat option" where
  "parse_digits acc [] = Some acc"
| "parse_digits acc (c # s) = (if 0x30 \<le> c \<and> c \<le> 0x39 \<and> acc * 10 + unat (c - 0x30) < 2 ^ 64
     then parse_digits (acc * 10 + unat (c - 0x30)) s else None)"

definition parse_usize :: "ustr \<Rightarrow> nat option" where
  "parse_usize s = (let d = (if s \<noteq> [] \<and> hd s = 0x2B then tl s else s) in if d = [] then None else parse_digits 0 d)"

definition resolve_user :: "ustr \<Rightarrow> ('o, 'r) server \<Rightarrow> ustr option" where
  "resolve_user target s = (if users_contains (sv_users s) target then Some target
     else Option.bind (parse_usize target) (\<lambda>i. Option.bind (find_id i s) (\<lambda>(_, c). username c)))"

definition session_of :: "ustr \<Rightarrow> ('o, 'r) server \<Rightarrow> sock_addr option" where
  "session_of name s = map_option fst (find (\<lambda>(a, c). conn_role c \<noteq> None \<and> username c = Some name) (sv_conns s))"

text \<open>\<open>char::is_control\<close>: the general category Cc.\<close>

definition is_control :: "u32 \<Rightarrow> bool" where
  "is_control c \<longleftrightarrow> c < 0x20 \<or> (0x7F \<le> c \<and> c \<le> 0x9F)"

definition clean :: "ustr \<Rightarrow> ustr" where
  "clean content = trim (filter (\<lambda>c. \<not> is_control c) content)"

definition validate_password :: "server_config \<Rightarrow> ustr \<Rightarrow> bool" where
  "validate_password cf pass \<longleftrightarrow> min_password_length cf \<le> str_len pass"

text \<open>Argon2 is a parameter: whether a password has a hash.\<close>

definition verify_password :: "(ustr \<Rightarrow> ustr \<Rightarrow> bool) \<Rightarrow> ustr \<Rightarrow> ustr \<Rightarrow> ('o, 'r) server \<Rightarrow> bool" where
  "verify_password compare name pass s = (case password (sv_users s) name of
     Some hashed \<Rightarrow> compare hashed pass
   | None \<Rightarrow> False)"

definition user_connected :: "ustr \<Rightarrow> ('o, 'r) server \<Rightarrow> bool" where
  "user_connected name s = list_ex (\<lambda>(a, c). username c = Some name) (sv_conns s)"

function first_unused :: "nat list \<Rightarrow> nat \<Rightarrow> nat" where
  "first_unused ids i = (if i \<in> set ids then first_unused ids (i + 1) else i)"
  by pat_completeness auto
termination
proof (relation "measure (\<lambda>(ids, i). card {j \<in> set ids. i \<le> j})")
  fix ids and i :: nat assume "i \<in> set ids"
  let ?above = "\<lambda>k. {j \<in> set ids. k \<le> j}"
  have "?above (i + 1) \<subseteq> ?above i" by (rule Collect_mono) simp
  moreover have "i \<in> ?above i" "i \<notin> ?above (i + 1)" using \<open>i \<in> set ids\<close> by simp_all
  ultimately have "?above (i + 1) \<subset> ?above i" by blast
  then have "card (?above (i + 1)) < card (?above i)" by (intro psubset_card_mono) simp_all
  then show "((ids, i + 1), ids, i) \<in> measure (\<lambda>(ids, i). card {j \<in> set ids. i \<le> j})" by simp
qed simp

declare first_unused.simps [simp del]

definition session_ids :: "('o, 'r) server \<Rightarrow> nat list" where
  "session_ids s = List.map_filter (\<lambda>(a, c). conn_id c) (sv_conns s)"

definition get_latest_id :: "('o, 'r) server \<Rightarrow> nat" where
  "get_latest_id s = first_unused (session_ids s) 0"

section \<open>Lists sent to one client\<close>

definition role_or_default :: "role option \<Rightarrow> role" where
  "role_or_default r = (case r of None \<Rightarrow> role_default | Some r \<Rightarrow> r)"

definition online_users :: "('o, 'r) server \<Rightarrow> online_user list" where
  "online_users s = List.map_filter (\<lambda>(a, c). case c of
       Authenticated x \<Rightarrow> Some \<lparr> on_username = a_username x,
         on_username_color = username_color (user_colors (sv_users s) (a_username x)), on_id = a_id x,
         on_channel = a_channel x, on_device = a_device x,
         on_role = role_or_default (user_role (sv_users s) (a_username x)) \<rparr>
     | NonAuthenticated _ \<Rightarrow> None) (sv_conns s)"

definition offline_users :: "('o, 'r) server \<Rightarrow> offline_user list" where
  "offline_users s = map (\<lambda>name. \<lparr> of_username = name,
       of_username_color = username_color (user_colors (sv_users s) name),
       of_role = role_or_default (user_role (sv_users s) name) \<rparr>)
     (filter (\<lambda>name. name \<notin> on_username ` set (online_users s)) (users_all (sv_users s)))"

definition send_list :: "server_config \<Rightarrow> handle \<Rightarrow> shared_keys \<Rightarrow> ('o, 'r) server \<Rightarrow> ('o, 'r) server" where
  "send_list cf h ks s = send h (Lobby_Code (List (online_users s)
     (if show_offline_users cf then Some (offline_users s) else None))) (Some ks) s"

definition send_bans :: "handle \<Rightarrow> shared_keys \<Rightarrow> ('o, 'r) server \<Rightarrow> ('o, 'r) server" where
  "send_bans h ks s = send h (Server_Code (ServerBans (ban_users (sv_bans s)) (ban_ips (sv_bans s)))) (Some ks) s"

definition send_history ::
  "server_config \<Rightarrow> handle \<Rightarrow> shared_keys \<Rightarrow> u64 option \<Rightarrow> ('o, 'r) server \<Rightarrow> ('o, 'r) server" where
  "send_history cf h ks before s =
     (if \<not> persistent_messages cf then s
      else let p = page (sv_users s) (message_timestamps cf) before (max (history_page cf) 1) (max_history_size cf) (sv_history s)
           in if before = None \<and> pg_messages p = [] then s
              else send h (Lobby_Code (History (pg_messages p) (pg_start p) (pg_more p) (pg_kept p) (before \<noteq> None))) (Some ks) s)"

definition send_voice_clients :: "handle \<Rightarrow> shared_keys \<Rightarrow> nat \<Rightarrow> ('o, 'r) server \<Rightarrow> ('o, 'r) server" where
  "send_voice_clients h ks i s = (case find_id i s of
     None \<Rightarrow> s
   | Some (_, sender) \<Rightarrow>
       let clients = List.map_filter (\<lambda>(a, c). case conn_id c of
             None \<Rightarrow> None
           | Some uid \<Rightarrow> if uid = i \<or> conn_channel c \<noteq> conn_channel sender \<or> map_of (sv_voice s) uid = None then None
               else map_option (\<lambda>name. (uid, name)) (username c)) (sv_conns s)
       in send h (Media_Code (VoiceClients clients)) (Some ks) s)"

section \<open>Joining and moving\<close>

text \<open>\<open>listen_client\<close> registers the socket before anything is received.\<close>

definition register_client ::
  "sock_addr \<Rightarrow> handle \<Rightarrow> task \<Rightarrow> u8 list \<Rightarrow> instant \<Rightarrow> ('o, 'r) server \<Rightarrow> ('o, 'r) server" where
  "register_client addr h t key now s = s\<lparr> sv_conns := AList.update addr (NonAuthenticated
     \<lparr> n_write_stream = h, n_task = t, n_peer_addr = addr, n_username = None, n_keys = None, n_obfuscation_key = key,
       n_last_activity = now, n_seq = 0, n_connect = now \<rparr>) (sv_conns s) \<rparr>"

fun with_keys :: "shared_keys \<Rightarrow> instant \<Rightarrow> connection \<Rightarrow> connection" where
  "with_keys ks now (NonAuthenticated c) =
     NonAuthenticated (c\<lparr> n_username := None, n_keys := Some ks, n_last_activity := now \<rparr>)"
| "with_keys ks now (Authenticated c) =
     Authenticated (c\<lparr> a_keys := ks, a_last_key_exchange := now, a_spam_violations := 0 \<rparr>)"

definition update_client_keys :: "sock_addr \<Rightarrow> shared_keys \<Rightarrow> instant \<Rightarrow> ('o, 'r) server \<Rightarrow> ('o, 'r) server" where
  "update_client_keys addr ks now s = alter_conn addr (with_keys ks now) s"

definition promoted ::
  "server_config \<Rightarrow> ustr \<Rightarrow> device option \<Rightarrow> role \<Rightarrow> nat \<Rightarrow> handle \<Rightarrow> instant \<Rightarrow> connection \<Rightarrow> connection option" where
  "promoted cf name dev r i h now c = map_option (\<lambda>ks. Authenticated
     \<lparr> a_write_stream = write_stream c, a_task = conn_task c, a_file_streams = h, a_screen_stream = None,
       a_peer_addr = peer_addr c, a_username = name, a_device = dev, a_role = r, a_id = i, a_keys = ks,
       a_attached_screen = None, a_last_activity = now - min_message_delay cf * 1000000,
       a_last_key_exchange = (case last_key_exchange c of Some t \<Rightarrow> t | None \<Rightarrow> now),
       a_last_image = now - IMAGE_REQUEST_DELAY, a_last_typing = now - TYPING_INTERVAL, a_last_pm = last_pm c,
       a_spam_violations = 0, a_credit = max_packet_burst cf, a_refill = now, a_throttles = 0, a_channel = None,
       a_seq = seq c, a_server_seq = 0, a_alive = True, a_muted = False \<rparr>) (keys c)"

definition authenticate_client ::
  "server_config \<Rightarrow> sock_addr \<Rightarrow> ustr \<Rightarrow> device option \<Rightarrow> role \<Rightarrow> nat \<Rightarrow> instant \<Rightarrow> ('o, 'r) server \<Rightarrow> ('o, 'r) server option" where
  "authenticate_client cf addr name dev r i now s =
     (let h = sv_next_handle s; files = AList.update name [] (sv_files s) in
      case map_of (sv_conns s) addr of
        None \<Rightarrow> Some (s\<lparr> sv_files := files \<rparr>)
      | Some c \<Rightarrow> map_option (\<lambda>c'. (alter_conn addr (\<lambda>_. c') s)\<lparr> sv_files := files,
            sv_next_handle := h + 1, sv_transfers := (sv_transfers s)(h := []) \<rparr>) (promoted cf name dev r i h now c))"

fun moved :: "ustr option \<Rightarrow> instant \<Rightarrow> connection \<Rightarrow> connection option" where
  "moved ch now (Authenticated c) = Some (Authenticated (c\<lparr> a_last_activity := now, a_channel := ch, a_alive := True \<rparr>))"
| "moved ch now (NonAuthenticated c) = None"

definition in_channel :: "ustr \<Rightarrow> ('o, 'r) server \<Rightarrow> connection list" where
  "in_channel ch s = filter (\<lambda>c. conn_channel c = Some ch) (map snd (sv_conns s))"

definition announce_move :: "ustr option \<Rightarrow> ustr option \<Rightarrow> ('o, 'r) server \<Rightarrow> ('o, 'r) server" where
  "announce_move old new s =
     (if old = new then s
      else let s = (case old of
                 Some ch \<Rightarrow> if in_channel ch s = [] then send_to_all (Lobby_Code (ChannelDestroyed ch)) s else s
               | None \<Rightarrow> s)
           in case new of
                Some ch \<Rightarrow> if length (in_channel ch s) = 1 then send_to_all (Lobby_Code (ChannelCreated ch)) s else s
              | None \<Rightarrow> s)"

definition update_client_channel :: "sock_addr \<Rightarrow> ustr option \<Rightarrow> instant \<Rightarrow> ('o, 'r) server \<Rightarrow> ('o, 'r) server option" where
  "update_client_channel addr ch now s = (case map_of (sv_conns s) addr of
     None \<Rightarrow> Some (announce_move None ch s)
   | Some c \<Rightarrow> map_option (\<lambda>c'. announce_move (conn_channel c) ch (alter_conn addr (\<lambda>_. c') s)) (moved ch now c))"

text \<open>The random token is an argument.\<close>

definition open_connection :: "u8 list \<Rightarrow> nat \<Rightarrow> connection_type \<Rightarrow> instant \<Rightarrow> ('o, 'r) server \<Rightarrow> ('o, 'r) server" where
  "open_connection token i kind now s = s\<lparr> sv_pending := AList.update token (i, kind, now) (sv_pending s) \<rparr>"

section \<open>Leaving\<close>

definition deattach :: "nat \<Rightarrow> ustr \<Rightarrow> ('o, 'r) server \<Rightarrow> ('o, 'r) server" where
  "deattach sharer name s =
     (let watching = (\<lambda>c. case attached_screen c of Some a \<Rightarrow> at_target_id a = sharer | None \<Rightarrow> False);
          to_notify = filter watching (map snd (sv_conns s));
          s = s\<lparr> sv_conns := map (\<lambda>(a, c). (a, if watching c then deattach_screen c else c)) (sv_conns s) \<rparr>
      in send_each to_notify (Media_Code (Deattach name)) s)"

definition close_transfers :: "connection \<Rightarrow> ('o, 'r) server \<Rightarrow> ('o, 'r) server" where
  "close_transfers c s = (case file_streams c of
     None \<Rightarrow> s
   | Some h \<Rightarrow> fold (\<lambda>uid s. case remove_file_stream uid c (sv_transfers s) of
       (ts, ab) \<Rightarrow> s\<lparr> sv_transfers := ts, sv_effects := sv_effects s @ map Aborted ab \<rparr>) (map fst (sv_transfers s h)) s)"

definition forget_pm :: "nat \<Rightarrow> ('o, 'r) server \<Rightarrow> ('o, 'r) server" where
  "forget_pm i s = s\<lparr> sv_conns := map (\<lambda>(a, c). (a, if last_pm c = Some i then unset_last_pm c else c)) (sv_conns s) \<rparr>"

definition leave_session :: "server_config \<Rightarrow> authenticated \<Rightarrow> ('o, 'r) server \<Rightarrow> ('o, 'r) server" where
  "leave_session cf c s =
     (let name = a_username c; i = a_id c;
          s = (case a_attached_screen c of Some a \<Rightarrow> notify (at_target_id a) (Media_Code (Deattached name)) s | None \<Rightarrow> s);
          s = (if voice_chat_enabled cf then s\<lparr> sv_voice := AList.delete i (sv_voice s) \<rparr> else s);
          s = emit (RemovedDir name) s;
          s = s\<lparr> sv_uploads := filter (\<lambda>(uid, client). client \<noteq> i) (sv_uploads s), sv_files := AList.delete name (sv_files s) \<rparr>;
          s = forget_pm i s
      in send_to_all (Session_Code (Leave name i (users_contains (sv_users s) name))) s)"

definition remove_connection :: "server_config \<Rightarrow> sock_addr \<Rightarrow> bool \<Rightarrow> ('o, 'r) server \<Rightarrow> ('o, 'r) server" where
  "remove_connection cf addr grace s = (case map_of (sv_conns s) addr of
     None \<Rightarrow> s
   | Some c \<Rightarrow>
       let s = s\<lparr> sv_conns := AList.delete addr (sv_conns s) \<rparr>;
           s = (if grace then send (write_stream c) (Session_Code Disconnect) (keys c) s else s);
           s = close_transfers c s;
           (c, screen, ab) = remove_screen_stream c;
           s = s\<lparr> sv_effects := sv_effects s @ map Aborted ab \<rparr>;
           s = (case screen of Some i \<Rightarrow> deattach i (the (username c)) s | None \<Rightarrow> s);
           s = (case c of Authenticated x \<Rightarrow> leave_session cf x s | NonAuthenticated _ \<Rightarrow> s)
       in emit (Aborted (conn_task c)) s)"

definition remove_each :: "server_config \<Rightarrow> bool \<Rightarrow> sock_addr list \<Rightarrow> ('o, 'r) server \<Rightarrow> ('o, 'r) server" where
  "remove_each cf grace addrs s = fold (\<lambda>a. remove_connection cf a grace) addrs s"

definition remove_connections :: "server_config \<Rightarrow> nat \<Rightarrow> bool \<Rightarrow> ('o, 'r) server \<Rightarrow> ('o, 'r) server" where
  "remove_connections cf ip grace s = remove_each cf grace (filter (\<lambda>a. fst a = ip) (map fst (sv_conns s))) s"

definition disconnect_all :: "server_config \<Rightarrow> ('o, 'r) server \<Rightarrow> ('o, 'r) server" where
  "disconnect_all cf s = remove_each cf True (map (\<lambda>(a, c). peer_addr c) (sv_conns s)) s"

definition disconnect_inactive :: "server_config \<Rightarrow> instant \<Rightarrow> ('o, 'r) server \<Rightarrow> ('o, 'r) server" where
  "disconnect_inactive cf now s = remove_each cf True
     (map (\<lambda>(a, c). peer_addr c) (filter (\<lambda>(a, c). is_inactive (communication_time cf) (max_auth_time cf) now c) (sv_conns s))) s"

text \<open>The keepalive round: the dead are collected on the way and removed at the end.\<close>

definition keepalive_one :: "sock_addr \<Rightarrow> ('o, 'r) server \<times> sock_addr list \<Rightarrow> ('o, 'r) server \<times> sock_addr list" where
  "keepalive_one addr st = (case st of (s, dead) \<Rightarrow> (case map_of (sv_conns s) addr of
     None \<Rightarrow> (s, dead)
   | Some c \<Rightarrow> if \<not> is_alive c then (s, dead @ [addr])
       else (send (write_stream c) (Session_Code KeepAlive) (keys c) (alter_conn addr (set_alive False) s), dead)))"

definition send_keepalive :: "server_config \<Rightarrow> ('o, 'r) server \<Rightarrow> ('o, 'r) server" where
  "send_keepalive cf s =
     (case fold keepalive_one (map fst (filter (\<lambda>(a, c). is_authenticated c) (sv_conns s))) (s, []) of
        (s, dead) \<Rightarrow> remove_each cf False dead s)"

section \<open>What sending leaves alone\<close>

text \<open>The state without the sequence numbers and the effects: sending does not change it.\<close>

definition unnumbered :: "connection \<Rightarrow> connection" where
  "unnumbered c = number 0 c"

definition quiet :: "('o, 'r) server \<Rightarrow> ('o, 'r) server" where
  "quiet s = s\<lparr> sv_conns := map (apsnd unnumbered) (sv_conns s), sv_effects := [] \<rparr>"

lemma unnumbered_number [simp]: "unnumbered (number n c) = unnumbered c"
  by (cases c) (simp_all add: unnumbered_def)

lemma unnumbered_idem [simp]: "unnumbered (unnumbered c) = unnumbered c"
  by (simp add: unnumbered_def unnumbered_number [unfolded unnumbered_def])

lemma unnumbered_view [simp]:
  "conn_id (unnumbered c) = conn_id c" "write_stream (unnumbered c) = write_stream c" "keys (unnumbered c) = keys c"
  "peer_addr (unnumbered c) = peer_addr c" "username (unnumbered c) = username c" "conn_channel (unnumbered c) = conn_channel c"
  "last_pm (unnumbered c) = last_pm c" "attached_screen (unnumbered c) = attached_screen c"
  "is_authenticated (unnumbered c) = is_authenticated c" "conn_task (unnumbered c) = conn_task c"
  "file_streams (unnumbered c) = file_streams c" "is_alive (unnumbered c) = is_alive c" "conn_role (unnumbered c) = conn_role c"
  by (cases c; simp add: unnumbered_def)+

lemma quiet_alter: "(\<And>c. unnumbered (f c) = unnumbered c) \<Longrightarrow> quiet (alter_conn addr f s) = quiet s"
  by (simp add: quiet_def alter_conn_def case_prod_unfold apsnd_def map_prod_def)

lemma quiet_emit [simp]: "quiet (emit e s) = quiet s"
  by (simp add: quiet_def emit_def)

lemma quiet_send [simp]: "quiet (send h code ks s) = quiet s"
  by (simp add: send_def Let_def quiet_alter split: option.split connection.split)

lemma quiet_send_each [simp]: "quiet (send_each cs code s) = quiet s"
  unfolding send_each_def by (induction cs arbitrary: s) auto

lemma quiet_broadcast [simp]:
  "quiet (send_to_all code s) = quiet s" "quiet (send_to_all_but code ex s) = quiet s"
  "quiet (send_to_others code ch i s) = quiet s" "quiet (notify i code s) = quiet s"
  by (simp_all add: send_to_all_def send_to_all_but_def send_to_others_def notify_def split: option.split)

lemma quiet_fields:
  assumes "quiet s = quiet t"
  shows "sv_transfers s = sv_transfers t" "sv_peer s = sv_peer t" "sv_files s = sv_files t" "sv_uploads s = sv_uploads t"
    "sv_voice s = sv_voice t" "sv_users s = sv_users t" "sv_next_handle s = sv_next_handle t" "sv_pending s = sv_pending t"
    "map (apsnd unnumbered) (sv_conns s) = map (apsnd unnumbered) (sv_conns t)"
  using arg_cong [OF assms, of sv_transfers] arg_cong [OF assms, of sv_peer] arg_cong [OF assms, of sv_files]
    arg_cong [OF assms, of sv_uploads] arg_cong [OF assms, of sv_voice] arg_cong [OF assms, of sv_users]
    arg_cong [OF assms, of sv_next_handle] arg_cong [OF assms, of sv_pending] arg_cong [OF assms, of sv_conns]
  by (simp_all add: quiet_def)

text \<open>A view of a connection that does not look at the sequence number is the same on both sides.\<close>

lemma quiet_map:
  assumes "quiet s = quiet t" "\<And>c. f (unnumbered c) = f c"
  shows "map (\<lambda>(a, c). (a, f c)) (sv_conns s) = map (\<lambda>(a, c). (a, f c)) (sv_conns t)"
proof -
  have "map (\<lambda>(a, c). (a, f c)) xs = map (\<lambda>(a, c). (a, f c)) (map (apsnd unnumbered) xs)" for xs
    using assms(2) by (simp add: case_prod_unfold apsnd_def map_prod_def)
  then show ?thesis using quiet_fields(9) [OF assms(1)] by metis
qed

lemma quiet_keys: "quiet s = quiet t \<Longrightarrow> map fst (sv_conns s) = map fst (sv_conns t)"
  using quiet_map [of s t "\<lambda>_. ()"] by (metis (mono_tags, lifting) map_map comp_apply case_prod_unfold fst_conv map_eq_conv)

lemma session_ids_quiet:
  fixes s t :: "('o, 'r) server"
  assumes q: "quiet s = quiet t"
  shows "session_ids s = session_ids t"
proof -
  have "session_ids s = List.map_filter snd (map (\<lambda>(a, c). (a, conn_id c)) (sv_conns s))" for s :: "('o, 'r) server"
    by (simp add: session_ids_def List.map_filter_def case_prod_unfold comp_def filter_map)
  then show ?thesis using quiet_map [OF q, of conn_id] by simp
qed

text \<open>Every send adds exactly its packet to the effects.\<close>

lemma effects_send: "\<exists>n. sv_effects (send h code ks s) = sv_effects s @ [Sent h code n ks]"
  by (auto simp: send_def Let_def emit_def alter_conn_def split: option.split connection.split)

lemma effects_send_each:
  "\<exists>ns. length ns = length cs \<and> sv_effects (send_each cs code s) =
     sv_effects s @ map2 (\<lambda>c n. Sent (write_stream c) code n (keys c)) cs ns"
proof (induction cs arbitrary: s)
  case (Cons c cs)
  obtain n where n: "sv_effects (send (write_stream c) code (keys c) s) = sv_effects s @ [Sent (write_stream c) code n (keys c)]"
    using effects_send by blast
  obtain ns where "length ns = length cs" "sv_effects (send_each cs code (send (write_stream c) code (keys c) s)) =
      sv_effects (send (write_stream c) code (keys c) s) @ map2 (\<lambda>c n. Sent (write_stream c) code n (keys c)) cs ns"
    using Cons.IH by blast
  then show ?case using n by (intro exI [of _ "n # ns"]) (simp add: send_each_def)
qed (simp add: send_each_def)

lemma sent_each:
  assumes "c \<in> set cs"
  shows "\<exists>n. Sent (write_stream c) code n (keys c) \<in> set (sv_effects (send_each cs code s))"
proof -
  obtain ns where ns: "length ns = length cs" "sv_effects (send_each cs code s) =
      sv_effects s @ map2 (\<lambda>c n. Sent (write_stream c) code n (keys c)) cs ns" using effects_send_each by blast
  obtain k where k: "k < length cs" "cs ! k = c" using assms by (metis in_set_conv_nth)
  then have "Sent (write_stream c) code (ns ! k) (keys c) \<in> set (map2 (\<lambda>c n. Sent (write_stream c) code n (keys c)) cs ns)"
    using ns(1) by (auto simp: set_zip intro!: image_eqI [of _ _ "(cs ! k, ns ! k)"])
  then show ?thesis unfolding ns(2) set_append by blast
qed

lemma sent_to_all:
  assumes "(a, c) \<in> set (sv_conns s)" "conn_id c \<noteq> None"
  shows "\<exists>n. Sent (write_stream c) code n (keys c) \<in> set (sv_effects (send_to_all code s))"
  unfolding send_to_all_def send_to_all_but_def using assms by (intro sent_each) force

text \<open>The second state follows from the first by effects in which only packets of the given codes are sent.\<close>

fun sent_code :: "('o, 'r) effect \<Rightarrow> ('o, 'r) packet_code set" where
  "sent_code (Sent h code n ks) = {code}"
| "sent_code _ = {}"

definition sends :: "('o, 'r) packet_code set \<Rightarrow> ('o, 'r) server \<Rightarrow> ('o, 'r) server \<Rightarrow> bool" where
  "sends C s t \<longleftrightarrow> (\<exists>es. sv_effects t = sv_effects s @ es \<and> (\<forall>e \<in> set es. sent_code e \<subseteq> C))"

lemma sends_refl [simp]: "sends C s s"
  by (simp add: sends_def)

lemma sends_trans: "sends C s t \<Longrightarrow> sends C t u \<Longrightarrow> sends C s u"
  unfolding sends_def by (elim exE conjE, rule exI, rule conjI) (simp, unfold set_append, blast)

lemma sends_same: "sv_effects t = sv_effects s \<Longrightarrow> sends C s t"
  by (simp add: sends_def)

lemma sends_aborts: "sv_effects t = sv_effects s @ map f ts \<Longrightarrow> (\<And>x. sent_code (f x) = {}) \<Longrightarrow> sends C s t"
  by (auto simp: sends_def)

lemma sends_one: "code \<in> C \<Longrightarrow> sends C s (send h code ks s)"
  using effects_send [of h code ks s] by (auto simp: sends_def)

lemma sends_each: "code \<in> C \<Longrightarrow> sends C s (send_each cs code s)"
  using effects_send_each [of cs code s] by (auto simp: sends_def)

lemma sends_broadcast: "code \<in> C \<Longrightarrow> sends C s (send_to_all code s)" "code \<in> C \<Longrightarrow> sends C s (notify i code s)"
  "code \<in> C \<Longrightarrow> sends C s (send_to_all_but code ex s)" "code \<in> C \<Longrightarrow> sends C s (send_to_others code ch i s)"
  by (auto simp: send_to_all_def send_to_all_but_def send_to_others_def notify_def intro: sends_one sends_each split: option.split)

lemma sends_emit: "sent_code e = {} \<Longrightarrow> sends C s (emit e s)"
  by (auto simp: sends_def emit_def)

lemma sendsD: "sends C s t \<Longrightarrow> e \<in> set (sv_effects s) \<Longrightarrow> e \<in> set (sv_effects t)"
  by (auto simp: sends_def)

end
