(* ===== verification/Registry.thy ===== *)
theory Registry
  imports Server
begin

text \<open>
  The registry of the server as a state machine: its invariant, the steps the tasks of the server take on it and what
  reachable registries satisfy. Sessions are told apart by address and by session id; a removed connection leaves
  nothing behind.
\<close>

section \<open>The view the invariant depends on\<close>

definition roster :: "('o, 'r) server \<Rightarrow> (sock_addr \<times> sock_addr \<times> handle \<times> nat option) list" where
  "roster s = map (\<lambda>(a, c). (a, peer_addr c, write_stream c, conn_id c)) (sv_conns s)"

definition roster_ok :: "(handle \<Rightarrow> sock_addr option) \<Rightarrow> (sock_addr \<times> sock_addr \<times> handle \<times> nat option) list \<Rightarrow> bool" where
  "roster_ok peer xs \<longleftrightarrow> distinct (map fst xs) \<and> (\<forall>(a, p, h, i) \<in> set xs. p = a \<and> peer h = Some a) \<and>
     distinct (List.map_filter (\<lambda>(a, p, h, i). i) xs)"

definition server_wf :: "('o, 'r) server \<Rightarrow> bool" where
  "server_wf s \<longleftrightarrow> roster_ok (sv_peer s) (roster s) \<and> (\<forall>h. distinct (map fst (sv_transfers s h)))"

lemma session_ids_roster: "session_ids s = List.map_filter (\<lambda>(a, p, h, i). i) (roster s)"
  by (simp add: session_ids_def roster_def List.map_filter_def case_prod_unfold comp_def filter_map)

lemma keys_roster: "map fst (sv_conns s) = map fst (roster s)"
  by (simp add: roster_def case_prod_unfold comp_def)

lemma map_filter_Cons: "List.map_filter f (x # xs) = (case f x of None \<Rightarrow> [] | Some y \<Rightarrow> [y]) @ List.map_filter f xs"
  by (auto simp: List.map_filter_def split: option.split)

lemma map_filter_set: "y \<in> set (List.map_filter f xs) \<longleftrightarrow> (\<exists>x \<in> set xs. f x = Some y)"
  by (force simp: List.map_filter_def)

text \<open>What the operations do to the roster.\<close>

named_theorems roster_simps

lemma roster_quiet: "quiet s = quiet t \<Longrightarrow> roster s = roster t"
  unfolding roster_def by (rule quiet_map [of s t "\<lambda>c. (peer_addr c, write_stream c, conn_id c)"]) simp_all

lemma roster_send [roster_simps]:
  "roster (send h code ks s) = roster s" "roster (send_each cs code s) = roster s" "roster (send_to_all code s) = roster s"
  "roster (send_to_all_but code ex s) = roster s" "roster (send_to_others code ch i s) = roster s"
  "roster (notify i code s) = roster s" "roster (emit e s) = roster s"
  by (rule roster_quiet; simp)+

lemma roster_map:
  assumes "\<And>a c. (a, c) \<in> set (sv_conns s) \<Longrightarrow> peer_addr (f a c) = peer_addr c \<and> write_stream (f a c) = write_stream c \<and> conn_id (f a c) = conn_id c"
  shows "roster (s\<lparr> sv_conns := map (\<lambda>(a, c). (a, f a c)) (sv_conns s) \<rparr>) = roster s"
  using assms by (auto simp: roster_def)

lemma neutral_updates [simp]:
  "peer_addr (deattach_screen c) = peer_addr c" "write_stream (deattach_screen c) = write_stream c"
  "conn_id (deattach_screen c) = conn_id c" "peer_addr (unset_last_pm c) = peer_addr c"
  "write_stream (unset_last_pm c) = write_stream c" "conn_id (unset_last_pm c) = conn_id c"
  "peer_addr (set_alive b c) = peer_addr c" "write_stream (set_alive b c) = write_stream c" "conn_id (set_alive b c) = conn_id c"
  "peer_addr (with_keys ks now c) = peer_addr c" "write_stream (with_keys ks now c) = write_stream c"
  "conn_id (with_keys ks now c) = conn_id c"
  by (cases c; simp)+

lemma roster_alter:
  assumes "\<And>c. peer_addr (f c) = peer_addr c \<and> write_stream (f c) = write_stream c \<and> conn_id (f c) = conn_id c"
  shows "roster (alter_conn addr f s) = roster s"
  unfolding alter_conn_def using roster_map [of s "\<lambda>a c. if a = addr then f c else c"] assms by simp

lemma roster_deattach [roster_simps]: "roster (deattach i name s) = roster s"
  unfolding deattach_def Let_def roster_simps by (rule roster_map) simp

lemma roster_forget_pm [roster_simps]: "roster (forget_pm i s) = roster s"
  unfolding forget_pm_def by (rule roster_map) simp

text \<open>Closing the transfers of a session aborts them all, in order.\<close>

lemma close_transfers_all:
  assumes "distinct (map fst (sv_transfers s (a_file_streams x)))"
  shows "close_transfers (Authenticated x) s = s\<lparr> sv_transfers := (sv_transfers s)(a_file_streams x := []),
    sv_effects := sv_effects s @ map (\<lambda>(uid, t). Aborted t) (sv_transfers s (a_file_streams x)) \<rparr>"
proof -
  let ?h = "a_file_streams x"
  let ?f = "\<lambda>uid s. case remove_file_stream uid (Authenticated x) (sv_transfers s) of
     (ts, ab) \<Rightarrow> s\<lparr> sv_transfers := ts, sv_effects := sv_effects s @ map Aborted ab \<rparr>"
  have "fold ?f (map fst xs) s = s\<lparr> sv_transfers := (sv_transfers s)(?h := []),
      sv_effects := sv_effects s @ map (\<lambda>(uid, t). Aborted t) xs \<rparr>"
    if "sv_transfers s ?h = xs" "distinct (map fst xs)" for xs s
    using that
  proof (induction xs arbitrary: s)
    case Nil
    then show ?case by (simp add: fun_upd_idem)
  next
    case (Cons p xs)
    obtain u t where p: "p = (u, t)" by (cases p)
    define s1 where "s1 = s\<lparr> sv_transfers := (sv_transfers s)(?h := xs), sv_effects := sv_effects s @ [Aborted t] \<rparr>"
    have d: "AList.delete u ((u, t) # xs) = xs" using Cons.prems(2) by (simp add: p delete_id)
    have "?f u s = s1" unfolding s1_def remove_file_stream.simps Cons.prems(1) p d by simp
    moreover have "fold ?f (map fst xs) s1 = s1\<lparr> sv_transfers := (sv_transfers s1)(?h := []),
      sv_effects := sv_effects s1 @ map (\<lambda>(uid, t). Aborted t) xs \<rparr>"
      by (rule Cons.IH) (use Cons.prems in \<open>simp_all add: s1_def\<close>)
    ultimately show ?case by (simp add: p s1_def fun_upd_def cong: if_cong)
  qed
  from this [OF refl assms] show ?thesis by (simp add: close_transfers_def)
qed

lemma map_fun_upd_distinct:
  "(\<forall>h. distinct (map fst (ts h))) \<Longrightarrow> distinct (map fst xs) \<Longrightarrow> \<forall>h. distinct (map fst ((ts(k := xs)) h))"
  by simp

lemma map_of_alter:
  "map_of (sv_conns (alter_conn k f s)) l = (if l = k then map_option f (map_of (sv_conns s) k) else map_of (sv_conns s) l)"
proof -
  have "map_of (map (\<lambda>(a, c). (a, if a = k then f c else c)) xs) l = (if l = k then map_option f (map_of xs k) else map_of xs l)"
    for xs :: "(sock_addr \<times> connection) list"
    by (induction xs) auto
  then show ?thesis by (simp add: alter_conn_def)
qed

section \<open>Every operation keeps the invariant\<close>

lemma wf_view: "roster s = roster t \<Longrightarrow> sv_peer s = sv_peer t \<Longrightarrow> sv_transfers s = sv_transfers t \<Longrightarrow> server_wf s = server_wf t"
  by (simp add: server_wf_def)

lemma wf_quiet: "quiet s = quiet t \<Longrightarrow> server_wf s = server_wf t"
  by (intro wf_view roster_quiet quiet_fields)

lemma wf_send [simp]:
  "server_wf (send h code ks s) = server_wf s" "server_wf (send_each cs code s) = server_wf s"
  "server_wf (send_to_all code s) = server_wf s" "server_wf (send_to_all_but code ex s) = server_wf s"
  "server_wf (send_to_others code ch i s) = server_wf s" "server_wf (notify i code s) = server_wf s"
  "server_wf (emit e s) = server_wf s"
  by (rule wf_quiet; simp)+

lemma roster_ok_filter: "roster_ok peer xs \<Longrightarrow> roster_ok peer (filter P xs)"
proof -
  have "distinct (List.map_filter f (filter P xs))" if "distinct (List.map_filter f xs)" for f :: "_ \<Rightarrow> nat option"
    using that by (induction xs) (auto simp: map_filter_Cons map_filter_set split: option.splits)
  then show "roster_ok peer xs \<Longrightarrow> roster_ok peer (filter P xs)"
    by (simp add: roster_ok_def distinct_map_filter)
qed

lemma wf_delete: "server_wf s \<Longrightarrow> server_wf (s\<lparr> sv_conns := AList.delete addr (sv_conns s) \<rparr>)"
proof -
  have "roster (s\<lparr> sv_conns := AList.delete addr (sv_conns s) \<rparr>) = filter (\<lambda>x. fst x \<noteq> addr) (roster s)"
    by (simp add: roster_def AList.delete_eq filter_map comp_def case_prod_unfold eq_commute)
  then show "server_wf s \<Longrightarrow> ?thesis" by (simp add: server_wf_def roster_ok_filter)
qed

lemma wf_deattach [simp]: "server_wf (deattach i name s) = server_wf s"
  by (rule wf_view, rule roster_deattach) (simp_all add: deattach_def Let_def quiet_fields [OF quiet_send_each])

lemma wf_forget_pm [simp]: "server_wf (forget_pm i s) = server_wf s"
  by (rule wf_view, rule roster_forget_pm) (simp_all add: forget_pm_def)

lemma wf_unrelated [simp]:
  "server_wf (s\<lparr> sv_voice := v \<rparr>) = server_wf s" "server_wf (s\<lparr> sv_files := f \<rparr>) = server_wf s"
  "server_wf (s\<lparr> sv_uploads := u \<rparr>) = server_wf s" "server_wf (s\<lparr> sv_effects := e \<rparr>) = server_wf s"
  "server_wf (s\<lparr> sv_next_handle := n \<rparr>) = server_wf s"
  by (rule wf_view; simp add: roster_def)+

lemma wf_leave_session [simp]: "server_wf (leave_session cf c s) = server_wf s"
  by (simp add: leave_session_def Let_def split: option.split)

lemma wf_transfers:
  "server_wf s \<Longrightarrow> (\<forall>h. distinct (map fst (ts h))) \<Longrightarrow> server_wf (s\<lparr> sv_transfers := ts \<rparr>)"
  by (simp add: server_wf_def roster_def)

lemma wf_close_transfers: "server_wf s \<Longrightarrow> server_wf (close_transfers c s)"
proof (cases c)
  case (Authenticated x)
  assume wf: "server_wf s"
  then have "distinct (map fst (sv_transfers s (a_file_streams x)))" by (simp add: server_wf_def)
  moreover have "server_wf (s\<lparr> sv_transfers := (sv_transfers s)(a_file_streams x := []) \<rparr>)"
    using wf by (intro wf_transfers map_fun_upd_distinct) (simp_all add: server_wf_def)
  ultimately show ?thesis by (simp add: Authenticated close_transfers_all)
qed (simp add: close_transfers_def)

lemma wf_remove_connection: "server_wf s \<Longrightarrow> server_wf (remove_connection cf addr grace s)"
  by (auto simp: remove_connection_def Let_def wf_delete wf_close_transfers split: option.split prod.split connection.split)

lemma wf_remove_each: "server_wf s \<Longrightarrow> server_wf (remove_each cf grace addrs s)"
  unfolding remove_each_def by (induction addrs arbitrary: s) (simp_all add: wf_remove_connection)

lemma first_unused_least:
  "first_unused ids i \<notin> set ids \<and> i \<le> first_unused ids i \<and> (\<forall>j. i \<le> j \<and> j < first_unused ids i \<longrightarrow> j \<in> set ids)"
proof (induction ids i rule: first_unused.induct)
  case (1 ids i)
  then show ?case
    by (subst (1 2 3) first_unused.simps) (auto simp: Suc_le_eq order_le_less, metis Suc_lessI)
qed

lemma get_latest_id_fresh: "get_latest_id s \<notin> set (session_ids s)"
  by (simp add: get_latest_id_def first_unused_least)

text \<open>Replacing the connection at one address by one whose id is free or absent.\<close>

lemma roster_ok_replace:
  assumes "roster_ok peer xs" and "peer h = Some addr"
    and fresh: "\<And>j. i = Some j \<Longrightarrow> j \<notin> set (List.map_filter (\<lambda>(a, p, h, i). i) xs)"
  shows "roster_ok peer (map (\<lambda>(a, r). (a, if a = addr then (addr, h, i) else r)) xs)"
proof -
  let ?f = "\<lambda>(a, r). (a, if a = addr then (addr, h, i) else r)" and ?id = "\<lambda>(a, p, h, i). i"
  have new: "j \<in> set (List.map_filter ?id (map ?f ys)) \<Longrightarrow> j \<in> set (List.map_filter ?id ys) \<or> i = Some j" for j ys
    by (induction ys) (auto simp: map_filter_Cons split: option.splits if_splits)
  have absent: "addr \<notin> fst ` set ys \<Longrightarrow> map ?f ys = ys" for ys
    by (induction ys) auto
  have ids: "distinct (List.map_filter ?id (map ?f ys))"
    if "distinct (map fst ys)" "distinct (List.map_filter ?id ys)" "\<And>j. i = Some j \<Longrightarrow> j \<notin> set (List.map_filter ?id ys)" for ys
    using that
  proof (induction ys)
    case (Cons y ys)
    obtain a p g k where y: "y = (a, p, g, k)" by (cases y) auto
    have d: "distinct (List.map_filter ?id (map ?f ys))"
      using Cons.prems by (intro Cons.IH) (auto simp: map_filter_Cons split: option.splits)
    show ?case
    proof (cases "a = addr")
      case True
      then have "map ?f ys = ys" using Cons.prems(1) by (intro absent) (simp add: y)
      then show ?thesis using True Cons.prems d unfolding y
        by (cases i) (auto simp: map_filter_Cons map_filter_set split: option.splits)
    next
      case False
      have "k = Some j \<Longrightarrow> j \<notin> set (List.map_filter ?id (map ?f ys))" for j
        using Cons.prems(2,3) new [of j ys] by (auto simp: y map_filter_Cons)
      then show ?thesis using False d by (auto simp: y map_filter_Cons split: option.split)
    qed
  qed (simp add: List.map_filter_def)
  have keys: "map fst (map ?f xs) = map fst xs" by (induction xs) auto
  have "\<forall>(a, p, g, k) \<in> set (map ?f xs). p = a \<and> peer g = Some a"
    using assms(1,2) unfolding roster_ok_def set_map by (auto split: prod.splits)
  moreover have "distinct (List.map_filter ?id (map ?f xs))"
    by (rule ids) (use assms(1) fresh in \<open>simp_all add: roster_ok_def\<close>)
  ultimately show ?thesis using assms(1) unfolding roster_ok_def keys by simp
qed

lemma wf_replace:
  assumes wf: "server_wf s" and c: "peer_addr c = addr" "sv_peer s (write_stream c) = Some addr"
    and fresh: "\<And>i. conn_id c = Some i \<Longrightarrow> i \<notin> set (session_ids s)"
  shows "server_wf (alter_conn addr (\<lambda>_. c) s)"
proof -
  have "roster (alter_conn addr (\<lambda>_. c) s) =
      map (\<lambda>(a, r). (a, if a = addr then (addr, write_stream c, conn_id c) else r)) (roster s)"
    by (auto simp: roster_def alter_conn_def c(1))
  moreover have "roster_ok (sv_peer s) (map (\<lambda>(a, r). (a, if a = addr then (addr, write_stream c, conn_id c) else r)) (roster s))"
    using wf c(2) fresh by (intro roster_ok_replace) (simp_all add: server_wf_def session_ids_roster)
  ultimately show ?thesis using wf by (simp add: server_wf_def alter_conn_def)
qed

lemma wf_entry:
  assumes "server_wf s" "map_of (sv_conns s) addr = Some c"
  shows "peer_addr c = addr" "sv_peer s (write_stream c) = Some addr"
proof -
  have "(addr, peer_addr c, write_stream c, conn_id c) \<in> set (roster s)"
    using map_of_SomeD [OF assms(2)] by (force simp: roster_def)
  then show "peer_addr c = addr" "sv_peer s (write_stream c) = Some addr"
    using assms(1) by (auto simp: server_wf_def roster_ok_def)
qed

lemma wf_register:
  assumes wf: "server_wf s" and free: "sv_peer s h = None"
  shows "server_wf (register_client addr h t key now (s\<lparr> sv_peer := (sv_peer s)(h \<mapsto> addr) \<rparr>))"
proof -
  let ?r = "\<lambda>xs. map (\<lambda>(a, c). (a, peer_addr c, write_stream c, conn_id c)) xs"
  define c where "c = NonAuthenticated \<lparr> n_write_stream = h, n_task = t, n_peer_addr = addr, n_username = None, n_keys = None,
    n_obfuscation_key = key, n_last_activity = now, n_seq = 0, n_connect = now \<rparr>"
  have c: "peer_addr c = addr" "write_stream c = h" "conn_id c = None" by (simp_all add: c_def)
  have up: "?r (AList.update addr c xs) = (if addr \<in> fst ` set xs
      then map (\<lambda>(a, r). (a, if a = addr then (addr, h, None) else r)) (?r xs) else ?r xs @ [(addr, addr, h, None)])"
    if "distinct (map fst xs)" for xs
    using that c by (induction xs) (auto simp: image_iff)
  have ok: "roster_ok ((sv_peer s)(h \<mapsto> addr)) (roster s)"
    using wf free by (fastforce simp: server_wf_def roster_ok_def)
  then have "distinct (map fst (sv_conns s))" by (simp add: keys_roster roster_ok_def)
  from up [OF this] have "roster_ok ((sv_peer s)(h \<mapsto> addr)) (?r (AList.update addr c (sv_conns s)))"
  proof (cases "addr \<in> fst ` set (sv_conns s)")
    case True
    then show ?thesis using up [OF \<open>distinct (map fst (sv_conns s))\<close>] roster_ok_replace [OF ok, of h addr None] by (simp add: roster_def)
  next
    case False
    then have "addr \<notin> fst ` set (roster s)" by (force simp: roster_def)
    then show ?thesis using False up [OF \<open>distinct (map fst (sv_conns s))\<close>] ok
      by (auto simp: roster_def [symmetric] roster_ok_def List.map_filter_def)
  qed
  then show ?thesis using wf by (simp add: server_wf_def register_client_def roster_def c_def)
qed

lemma wf_alter:
  assumes "\<And>c. peer_addr (f c) = peer_addr c \<and> write_stream (f c) = write_stream c \<and> conn_id (f c) = conn_id c"
  shows "server_wf (alter_conn addr f s) = server_wf s"
  by (rule wf_view, rule roster_alter [OF assms]) (simp_all add: alter_conn_def)

lemma wf_update_keys: "server_wf s \<Longrightarrow> server_wf (update_client_keys addr ks now s)"
  by (simp add: update_client_keys_def wf_alter)

lemma wf_authenticate:
  assumes wf: "server_wf s" and i: "i \<notin> set (session_ids s)" and a: "authenticate_client cf addr name dev r i now s = Some s'"
  shows "server_wf s'"
proof (cases "map_of (sv_conns s) addr")
  case None
  then show ?thesis using a wf by (auto simp: authenticate_client_def)
next
  case (Some c)
  then obtain ks c' where k: "keys c = Some ks" "promoted cf name dev r i (sv_next_handle s) now c = Some c'"
      "s' = (alter_conn addr (\<lambda>_. c') s)\<lparr> sv_files := AList.update name [] (sv_files s),
        sv_next_handle := sv_next_handle s + 1, sv_transfers := (sv_transfers s)(sv_next_handle s := []) \<rparr>"
    using a by (auto simp: authenticate_client_def promoted_def Let_def)
  then have "peer_addr c' = peer_addr c" "write_stream c' = write_stream c" "conn_id c' = Some i"
    by (auto simp: promoted_def)
  then have "server_wf (alter_conn addr (\<lambda>_. c') s)"
    using wf_replace [OF wf, of c' addr] wf_entry [OF wf Some] i by simp
  then have wf': "server_wf ((alter_conn addr (\<lambda>_. c') s)\<lparr> sv_transfers := (sv_transfers s)(sv_next_handle s := []) \<rparr>)"
    using wf by (intro wf_transfers map_fun_upd_distinct) (simp_all add: server_wf_def)
  have "server_wf s' = server_wf ((alter_conn addr (\<lambda>_. c') s)\<lparr> sv_transfers := (sv_transfers s)(sv_next_handle s := []) \<rparr>)"
    unfolding k(3) by (rule wf_view) (simp_all add: roster_def)
  then show ?thesis using wf' by simp
qed

lemma wf_announce [simp]: "server_wf (announce_move old new s) = server_wf s"
  by (simp add: announce_move_def Let_def split: option.split)

text \<open>Storing a connection of the same client keeps everything.\<close>

lemma wf_put:
  assumes wf: "server_wf s" and c: "map_of (sv_conns s) addr = Some c"
    and same: "peer_addr c' = peer_addr c" "write_stream c' = write_stream c" "conn_id c' = conn_id c"
  shows "server_wf (alter_conn addr (\<lambda>_. c') s)"
proof -
  have d: "distinct (map fst (sv_conns s))" using wf by (simp add: keys_roster server_wf_def roster_ok_def)
  have "\<forall>d. (addr, d) \<in> set (sv_conns s) \<longrightarrow> d = c" using c by (auto dest!: map_of_is_SomeI [OF d])
  then have "roster (alter_conn addr (\<lambda>_. c') s) = roster s"
    unfolding alter_conn_def by (intro roster_map [of s "\<lambda>a d. if a = addr then c' else d"]) (auto simp: same)
  then have "server_wf (alter_conn addr (\<lambda>_. c') s) = server_wf s" by (rule wf_view) (simp_all add: alter_conn_def)
  then show ?thesis using wf by simp
qed

lemma wf_update_channel:
  assumes wf: "server_wf s" and u: "update_client_channel addr ch now s = Some s'"
  shows "server_wf s'"
proof (cases "map_of (sv_conns s) addr")
  case None
  then show ?thesis using u wf by (auto simp: update_client_channel_def)
next
  case (Some c)
  then obtain x where x: "c = Authenticated x" using u by (cases c) (simp_all add: update_client_channel_def)
  have "server_wf (alter_conn addr (\<lambda>_. Authenticated (x\<lparr> a_last_activity := now, a_channel := ch, a_alive := True \<rparr>)) s)"
    by (rule wf_put [OF wf Some]) (simp_all add: x)
  then show ?thesis using u Some by (auto simp: update_client_channel_def x)
qed

lemma wf_keepalive: "server_wf s \<Longrightarrow> server_wf (send_keepalive cf s)"
proof -
  have one: "server_wf (fst (keepalive_one a st)) = server_wf (fst st)" for a st
    by (cases st) (simp add: keepalive_one_def wf_alter split: option.split)
  have "server_wf (fst (fold keepalive_one xs st)) = server_wf (fst st)" for xs st
    by (induction xs arbitrary: st) (simp_all add: one)
  then show "server_wf s \<Longrightarrow> ?thesis"
    unfolding send_keepalive_def by (metis (mono_tags, lifting) wf_remove_each case_prod_unfold fst_conv)
qed

section \<open>The registry as a state machine\<close>

text \<open>
  The steps the tasks of the server take: a socket is accepted, keys are agreed, a login completes with the free id read
  at that moment, a client moves, starts a transfer, leaves, or is removed by the timers. A login reads the id and
  stores the session in one step here; the source does so in two, see \<open>login_race\<close>.
\<close>

inductive server_step :: "server_config \<Rightarrow> ('o, 'r) server \<Rightarrow> ('o, 'r) server \<Rightarrow> bool" for cf where
  accept: "sv_peer s h = None \<Longrightarrow>
    server_step cf s (register_client addr h t key now (s\<lparr> sv_peer := (sv_peer s)(h \<mapsto> addr) \<rparr>))"
| keys: "server_step cf s (update_client_keys addr ks now s)"
| login: "authenticate_client cf addr name dev r (get_latest_id s) now s = Some s' \<Longrightarrow> server_step cf s s'"
| move: "update_client_channel addr ch now s = Some s' \<Longrightarrow> server_step cf s s'"
| transfer: "(a, c) \<in> set (sv_conns s) \<Longrightarrow>
    server_step cf s (s\<lparr> sv_transfers := add_file_stream uid t c (sv_transfers s) \<rparr>)"
| broadcast: "server_step cf s (send_to_all code s)"
| tell: "server_step cf s (notify i code s)"
| remove: "server_step cf s (remove_connection cf addr grace s)"
| remove_ip: "server_step cf s (remove_connections cf ip grace s)"
| inactive: "server_step cf s (disconnect_inactive cf now s)"
| keepalive: "server_step cf s (send_keepalive cf s)"
| shutdown: "server_step cf s (disconnect_all cf s)"

lemma wf_step: "server_step cf s s' \<Longrightarrow> server_wf s \<Longrightarrow> server_wf s'"
proof (induction rule: server_step.induct)
  case (login addr name dev r s now s')
  then show ?case using wf_authenticate get_latest_id_fresh by blast
next
  case (transfer a c s uid t)
  have "distinct (map fst (add_file_stream uid t c (sv_transfers s) h))" for h
    using transfer(2) by (cases c) (auto simp: server_wf_def distinct_update)
  then show ?case using transfer(2) by (simp add: wf_transfers)
qed (simp_all add: wf_register wf_update_keys wf_update_channel wf_remove_connection wf_keepalive wf_remove_each
  remove_connections_def disconnect_inactive_def disconnect_all_def)

definition empty_server :: "('o, 'r) server" where
  "empty_server = \<lparr> sv_conns = [], sv_transfers = \<lambda>_. [], sv_next_handle = 0, sv_peer = \<lambda>_. None, sv_files = [],
     sv_uploads = [], sv_pending = [], sv_voice = [], sv_users = [], sv_bans = [], sv_history = history_new [],
     sv_icon = None, sv_effects = [] \<rparr>"

lemma wf_empty: "server_wf empty_server"
  by (simp add: server_wf_def empty_server_def roster_def roster_ok_def List.map_filter_def)

lemma wf_reachable: "(server_step cf)\<^sup>*\<^sup>* empty_server s \<Longrightarrow> server_wf s"
  by (induction rule: rtranclp_induct) (use wf_empty wf_step in blast)+

lemma unique_ids:
  assumes "distinct (List.map_filter (\<lambda>(a, c). conn_id c) xs)" "(a, c) \<in> set xs" "(b, d) \<in> set xs"
    "conn_id c = Some i" "conn_id d = Some i"
  shows "(a, c) = (b, d)"
  using assms
proof (induction xs)
  case (Cons x xs)
  have "i \<notin> set (List.map_filter (\<lambda>(a, c). conn_id c) xs)" if "conn_id (snd x) = Some i"
    using Cons.prems(1) that by (cases x) (auto simp: map_filter_Cons)
  then have "(e, f) \<in> set xs \<Longrightarrow> conn_id f = Some i \<Longrightarrow> conn_id (snd x) \<noteq> Some i" for e f
    by (auto simp: map_filter_set)
  then show ?case using Cons by (fastforce simp: map_filter_Cons split: option.splits)
qed simp

lemma find_hit: "x \<in> set xs \<Longrightarrow> P x \<Longrightarrow> \<exists>y. find P xs = Some y \<and> y \<in> set xs \<and> P y"
  by (induction xs) auto

lemma find_id_iff:
  assumes wf: "server_wf s"
  shows "find_id i s = Some (a, c) \<longleftrightarrow> map_of (sv_conns s) a = Some c \<and> conn_id c = Some i"
proof -
  have d: "distinct (map fst (sv_conns s))" and u: "distinct (List.map_filter (\<lambda>(a, c). conn_id c) (sv_conns s))"
    using wf by (simp_all add: server_wf_def roster_ok_def keys_roster session_ids_roster [symmetric] session_ids_def)
  have "\<exists>b e. find_id i s = Some (b, e) \<and> (b, e) \<in> set (sv_conns s) \<and> conn_id e = Some i"
    if "(a, c) \<in> set (sv_conns s)" "conn_id c = Some i"
    using find_hit [OF that(1), of "\<lambda>(a, c). conn_id c = Some i"] that(2) by (auto simp: find_id_def)
  moreover have "(a, c) \<in> set (sv_conns s) \<and> conn_id c = Some i" if "find_id i s = Some (a, c)"
    using that by (auto simp: find_id_def find_Some_iff in_set_conv_nth)
  ultimately show ?thesis using unique_ids [OF u] map_of_eq_Some_iff [OF d] by (metis (no_types, lifting))
qed

section \<open>Leaving\<close>

lemma quiet_member:
  assumes "quiet s = quiet t" "(a, c) \<in> set (sv_conns s)"
  shows "\<exists>d. (a, d) \<in> set (sv_conns t) \<and> unnumbered d = unnumbered c"
proof -
  have "(a, unnumbered c) \<in> set (map (apsnd unnumbered) (sv_conns t))"
    unfolding quiet_fields(9) [OF assms(1), symmetric] using assms(2) by force
  then show ?thesis by force
qed

lemma map_of_quiet:
  assumes "quiet s = quiet t"
  shows "map_option unnumbered (map_of (sv_conns s) a) = map_option unnumbered (map_of (sv_conns t) a)"
proof -
  have "map_of (map (apsnd unnumbered) xs) a = map_option unnumbered (map_of xs a)" for xs :: "(sock_addr \<times> connection) list"
    by (induction xs) auto
  then show ?thesis using quiet_fields(9) [OF assms] by metis
qed

lemma unnumbered_cong:
  assumes "unnumbered c = unnumbered d"
  shows "write_stream c = write_stream d" "keys c = keys d" "conn_id c = conn_id d" "last_pm c = last_pm d"
    "attached_screen c = attached_screen d"
  using assms by (metis unnumbered_view)+

lemma leave_session_clears:
  "map_of (sv_files (leave_session cf c s)) (a_username c) = None"
  "(u, k) \<in> set (sv_uploads (leave_session cf c s)) \<Longrightarrow> k \<noteq> a_id c"
  "voice_chat_enabled cf \<Longrightarrow> map_of (sv_voice (leave_session cf c s)) (a_id c) = None"
  "sv_transfers (leave_session cf c s) = sv_transfers s"
  by (auto simp: leave_session_def Let_def forget_pm_def emit_def AList.delete_conv' quiet_fields [OF quiet_broadcast(1)]
      quiet_fields [OF quiet_broadcast(4)] split: option.splits)

text \<open>The state in which \<open>Leave\<close> is broadcast.\<close>

lemma leave_session_last:
  "\<exists>t. leave_session cf c s = send_to_all (Session_Code (Leave (a_username c) (a_id c) (users_contains (sv_users s) (a_username c)))) t \<and>
     sends {Media_Code (Deattached (a_username c))} s t \<and>
     (\<forall>(b, d) \<in> set (sv_conns t). last_pm d \<noteq> Some (a_id c) \<and>
        (\<exists>e. (b, e) \<in> set (sv_conns s) \<and> attached_screen d = attached_screen e))"
proof -
  let ?n = "case a_attached_screen c of
    Some a \<Rightarrow> notify (at_target_id a) (Media_Code (Deattached (a_username c))) s | None \<Rightarrow> s"
  let ?v = "if voice_chat_enabled cf then ?n\<lparr> sv_voice := AList.delete (a_id c) (sv_voice ?n) \<rparr> else ?n"
  let ?e = "emit (RemovedDir (a_username c)) ?v"
  let ?u = "?e\<lparr> sv_uploads := filter (\<lambda>(uid, client). client \<noteq> a_id c) (sv_uploads ?e),
     sv_files := AList.delete (a_username c) (sv_files ?e) \<rparr>"
  let ?t = "forget_pm (a_id c) ?u"
  have q: "quiet ?n = quiet s" by (simp split: option.split)
  have conns: "sv_conns ?u = sv_conns ?n" by (simp add: emit_def)
  have n: "sends {Media_Code (Deattached (a_username c))} s ?n" by (simp add: sends_broadcast split: option.split)
  have t: "sends {Media_Code (Deattached (a_username c))} ?n ?t"
    by (simp add: sends_def forget_pm_def emit_def)
  have users: "sv_users ?t = sv_users s" using quiet_fields(6) [OF q] by (simp add: forget_pm_def emit_def)
  have members: "last_pm d \<noteq> Some (a_id c) \<and> (\<exists>e. (b, e) \<in> set (sv_conns s) \<and> attached_screen d = attached_screen e)"
    if m: "(b, d) \<in> set (sv_conns ?t)" for b d
  proof -
    obtain d' where d': "(b, d') \<in> set (sv_conns ?n)" "d = (if last_pm d' = Some (a_id c) then unset_last_pm d' else d')"
      using m unfolding forget_pm_def by (auto simp: conns)
    obtain e where "(b, e) \<in> set (sv_conns s)" "unnumbered e = unnumbered d'" using quiet_member [OF q d'(1)] by blast
    moreover have "attached_screen d = attached_screen d'" "last_pm d \<noteq> Some (a_id c)"
      unfolding d'(2) by (cases d'; simp)+
    ultimately show ?thesis using unnumbered_cong(5) by metis
  qed
  show ?thesis
  proof (intro exI conjI)
    show "leave_session cf c s = send_to_all (Session_Code (Leave (a_username c) (a_id c)
      (users_contains (sv_users s) (a_username c)))) ?t"
      using users by (simp add: leave_session_def Let_def)
    show "sends {Media_Code (Deattached (a_username c))} s ?t" using n t by (rule sends_trans)
  qed (use members in blast)
qed

text \<open>The state in which a removed session leaves: its transfers and its screen share are closed.\<close>

lemma deattach_clears:
  assumes "(b, d) \<in> set (sv_conns (deattach i name s))"
  shows "map_option at_target_id (attached_screen d) \<noteq> Some i"
proof -
  let ?w = "\<lambda>c. case attached_screen c of Some a \<Rightarrow> at_target_id a = i | None \<Rightarrow> False"
  let ?t = "s\<lparr> sv_conns := map (\<lambda>(a, c). (a, if ?w c then deattach_screen c else c)) (sv_conns s) \<rparr>"
  have "quiet (deattach i name s) = quiet ?t" by (simp add: deattach_def Let_def)
  then obtain e where e: "(b, e) \<in> set (sv_conns ?t)" "unnumbered e = unnumbered d" using quiet_member assms by blast
  then obtain e' where "e = (if ?w e' then deattach_screen e' else e')" by auto
  then have "map_option at_target_id (attached_screen e) \<noteq> Some i" by (cases e') (auto split: option.splits)
  then show ?thesis using unnumbered_cong(5) [OF e(2)] by simp
qed

lemma sends_deattach: "Media_Code (Deattach name) \<in> C \<Longrightarrow> sends C s (deattach i name s)"
  unfolding deattach_def Let_def by (rule sends_trans [OF sends_same sends_each]) simp_all

lemma remove_connection_stages:
  assumes wf: "server_wf s" and c: "map_of (sv_conns s) addr = Some (Authenticated c)"
  shows "\<exists>t es. remove_connection cf addr grace s = emit (Aborted (a_task c)) (leave_session cf c t) \<and>
    roster t = filter (\<lambda>x. fst x \<noteq> addr) (roster s) \<and> sv_users t = sv_users s \<and>
    sv_transfers t = (sv_transfers s)(a_file_streams c := []) \<and> sv_effects t = sv_effects s @ es \<and>
    (\<forall>e \<in> set es. sent_code e \<subseteq> {Session_Code Disconnect, Media_Code (Deattach (a_username c))}) \<and>
    (\<forall>(uid, x) \<in> set (sv_transfers s (a_file_streams c)). Aborted x \<in> set es) \<and>
    (\<forall>x. a_screen_stream c = Some x \<longrightarrow> Aborted x \<in> set es \<and>
       (\<forall>(b, d) \<in> set (sv_conns t). map_option at_target_id (attached_screen d) \<noteq> Some (a_id c)))"
proof -
  let ?D = "{Session_Code Disconnect, Media_Code (Deattach (a_username c))}"
  define s0 where "s0 = s\<lparr> sv_conns := AList.delete addr (sv_conns s) \<rparr>"
  define s1 where "s1 = (if grace then send (a_write_stream c) (Session_Code Disconnect) (Some (a_keys c)) s0 else s0)"
  define s2 where "s2 = close_transfers (Authenticated c) s1"
  define s3 where "s3 = s2\<lparr> sv_effects := sv_effects s2 @ map Aborted (case a_screen_stream c of Some x \<Rightarrow> [x] | None \<Rightarrow> []) \<rparr>"
  define s4 where "s4 = (if a_screen_stream c = None then s3 else deattach (a_id c) (a_username c) s3)"
  have leave: "leave_session cf (c\<lparr> a_screen_stream := v \<rparr>) t = leave_session cf c t" for v and t :: "('a, 'b) server"
    by (simp add: leave_session_def)
  have r: "remove_connection cf addr grace s = emit (Aborted (a_task c)) (leave_session cf c s4)"
    by (cases "a_screen_stream c") (simp_all add: remove_connection_def c Let_def remove_screen_stream_def leave
      s0_def s1_def s2_def s3_def s4_def)
  have q1: "quiet s1 = quiet s0" by (simp add: s1_def)
  have t1: "sv_transfers s1 = sv_transfers s" using quiet_fields(1) [OF q1] by (simp add: s0_def)
  have close: "s2 = s1\<lparr> sv_transfers := (sv_transfers s)(a_file_streams c := []),
      sv_effects := sv_effects s1 @ map (\<lambda>(uid, t). Aborted t) (sv_transfers s (a_file_streams c)) \<rparr>"
    unfolding s2_def using close_transfers_all [of s1 c] wf by (simp add: t1 server_wf_def)
  have "roster s4 = roster s1" by (simp add: s4_def s3_def roster_simps close) (simp add: roster_def)
  also have "\<dots> = filter (\<lambda>x. fst x \<noteq> addr) (roster s)"
    unfolding roster_quiet [OF q1] by (simp add: s0_def roster_def AList.delete_eq filter_map comp_def case_prod_unfold eq_commute)
  finally have ro: "roster s4 = filter (\<lambda>x. fst x \<noteq> addr) (roster s)" .
  have q4: "sv_users s4 = sv_users s3" "sv_transfers s4 = sv_transfers s3"
    by (simp_all add: s4_def deattach_def Let_def quiet_fields [OF quiet_send_each])
  have us: "sv_users s4 = sv_users s" "sv_transfers s4 = (sv_transfers s)(a_file_streams c := [])"
    using quiet_fields(6) [OF q1] by (simp_all add: q4 s3_def close s0_def)
  obtain e1 where e1: "sv_effects s1 = sv_effects s @ e1" "\<forall>e \<in> set e1. sent_code e \<subseteq> ?D"
    using sends_one [of "Session_Code Disconnect" ?D s0 "a_write_stream c" "Some (a_keys c)"]
    by (cases grace) (auto simp: s1_def sends_def s0_def)
  obtain e4 where e4: "sv_effects s4 = sv_effects s3 @ e4" "\<forall>e \<in> set e4. sent_code e \<subseteq> ?D"
  proof (cases "a_screen_stream c = None")
    case False
    have "sends ?D s3 s4" using False by (simp add: s4_def sends_deattach)
    then show ?thesis using that by (auto simp: sends_def)
  qed (simp add: s4_def that [of "[]"])
  let ?ab = "map (\<lambda>(uid, t). Aborted t) (sv_transfers s (a_file_streams c))"
  let ?sc = "map Aborted (case a_screen_stream c of Some x \<Rightarrow> [x] | None \<Rightarrow> [])"
  let ?es = "e1 @ ?ab @ ?sc @ e4"
  have es: "sv_effects s4 = sv_effects s @ ?es" by (simp add: e4(1) s3_def close e1(1))
  have codes: "\<forall>e \<in> set ?es. sent_code e \<subseteq> ?D" using e1(2) e4(2) by (auto split: option.splits)
  have screen: "a_screen_stream c = Some x \<Longrightarrow> Aborted x \<in> set ?es \<and>
      (\<forall>(b, d) \<in> set (sv_conns s4). map_option at_target_id (attached_screen d) \<noteq> Some (a_id c))" for x
    by (auto simp: s4_def dest: deattach_clears)
  have files: "\<forall>(uid, x) \<in> set (sv_transfers s (a_file_streams c)). Aborted x \<in> set ?es" by force
  show ?thesis using r ro us es codes files screen by blast
qed

lemma roster_unrelated [roster_simps]:
  "roster (s\<lparr> sv_voice := v \<rparr>) = roster s" "roster (s\<lparr> sv_files := f \<rparr>) = roster s" "roster (s\<lparr> sv_uploads := u \<rparr>) = roster s"
  by (simp_all add: roster_def)

lemma roster_leave [roster_simps]: "roster (leave_session cf c s) = roster s"
  by (simp add: leave_session_def Let_def roster_simps split: option.split)

lemma removed_id:
  assumes wf: "server_wf s" and c: "map_of (sv_conns s) addr = Some (Authenticated c)"
    and rs: "roster s' = filter (\<lambda>x. fst x \<noteq> addr) (roster s)"
  shows "a_id c \<notin> set (session_ids s')"
proof
  assume "a_id c \<in> set (session_ids s')"
  then obtain b d where "(b, d) \<in> set (sv_conns s)" "b \<noteq> addr" "conn_id d = Some (a_id c)"
    unfolding session_ids_roster rs by (force simp: map_filter_set roster_def)
  moreover have "distinct (List.map_filter (\<lambda>(a, c). conn_id c) (sv_conns s))"
    using wf by (simp add: server_wf_def roster_ok_def session_ids_roster [symmetric] session_ids_def)
  ultimately show False using unique_ids [of "sv_conns s" b d addr "Authenticated c"] map_of_SomeD [OF c] by auto
qed

section \<open>Channels\<close>

lemma singleton_card: "x \<in> X \<Longrightarrow> card X = 1 \<longleftrightarrow> X = {x}"
  by (auto simp: card_1_singleton_iff)

lemma one_member:
  assumes "distinct (map fst xs)" "(a, c) \<in> set xs" "P c"
  shows "length (filter P (map snd xs)) = 1 \<longleftrightarrow> (\<forall>(b, d) \<in> set xs. P d \<longrightarrow> b = a)"
proof -
  let ?X = "{x \<in> set xs. P (snd x)}"
  have "distinct (filter (P \<circ> snd) xs)" using assms(1) by (simp add: distinct_map)
  from distinct_card [OF this] have "length (filter P (map snd xs)) = card ?X" by (simp add: filter_map)
  moreover have mem: "(a, c) \<in> ?X" using assms by simp
  moreover have "card ?X = 1 \<longleftrightarrow> ?X = {(a, c)}" by (rule singleton_card) (rule mem)
  moreover have "?X = {(a, c)} \<longleftrightarrow> (\<forall>(b, d) \<in> set xs. P d \<longrightarrow> b = a)"
  proof
    assume "?X = {(a, c)}"
    then have "\<And>x. x \<in> set xs \<Longrightarrow> P (snd x) \<Longrightarrow> x = (a, c)" by blast
    then show "\<forall>(b, d) \<in> set xs. P d \<longrightarrow> b = a" by fastforce
  next
    assume "\<forall>(b, d) \<in> set xs. P d \<longrightarrow> b = a"
    then have "x = (a, c)" if "x \<in> ?X" for x
      using that eq_key_imp_eq_value [OF assms(1,2), of "snd x"] by (cases x) auto
    then show "?X = {(a, c)}" using mem by blast
  qed
  ultimately show ?thesis by simp
qed

lemma in_channel_quiet: "quiet s = quiet t \<Longrightarrow> length (in_channel ch s) = length (in_channel ch t)"
proof -
  have eq: "length (in_channel ch s) = length (filter (\<lambda>(a, x). x = Some ch) (map (\<lambda>(a, c). (a, conn_channel c)) (sv_conns s)))"
    for s :: "('o, 'r) server"
    by (simp add: in_channel_def filter_map comp_def case_prod_unfold)
  assume "quiet s = quiet t"
  from quiet_map [of s t conn_channel, OF this] show ?thesis by (simp only: eq unnumbered_view)
qed

text \<open>A broadcast in a server with a session is a list of packets of its code that is not empty.\<close>

lemma broadcast_effects:
  assumes "(a, c) \<in> set (sv_conns s)" "conn_id c \<noteq> None"
  shows "\<exists>es. sv_effects (send_to_all code s) = sv_effects s @ es \<and> (\<Union>e \<in> set es. sent_code e) = {code}"
proof -
  let ?cs = "filter (\<lambda>c. case conn_id c of Some i \<Rightarrow> None \<noteq> Some i | None \<Rightarrow> False) (map snd (sv_conns s))"
  have "c \<in> set ?cs" using assms by (force split: option.split)
  then have ne: "?cs \<noteq> []" by (metis empty_iff empty_set)
  obtain ns where ns: "length ns = length ?cs" "sv_effects (send_to_all code s) =
      sv_effects s @ map2 (\<lambda>c n. Sent (write_stream c) code n (keys c)) ?cs ns"
    unfolding send_to_all_def send_to_all_but_def using effects_send_each by blast
  have codes: "(\<Union>e \<in> set (map2 (\<lambda>c n. Sent (write_stream c) code n (keys c)) cs ks). sent_code e) = {code}"
    if "cs \<noteq> []" "length ks = length cs" for cs and ks :: "u64 list"
    using that by (cases cs; cases ks) auto
  show ?thesis using ns(2) codes [OF ne ns(1)] by blast
qed

lemma announce_effects:
  assumes "(a, c) \<in> set (sv_conns s)" "conn_id c \<noteq> None"
  shows "\<exists>es. sv_effects (announce_move old new s) = sv_effects s @ es \<and> (\<Union>e \<in> set es. sent_code e) =
     {Lobby_Code (ChannelDestroyed ch) | ch. old = Some ch \<and> old \<noteq> new \<and> in_channel ch s = []} \<union>
     {Lobby_Code (ChannelCreated ch) | ch. new = Some ch \<and> old \<noteq> new \<and> length (in_channel ch s) = 1}"
proof (cases "old = new")
  case False
  define t where "t = (case old of
    Some ch \<Rightarrow> if in_channel ch s = [] then send_to_all (Lobby_Code (ChannelDestroyed ch)) s else s | None \<Rightarrow> s)"
  have q: "quiet t = quiet s" by (simp add: t_def split: option.split)
  obtain d where d: "(a, d) \<in> set (sv_conns t)" "conn_id d \<noteq> None"
    using quiet_member [OF q [symmetric] assms(1)] unnumbered_cong(3) assms(2) by metis
  obtain e1 where e1: "sv_effects t = sv_effects s @ e1" "(\<Union>e \<in> set e1. sent_code e) =
      {Lobby_Code (ChannelDestroyed ch) | ch. old = Some ch \<and> in_channel ch s = []}"
  proof (cases "\<exists>ch. old = Some ch \<and> in_channel ch s = []")
    case True
    then obtain ch where "old = Some ch" "in_channel ch s = []" by blast
    moreover from this have "t = send_to_all (Lobby_Code (ChannelDestroyed ch)) s" by (simp add: t_def)
    ultimately show ?thesis using that broadcast_effects [OF assms, of "Lobby_Code (ChannelDestroyed ch)"] by auto
  next
    case none: False
    then have "t = s" by (auto simp: t_def split: option.split)
    then show ?thesis using none by (intro that [of "[]"]) auto
  qed
  have move: "announce_move old new s = (case new of
      Some ch \<Rightarrow> if length (in_channel ch s) = 1 then send_to_all (Lobby_Code (ChannelCreated ch)) t else t | None \<Rightarrow> t)"
    using False unfolding announce_move_def Let_def t_def [symmetric] by (simp add: in_channel_quiet [OF q] split: option.split)
  obtain e2 where e2: "sv_effects (announce_move old new s) = sv_effects t @ e2" "(\<Union>e \<in> set e2. sent_code e) =
      {Lobby_Code (ChannelCreated ch) | ch. new = Some ch \<and> length (in_channel ch s) = 1}"
  proof (cases "\<exists>ch. new = Some ch \<and> length (in_channel ch s) = 1")
    case True
    then obtain ch where "new = Some ch" "length (in_channel ch s) = 1" by blast
    moreover from this have "announce_move old new s = send_to_all (Lobby_Code (ChannelCreated ch)) t" unfolding move by simp
    ultimately show ?thesis using that broadcast_effects [OF d, of "Lobby_Code (ChannelCreated ch)"] by auto
  next
    case none: False
    then have "announce_move old new s = t" by (auto simp: move split: option.split)
    then show ?thesis using none by (intro that [of "[]"]) auto
  qed
  show ?thesis using e1 e2 False by (intro exI [of _ "e1 @ e2"]) auto
qed (simp add: announce_move_def)

section \<open>Properties\<close>


definition one_client :: "('o, 'r) server" where
  "one_client = (let s = empty_server in register_client (1, 80) 0 7 [] 0 (s\<lparr> sv_peer := (sv_peer s)(0 \<mapsto> (1, 80)) \<rparr>))"


text \<open>
  The free id is read before the session is stored under it, in two separate accesses to the map.
  When two logins read it before either has stored its session, both sessions get the same id.
\<close>

theorem login_race:
  assumes "map_of (sv_conns s) a = Some (NonAuthenticated x)" and "map_of (sv_conns s) b = Some (NonAuthenticated y)" and "a \<noteq> b"
    and "n_keys x = Some ks" and "n_keys y = Some ks'"
  shows "\<exists>s1 s2. authenticate_client cf a name dev r (get_latest_id s) now s = Some s1 \<and>
    authenticate_client cf b name' dev' r' (get_latest_id s) now' s1 = Some s2 \<and> \<not> distinct (session_ids s2)"
proof -
  let ?i = "get_latest_id s"
  obtain c1 where c1: "promoted cf name dev r ?i (sv_next_handle s) now (NonAuthenticated x) = Some c1" "conn_id c1 = Some ?i"
    using assms(4) by (simp add: promoted_def)
  define s1 where "s1 = (alter_conn a (\<lambda>_. c1) s)\<lparr> sv_files := AList.update name [] (sv_files s),
    sv_next_handle := sv_next_handle s + 1, sv_transfers := (sv_transfers s)(sv_next_handle s := []) \<rparr>"
  obtain c2 where c2: "promoted cf name' dev' r' ?i (sv_next_handle s1) now' (NonAuthenticated y) = Some c2" "conn_id c2 = Some ?i"
    using assms(5) by (simp add: promoted_def)
  define s2 where "s2 = (alter_conn b (\<lambda>_. c2) s1)\<lparr> sv_files := AList.update name' [] (sv_files s1),
    sv_next_handle := sv_next_handle s1 + 1, sv_transfers := (sv_transfers s1)(sv_next_handle s1 := []) \<rparr>"
  have "map_of (sv_conns s1) b = Some (NonAuthenticated y)" using assms(2,3) by (simp add: s1_def map_of_alter)
  then have "authenticate_client cf b name' dev' r' ?i now' s1 = Some s2"
    using c2(1) by (simp add: authenticate_client_def s2_def Let_def)
  moreover have "authenticate_client cf a name dev r ?i now s = Some s1"
    using assms(1) c1(1) by (simp add: authenticate_client_def s1_def Let_def)
  moreover have "\<not> distinct (session_ids s2)"
  proof -
    have "map_of (sv_conns s2) a = Some c1" "map_of (sv_conns s2) b = Some c2"
      using assms by (simp_all add: s1_def s2_def map_of_alter)
    then have "(a, c1) \<in> set (sv_conns s2)" "(b, c2) \<in> set (sv_conns s2)" by (simp_all add: map_of_SomeD)
    then show ?thesis using unique_ids [of "sv_conns s2" a c1 b c2 ?i] c1(2) c2(2) assms(3) by (auto simp: session_ids_def)
  qed
  ultimately show ?thesis by blast
qed

definition waiting :: "nat \<Rightarrow> non_authenticated" where
  "waiting h = \<lparr> n_write_stream = h, n_task = h, n_peer_addr = (h, 80), n_username = None, n_keys = Some ([], []),
     n_obfuscation_key = [], n_last_activity = 0, n_seq = 0, n_connect = 0 \<rparr>"

definition plain_config :: server_config where
  "plain_config = \<lparr> voice_chat_enabled = True, show_offline_users = True, persistent_messages = True,
     message_timestamps = True, history_page = 10, max_history_size = 1000, min_password_length = 8, min_message_delay = 0,
     max_packet_burst = Fin 10, communication_time = 600, max_auth_time = 60 \<rparr>"

theorem login_race_witness:
  "\<exists>s1 s2 :: ('o, 'r) server. \<not> distinct (session_ids s2) \<and>
     authenticate_client plain_config (1, 80) (ustr ''ann'') None User 0 5
       (empty_server\<lparr> sv_conns := [((1, 80), NonAuthenticated (waiting 1)), ((2, 80), NonAuthenticated (waiting 2))] \<rparr>) = Some s1 \<and>
     authenticate_client plain_config (2, 80) (ustr ''bob'') None User 0 6 s1 = Some s2"
proof -
  let ?s = "empty_server\<lparr> sv_conns := [((1, 80), NonAuthenticated (waiting 1)), ((2, 80), NonAuthenticated (waiting 2))] \<rparr> :: ('o, 'r) server"
  have "get_latest_id ?s = 0"
    by (simp add: get_latest_id_def session_ids_def List.map_filter_def first_unused.simps)
  then show ?thesis
    using login_race [of ?s "(1, 80)" "waiting 1" "(2, 80)" "waiting 2" "([], [])" "([], [])" plain_config "ustr ''ann''" None User 5
        "ustr ''bob''" None User 6]
    by (auto simp: waiting_def)
qed

text \<open>
  C31 (removal_complete). Removing a session leaves nothing of it: its entry and its id are free, its transfers and its
  screen share are aborted and its viewers detached, its files, uploads, voice slot and directory are gone and nobody
  can reply to it any more; every session that remains is told that it left; its own task is aborted last; and no packet
  other than these notices is sent.
\<close>

theorem removal_complete:
  assumes "server_wf s" and "map_of (sv_conns s) addr = Some (Authenticated c)"
  shows "case remove_connection cf addr grace s of s' \<Rightarrow>
    server_wf s' \<and> map fst (sv_conns s') = filter (\<lambda>a. a \<noteq> addr) (map fst (sv_conns s)) \<and> a_id c \<notin> set (session_ids s') \<and>
    (\<forall>(b, d) \<in> set (sv_conns s'). last_pm d \<noteq> Some (a_id c) \<and>
       (a_screen_stream c \<noteq> None \<longrightarrow> map_option at_target_id (attached_screen d) \<noteq> Some (a_id c)) \<and>
       (conn_id d \<noteq> None \<longrightarrow> (\<exists>n. Sent (write_stream d)
          (Session_Code (Leave (a_username c) (a_id c) (users_contains (sv_users s) (a_username c)))) n (keys d)
          \<in> set (sv_effects s')))) \<and>
    sv_transfers s' (a_file_streams c) = [] \<and> map_of (sv_files s') (a_username c) = None \<and>
    (\<forall>(uid, i) \<in> set (sv_uploads s'). i \<noteq> a_id c) \<and> (voice_chat_enabled cf \<longrightarrow> map_of (sv_voice s') (a_id c) = None) \<and>
    (\<exists>es. sv_effects s' = sv_effects s @ es @ [Aborted (a_task c)] \<and>
       (\<forall>(uid, x) \<in> set (sv_transfers s (a_file_streams c)). Aborted x \<in> set es) \<and>
       (\<forall>x. a_screen_stream c = Some x \<longrightarrow> Aborted x \<in> set es) \<and>
       (\<forall>e \<in> set es. sent_code e \<subseteq> {Session_Code Disconnect, Media_Code (Deattach (a_username c)),
          Media_Code (Deattached (a_username c)),
          Session_Code (Leave (a_username c) (a_id c) (users_contains (sv_users s) (a_username c)))}))"
proof -
  let ?leave = "Session_Code (Leave (a_username c) (a_id c) (users_contains (sv_users s) (a_username c)))"
  let ?s = "remove_connection cf addr grace s"
  from remove_connection_stages [OF assms, of cf grace] obtain t es where
    r: "?s = emit (Aborted (a_task c)) (leave_session cf c t)" and
    ro: "roster t = filter (\<lambda>x. fst x \<noteq> addr) (roster s)" and us: "sv_users t = sv_users s" and
    ts: "sv_transfers t = (sv_transfers s)(a_file_streams c := [])" and es: "sv_effects t = sv_effects s @ es" and
    codes: "\<forall>e \<in> set es. sent_code e \<subseteq> {Session_Code Disconnect, Media_Code (Deattach (a_username c))}" and
    files: "\<forall>(uid, x) \<in> set (sv_transfers s (a_file_streams c)). Aborted x \<in> set es" and
    screen: "\<forall>x. a_screen_stream c = Some x \<longrightarrow> Aborted x \<in> set es \<and>
       (\<forall>(b, d) \<in> set (sv_conns t). map_option at_target_id (attached_screen d) \<noteq> Some (a_id c))"
    by blast
  from leave_session_last [of cf c t] us obtain u where
    u: "leave_session cf c t = send_to_all ?leave u" "sends {Media_Code (Deattached (a_username c))} t u" and
    members: "\<forall>(b, d) \<in> set (sv_conns u). last_pm d \<noteq> Some (a_id c) \<and>
        (\<exists>e. (b, e) \<in> set (sv_conns t) \<and> attached_screen d = attached_screen e)"
    by auto
  have rs: "roster ?s = filter (\<lambda>x. fst x \<noteq> addr) (roster s)" by (simp add: r roster_simps ro)
  have keys: "map fst (sv_conns ?s) = filter (\<lambda>a. a \<noteq> addr) (map fst (sv_conns s))"
    unfolding keys_roster rs by (simp add: filter_map comp_def)
  have mem: "last_pm d \<noteq> Some (a_id c) \<and> (a_screen_stream c \<noteq> None \<longrightarrow> map_option at_target_id (attached_screen d) \<noteq> Some (a_id c)) \<and>
      (conn_id d \<noteq> None \<longrightarrow> (\<exists>n. Sent (write_stream d) ?leave n (keys d) \<in> set (sv_effects ?s)))"
    if d: "(b, d) \<in> set (sv_conns ?s)" for b d
  proof -
    have "(b, d) \<in> set (sv_conns (send_to_all ?leave u))" using d by (simp add: r u(1) emit_def)
    then obtain e where e: "(b, e) \<in> set (sv_conns u)" "unnumbered e = unnumbered d" using quiet_member quiet_broadcast(1) by metis
    have "\<exists>n. Sent (write_stream e) ?leave n (keys e) \<in> set (sv_effects ?s)" if "conn_id e \<noteq> None"
      using sent_to_all [OF e(1) that, of ?leave] by (auto simp: r u(1) emit_def)
    moreover have "last_pm e \<noteq> Some (a_id c)" "\<exists>f. (b, f) \<in> set (sv_conns t) \<and> attached_screen e = attached_screen f"
      using members e(1) by auto
    ultimately show ?thesis using screen unnumbered_cong [OF e(2)] by fastforce
  qed
  have gone: "sv_transfers ?s (a_file_streams c) = []" "map_of (sv_files ?s) (a_username c) = None"
    "\<forall>(uid, i) \<in> set (sv_uploads ?s). i \<noteq> a_id c" "voice_chat_enabled cf \<longrightarrow> map_of (sv_voice ?s) (a_id c) = None"
    using leave_session_clears [where cf = cf and c = c and s = t] by (auto simp: r emit_def ts)
  obtain e2 e3 where "sv_effects u = sv_effects t @ e2" "\<forall>e \<in> set e2. sent_code e \<subseteq> {Media_Code (Deattached (a_username c))}"
      "sv_effects (send_to_all ?leave u) = sv_effects u @ e3" "\<forall>e \<in> set e3. sent_code e \<subseteq> {?leave}"
    using u(2) sends_broadcast(1) [of ?leave "{?leave}" u] by (auto simp: sends_def)
  then have "sv_effects ?s = sv_effects s @ (es @ e2 @ e3) @ [Aborted (a_task c)]" "\<forall>e \<in> set (es @ e2 @ e3). sent_code e \<subseteq>
      {Session_Code Disconnect, Media_Code (Deattach (a_username c)), Media_Code (Deattached (a_username c)), ?leave}"
    using codes by (auto simp: r u(1) emit_def es)
  moreover have "\<forall>(uid, x) \<in> set (sv_transfers s (a_file_streams c)). Aborted x \<in> set (es @ e2 @ e3)"
    "\<forall>x. a_screen_stream c = Some x \<longrightarrow> Aborted x \<in> set (es @ e2 @ e3)" using files screen by auto
  ultimately show ?thesis
    using wf_remove_connection [OF assms(1)] keys removed_id [OF assms rs] mem gone by blast
qed

text \<open>One session alone in a registry.\<close>

definition member :: authenticated where
  "member = \<lparr> a_write_stream = 1, a_task = 9, a_file_streams = 0, a_screen_stream = Some 8, a_peer_addr = (1, 80),
     a_username = ustr ''ann'', a_device = None, a_role = User, a_id = 0, a_keys = ([], []), a_attached_screen = None,
     a_last_activity = 0, a_last_key_exchange = 0, a_last_image = 0, a_last_typing = 0, a_last_pm = None,
     a_spam_violations = 0, a_credit = Fin 0, a_refill = 0, a_throttles = 0, a_channel = None, a_seq = 0,
     a_server_seq = 0, a_alive = True, a_muted = False \<rparr>"

definition alone :: "('o, 'r) server" where
  "alone = empty_server\<lparr> sv_conns := [((1, 80), Authenticated member)], sv_peer := [1 \<mapsto> (1, 80)] \<rparr>"

lemma alone_wf: "server_wf alone" "map_of (sv_conns alone) (1, 80) = Some (Authenticated member)"
  by (simp_all add: alone_def empty_server_def server_wf_def roster_def roster_ok_def member_def List.map_filter_def)

theorem removal_complete_witness:
  "map fst (sv_conns (remove_connection plain_config (1, 80) True (alone :: ('o, 'r) server))) = []"
proof -
  have "map fst (sv_conns (remove_connection plain_config (1, 80) True (alone :: ('o, 'r) server))) =
      filter (\<lambda>a. a \<noteq> (1, 80)) (map fst (sv_conns (alone :: ('o, 'r) server)))"
    using removal_complete [OF alone_wf, of plain_config True] by blast
  then show ?thesis by (simp add: alone_def)
qed

text \<open>
  Moving to another channel announces the new one exactly when nobody was in it, and the
  destruction of the old one exactly when nobody else is left in it; nothing is announced otherwise.
\<close>

theorem channel_announcements:
  assumes "server_wf s" and "map_of (sv_conns s) addr = Some (Authenticated c)"
  shows "\<exists>s' es. update_client_channel addr new now s = Some s' \<and> sv_effects s' = sv_effects s @ es \<and>
    (\<Union>e \<in> set es. sent_code e) =
      {Lobby_Code (ChannelDestroyed ch) | ch. a_channel c = Some ch \<and> new \<noteq> Some ch \<and>
         (\<forall>(b, d) \<in> set (sv_conns s). b \<noteq> addr \<longrightarrow> conn_channel d \<noteq> Some ch)} \<union>
      {Lobby_Code (ChannelCreated ch) | ch. new = Some ch \<and> a_channel c \<noteq> Some ch \<and>
         (\<forall>(b, d) \<in> set (sv_conns s). b \<noteq> addr \<longrightarrow> conn_channel d \<noteq> Some ch)}"
proof -
  define c' where "c' = Authenticated (c\<lparr> a_last_activity := now, a_channel := new, a_alive := True \<rparr>)"
  define t where "t = alter_conn addr (\<lambda>_. c') s"
  have u: "update_client_channel addr new now s = Some (announce_move (a_channel c) new t)"
    by (simp add: update_client_channel_def assms(2) c'_def t_def)
  have d: "distinct (map fst (sv_conns s))" using assms(1) by (simp add: keys_roster server_wf_def roster_ok_def)
  have dt: "distinct (map fst (sv_conns t))" using d by (simp add: t_def alter_conn_def case_prod_unfold comp_def)
  have mem: "(addr, c') \<in> set (sv_conns t)" using map_of_alter [of addr "\<lambda>_. c'" s addr] assms(2)
    by (intro map_of_SomeD) (simp add: t_def)
  have others: "(b, e) \<in> set (sv_conns t) \<and> b \<noteq> addr \<longleftrightarrow> (b, e) \<in> set (sv_conns s) \<and> b \<noteq> addr" for b e
    by (force simp: t_def alter_conn_def)
  have only: "e = c'" if "(addr, e) \<in> set (sv_conns t)" for e
    using map_of_is_SomeI [OF dt that] map_of_is_SomeI [OF dt mem] by simp
  have set_t: "set (sv_conns t) = insert (addr, c') {x \<in> set (sv_conns s). fst x \<noteq> addr}"
  proof (rule set_eqI)
    fix x show "x \<in> set (sv_conns t) \<longleftrightarrow> x \<in> insert (addr, c') {x \<in> set (sv_conns s). fst x \<noteq> addr}"
      using others [of "fst x" "snd x"] only [of "snd x"] mem by (cases "fst x = addr"; cases x) auto
  qed
  have ch': "conn_channel c' = new" by (simp add: c'_def)
  have empty: "in_channel ch t = [] \<longleftrightarrow> (\<forall>(b, e) \<in> set (sv_conns s). b \<noteq> addr \<longrightarrow> conn_channel e \<noteq> Some ch)" if "new \<noteq> Some ch" for ch
    using that by (auto simp: in_channel_def filter_empty_conv set_t ch')
  have single: "length (in_channel ch t) = 1 \<longleftrightarrow> (\<forall>(b, e) \<in> set (sv_conns s). b \<noteq> addr \<longrightarrow> conn_channel e \<noteq> Some ch)"
    if "new = Some ch" for ch
    using one_member [OF dt mem, of "\<lambda>e. conn_channel e = Some ch"] that ch' by (auto simp: in_channel_def set_t)
  obtain es where es: "sv_effects (announce_move (a_channel c) new t) = sv_effects t @ es" "(\<Union>e \<in> set es. sent_code e) =
     {Lobby_Code (ChannelDestroyed ch) | ch. a_channel c = Some ch \<and> a_channel c \<noteq> new \<and> in_channel ch t = []} \<union>
     {Lobby_Code (ChannelCreated ch) | ch. new = Some ch \<and> a_channel c \<noteq> new \<and> length (in_channel ch t) = 1}"
    using announce_effects [OF mem, of "a_channel c" new] by (auto simp: c'_def)
  show ?thesis
  proof (intro exI conjI)
    show "sv_effects (announce_move (a_channel c) new t) = sv_effects s @ es" using es(1) by (simp add: t_def alter_conn_def)
  qed (use u es(2) empty single in auto)
qed

theorem channel_announcements_witness:
  "\<exists>(s' :: ('o, 'r) server) es. update_client_channel (1, 80) (Some (ustr ''den'')) 5 alone = Some s' \<and>
     sv_effects s' = sv_effects (alone :: ('o, 'r) server) @ es \<and>
     (\<Union>e \<in> set es. sent_code e) = {Lobby_Code (ChannelCreated (ustr ''den''))}"
proof -
  have "{Lobby_Code (ChannelDestroyed ch) | ch. a_channel member = Some ch \<and> Some (ustr ''den'') \<noteq> Some ch \<and>
         (\<forall>(b, d) \<in> set (sv_conns (alone :: ('o, 'r) server)). b \<noteq> (1, 80) \<longrightarrow> conn_channel d \<noteq> Some ch)} \<union>
      {Lobby_Code (ChannelCreated ch) | ch. Some (ustr ''den'') = Some ch \<and> a_channel member \<noteq> Some ch \<and>
         (\<forall>(b, d) \<in> set (sv_conns (alone :: ('o, 'r) server)). b \<noteq> (1, 80) \<longrightarrow> conn_channel d \<noteq> Some ch)} =
      {Lobby_Code (ChannelCreated (ustr ''den'')) :: ('o, 'r) packet_code}"
    by (auto simp: alone_def member_def)
  with channel_announcements [OF alone_wf, of "Some (ustr ''den'')" 5] show ?thesis by metis
qed

end
