(* ===== verification/Wire.thy ===== *)
theory Wire
  imports Registry
begin

text \<open>
  The packet layer of \<open>chat/src/network/mod.rs\<close> on the server: framing with a length prefix, the three protections of
  a payload, and \<open>receive\<close>, which checks the sequence number and holds a client to its limits. A socket is the list of
  the bytes that arrive before it closes. The \<open>wincode\<close> codec of packets is a parameter; the instants that the code reads
  from the clock are arguments.
\<close>

section \<open>Parameters and data\<close>

record ('o, 'r) wire_codec =
  wc_encode :: "('o, 'r) packet_code \<times> u64 \<Rightarrow> u8 list"
  wc_decode :: "u8 list \<Rightarrow> (('o, 'r) packet_code \<times> u64) option"

text \<open>A packet is read back from the front of its bytes, whatever follows, such as the padding of a block.\<close>

definition codec_reads :: "('o, 'r) wire_codec \<Rightarrow> ('o, 'r) packet_code \<times> u64 \<Rightarrow> bool" where
  "codec_reads K p \<longleftrightarrow> (\<forall>rest. wc_decode K (wc_encode K p @ rest) = Some p)"

datatype encryption_mode = OneShot "shared_keys option" | Streamed packet_stream

record police_config =
  pc_server :: server_config
  spam_protection :: bool
  max_packet_size :: nat
  max_message_length :: nat
  max_message_delay_violations :: u64
  max_packet_rate :: f32
  max_packet_rate_violations :: u64

definition MEGABYTE :: nat where "MEGABYTE = 1000000"
definition UPLOAD_CHUNK_SIZE :: nat where "UPLOAD_CHUNK_SIZE = MEGABYTE"
definition MAX_AUXILIARY_PACKET_SIZE :: nat where "MAX_AUXILIARY_PACKET_SIZE = UPLOAD_CHUNK_SIZE * 2"
definition MAX_PACKET_CEILING :: nat where "MAX_PACKET_CEILING = 16 * MEGABYTE"

section \<open>Protecting and framing\<close>

definition obfuscate_data :: "u8 list \<Rightarrow> u8 list \<Rightarrow> u8 list" where
  "obfuscate_data content key = map (\<lambda>i. content ! i XOR key ! (i mod length key)) [0..<length content]"

definition u32_to_be_bytes :: "u32 \<Rightarrow> u8 list" where
  "u32_to_be_bytes w = map (\<lambda>k. ucast (drop_bit (8 * (3 - k)) w)) [0..<4]"

definition u32_from_be_bytes :: "u8 list \<Rightarrow> u32" where
  "u32_from_be_bytes bs = foldl (\<lambda>acc b. push_bit 8 acc OR ucast b) 0 bs"

text \<open>The obfuscation key and the seed of the nonce are arguments.\<close>

definition protect ::
  "('v, 'w) chat_env \<Rightarrow> encryption_mode \<Rightarrow> u8 list \<Rightarrow> u8 list option \<Rightarrow> u8 list \<Rightarrow> fault + (u8 list \<times> encryption_mode)" where
  "protect C mode obf seed packet_bytes = (case mode of
     OneShot (Some ks) \<Rightarrow> rbind (encrypt_packet C GW GH packet_bytes ks seed) (\<lambda>bytes. Inr (bytes, mode))
   | OneShot None \<Rightarrow> Inr (obfuscate_data packet_bytes obf, mode)
   | Streamed st \<Rightarrow> rbind (seal C st packet_bytes) (\<lambda>(bytes, st'). Inr (bytes, Streamed st')))"

definition send_tcp ::
  "('v, 'w) chat_env \<Rightarrow> ('o, 'r) wire_codec \<Rightarrow> encryption_mode \<Rightarrow> u8 list \<Rightarrow> u8 list option \<Rightarrow> ('o, 'r) packet_code \<times> u64
     \<Rightarrow> fault + (u8 list \<times> encryption_mode)" where
  "send_tcp C K mode obf seed packet = rbind (protect C mode obf seed (wc_encode K packet)) (\<lambda>(final_bytes, mode').
     Inr (u32_to_be_bytes (of_nat (length final_bytes)) @ final_bytes, mode'))"

definition unprotect ::
  "('v, 'w) chat_env \<Rightarrow> encryption_mode \<Rightarrow> u8 list \<Rightarrow> u8 list \<Rightarrow> fault + (u8 list option \<times> encryption_mode)" where
  "unprotect C mode obf decoded_packet = (case mode of
     OneShot (Some ks) \<Rightarrow> rbind (decrypt_packet C GW GH decoded_packet ks) (\<lambda>plain. Inr (plain, mode))
   | OneShot None \<Rightarrow> Inr (Some (obfuscate_data decoded_packet obf), mode)
   | Streamed st \<Rightarrow> rbind (open_packet C st decoded_packet) (\<lambda>(plain, st'). Inr (plain, Streamed st')))"

text \<open>\<open>read_exact\<close> fails when the socket closes first.\<close>

definition read_exact :: "nat \<Rightarrow> u8 list \<Rightarrow> (u8 list \<times> u8 list) option" where
  "read_exact n input = (if n \<le> length input then Some (take n input, drop n input) else None)"

definition packet_limit :: "police_config \<Rightarrow> bool \<Rightarrow> bool \<Rightarrow> nat" where
  "packet_limit pc auxiliary auth = (if auxiliary then MAX_AUXILIARY_PACKET_SIZE
     else if \<not> spam_protection pc \<and> auth then MAX_PACKET_CEILING else max_packet_size pc)"

definition known_key :: "sock_addr \<Rightarrow> ('o, 'r) server \<Rightarrow> u8 list" where
  "known_key addr s = (case Option.bind (map_of (sv_conns s) addr) obfuscation_key of Some k \<Rightarrow> k | None \<Rightarrow> replicate 32 0)"

text \<open>The result: the payload if there is one, what is left of the socket, the protection and the server after it.\<close>

definition read_tcp ::
  "('v, 'w) chat_env \<Rightarrow> police_config \<Rightarrow> bool \<Rightarrow> sock_addr \<Rightarrow> encryption_mode \<Rightarrow> u8 list \<Rightarrow> ('o, 'r) server
     \<Rightarrow> fault + (u8 list option \<times> u8 list \<times> encryption_mode \<times> ('o, 'r) server)" where
  "read_tcp C pc auxiliary addr mode input s =
     (let auth = (case map_of (sv_conns s) addr of Some c \<Rightarrow> is_authenticated c | None \<Rightarrow> False);
          limit = packet_limit pc auxiliary auth;
          close = (\<lambda>grace. remove_connection (pc_server pc) addr grace s)
      in case read_exact 4 input of
           None \<Rightarrow> Inr (None, [], mode, close False)
         | Some (len_buf, rest) \<Rightarrow>
             let len = unat (u32_from_be_bytes len_buf)
             in if limit < len then Inr (None, rest, mode, close True)
                else case read_exact len rest of
                  None \<Rightarrow> Inr (None, [], mode, close False)
                | Some (decoded_packet, rest) \<Rightarrow>
                    rbind (unprotect C mode (known_key addr s) decoded_packet) (\<lambda>(plain, mode'). Inr (plain, rest, mode', s)))"

section \<open>Receiving\<close>

text \<open>Control characters are taken out of typed text, except for line feeds; a tab becomes a blank.\<close>

definition strip_char :: "u32 \<Rightarrow> u32 option" where
  "strip_char c = (if c = 0x0A then Some c else if c = 0x09 then Some 0x20 else if is_control c then None else Some c)"

definition strip_text :: "ustr \<Rightarrow> ustr" where
  "strip_text txt = (if list_ex (\<lambda>c. is_control c \<and> c \<noteq> 0x0A) txt then List.map_filter strip_char txt else txt)"

fun strip_code :: "('o, 'r) packet_code \<Rightarrow> ('o, 'r) packet_code" where
  "strip_code (Chat_Code (MessageRequest txt reply)) = Chat_Code (MessageRequest (strip_text txt) reply)"
| "strip_code (Chat_Code (PrivateMessageRequest txt i)) = Chat_Code (PrivateMessageRequest (strip_text txt) i)"
| "strip_code (Chat_Code (chat_code.Re txt)) = Chat_Code (chat_code.Re (strip_text txt))"
| "strip_code (Chat_Code (EditRequest i txt)) = Chat_Code (EditRequest i (strip_text txt))"
| "strip_code code = code"

text \<open>The text whose length and pace are limited.\<close>

fun limited_text :: "('o, 'r) packet_code \<Rightarrow> ustr option" where
  "limited_text (Chat_Code (MessageRequest txt _)) = Some txt"
| "limited_text (Chat_Code (PrivateMessageRequest txt _)) = Some txt"
| "limited_text (Chat_Code (EditRequest _ txt)) = Some txt"
| "limited_text code = None"

fun unmetered :: "('o, 'r) packet_code \<Rightarrow> bool" where
  "unmetered (Session_Code KeepAlive) = True"
| "unmetered (Session_Code (KeyExchangeOffer _)) = True"
| "unmetered (Session_Code (KeyExchangeReply _)) = True"
| "unmetered code = False"

text \<open>Message length and gap: the connection, whether to warn and whether to disconnect. \<open>None\<close> is a panic.\<close>

definition check_message ::
  "police_config \<Rightarrow> instant \<Rightarrow> instant \<Rightarrow> ustr option \<Rightarrow> connection \<Rightarrow> (connection \<times> bool \<times> bool) option" where
  "check_message pc now now' txt c = (case txt of
     None \<Rightarrow> Some (c, False, False)
   | Some t \<Rightarrow>
       let long = max_message_length pc < str_len t;
           fast = (\<not> long \<and> spam_protection pc \<and> is_authenticated c \<and>
             now - last_activity c < min_message_delay (pc_server pc) * 1000000)
       in Option.bind (if fast then spam_violations_mut (\<lambda>v. v + 1) c else Some c) (\<lambda>c.
          Option.bind (if fast then map_option (\<lambda>v. max_message_delay_violations pc < v) (spam_violations c) else Some long) (\<lambda>disconnect.
          map_option (\<lambda>c. (c, fast, disconnect)) (last_activity_mut (\<lambda>_. now') c))))"

text \<open>The packet rate: the connection, how long to wait and whether to disconnect.\<close>

definition check_rate ::
  "police_config \<Rightarrow> instant \<Rightarrow> instant \<Rightarrow> bool \<Rightarrow> ('o, 'r) packet_code \<Rightarrow> connection \<Rightarrow> (connection \<times> nat \<times> bool) option" where
  "check_rate pc now now' disconnect code c =
     (if disconnect \<or> \<not> spam_protection pc \<or> unmetered code then Some (c, 0, disconnect)
      else map_option (\<lambda>(c, wait). (c, wait, wait \<noteq> 0 \<and>
             max_packet_rate_violations pc < (case throttles c of Some n \<Rightarrow> n | None \<Rightarrow> 0)))
           (take_credit now now' (max_packet_rate pc) (max_packet_burst (pc_server pc)) c))"

text \<open>The sequence number; without a grace the client is not told.\<close>

definition check_seq :: "u64 \<Rightarrow> connection \<Rightarrow> (connection \<times> bool) option" where
  "check_seq n c = (if seq c < n then map_option (\<lambda>c. (c, True)) (seq_mut (\<lambda>_. n) c) else Some (c, False))"

record verdict =
  vd_conn :: connection
  vd_warn :: "shared_keys option option"
  vd_disconnect :: bool
  vd_grace :: bool
  vd_wait :: nat

definition police ::
  "police_config \<Rightarrow> instant \<times> instant \<times> instant \<times> instant \<Rightarrow> ('o, 'r) packet_code \<Rightarrow> u64 \<Rightarrow> connection \<Rightarrow> verdict option" where
  "police pc clock code n c = (case clock of (t1, t2, t3, t4) \<Rightarrow>
     Option.bind (check_message pc t1 t2 (limited_text code) c) (\<lambda>(c1, warn, disconnect).
     Option.bind (check_rate pc t3 t4 disconnect code c1) (\<lambda>(c2, wait, disconnect).
     map_option (\<lambda>(c3, ok). \<lparr> vd_conn = c3, vd_warn = (if warn then Some (keys c) else None),
       vd_disconnect = (disconnect \<or> \<not> ok), vd_grace = ok, vd_wait = wait \<rparr>) (check_seq n c2))))"

text \<open>What is sent and removed after the entry of the connection is stored.\<close>

definition enforce ::
  "police_config \<Rightarrow> sock_addr \<Rightarrow> handle \<Rightarrow> verdict \<Rightarrow> ('o, 'r) server \<Rightarrow> ('o, 'r) server" where
  "enforce pc addr h v s =
     (let s = alter_conn addr (\<lambda>_. vd_conn v) s;
          s = (case vd_warn v of Some ks \<Rightarrow> send h (Lobby_Code SpamWarning) ks s | None \<Rightarrow> s)
      in if vd_disconnect v then remove_connection (pc_server pc) addr (vd_grace v) s else s)"

text \<open>\<open>receive\<close> on the main connection: the code if the packet is accepted, and how long the reader sleeps.\<close>

definition receive ::
  "('v, 'w) chat_env \<Rightarrow> ('o, 'r) wire_codec \<Rightarrow> police_config \<Rightarrow> instant \<times> instant \<times> instant \<times> instant \<Rightarrow> sock_addr \<Rightarrow> handle
     \<Rightarrow> shared_keys option \<Rightarrow> u8 list \<Rightarrow> ('o, 'r) server
     \<Rightarrow> fault + (('o, 'r) packet_code option \<times> nat \<times> u8 list \<times> ('o, 'r) server)" where
  "receive C K pc clock addr h ks input s =
     rbind (read_tcp C pc False addr (OneShot ks) input s) (\<lambda>(read, rest, mode, s).
     case read of
       None \<Rightarrow> Inr (None, 0, rest, s)
     | Some bytes \<Rightarrow> (case wc_decode K bytes of
         None \<Rightarrow> Inr (None, 0, rest, remove_connection (pc_server pc) addr False s)
       | Some (code, n) \<Rightarrow>
           let code = strip_code code
           in case map_of (sv_conns s) addr of
                None \<Rightarrow> Inr (Some code, 0, rest, s)
              | Some c \<Rightarrow> (case police pc clock code n c of
                  None \<Rightarrow> Inl Panic
                | Some v \<Rightarrow> Inr (if vd_disconnect v then None else Some code, vd_wait v, rest, enforce pc addr h v s))))"

text \<open>\<open>receive\<close> with a local counter, on auxiliary sockets.\<close>

definition receive_local ::
  "('v, 'w) chat_env \<Rightarrow> ('o, 'r) wire_codec \<Rightarrow> police_config \<Rightarrow> sock_addr \<Rightarrow> shared_keys option \<Rightarrow> u64 \<Rightarrow> u8 list \<Rightarrow> ('o, 'r) server
     \<Rightarrow> fault + (('o, 'r) packet_code option \<times> u64 \<times> u8 list \<times> ('o, 'r) server)" where
  "receive_local C K pc addr ks local_seq input s =
     rbind (read_tcp C pc False addr (OneShot ks) input s) (\<lambda>(read, rest, mode, s).
     case read of
       None \<Rightarrow> Inr (None, local_seq, rest, s)
     | Some bytes \<Rightarrow> (case wc_decode K bytes of
         None \<Rightarrow> Inr (None, local_seq, rest, remove_connection (pc_server pc) addr False s)
       | Some (code, n) \<Rightarrow> if local_seq < n then Inr (Some (strip_code code), n, rest, s) else Inr (None, local_seq, rest, s)))"

section \<open>Frames\<close>

lemma length_obfuscate [simp]: "length (obfuscate_data xs k) = length xs"
  by (simp add: obfuscate_data_def)

lemma obfuscate_involution [simp]: "obfuscate_data (obfuscate_data xs k) k = xs"
  by (rule nth_equalityI) (simp_all add: obfuscate_data_def xor.assoc)

lemma length_u32_bytes [simp]: "length (u32_to_be_bytes w) = 4"
  by (simp add: u32_to_be_bytes_def)

lemma u32_bytes_roundtrip [simp]: "u32_from_be_bytes (u32_to_be_bytes w) = w"
proof (rule bit_word_eqI)
  fix n assume n: "n < LENGTH(32)"
  have "u32_to_be_bytes w = [ucast (drop_bit 24 w), ucast (drop_bit 16 w), ucast (drop_bit 8 w), ucast w]"
    by (simp add: u32_to_be_bytes_def upt_rec)
  then have "u32_from_be_bytes (u32_to_be_bytes w) = push_bit 8 (push_bit 8 (push_bit 8 (ucast (ucast (drop_bit 24 w) :: u8)) OR
      ucast (ucast (drop_bit 16 w) :: u8)) OR ucast (ucast (drop_bit 8 w) :: u8)) OR ucast (ucast w :: u8)"
    by (simp add: u32_from_be_bytes_def)
  then show "bit (u32_from_be_bytes (u32_to_be_bytes w)) n = bit w n"
    using n by (cases "n < 8"; cases "n < 16"; cases "n < 24") (auto simp: bit_simps)
qed

lemma read_frame:
  assumes "length bytes < 2 ^ 32"
  shows "read_exact 4 (u32_to_be_bytes (of_nat (length bytes)) @ bytes @ rest) =
      Some (u32_to_be_bytes (of_nat (length bytes)), bytes @ rest)"
    "unat (of_nat (length bytes) :: u32) = length bytes" "read_exact (length bytes) (bytes @ rest) = Some (bytes, rest)"
  using assms by (simp_all add: read_exact_def unsigned_of_nat take_bit_nat_eq_self)

text \<open>Keys as the handshake makes them and a stream between two packets.\<close>

fun mode_ok :: "encryption_mode \<Rightarrow> bool" where
  "mode_ok (OneShot None) = True"
| "mode_ok (OneShot (Some ks)) = (length (snd ks) = 32)"
| "mode_ok (Streamed st) = ps_ok st"

lemma unprotect_protect:
  assumes C: "chat_ok C" and m: "mode_ok mode"
  shows "\<exists>bytes mode' k. protect C mode obf (Some seed) plain = Inr (bytes, mode') \<and> mode_ok mode' \<and>
    unprotect C mode obf bytes = Inr (Some (plain @ replicate k 0), mode')"
proof (cases mode rule: mode_ok.cases)
  case 1
  then have "protect C mode obf (Some seed) plain = Inr (obfuscate_data plain obf, mode)"
    "unprotect C mode obf (obfuscate_data plain obf) = Inr (Some (plain @ replicate 0 0), mode)" "mode_ok mode"
    by (simp_all add: protect_def unprotect_def)
  then show ?thesis by blast
next
  case (2 ks)
  obtain enc k where "encrypt_packet C GW GH plain ks (Some seed) = Inr enc"
      "decrypt_packet C GW GH enc ks = Inr (Some (plain @ replicate k 0))"
    using decrypt_encrypt_packet [OF C default_dims(1,2), of ks plain seed] m default_dims(3) by (auto simp: 2)
  then have "protect C mode obf (Some seed) plain = Inr (enc, mode)"
    "unprotect C mode obf enc = Inr (Some (plain @ replicate k 0), mode)" "mode_ok mode"
    using m by (simp_all add: protect_def unprotect_def 2)
  then show ?thesis by blast
next
  case (3 st)
  have st: "ps_ok st" using m by (simp add: 3)
  obtain bytes st' where "seal C st plain = Inr (bytes, st')" "open_packet C st bytes = Inr (Some plain, st')" "ps_ok st'"
    using seal_eq [OF C st, of plain] open_seal_frame [OF C st, of "xor_bytes (ps_ks st) plain"] ps_ok_next [OF st, of "length plain"]
    by (auto simp: xor_bytes_cancel)
  then have "protect C mode obf (Some seed) plain = Inr (bytes, Streamed st')"
    "unprotect C mode obf bytes = Inr (Some (plain @ replicate 0 0), Streamed st')" "mode_ok (Streamed st')"
    by (simp_all add: protect_def unprotect_def 3)
  then show ?thesis by blast
qed

text \<open>Sending and reading several packets over one socket.\<close>

fun send_packets ::
  "('v, 'w) chat_env \<Rightarrow> ('o, 'r) wire_codec \<Rightarrow> encryption_mode \<Rightarrow> u8 list \<Rightarrow> (u8 list \<times> ('o, 'r) packet_code \<times> u64) list
     \<Rightarrow> fault + (u8 list list \<times> encryption_mode)" where
  "send_packets C K mode obf [] = Inr ([], mode)"
| "send_packets C K mode obf ((seed, p) # ps) = rbind (send_tcp C K mode obf (Some seed) p) (\<lambda>(frame, mode).
     rbind (send_packets C K mode obf ps) (\<lambda>(frames, mode). Inr (frame # frames, mode)))"

fun read_packets ::
  "('v, 'w) chat_env \<Rightarrow> ('o, 'r) wire_codec \<Rightarrow> police_config \<Rightarrow> bool \<Rightarrow> sock_addr \<Rightarrow> nat \<Rightarrow> encryption_mode \<Rightarrow> u8 list \<Rightarrow> ('o, 'r) server
     \<Rightarrow> fault + ((('o, 'r) packet_code \<times> u64) option list \<times> u8 list \<times> encryption_mode \<times> ('o, 'r) server)" where
  "read_packets C K pc auxiliary addr 0 mode input s = Inr ([], input, mode, s)"
| "read_packets C K pc auxiliary addr (Suc n) mode input s =
     rbind (read_tcp C pc auxiliary addr mode input s) (\<lambda>(read, rest, mode, s).
     rbind (read_packets C K pc auxiliary addr n mode rest s) (\<lambda>(ps, rest, mode, s).
       Inr (Option.bind read (wc_decode K) # ps, rest, mode, s)))"

definition session_limit :: "police_config \<Rightarrow> bool \<Rightarrow> sock_addr \<Rightarrow> ('o, 'r) server \<Rightarrow> nat" where
  "session_limit pc auxiliary addr s =
     packet_limit pc auxiliary (case map_of (sv_conns s) addr of Some c \<Rightarrow> is_authenticated c | None \<Rightarrow> False)"

lemma read_sent_frame:
  assumes "length bytes \<le> session_limit pc auxiliary addr s" "length bytes < 2 ^ 32"
  shows "read_tcp C pc auxiliary addr mode (u32_to_be_bytes (of_nat (length bytes)) @ bytes @ rest) s =
    rbind (unprotect C mode (known_key addr s) bytes) (\<lambda>(plain, mode'). Inr (plain, rest, mode', s))"
  using assms(1) read_frame [OF assms(2)]
  by (simp add: read_tcp_def Let_def session_limit_def)

lemma send_tcp_read:
  assumes C: "chat_ok C" and K: "codec_reads K p" and m: "mode_ok mode"
  shows "\<exists>bytes mode'. send_tcp C K mode (known_key addr s) (Some seed) p =
      Inr (u32_to_be_bytes (of_nat (length bytes)) @ bytes, mode') \<and> mode_ok mode' \<and>
    (length bytes \<le> session_limit pc auxiliary addr s \<and> length bytes < 2 ^ 32 \<longrightarrow> (\<forall>rest. \<exists>plain.
       read_tcp C pc auxiliary addr mode (u32_to_be_bytes (of_nat (length bytes)) @ bytes @ rest) s = Inr (Some plain, rest, mode', s) \<and>
       wc_decode K plain = Some p))"
proof -
  obtain bytes mode' k where b: "protect C mode (known_key addr s) (Some seed) (wc_encode K p) = Inr (bytes, mode')" "mode_ok mode'"
      "unprotect C mode (known_key addr s) bytes = Inr (Some (wc_encode K p @ replicate k 0), mode')"
    using unprotect_protect [OF C m] by blast
  have "wc_decode K (wc_encode K p @ replicate k 0) = Some p" using K by (simp add: codec_reads_def)
  then have "\<exists>plain. read_tcp C pc auxiliary addr mode (u32_to_be_bytes (of_nat (length bytes)) @ bytes @ rest) s =
      Inr (Some plain, rest, mode', s) \<and> wc_decode K plain = Some p"
    if "length bytes \<le> session_limit pc auxiliary addr s" "length bytes < 2 ^ 32" for rest
    using read_sent_frame [OF that, of C mode rest] b(3) by simp
  moreover have "send_tcp C K mode (known_key addr s) (Some seed) p = Inr (u32_to_be_bytes (of_nat (length bytes)) @ bytes, mode')"
    using b(1) by (simp add: send_tcp_def)
  ultimately show ?thesis using b(2) by blast
qed

lemma decrypt_packet_total:
  assumes C: "chat_ok C" and d: "valid_dims W H" "W < 2 ^ 64" "W * H \<le> 510"
  shows "\<exists>r. decrypt_packet C W H bytes ks = Inr r"
proof -
  note E = chat_okD(1) [OF C]
  obtain key where key: "packet_key C W H ks = Inr key" "length key = 2 * (W * H)"
    using packet_key_ok [OF C, of ks W H] d(3) by auto
  obtain kg where kg: "from_key W H key = Inr kg" using wf_from_key [OF d(1) key(2)] by blast
  have dec: "\<exists>r. decrypt (core C) W H \<lparr> ed_output = gs, ed_key = kg, ed_nonce = nonce \<rparr> = Inr r"
    if "wf_grid W H nonce" "\<forall>g \<in> set gs. wf_grid W H g" for gs nonce
    using apply_ctr_key_ctx [OF E d(1,2) that(1), of gs kg] that(2) key_ctx_ok(1) [OF E d(1,2), of kg nonce]
    by (simp add: decrypt_def)
  from packet_try_from_cases [OF d(1), of bytes] show ?thesis
  proof (elim disjE exE conjE)
    fix p assume p: "packet_try_from W H bytes = Inr p" "wf_grid W H (ap_nonce p)" "\<forall>g \<in> set (ap_output p). wf_grid W H g"
    show ?thesis using dec [OF p(2,3)] by (auto simp: decrypt_packet_def p(1) key kg packet_open_def)
  qed (simp_all add: decrypt_packet_def)
qed

lemma read_tcp_total:
  assumes "chat_ok C"
  shows "\<exists>x rest m s'. read_tcp C pc auxiliary addr (OneShot ks) input s = Inr (x, rest, m, s') \<and>
    (s' = s \<or> x = None \<and> (\<exists>grace. s' = remove_connection (pc_server pc) addr grace s))"
proof -
  have "\<exists>plain. unprotect C (OneShot ks) obf bytes = Inr (plain, OneShot ks)" for obf bytes
    using decrypt_packet_total [OF assms default_dims(1,2), of bytes "the ks"] default_dims(3) by (cases ks) (auto simp: unprotect_def)
  then obtain plain where "\<And>obf bytes. unprotect C (OneShot ks) obf bytes = Inr (plain obf bytes, OneShot ks)" by metis
  then show ?thesis by (auto simp: read_tcp_def Let_def split: option.split)
qed

section \<open>Policing\<close>

text \<open>The credit of a session is a number the rate limiter can work with.\<close>

fun credit_ok :: "connection \<Rightarrow> bool" where
  "credit_ok (Authenticated x) = (above (a_credit x) \<or> a_credit x = NaN)"
| "credit_ok (NonAuthenticated x) = True"

text \<open>The same client, seen with the same obfuscation key.\<close>

definition same_peer :: "connection \<Rightarrow> connection \<Rightarrow> bool" where
  "same_peer c c' \<longleftrightarrow> same_client c c' \<and> obfuscation_key c = obfuscation_key c'"

lemma same_peer_refl [simp]: "same_peer c c"
  by (simp add: same_peer_def same_client_def)

lemma same_peer_trans: "same_peer c d \<Longrightarrow> same_peer d e \<Longrightarrow> same_peer c e"
  by (simp add: same_peer_def same_client_def)

lemma check_message_ok:
  "\<exists>c' warn disconnect. check_message pc now now' m c = Some (c', warn, disconnect) \<and> same_peer c c' \<and> seq c' = seq c \<and>
     credit_ok c' = credit_ok c \<and> (\<not> disconnect \<longrightarrow> (\<forall>t. m = Some t \<longrightarrow> str_len t \<le> max_message_length pc))"
  by (cases c; cases m) (auto simp: check_message_def Let_def same_peer_def same_client_def)

lemma check_rate_ok:
  assumes "credit_ok c"
  shows "\<exists>c' wait d. check_rate pc now now' disconnect code c = Some (c', wait, d) \<and> same_peer c c' \<and> seq c' = seq c \<and>
    credit_ok c' \<and> (disconnect \<longrightarrow> d)"
proof (cases "disconnect \<or> \<not> spam_protection pc \<or> unmetered code")
  case True
  then show ?thesis using assms by (auto simp: check_rate_def same_peer_def same_client_def)
next
  case False
  show ?thesis
  proof (cases c)
    case (Authenticated x)
    obtain x' wait where t: "take_credit now now' (max_packet_rate pc) (max_packet_burst (pc_server pc)) (Authenticated x) =
        Some (Authenticated x', wait)" "above (a_credit x')" "same_client (Authenticated x) (Authenticated x')"
      using take_credit_ok [of x now now' "max_packet_rate pc" "max_packet_burst (pc_server pc)"] assms by (auto simp: Authenticated)
    moreover have "a_seq x' = a_seq x" using t(1) by (auto simp: Let_def split: if_splits)
    ultimately show ?thesis using False by (auto simp: check_rate_def Authenticated same_peer_def simp del: take_credit.simps)
  qed (use False in \<open>auto simp: check_rate_def same_peer_def same_client_def\<close>)
qed

lemma check_seq_ok:
  "\<exists>c' ok. check_seq n c = Some (c', ok) \<and> same_peer c c' \<and> credit_ok c' = credit_ok c \<and> (ok \<longleftrightarrow> seq c < n) \<and> (ok \<longrightarrow> seq c' = n)"
  by (cases c; cases "seq c < n") (auto simp: check_seq_def same_peer_def same_client_def)

lemma police_ok:
  assumes "credit_ok c"
  shows "\<exists>v. police pc clock code n c = Some v \<and> same_peer c (vd_conn v) \<and> credit_ok (vd_conn v) \<and>
    (\<not> vd_disconnect v \<longrightarrow> seq c < n \<and> seq (vd_conn v) = n \<and> (\<forall>t. limited_text code = Some t \<longrightarrow> str_len t \<le> max_message_length pc)) \<and>
    (n \<le> seq c \<longrightarrow> vd_disconnect v \<and> \<not> vd_grace v)"
proof -
  obtain t1 t2 t3 t4 where clock: "clock = (t1, t2, t3, t4)" by (cases clock)
  obtain c1 warn d1 where 1: "check_message pc t1 t2 (limited_text code) c = Some (c1, warn, d1)" "same_peer c c1" "seq c1 = seq c"
      "credit_ok c1" "\<not> d1 \<longrightarrow> (\<forall>t. limited_text code = Some t \<longrightarrow> str_len t \<le> max_message_length pc)"
    using check_message_ok [of pc t1 t2 "limited_text code" c] assms by auto
  obtain c2 wait d2 where 2: "check_rate pc t3 t4 d1 code c1 = Some (c2, wait, d2)" "same_peer c1 c2" "seq c2 = seq c1"
      "credit_ok c2" "d1 \<longrightarrow> d2"
    using check_rate_ok [OF 1(4)] by blast
  obtain c3 ok where 3: "check_seq n c2 = Some (c3, ok)" "same_peer c2 c3" "credit_ok c3" "ok \<longleftrightarrow> seq c2 < n" "ok \<longrightarrow> seq c3 = n"
    using check_seq_ok [of n c2] 2(4) by blast
  define v where "v = \<lparr> vd_conn = c3, vd_warn = (if warn then Some (keys c) else None), vd_disconnect = (d2 \<or> \<not> ok),
    vd_grace = ok, vd_wait = wait \<rparr>"
  have "police pc clock code n c = Some v" by (simp add: police_def clock 1(1) 2(1) 3(1) v_def)
  moreover have "same_peer c c3" using 1(2) 2(2) 3(2) same_peer_trans by blast
  ultimately show ?thesis using 1(3,5) 2(3,5) 3(3-5) by (intro exI [of _ v]) (auto simp: v_def)
qed

lemma strip_text_clean: "c \<in> set (strip_text t) \<Longrightarrow> is_control c \<Longrightarrow> c = 0x0A"
  by (auto simp: strip_text_def strip_char_def map_filter_set list_ex_iff is_control_def split: if_splits)

text \<open>The text a user typed, of every packet that carries one.\<close>

fun typed_text :: "('o, 'r) packet_code \<Rightarrow> ustr option" where
  "typed_text (Chat_Code (chat_code.Re txt)) = Some txt"
| "typed_text code = limited_text code"

lemma strip_code_clean: "typed_text (strip_code code) = Some t \<Longrightarrow> c \<in> set t \<Longrightarrow> is_control c \<Longrightarrow> c = 0x0A"
  by (cases code rule: strip_code.cases) (auto dest: strip_text_clean)

lemma roster_close_transfers [roster_simps]:
  fixes s :: "('o, 'r) server"
  shows "roster (close_transfers c s) = roster s"
proof -
  let ?f = "\<lambda>uid (s :: ('o, 'r) server). case remove_file_stream uid c (sv_transfers s) of
     (ts, ab) \<Rightarrow> s\<lparr> sv_transfers := ts, sv_effects := sv_effects s @ map Aborted ab \<rparr>"
  have "roster (fold ?f xs s) = roster s" for xs s
    by (induction xs arbitrary: s) (simp_all add: roster_def split: prod.split)
  then show ?thesis by (simp add: close_transfers_def split: option.split)
qed

lemma removed: "map_of (sv_conns (remove_connection cf addr grace s)) addr = None"
proof (cases "map_of (sv_conns s) addr")
  case (Some c)
  have "roster (s\<lparr> sv_effects := e \<rparr>) = roster s" for s :: "('a, 'b) server" and e by (simp add: roster_def)
  then have "roster (remove_connection cf addr grace s) = roster (s\<lparr> sv_conns := AList.delete addr (sv_conns s) \<rparr>)"
    by (simp add: remove_connection_def Some Let_def roster_simps split: prod.split option.split connection.split)
  then have "map fst (sv_conns (remove_connection cf addr grace s)) = map fst (AList.delete addr (sv_conns s))"
    unfolding keys_roster by (simp add: roster_def case_prod_unfold comp_def)
  then have "addr \<notin> set (map fst (sv_conns (remove_connection cf addr grace s)))" by (auto simp: AList.delete_eq)
  then show ?thesis by (simp add: map_of_eq_None_iff)
qed (simp add: remove_connection_def)

lemma unnumbered_same:
  assumes "unnumbered d = unnumbered c"
  shows "seq d = seq c" "credit_ok d = credit_ok c" "same_peer c d"
proof -
  have u: "seq (unnumbered c) = seq c" "credit_ok (unnumbered c) = credit_ok c" "obfuscation_key (unnumbered c) = obfuscation_key c" for c
    by (cases c; simp add: unnumbered_def)+
  then show "seq d = seq c" "credit_ok d = credit_ok c" using assms by metis+
  have "same_client c d" unfolding same_client_def using assms by (metis unnumbered_view)
  then show "same_peer c d" unfolding same_peer_def using assms u by metis
qed

lemma receive_accepted:
  assumes "chat_ok C" and c: "map_of (sv_conns s) addr = Some c"
    and a: "receive C K pc clock addr h ks input s = Inr (Some code, w, rest, s')"
  obtains bytes m raw n v where "read_tcp C pc False addr (OneShot ks) input s = Inr (Some bytes, rest, m, s)"
    "wc_decode K bytes = Some (raw, n)" "police pc clock (strip_code raw) n c = Some v" "\<not> vd_disconnect v"
    "s' = enforce pc addr h v s"
proof -
  obtain x r m t where t: "read_tcp C pc False addr (OneShot ks) input s = Inr (x, r, m, t)" "t = s \<or> x = None"
    using read_tcp_total [OF assms(1), of pc False addr ks input s] by blast
  obtain bytes where x: "x = Some bytes" "t = s" using a t by (cases x) (auto simp: receive_def)
  obtain raw n where d: "wc_decode K bytes = Some (raw, n)" using a t x by (cases "wc_decode K bytes") (auto simp: receive_def)
  obtain v where v: "police pc clock (strip_code raw) n c = Some v"
    using a t x d c by (cases "police pc clock (strip_code raw) n c") (auto simp: receive_def Let_def)
  show thesis
    by (rule that [of bytes m raw n v]) (use a t x d v c in \<open>auto simp: receive_def Let_def split: if_splits\<close>)
qed

lemma enforce_ok:
  assumes wf: "server_wf s" and c: "map_of (sv_conns s) addr = Some c" and v: "same_peer c (vd_conn v)" "credit_ok (vd_conn v)"
  shows "server_wf (enforce pc addr h v s)"
    "vd_disconnect v \<Longrightarrow> map_of (sv_conns (enforce pc addr h v s)) addr = None"
    "\<not> vd_disconnect v \<Longrightarrow> \<exists>c'. map_of (sv_conns (enforce pc addr h v s)) addr = Some c' \<and> seq c' = seq (vd_conn v) \<and>
      credit_ok c' \<and> same_peer c c'"
proof -
  define t where "t = (case vd_warn v of Some ks \<Rightarrow> send h (Lobby_Code SpamWarning) ks (alter_conn addr (\<lambda>_. vd_conn v) s)
    | None \<Rightarrow> alter_conn addr (\<lambda>_. vd_conn v) s)"
  have e: "enforce pc addr h v s = (if vd_disconnect v then remove_connection (pc_server pc) addr (vd_grace v) t else t)"
    by (simp add: enforce_def t_def Let_def)
  have q: "quiet t = quiet (alter_conn addr (\<lambda>_. vd_conn v) s)" by (simp add: t_def split: option.split)
  have "server_wf (alter_conn addr (\<lambda>_. vd_conn v) s)"
    by (rule wf_put [OF wf c]) (use v(1) in \<open>simp_all add: same_peer_def same_client_def\<close>)
  then have "server_wf t" using wf_quiet [OF q] by simp
  then show "server_wf (enforce pc addr h v s)" by (simp add: e wf_remove_connection)
  show "vd_disconnect v \<Longrightarrow> map_of (sv_conns (enforce pc addr h v s)) addr = None" by (simp add: e removed)
  have "map_option unnumbered (map_of (sv_conns t) addr) = Some (unnumbered (vd_conn v))"
    using map_of_quiet [OF q, of addr] c by (simp add: map_of_alter)
  then obtain c' where "map_of (sv_conns t) addr = Some c'" "unnumbered c' = unnumbered (vd_conn v)" by auto
  then show "\<not> vd_disconnect v \<Longrightarrow> \<exists>c'. map_of (sv_conns (enforce pc addr h v s)) addr = Some c' \<and> seq c' = seq (vd_conn v) \<and>
      credit_ok c' \<and> same_peer c c'"
    using v unnumbered_same [of c' "vd_conn v"] same_peer_trans by (auto simp: e)
qed

section \<open>Properties\<close>

text \<open>
  C14 (wire_roundtrip). Whatever packets are sent over a socket, under the session keys, with the obfuscation of the
  handshake or over a packet stream, the other side reads the same packets in the same order, leaves the bytes after them
  untouched and ends with the same stream state, as long as every frame is within the limit of the connection.
\<close>

theorem wire_roundtrip:
  assumes "chat_ok C" and "mode_ok mode" and "\<forall>(seed, p) \<in> set ps. codec_reads K p"
  shows "\<exists>frames mode'. send_packets C K mode (known_key addr s) ps = Inr (frames, mode') \<and> length frames = length ps \<and>
    ((\<forall>f \<in> set frames. length f \<le> 4 + session_limit pc auxiliary addr s \<and> length f < 2 ^ 32) \<longrightarrow>
     read_packets C K pc auxiliary addr (length ps) mode (concat frames @ rest) s = Inr (map (\<lambda>(seed, p). Some p) ps, rest, mode', s))"
  using assms(2,3)
proof (induction ps arbitrary: mode)
  case (Cons x ps)
  obtain seed p where x: "x = (seed, p)" by (cases x)
  obtain bytes m where b: "send_tcp C K mode (known_key addr s) (Some seed) p =
      Inr (u32_to_be_bytes (of_nat (length bytes)) @ bytes, m)" "mode_ok m"
    and r: "length bytes \<le> session_limit pc auxiliary addr s \<and> length bytes < 2 ^ 32 \<longrightarrow> (\<forall>rest. \<exists>plain.
       read_tcp C pc auxiliary addr mode (u32_to_be_bytes (of_nat (length bytes)) @ bytes @ rest) s = Inr (Some plain, rest, m, s) \<and>
       wc_decode K plain = Some p)"
    using send_tcp_read [OF assms(1) _ Cons.prems(1), of K p addr s seed pc auxiliary] Cons.prems(2) by (auto simp: x)
  obtain frames m' where f: "send_packets C K m (known_key addr s) ps = Inr (frames, m')" "length frames = length ps"
    "(\<forall>f \<in> set frames. length f \<le> 4 + session_limit pc auxiliary addr s \<and> length f < 2 ^ 32) \<longrightarrow>
     read_packets C K pc auxiliary addr (length ps) m (concat frames @ rest) s = Inr (map (\<lambda>(seed, p). Some p) ps, rest, m', s)"
    using Cons.IH [OF b(2)] Cons.prems(2) by auto
  let ?frames = "(u32_to_be_bytes (of_nat (length bytes)) @ bytes) # frames"
  have "read_packets C K pc auxiliary addr (length (x # ps)) mode (concat ?frames @ rest) s =
      Inr (map (\<lambda>(seed, p). Some p) (x # ps), rest, m', s)"
    if a: "\<forall>f \<in> set ?frames. length f \<le> 4 + session_limit pc auxiliary addr s \<and> length f < 2 ^ 32"
  proof -
    obtain plain where "read_tcp C pc auxiliary addr mode (u32_to_be_bytes (of_nat (length bytes)) @ bytes @ concat frames @ rest) s =
        Inr (Some plain, concat frames @ rest, m, s)" "wc_decode K plain = Some p"
      using r a by fastforce
    then show ?thesis using f(3) a by (simp add: x)
  qed
  then show ?case using b(1) f(1,2) by (intro exI [of _ ?frames] exI [of _ m']) (simp add: x)
qed simp

text \<open>A codec that knows one packet, and a server that answers every client in full.\<close>

definition list_codec :: "('o, 'r) wire_codec" where
  "list_codec = \<lparr> wc_encode = (\<lambda>_. [7]), wc_decode = (\<lambda>_. Some (Lobby_Code ListRequest, 1)) \<rparr>"

definition calm :: police_config where
  "calm = \<lparr> pc_server = plain_config, spam_protection = False, max_packet_size = 4096, max_message_length = 100,
     max_message_delay_violations = 3, max_packet_rate = Fin 10, max_packet_rate_violations = 3 \<rparr>"

theorem wire_roundtrip_witness:
  "\<exists>frames mode'. send_packets ref_chat list_codec (OneShot None) (known_key (1, 80) (alone :: ('o, 'r) server))
       [([], (Lobby_Code ListRequest :: ('o, 'r) packet_code, 1))] = Inr (frames, mode') \<and>
     read_packets ref_chat list_codec calm False (1, 80) 1 (OneShot None) (concat frames @ [9]) (alone :: ('o, 'r) server) =
       Inr ([Some (Lobby_Code ListRequest, 1)], [9], mode', alone)"
proof -
  let ?ps = "[([], (Lobby_Code ListRequest :: ('o, 'r) packet_code, 1))] :: (u8 list \<times> ('o, 'r) packet_code \<times> u64) list"
  have "\<forall>(seed, p) \<in> set ?ps. codec_reads list_codec p" by (simp add: codec_reads_def list_codec_def)
  moreover have "mode_ok (OneShot None)" by simp
  ultimately obtain frames mode' where
    f: "send_packets ref_chat list_codec (OneShot None) (known_key (1, 80) (alone :: ('o, 'r) server)) ?ps = Inr (frames, mode')"
      "(\<forall>f \<in> set frames. length f \<le> 4 + session_limit calm False (1, 80) (alone :: ('o, 'r) server) \<and> length f < 2 ^ 32) \<longrightarrow>
       read_packets ref_chat list_codec calm False (1, 80) (length ?ps) (OneShot None) (concat frames @ [9]) (alone :: ('o, 'r) server) =
         Inr (map (\<lambda>(seed, p). Some p) ?ps, [9], mode', alone)"
    using wire_roundtrip [OF chat_ok_ref, of "OneShot None" ?ps list_codec "(1, 80)" "alone :: ('o, 'r) server" calm False "[9]"] by blast
  have "frames = [u32_to_be_bytes 1 @ obfuscate_data [7] (known_key (1, 80) (alone :: ('o, 'r) server))]"
    using f(1) by (auto simp: send_tcp_def protect_def list_codec_def)
  moreover have "session_limit calm False (1, 80) (alone :: ('o, 'r) server) = 16000000"
    by (simp add: session_limit_def packet_limit_def calm_def alone_def MAX_PACKET_CEILING_def MEGABYTE_def)
  ultimately show ?thesis using f by simp
qed



text \<open>A frame read from the front of a socket is read the same way from the front of any other one.\<close>

lemma read_tcp_again:
  assumes r: "read_tcp C pc auxiliary addr (OneShot ks) (f @ rest) s = Inr (Some bytes, rest, m, t)"
    and k: "known_key addr s' = known_key addr s" and l: "session_limit pc auxiliary addr s' = session_limit pc auxiliary addr s"
  shows "read_tcp C pc auxiliary addr (OneShot ks) (f @ rest') s' = Inr (Some bytes, rest', m, s')"
proof -
  obtain hd1 rest1 where 1: "read_exact 4 (f @ rest) = Some (hd1, rest1)" using r by (auto simp: read_tcp_def Let_def split: option.splits)
  define n where n: "n = unat (u32_from_be_bytes hd1)"
  have lim: "n \<le> session_limit pc auxiliary addr s"
    using r by (auto simp: n read_tcp_def Let_def 1 session_limit_def split: if_splits)
  obtain body where 2: "read_exact n rest1 = Some (body, rest)" "unprotect C (OneShot ks) (known_key addr s) body = Inr (Some bytes, m)"
    using r lim by (auto simp: n read_tcp_def Let_def 1 session_limit_def rbind_eq_Inr_iff split: option.splits if_splits)
  have a: "4 \<le> length (f @ rest)" "hd1 = take 4 (f @ rest)" "rest1 = drop 4 (f @ rest)"
    using 1 by (simp_all add: read_exact_def split: if_splits)
  have b: "n \<le> length rest1" "body = take n rest1" "rest = drop n rest1"
    using 2(1) by (simp_all add: read_exact_def split: if_splits)
  have "length rest = length rest1 - n" using b(3) by (metis length_drop)
  then have len: "length f = 4 + n" using a(1,3) b(1) by simp
  then have "hd1 = take 4 f" "body = drop 4 f" using a(2,3) b(2) by simp_all
  with len have "read_exact 4 (f @ rest') = Some (hd1, body @ rest')" "read_exact n (body @ rest') = Some (body, rest')"
    by (simp_all add: read_exact_def)
  moreover have "unprotect C (OneShot ks) (known_key addr s') body = Inr (Some bytes, m)" using 2(2) by (simp add: k)
  ultimately show ?thesis using lim l by (simp add: n read_tcp_def Let_def session_limit_def)
qed



text \<open>
  The text of a \<open>Re\<close> packet, a reply to the last private message, plays no part in the checks: a
  reply of any length and pace is treated as every other one.
\<close>

theorem private_reply_unlimited:
  "police pc clock (Chat_Code (chat_code.Re m)) n c = police pc clock (Chat_Code (chat_code.Re m')) n c"
  by (simp add: police_def check_rate_def)

end
