(* ===== verification/Voice.thy ===== *)
theory Voice
  imports Wire
begin

text \<open>
  Voice over UDP: \<open>chat/src/network/voice/mod.rs\<close> and \<open>voice/server.rs\<close>. One socket serves every session; the slots
  are \<open>sv_voice\<close>, a bound connection or none with the username and the token of the slot. A step takes one datagram
  with the address it came from, and what it sends is a list of datagrams, each with the packet and the keys it is
  sealed under. The \<open>wincode\<close> codec of voice packets is a parameter.
\<close>

section \<open>Constants and packets\<close>

definition FRAME_MS :: nat where "FRAME_MS = 20"
definition MAX_PACKET_RATE :: f32 where
  "MAX_PACKET_RATE = f_mul (round_f32 (of_nat (1000 div FRAME_MS))) (Fin (3 / 2))"
definition MAX_PACKET_BURST :: f32 where "MAX_PACKET_BURST = f_div MAX_PACKET_RATE (Fin 2)"
definition ACTIVITY_TRESHOLD :: u64 where "ACTIVITY_TRESHOLD = 100"
definition VOICE_GRID_WIDTH :: nat where "VOICE_GRID_WIDTH = 4"
definition VOICE_GRID_HEIGHT :: nat where "VOICE_GRID_HEIGHT = 4"

datatype voice_packet_code =
    Hello "u8 list"
  | HelloAck
  | Audio "u8 list" "ustr option"
  | Ping u128
  | Pong nat u128

record voice_packet =
  vp_id :: nat
  vp_code :: voice_packet_code
  vp_seq :: u64

record voice_codec =
  vk_encode :: "voice_packet \<Rightarrow> u8 list"
  vk_decode :: "u8 list \<Rightarrow> voice_packet option"

definition voice_codec_reads :: "voice_codec \<Rightarrow> voice_packet \<Rightarrow> bool" where
  "voice_codec_reads K p \<longleftrightarrow> (\<forall>rest. vk_decode K (vk_encode K p @ rest) = Some p)"

record datagram =
  dg_addr :: sock_addr
  dg_packet :: voice_packet
  dg_keys :: shared_keys

type_synonym ('o, 'r) relay = "('o, 'r) server \<times> datagram list"

section \<open>Opus framing\<close>

fun parse_opus_len :: "u8 list \<Rightarrow> nat \<times> nat" where
  "parse_opus_len [] = (0, 0)"
| "parse_opus_len [b0] = (if b0 < 252 then (unat b0, 1) else (0, 0))"
| "parse_opus_len (b0 # b1 # _) = (if b0 < 252 then (unat b0, 1) else (unat b1 * 4 + unat b0, 2))"

definition validate_opus_packet :: "u8 list \<Rightarrow> bool" where
  "validate_opus_packet packet =
     (if packet = [] then False
      else let framing = hd packet AND 3 in
        if framing = 0 then True
        else if framing = 1 then (length packet - 1) mod 2 = 0
        else if framing = 2 then
          (if length packet < 2 then False
           else case parse_opus_len (drop 1 packet) of (len, taken) \<Rightarrow>
             if taken = 0 then False else 1 + taken + len \<le> length packet)
        else if framing = 3 then
          (if length packet < 2 then False else 0 < packet ! 1 AND 0x3F)
        else False)"

definition tokens_match :: "u8 list \<Rightarrow> u8 list \<Rightarrow> bool" where
  "tokens_match a b = (fold (\<lambda>(x, y) acc. acc OR (x XOR y)) (zip a b) 0 = 0)"

section \<open>Lookups on the main connection\<close>

text \<open>An entry with a session id has keys, so the \<open>unwrap\<close> of \<open>find_key\<close> never fails.\<close>

definition find_key :: "nat \<Rightarrow> ('o, 'r) server \<Rightarrow> shared_keys option" where
  "find_key i s = Option.bind (find_id i s) (\<lambda>(_, c). keys c)"

definition find_channel :: "nat \<Rightarrow> ('o, 'r) server \<Rightarrow> ustr option option" where
  "find_channel i s = map_option (\<lambda>(_, c). conn_channel c) (find_id i s)"

definition touch :: "server_config \<Rightarrow> instant \<Rightarrow> connection \<Rightarrow> connection" where
  "touch cf now c = (case last_activity_mut (\<lambda>_. now - min_message_delay cf * 1000000) c of Some c' \<Rightarrow> c' | None \<Rightarrow> c)"

definition reset_last_activity :: "server_config \<Rightarrow> nat \<Rightarrow> instant \<Rightarrow> ('o, 'r) server \<Rightarrow> ('o, 'r) server" where
  "reset_last_activity cf i now s = (case find_id i s of
     None \<Rightarrow> s
   | Some (a, _) \<Rightarrow> alter_conn a (touch cf now) s)"

section \<open>Slots\<close>

definition open_voice :: "u8 list \<Rightarrow> nat \<Rightarrow> ustr \<Rightarrow> ('o, 'r) server \<Rightarrow> ('o, 'r) server" where
  "open_voice token i name s = s\<lparr> sv_voice := AList.update i (None, name, token) (sv_voice s) \<rparr>"

definition close_voice :: "nat \<Rightarrow> ('o, 'r) server \<Rightarrow> ('o, 'r) server" where
  "close_voice i s = s\<lparr> sv_voice := AList.delete i (sv_voice s) \<rparr>"

text \<open>The slot of \<open>i\<close> with another connection in it.\<close>

definition put_voice :: "nat \<Rightarrow> voice_connection \<Rightarrow> ('o, 'r) server \<Rightarrow> ('o, 'r) server" where
  "put_voice i c s = s\<lparr> sv_voice := map (\<lambda>(j, old, slot). (j, if j = i then Some c else old, slot)) (sv_voice s) \<rparr>"

definition voice_credit :: "instant \<Rightarrow> instant \<Rightarrow> voice_connection \<Rightarrow> voice_connection \<times> bool" where
  "voice_credit now now' c =
     (let credit = f_sub (f_min (f_add (vc_credit c) (f_mul (as_secs_f32 (now - vc_refill c)) MAX_PACKET_RATE))
            MAX_PACKET_BURST) (Fin 1)
      in (c\<lparr> vc_credit := credit, vc_refill := now' \<rparr>, f_le (Fin 0) credit))"

section \<open>Sending and receiving\<close>

definition voice_send ::
  "nat \<Rightarrow> voice_packet_code \<Rightarrow> sock_addr \<Rightarrow> nat \<Rightarrow> shared_keys \<Rightarrow> ('o, 'r) relay \<Rightarrow> ('o, 'r) relay" where
  "voice_send i code addr to ks = (\<lambda>(s, sent). (case map_of (sv_voice s) to of
     Some (Some c, _) \<Rightarrow> let n = vc_server_seq c + 1 in
       (put_voice to (c\<lparr> vc_server_seq := n \<rparr>) s,
        sent @ [\<lparr> dg_addr = addr, dg_packet = \<lparr> vp_id = i, vp_code = code, vp_seq = n \<rparr>, dg_keys = ks \<rparr>])
   | _ \<Rightarrow> (s, sent @ [\<lparr> dg_addr = addr, dg_packet = \<lparr> vp_id = i, vp_code = code, vp_seq = 0 \<rparr>, dg_keys = ks \<rparr>])))"

text \<open>The bytes of a packet that the server sends, and of one that a client sends, with its counter.\<close>

definition voice_bytes :: "('v, 'w) chat_env \<Rightarrow> voice_codec \<Rightarrow> u8 list option \<Rightarrow> voice_packet \<Rightarrow> shared_keys \<Rightarrow> fault + u8 list" where
  "voice_bytes C K seed p ks = encrypt_packet C VOICE_GRID_WIDTH VOICE_GRID_HEIGHT (vk_encode K p) ks seed"

definition client_voice_send ::
  "('v, 'w) chat_env \<Rightarrow> voice_codec \<Rightarrow> u8 list option \<Rightarrow> nat \<Rightarrow> voice_packet_code \<Rightarrow> shared_keys \<Rightarrow> u64 \<Rightarrow> fault + u8 list \<times> u64" where
  "client_voice_send C K seed i code ks seq_counter =
     (let n = seq_counter + 1 in rbind (voice_bytes C K seed \<lparr> vp_id = i, vp_code = code, vp_seq = n \<rparr> ks)
       (\<lambda>bytes. Inr (to_be_bytes (of_nat i) @ bytes, n)))"

text \<open>\<open>receive\<close> on the server for one datagram; \<open>None\<close> skips it. The buffer holds 2048 bytes.\<close>

definition voice_receive :: "('v, 'w) chat_env \<Rightarrow> voice_codec \<Rightarrow> u8 list \<Rightarrow> ('o, 'r) server \<Rightarrow> fault + voice_packet option" where
  "voice_receive C K bytes s =
     (let buffer = take 2048 bytes in
      if length buffer \<le> 8 then Inr None
      else let i = unat (from_be_bytes (take 8 buffer)) in
        case find_key i s of
          None \<Rightarrow> Inr None
        | Some ks \<Rightarrow> obind (decrypt_packet C VOICE_GRID_WIDTH VOICE_GRID_HEIGHT (drop 8 buffer) ks) (\<lambda>decrypted.
            Inr (case vk_decode K decrypted of
              None \<Rightarrow> None
            | Some p \<Rightarrow> if vp_id p = i then Some p else None)))"

section \<open>The loop\<close>

text \<open>
  \<open>admit\<close> is the first half of the loop: whose packet it is, where it came from, its number and its rate. It gives the
  username of the slot if the packet goes on. The clock is read for the elapsed time, for the refill and for the activity.
\<close>

definition is_hello :: "u8 list \<Rightarrow> voice_packet_code \<Rightarrow> bool" where
  "is_hello slot_token code = (case code of Hello token \<Rightarrow> tokens_match token slot_token | _ \<Rightarrow> False)"

definition count_activity ::
  "server_config \<Rightarrow> nat \<Rightarrow> instant \<Rightarrow> voice_connection \<Rightarrow> ('o, 'r) server \<Rightarrow> ('o, 'r) server" where
  "count_activity cf i now c s =
     (let n = vc_packet_accumulator c + 1 in
      if ACTIVITY_TRESHOLD \<le> n
      then reset_last_activity cf i now (put_voice i (c\<lparr> vc_packet_accumulator := 0 \<rparr>) s)
      else put_voice i (c\<lparr> vc_packet_accumulator := n \<rparr>) s)"

definition admit_bound ::
  "police_config \<Rightarrow> instant \<times> instant \<times> instant \<Rightarrow> voice_packet \<Rightarrow> sock_addr \<Rightarrow> bool \<Rightarrow> voice_connection \<Rightarrow>
    ('o, 'r) server \<Rightarrow> ('o, 'r) server \<times> bool" where
  "admit_bound pc clock p addr valid_hello c s = (case clock of (t1, t2, t3) \<Rightarrow>
     if vc_addr c \<noteq> addr \<and> \<not> (valid_hello \<or> fst (vc_addr c) = fst addr) then (s, False)
     else let c = c\<lparr> vc_addr := addr \<rparr> in
       if vp_seq p \<le> vc_seq c then (put_voice (vp_id p) c s, False)
       else let c = c\<lparr> vc_seq := vp_seq p \<rparr>;
                (c, paid) = (if spam_protection pc then voice_credit t1 t2 c else (c, True))
            in if \<not> paid then (put_voice (vp_id p) (c\<lparr> vc_throttled := True \<rparr>) s, False)
               else (count_activity (pc_server pc) (vp_id p) t3 (c\<lparr> vc_throttled := False \<rparr>) s, True))"

definition new_voice :: "instant \<Rightarrow> voice_packet \<Rightarrow> sock_addr \<Rightarrow> voice_connection" where
  "new_voice now p addr = \<lparr> vc_addr = addr, vc_id = vp_id p, vc_seq = vp_seq p, vc_server_seq = 0,
     vc_packet_accumulator = 0, vc_credit = MAX_PACKET_BURST, vc_refill = now, vc_throttled = False \<rparr>"

definition admit ::
  "police_config \<Rightarrow> instant \<times> instant \<times> instant \<Rightarrow> voice_packet \<Rightarrow> sock_addr \<Rightarrow> ('o, 'r) server \<Rightarrow> ('o, 'r) server \<times> ustr option" where
  "admit pc clock p addr s = (case map_of (sv_voice s) (vp_id p) of
     None \<Rightarrow> (s, None)
   | Some (Some c, name, token) \<Rightarrow>
       (case admit_bound pc clock p addr (is_hello token (vp_code p)) c s of
          (s, True) \<Rightarrow> (s, Some name) | (s, False) \<Rightarrow> (s, None))
   | Some (None, name, token) \<Rightarrow>
       if is_hello token (vp_code p) then (put_voice (vp_id p) (new_voice (fst clock) p addr) s, Some name)
       else (s, None))"

definition listener :: "nat \<Rightarrow> sock_addr \<Rightarrow> ('o, 'r) server \<Rightarrow> voice_connection option \<Rightarrow> (sock_addr \<times> shared_keys \<times> nat) option" where
  "listener i addr s entry = (case entry of
     None \<Rightarrow> None
   | Some c \<Rightarrow>
       if vc_addr c = addr then None
       else if find_channel i s \<noteq> find_channel (vc_id c) s then None
       else map_option (\<lambda>ks. (vc_addr c, ks, vc_id c)) (find_key (vc_id c) s))"

definition audience :: "nat \<Rightarrow> sock_addr \<Rightarrow> ('o, 'r) server \<Rightarrow> (sock_addr \<times> shared_keys \<times> nat) list" where
  "audience i addr s = List.map_filter (\<lambda>(_, entry, _). listener i addr s entry) (sv_voice s)"

definition fan_out :: "nat \<Rightarrow> voice_packet_code \<Rightarrow> (sock_addr \<times> shared_keys \<times> nat) list \<Rightarrow> ('o, 'r) relay \<Rightarrow> ('o, 'r) relay" where
  "fan_out i code to r = fold (\<lambda>(addr, ks, j). voice_send i code addr j ks) to r"

definition voice_muted :: "nat \<Rightarrow> ('o, 'r) server \<Rightarrow> bool" where
  "voice_muted i s = (case find_id i s of None \<Rightarrow> True | Some (_, c) \<Rightarrow> muted c)"

definition relay_packet :: "voice_packet \<Rightarrow> sock_addr \<Rightarrow> ustr \<Rightarrow> ('o, 'r) server \<Rightarrow> ('o, 'r) relay" where
  "relay_packet p addr name s = (let i = vp_id p in case vp_code p of
     Hello _ \<Rightarrow> (case find_key i s of Some ks \<Rightarrow> voice_send i HelloAck addr i ks (s, []) | None \<Rightarrow> (s, []))
   | Audio data _ \<Rightarrow>
       if voice_muted i s \<or> \<not> validate_opus_packet data then (s, [])
       else fan_out i (Audio data (Some name)) (audience i addr s) (s, [])
   | Ping timestamp \<Rightarrow> fan_out i (Ping timestamp) (audience i addr s) (s, [])
   | Pong target timestamp \<Rightarrow> (case find_key target s of
       None \<Rightarrow> (s, [])
     | Some ks \<Rightarrow> (case map_of (sv_voice s) target of
         Some (Some c, _) \<Rightarrow> voice_send i (Pong target timestamp) (vc_addr c) target ks (s, [])
       | _ \<Rightarrow> (s, [])))
   | HelloAck \<Rightarrow> (s, []))"

definition voice_handle ::
  "police_config \<Rightarrow> instant \<times> instant \<times> instant \<Rightarrow> voice_packet \<Rightarrow> sock_addr \<Rightarrow> ('o, 'r) server \<Rightarrow> ('o, 'r) relay" where
  "voice_handle pc clock p addr s = (case admit pc clock p addr s of
     (s, None) \<Rightarrow> (s, [])
   | (s, Some name) \<Rightarrow> relay_packet p addr name s)"

definition listen_client_voice ::
  "('v, 'w) chat_env \<Rightarrow> voice_codec \<Rightarrow> police_config \<Rightarrow> instant \<times> instant \<times> instant \<Rightarrow> u8 list \<Rightarrow> sock_addr \<Rightarrow>
    ('o, 'r) server \<Rightarrow> fault + ('o, 'r) relay" where
  "listen_client_voice C K pc clock bytes addr s = rbind (voice_receive C K bytes s) (\<lambda>r. Inr (case r of
     None \<Rightarrow> (s, [])
   | Some p \<Rightarrow> voice_handle pc clock p addr s))"

section \<open>What the framing check accepts\<close>

text \<open>The length of a frame in one byte, or in two from 252 on.\<close>

definition opus_len :: "nat \<Rightarrow> u8 list" where
  "opus_len n = (if n < 252 then [of_nat n] else [of_nat (252 + n mod 4), of_nat ((n - 252) div 4)])"

text \<open>
  A packet in the four framings of RFC 6716: one frame, two of the same size, two with the size of the first, and a
  number of frames with a count.
\<close>

definition opus_packet :: "u8 list \<Rightarrow> bool" where
  "opus_packet packet \<longleftrightarrow> (\<exists>toc body. packet = toc # body \<and> (
     toc AND 3 = 0 \<or>
     toc AND 3 = 1 \<and> (\<exists>f g. body = f @ g \<and> length f = length g) \<or>
     toc AND 3 = 2 \<and> (\<exists>f g. body = opus_len (length f) @ f @ g \<and> length f \<le> 1275) \<or>
     toc AND 3 = 3 \<and> (\<exists>frames rest. body = frames # rest \<and> frames AND 0x3F \<noteq> 0)))"

lemma length_opus_len: "length (opus_len n) = (if n < 252 then 1 else 2)"
  by (simp add: opus_len_def)

lemma parse_opus_len_code:
  assumes "n \<le> 1275"
  shows "parse_opus_len (opus_len n @ rest) = (n, length (opus_len n))"
proof (cases "n < 252")
  case True
  then have "unat (of_nat n :: u8) = n" by (simp add: unat_of_nat)
  moreover from this have "(of_nat n :: u8) < 252" using True by (simp add: word_less_nat_alt)
  ultimately show ?thesis using True by (cases rest) (simp_all add: opus_len_def)
next
  case False
  then have "252 + n mod 4 < 256" "(n - 252) div 4 < 256" using assms by simp_all
  then have "unat (of_nat (252 + n mod 4) :: u8) = 252 + n mod 4" "unat (of_nat ((n - 252) div 4) :: u8) = (n - 252) div 4"
    by (simp_all add: unat_of_nat del: of_nat_add)
  moreover from this(1) have "\<not> (of_nat (252 + n mod 4) :: u8) < 252" by (simp add: word_less_nat_alt del: of_nat_add)
  moreover have "(n - 252) div 4 * 4 + (252 + n mod 4) = n"
  proof -
    obtain m where "n = 252 + m" using False by (metis le_add_diff_inverse not_less)
    moreover have "(252 + m) mod 4 = m mod 4" by presburger
    ultimately show ?thesis by simp
  qed
  ultimately show ?thesis using False by (simp add: opus_len_def del: of_nat_add)
qed

lemma parse_opus_len_split:
  assumes "parse_opus_len bytes = (n, k)" "k \<noteq> 0"
  shows "n \<le> 1275 \<and> k = length (opus_len n) \<and> (\<exists>rest. bytes = opus_len n @ rest)"
  using assms
proof (cases bytes rule: parse_opus_len.cases)
  case (2 b0)
  then show ?thesis using assms by (auto simp: opus_len_def word_less_nat_alt split: if_splits)
next
  case (3 b0 b1 rest)
  show ?thesis
  proof (cases "b0 < 252")
    case True
    then show ?thesis using assms 3 by (auto simp: opus_len_def word_less_nat_alt)
  next
    case False
    have b: "unat b0 < 256" "unat b1 < 256" using unsigned_less [of b0] unsigned_less [of b1] by simp_all
    have n: "n = unat b1 * 4 + unat b0" "k = 2" using assms(1) 3 False by auto
    have b0: "252 \<le> unat b0" using False by (simp add: word_less_nat_alt)
    then obtain r where r: "unat b0 = 252 + r" by (auto simp: le_iff_add)
    then have "r < 4" using b(1) by simp
    moreover have q: "n = (unat b1 + 63) * 4 + r" "n - 252 = unat b1 * 4 + r" using n(1) r by simp_all
    ultimately have "n mod 4 = r" "(n - 252) div 4 = unat b1"
      unfolding q(2) by (simp_all add: q(1) del: distrib_right_numeral)
    moreover have "252 \<le> n" using n(1) r by simp
    moreover have "of_nat (252 + r) = b0" unfolding r [symmetric] by simp
    ultimately have "opus_len n = [b0, b1]" by (simp add: opus_len_def del: of_nat_add)
    then show ?thesis using n b 3 by simp
  qed
qed simp

lemma low_two_bits:
  fixes toc :: u8
  shows "toc AND 3 = 0 \<or> toc AND 3 = 1 \<or> toc AND 3 = 2 \<or> toc AND 3 = 3"
proof -
  have "unat (toc AND 3) < 4"
    using and_mask_less' [of 2 toc] by (simp add: mask_eq_exp_minus_1 word_less_nat_alt)
  then have "unat (toc AND 3) = 0 \<or> unat (toc AND 3) = 1 \<or> unat (toc AND 3) = 2 \<or> unat (toc AND 3) = 3" by auto
  moreover have "toc AND 3 = x \<longleftrightarrow> unat (toc AND 3) = unat x" for x by (simp add: word_unat_eq_iff)
  ultimately show ?thesis by simp
qed

lemma opus_two_frames:
  "2 \<le> length (toc # body) \<and> (case parse_opus_len body of (len, taken) \<Rightarrow> taken \<noteq> 0 \<and> 1 + taken + len \<le> length (toc # body))
     \<longleftrightarrow> (\<exists>f g. body = opus_len (length f) @ f @ g \<and> length f \<le> 1275)"
proof
  assume l: "2 \<le> length (toc # body) \<and>
    (case parse_opus_len body of (len, taken) \<Rightarrow> taken \<noteq> 0 \<and> 1 + taken + len \<le> length (toc # body))"
  obtain n k where p: "parse_opus_len body = (n, k)" by fastforce
  then obtain rest where r: "n \<le> 1275" "k = length (opus_len n)" "body = opus_len n @ rest"
    using l parse_opus_len_split [OF p] by auto
  then have "length (take n rest) = n" using l p by simp
  then show "\<exists>f g. body = opus_len (length f) @ f @ g \<and> length f \<le> 1275"
    using r by (intro exI [of _ "take n rest"] exI [of _ "drop n rest"]) simp
next
  assume "\<exists>f g. body = opus_len (length f) @ f @ g \<and> length f \<le> 1275"
  then obtain f g where f: "body = opus_len (length f) @ f @ g" "length f \<le> 1275" by blast
  then have "parse_opus_len body = (length f, length (opus_len (length f)))" by (simp add: parse_opus_len_code)
  then show "2 \<le> length (toc # body) \<and>
      (case parse_opus_len body of (len, taken) \<Rightarrow> taken \<noteq> 0 \<and> 1 + taken + len \<le> length (toc # body))"
    using f by (simp add: length_opus_len)
qed

lemma even_split: "even (length xs) \<longleftrightarrow> (\<exists>f g. xs = f @ g \<and> length f = length g)"
proof
  assume "even (length xs)"
  then obtain n where "length xs = n + n" by (metis evenE mult_2)
  then show "\<exists>f g. xs = f @ g \<and> length f = length g"
    by (intro exI [of _ "take n xs"] exI [of _ "drop n xs"]) simp
qed auto

lemma validate_iff: "validate_opus_packet packet \<longleftrightarrow> opus_packet packet"
proof (cases packet)
  case (Cons toc body)
  consider "toc AND 3 = 0" | (one) "toc AND 3 = 1" | (two) "toc AND 3 = 2" | (three) "toc AND 3 = 3"
    using low_two_bits [of toc] by blast
  then show ?thesis
  proof cases
    case two
    then show ?thesis using opus_two_frames [of toc body] by (auto simp: Cons validate_opus_packet_def opus_packet_def)
  next
    case three
    then show ?thesis by (cases body) (auto simp: Cons validate_opus_packet_def opus_packet_def word_gt_0)
  qed (auto simp: Cons validate_opus_packet_def opus_packet_def even_iff_mod_2_eq_zero [symmetric] even_split)
qed (simp add: validate_opus_packet_def opus_packet_def)

lemma xor_zero_iff: "x XOR y = 0 \<longleftrightarrow> x = y" for x y :: "'a::len word"
proof
  assume "x XOR y = 0"
  then have "(x XOR y) XOR y = 0 XOR y" by (rule arg_cong)
  then have "x XOR (y XOR y) = y" unfolding xor.assoc by (simp only: xor.left_neutral)
  then show "x = y" by (simp only: xor_self_eq xor.right_neutral)
qed simp

lemma tokens_match_iff:
  assumes "length a = length b"
  shows "tokens_match a b \<longleftrightarrow> a = b"
proof -
  have "fold (\<lambda>(x, y) acc. acc OR (x XOR y)) (zip a b) acc = 0 \<longleftrightarrow> acc = 0 \<and> a = b" for acc :: u8
    using assms by (induction a b arbitrary: acc rule: list_induct2) (auto simp: or_eq_0_iff xor_zero_iff)
  then show ?thesis by (simp add: tokens_match_def)
qed

section \<open>Slots\<close>

definition bound :: "nat \<Rightarrow> ('o, 'r) server \<Rightarrow> voice_connection option" where
  "bound i s = Option.bind (map_of (sv_voice s) i) fst"

lemma bound_slot: "bound i s = Some c \<Longrightarrow> map_of (sv_voice s) i \<noteq> None"
  by (auto simp: bound_def Option.bind_eq_Some_conv)

lemma map_of_put_voice:
  "map_of (sv_voice (put_voice i c s)) j =
     (if j = i then map_option (\<lambda>(_, slot). (Some c, slot)) (map_of (sv_voice s) i) else map_of (sv_voice s) j)"
proof -
  have "map_of (map (\<lambda>(j, old, slot). (j, if j = i then Some c else old, slot)) xs) j =
     (if j = i then map_option (\<lambda>(_, slot). (Some c, slot)) (map_of xs i) else map_of xs j)"
    for xs :: "(nat \<times> voice_connection option \<times> ustr \<times> u8 list) list"
    by (induction xs) auto
  then show ?thesis by (simp add: put_voice_def)
qed

lemma put_voice_same [simp]:
  "sv_conns (put_voice i c s) = sv_conns s" "find_id j (put_voice i c s) = find_id j s"
  "map fst (sv_voice (put_voice i c s)) = map fst (sv_voice s)"
  "find_key j (put_voice i c s) = find_key j s" "find_channel j (put_voice i c s) = find_channel j s"
  "voice_muted j (put_voice i c s) = voice_muted j s"
  by (simp_all add: put_voice_def find_id_def find_key_def find_channel_def voice_muted_def case_prod_unfold comp_def)

text \<open>Resetting the activity timer changes neither slots nor what voice reads of the main connections.\<close>

lemma reset_same [simp]:
  "sv_voice (reset_last_activity cf i now s) = sv_voice s"
  "find_key j (reset_last_activity cf i now s) = find_key j s"
  "find_channel j (reset_last_activity cf i now s) = find_channel j s"
  "voice_muted j (reset_last_activity cf i now s) = voice_muted j s"
proof -
  let ?f = "touch cf now"
  have f: "conn_id (?f c) = conn_id c" "keys (?f c) = keys c" "conn_channel (?f c) = conn_channel c" "muted (?f c) = muted c" for c
    by (cases c; simp add: touch_def)+
  have "find (\<lambda>(a, c). conn_id c = Some j) (map (\<lambda>(b, c). (b, if b = a then ?f c else c)) xs) =
      map_option (\<lambda>(b, c). (b, if b = a then ?f c else c)) (find (\<lambda>(a, c). conn_id c = Some j) xs)" for a xs
    by (induction xs) (auto simp: f)
  then have g: "find_id j (alter_conn a ?f s) = map_option (\<lambda>(b, c). (b, if b = a then ?f c else c)) (find_id j s)" for a
    by (simp add: find_id_def alter_conn_def)
  obtain h where h: "find_id j (reset_last_activity cf i now s) = map_option (\<lambda>(b, c). (b, h b c)) (find_id j s)"
    "\<And>b c. keys (h b c) = keys c" "\<And>b c. conn_channel (h b c) = conn_channel c" "\<And>b c. muted (h b c) = muted c"
  proof (cases "find_id i s")
    case None
    then show ?thesis by (intro that [of "\<lambda>b c. c"]) (simp_all add: reset_last_activity_def option.map_id flip: id_def)
  next
    case (Some x)
    then show ?thesis by (intro that [of "\<lambda>b c. if b = fst x then ?f c else c"]) (simp_all add: reset_last_activity_def g f case_prod_unfold)
  qed
  show "sv_voice (reset_last_activity cf i now s) = sv_voice s"
    by (simp add: reset_last_activity_def alter_conn_def split: option.split)
  show "find_key j (reset_last_activity cf i now s) = find_key j s" "find_channel j (reset_last_activity cf i now s) = find_channel j s"
    "voice_muted j (reset_last_activity cf i now s) = voice_muted j s"
    using h by (cases "find_id j s"; simp add: find_key_def find_channel_def voice_muted_def case_prod_unfold)+
qed

section \<open>The rate limit\<close>

definition bucket_ok :: "f32 \<Rightarrow> bool" where
  "bucket_ok f \<longleftrightarrow> (\<exists>x. f = Fin x \<and> - (2 ^ 24) \<le> x \<and> x \<le> 75 / 2)"

lemma rate_value: "MAX_PACKET_RATE = Fin 75"
  using round_f32_of_int [of 50] round_f32_of_int [of 75] by (simp add: MAX_PACKET_RATE_def FRAME_MS_def small_def)

lemma burst_value: "MAX_PACKET_BURST = Fin (75 / 2)"
proof -
  obtain k where k: "ulp (75 / 2) = 1 / 2 ^ 149 * 2 ^ k" "k = 0 \<or> 1 / 2 ^ 149 * 2 ^ k * 2 ^ 23 \<le> \<bar>75 / 2 :: rat\<bar>"
    using ulp_from_power [of 253 "1 / 2 ^ 149" "75 / 2"] unfolding ulp_def by blast
  have "k \<le> 148"
  proof (rule ccontr)
    assume "\<not> k \<le> 148"
    then have "(2 :: rat) ^ 149 \<le> 2 ^ k" by (intro power_increasing) simp_all
    then show False using k(2) \<open>\<not> k \<le> 148\<close> by (simp add: field_simps)
  qed
  then have "(2 :: rat) ^ 148 = 2 ^ (148 - k) * 2 ^ k" by (simp flip: power_add)
  then have q: "of_int (75 * 2 ^ (148 - k)) * ulp (75 / 2) = (75 / 2 :: rat)" unfolding k(1) by (simp add: field_simps)
  from rounded_ge [of "75 * 2 ^ (148 - k)" "75 / 2"] rounded_le [of "75 / 2" "75 * 2 ^ (148 - k)"]
  have "rounded (75 / 2) = 75 / 2" unfolding q by simp
  then have "round_f32 (75 / 2) = Fin (75 / 2)" by (simp add: round_f32_small)
  then show ?thesis by (simp add: MAX_PACKET_BURST_def rate_value)
qed

lemma topped_up_voice:
  assumes "bucket_ok cr"
  shows "\<exists>y. f_min (f_add cr (f_mul (as_secs_f32 d) MAX_PACKET_RATE)) MAX_PACKET_BURST = Fin y \<and> - (2 ^ 24) \<le> y \<and> y \<le> 75 / 2"
proof -
  obtain m where m: "MIN_RATE = Fin m" "m \<le> 1"
    using round_f32_small [of "1 / 1000"] rounded_le_small [of 1 "1 / 1000"] by (simp add: MIN_RATE_def small_def)
  then have eff: "f_max (Fin 75) MIN_RATE = Fin 75" "f_max (Fin (75 / 2)) (Fin 1) = Fin (75 / 2)"
    unfolding f_max_def m(1) by auto
  have "above cr \<or> cr = NaN" using assms by (auto simp: bucket_ok_def above_iff)
  from topped_up [OF this nonneg_elapsed [of d], of "Fin 75" "Fin (75 / 2)"] eff
  have "above (f_min (f_add cr (f_mul (as_secs_f32 d) (Fin 75))) (Fin (75 / 2)))" by simp
  then show ?thesis unfolding rate_value burst_value
    by (auto simp: above_iff f_min_def split: if_splits)
qed

lemma voice_credit_ok:
  assumes "bucket_ok (vc_credit c)" "voice_credit now now' c = (c', paid)"
  shows "bucket_ok (vc_credit c')" "\<exists>cr. c' = c\<lparr> vc_credit := cr, vc_refill := now' \<rparr>"
proof -
  let ?cr = "f_sub (f_min (f_add (vc_credit c) (f_mul (as_secs_f32 (now - vc_refill c)) MAX_PACKET_RATE)) MAX_PACKET_BURST) (Fin 1)"
  obtain y where y: "?cr = round_f32 (y - 1)" "- (2 ^ 24) \<le> y" "y \<le> 75 / 2"
    using topped_up_voice [OF assms(1), of "now - vc_refill c"] by (auto simp: f_sub_def)
  have "above (round_f32 (y - 1))" using y(2) by (intro above_round) simp
  moreover have "rounded (y - 1) \<le> 37" using rounded_le_small [of 37 "y - 1"] y(3) by (simp add: small_def)
  ultimately have "bucket_ok ?cr" unfolding y(1) by (auto simp: bucket_ok_def above_iff round_f32_rounded F32_OVERFLOW_def split: if_splits)
  then show "bucket_ok (vc_credit c')" "\<exists>cr. c' = c\<lparr> vc_credit := cr, vc_refill := now' \<rparr>"
    using assms(2) by (auto simp: voice_credit_def Let_def)
qed

section \<open>Admission\<close>

text \<open>Names and tokens of the slots, and what voice reads of the main connections; no packet changes either.\<close>

definition slots :: "('o, 'r) server \<Rightarrow> (nat \<times> ustr \<times> u8 list) list" where
  "slots s = map (\<lambda>(i, _, slot). (i, slot)) (sv_voice s)"

definition mains :: "('o, 'r) server \<Rightarrow> nat \<Rightarrow> shared_keys option \<times> ustr option option \<times> bool" where
  "mains s j = (find_key j s, find_channel j s, voice_muted j s)"

definition voice_wf :: "('o, 'r) server \<Rightarrow> bool" where
  "voice_wf s \<longleftrightarrow> distinct (map fst (sv_voice s)) \<and> (\<forall>i c. bound i s = Some c \<longrightarrow> vc_id c = i \<and> bucket_ok (vc_credit c))"

lemma map_of_slots: "map_of (slots s) i = map_option snd (map_of (sv_voice s) i)"
proof -
  have "map_of (map (\<lambda>(i, _, slot). (i, slot)) xs) i = map_option snd (map_of xs i)"
    for xs :: "(nat \<times> voice_connection option \<times> ustr \<times> u8 list) list" by (induction xs) auto
  then show ?thesis by (simp add: slots_def)
qed

lemma put_voice_kept [simp]: "slots (put_voice i c s) = slots s" "mains (put_voice i c s) = mains s"
  by (auto simp: slots_def put_voice_def mains_def fun_eq_iff) (simp_all add: mains_def flip: put_voice_def)

lemma bound_put_voice:
  "bound j (put_voice i c s) = (if j = i then if map_of (sv_voice s) i = None then None else Some c else bound j s)"
  by (auto simp: bound_def map_of_put_voice split: option.split)

lemma wf_put_voice:
  assumes "voice_wf s" "vc_id c = i" "bucket_ok (vc_credit c)"
  shows "voice_wf (put_voice i c s)"
  using assms by (auto simp: voice_wf_def bound_put_voice split: if_splits)

lemma reset_kept [simp]:
  "slots (reset_last_activity cf i now s) = slots s" "mains (reset_last_activity cf i now s) = mains s"
  "bound j (reset_last_activity cf i now s) = bound j s" "voice_wf (reset_last_activity cf i now s) = voice_wf s"
  by (simp_all add: slots_def mains_def bound_def voice_wf_def fun_eq_iff)

lemma count_activity_kept:
  fixes s :: "('o, 'r) server"
  assumes "bound i s = Some c0"
  shows "slots (count_activity cf i now c s) = slots s" "mains (count_activity cf i now c s) = mains s"
    "j \<noteq> i \<Longrightarrow> bound j (count_activity cf i now c s) = bound j s"
    "\<exists>n. bound i (count_activity cf i now c s) = Some (c\<lparr> vc_packet_accumulator := n \<rparr>)"
    "voice_wf s \<Longrightarrow> vc_id c = i \<Longrightarrow> bucket_ok (vc_credit c) \<Longrightarrow> voice_wf (count_activity cf i now c s)"
proof -
  note i = bound_slot [OF assms]
  show "slots (count_activity cf i now c s) = slots s" "mains (count_activity cf i now c s) = mains s"
    "j \<noteq> i \<Longrightarrow> bound j (count_activity cf i now c s) = bound j s"
    by (simp_all add: count_activity_def Let_def bound_put_voice)
  show "\<exists>n. bound i (count_activity cf i now c s) = Some (c\<lparr> vc_packet_accumulator := n \<rparr>)"
    using i by (auto simp: count_activity_def Let_def bound_put_voice)
  show "voice_wf s \<Longrightarrow> vc_id c = i \<Longrightarrow> bucket_ok (vc_credit c) \<Longrightarrow> voice_wf (count_activity cf i now c s)"
    by (simp add: count_activity_def Let_def wf_put_voice)
qed

text \<open>What a packet can do to the slot it names: it stays where it is, or its connection follows the packet.\<close>

definition follows_packet :: "voice_packet \<Rightarrow> sock_addr \<Rightarrow> voice_connection \<Rightarrow> voice_connection \<Rightarrow> bool \<Rightarrow> bool" where
  "follows_packet p addr c c' accepted \<longleftrightarrow> vc_addr c' = addr \<and> vc_id c' = vc_id c \<and> vc_server_seq c' = vc_server_seq c \<and>
     bucket_ok (vc_credit c') \<and> vc_seq c \<le> vc_seq c' \<and> (accepted \<longrightarrow> vc_seq c < vp_seq p \<and> vc_seq c' = vp_seq p)"

lemma admit_bound_cases:
  fixes s :: "('o, 'r) server"
  assumes "admit_bound pc clock p addr hello c s = (s', accepted)" "bound (vp_id p) s = Some c" "voice_wf s"
  obtains (ignored) "s' = s" "\<not> accepted"
  | (followed) c' where "hello \<or> fst (vc_addr c) = fst addr" "bound (vp_id p) s' = Some c'" "follows_packet p addr c c' accepted"
      "\<And>j. j \<noteq> vp_id p \<Longrightarrow> bound j s' = bound j s" "slots s' = slots s" "mains s' = mains s" "voice_wf s'"
proof -
  obtain t1 t2 t3 where clock: "clock = (t1, t2, t3)" by (cases clock)
  let ?c = "c\<lparr> vc_addr := addr \<rparr>"
  note slot = bound_slot [OF assms(2)]
  have ok: "vc_id c = vp_id p" "bucket_ok (vc_credit c)" using assms(2,3) by (auto simp: voice_wf_def)
  consider (far) "vc_addr c \<noteq> addr \<and> \<not> (hello \<or> fst (vc_addr c) = fst addr)"
    | (old) "\<not> (vc_addr c \<noteq> addr \<and> \<not> (hello \<or> fst (vc_addr c) = fst addr))" "vp_seq p \<le> vc_seq c"
    | (new) "\<not> (vc_addr c \<noteq> addr \<and> \<not> (hello \<or> fst (vc_addr c) = fst addr))" "vc_seq c < vp_seq p" by fastforce
  then show ?thesis
  proof cases
    case far
    then show ?thesis using ignored assms(1) by (simp add: admit_bound_def clock)
  next
    case old
    then have "s' = put_voice (vp_id p) ?c s" "\<not> accepted"
      using assms(1) by (auto simp: admit_bound_def clock Let_def split: if_splits)
    then show ?thesis using followed [of ?c] old(1) slot ok assms(3)
      by (auto simp: bound_put_voice follows_packet_def wf_put_voice)
  next
    case new
    let ?n = "?c\<lparr> vc_seq := vp_seq p \<rparr>"
    obtain c1 paid where paid: "(if spam_protection pc then voice_credit t1 t2 ?n else (?n, True)) = (c1, paid)" by fastforce
    have "bucket_ok (vc_credit c1) \<and> (\<exists>cr r. c1 = ?n\<lparr> vc_credit := cr, vc_refill := r \<rparr>)"
    proof (cases "spam_protection pc")
      case True
      then show ?thesis using paid voice_credit_ok [of ?n t1 t2 c1 paid] ok(2) by auto
    next
      case False
      then have "c1 = ?n\<lparr> vc_credit := vc_credit c, vc_refill := vc_refill c \<rparr>" "vc_credit c1 = vc_credit c"
        using paid by (cases c; auto)+
      then show ?thesis using ok(2) by metis
    qed
    then obtain cr r where c1: "bucket_ok cr" "c1 = ?n\<lparr> vc_credit := cr, vc_refill := r \<rparr>" by auto
    let ?s = "count_activity (pc_server pc) (vp_id p) t3 (c1\<lparr> vc_throttled := False \<rparr>) s"
    have step: "s' = (if paid then ?s else put_voice (vp_id p) (c1\<lparr> vc_throttled := True \<rparr>) s)" "accepted = paid"
      using assms(1) new paid by (simp_all add: admit_bound_def clock Let_def split: if_splits prod.splits)
    have here: "hello \<or> fst (vc_addr c) = fst addr" using new(1) by auto
    show ?thesis
    proof (cases paid)
      case True
      note k = count_activity_kept [OF assms(2), where cf = "pc_server pc" and now = t3 and c = "c1\<lparr> vc_throttled := False \<rparr>"]
      obtain n where n: "bound (vp_id p) ?s = Some (c1\<lparr> vc_throttled := False, vc_packet_accumulator := n \<rparr>)" using k(4) by auto
      show ?thesis
      proof (rule followed [OF here])
        show "bound (vp_id p) s' = Some (c1\<lparr> vc_throttled := False, vc_packet_accumulator := n \<rparr>)" using n True step by simp
        show "follows_packet p addr c (c1\<lparr> vc_throttled := False, vc_packet_accumulator := n \<rparr>) accepted"
          using c1 new(2) by (simp add: follows_packet_def)
        show "voice_wf s'" using True step k(5) [OF assms(3)] c1 ok(1) by simp
      qed (use True step k in simp_all)
    next
      case False
      show ?thesis
      proof (rule followed [OF here])
        show "bound (vp_id p) s' = Some (c1\<lparr> vc_throttled := True \<rparr>)" using False step slot by (simp add: bound_put_voice)
        show "follows_packet p addr c (c1\<lparr> vc_throttled := True \<rparr>) accepted"
          using c1 new(2) False step(2) by (simp add: follows_packet_def)
        show "voice_wf s'" using False step c1 ok(1) by (simp add: wf_put_voice [OF assms(3)])
      qed (use False step in \<open>simp_all add: bound_put_voice\<close>)
    qed
  qed
qed

lemma admit_kept:
  fixes s :: "('o, 'r) server"
  assumes "admit pc clock p addr s = (s', r)" "voice_wf s"
  shows "slots s' = slots s \<and> mains s' = mains s \<and> voice_wf s' \<and> (\<forall>j. j \<noteq> vp_id p \<longrightarrow> bound j s' = bound j s)"
proof (cases "map_of (sv_voice s) (vp_id p)")
  case None
  then show ?thesis using assms by (simp add: admit_def)
next
  case (Some slot)
  obtain name token where slot: "snd slot = (name, token)" by fastforce
  show ?thesis
  proof (cases "fst slot")
    case None
    have "bucket_ok (vc_credit (new_voice t p addr))" for t
      by (auto simp: bucket_ok_def new_voice_def burst_value intro!: exI [of _ "75 / 2"])
    then have "voice_wf (put_voice (vp_id p) (new_voice t p addr) s)" for t by (intro wf_put_voice assms(2)) (simp add: new_voice_def)
    then show ?thesis using assms Some slot None
      by (cases slot) (auto simp: admit_def bound_put_voice split: if_splits)
  next
    case (Some c)
    have b: "bound (vp_id p) s = Some c" using Some \<open>map_of _ _ = Some slot\<close> by (simp add: bound_def)
    obtain s1 acc where s1: "admit_bound pc clock p addr (is_hello token (vp_code p)) c s = (s1, acc)" by fastforce
    have "s' = s1" using assms(1) Some \<open>map_of _ _ = Some slot\<close> slot s1 by (cases slot) (auto simp: admit_def split: bool.splits)
    then show ?thesis using admit_bound_cases [OF s1 b assms(2)] assms(2) by metis
  qed
qed

lemma admit_moves:
  fixes s :: "('o, 'r) server"
  assumes "admit pc clock p addr s = (s', r)" "voice_wf s"
  obtains (stays) "bound (vp_id p) s' = bound (vp_id p) s"
  | (moves) c' name token where "bound (vp_id p) s' = Some c'" "vc_addr c' = addr" "map_of (slots s) (vp_id p) = Some (name, token)"
      "is_hello token (vp_code p) \<or> (\<exists>c. bound (vp_id p) s = Some c \<and> fst (vc_addr c) = fst addr)"
      "\<forall>c. bound (vp_id p) s = Some c \<longrightarrow> vc_seq c \<le> vc_seq c'"
proof (cases "map_of (sv_voice s) (vp_id p)")
  case None
  then show ?thesis using assms stays by (simp add: admit_def)
next
  case (Some slot)
  obtain name token where slot: "snd slot = (name, token)" by fastforce
  then have named: "map_of (slots s) (vp_id p) = Some (name, token)" using Some by (simp add: map_of_slots)
  show ?thesis
  proof (cases "fst slot")
    case None
    then have "bound (vp_id p) s = None" using Some by (simp add: bound_def)
    then show ?thesis using assms Some slot None stays moves [OF _ _ named, of "new_voice (fst clock) p addr"]
      by (cases slot) (auto simp: admit_def bound_put_voice new_voice_def split: if_splits)
  next
    case (Some c)
    have b: "bound (vp_id p) s = Some c" using Some \<open>map_of _ _ = Some slot\<close> by (simp add: bound_def)
    obtain s1 acc where s1: "admit_bound pc clock p addr (is_hello token (vp_code p)) c s = (s1, acc)" by fastforce
    have "s' = s1" using assms(1) Some \<open>map_of _ _ = Some slot\<close> slot s1 by (cases slot) (auto simp: admit_def split: bool.splits)
    with s1 b assms(2) show ?thesis
    proof (cases rule: admit_bound_cases)
      case (followed c')
      then show ?thesis using moves [OF _ _ named, of c'] b \<open>s' = s1\<close> by (auto simp: follows_packet_def)
    qed (use stays \<open>s' = s1\<close> in simp)
  qed
qed

text \<open>An admitted packet: the slot it names is open, and either it claims the slot or it raises the number.\<close>

lemma admitted:
  fixes s :: "('o, 'r) server"
  assumes "admit pc clock p addr s = (s', Some name)" "voice_wf s"
  obtains token c' where "map_of (slots s) (vp_id p) = Some (name, token)" "bound (vp_id p) s' = Some c'" "vc_addr c' = addr"
    "vc_seq c' = vp_seq p"
    "case bound (vp_id p) s of None \<Rightarrow> is_hello token (vp_code p)
     | Some c \<Rightarrow> vc_seq c < vp_seq p \<and> (is_hello token (vp_code p) \<or> fst (vc_addr c) = fst addr)"
proof (cases "map_of (sv_voice s) (vp_id p)")
  case (Some slot)
  obtain token where slot: "snd slot = (name, token)"
    using assms(1) Some by (cases slot) (auto simp: admit_def split: option.splits if_splits prod.splits bool.splits)
  show ?thesis
  proof (cases "fst slot")
    case None
    then show ?thesis using assms(1) Some slot that [of token "new_voice (fst clock) p addr"]
      by (cases slot) (auto simp: admit_def map_of_slots bound_def map_of_put_voice new_voice_def split: if_splits)
  next
    case (Some c)
    have b: "bound (vp_id p) s = Some c" using Some \<open>map_of _ _ = Some slot\<close> by (simp add: bound_def)
    have s1: "admit_bound pc clock p addr (is_hello token (vp_code p)) c s = (s', True)"
      using assms(1) Some \<open>map_of _ _ = Some slot\<close> slot by (cases slot) (auto simp: admit_def split: bool.splits prod.splits)
    from s1 b assms(2) show ?thesis
    proof (cases rule: admit_bound_cases)
      case (followed c')
      then show ?thesis using that [of token c'] b \<open>map_of _ _ = Some slot\<close> slot
        by (auto simp: follows_packet_def map_of_slots)
    qed simp
  qed
qed (use assms in \<open>simp add: admit_def\<close>)

section \<open>Fanning out\<close>

definition bump :: "voice_connection \<Rightarrow> voice_connection" where
  "bump c = c\<lparr> vc_server_seq := vc_server_seq c + 1 \<rparr>"

definition copy_for :: "nat \<Rightarrow> voice_packet_code \<Rightarrow> ('o, 'r) server \<Rightarrow> nat \<Rightarrow> datagram" where
  "copy_for i code s j = \<lparr> dg_addr = vc_addr (the (bound j s)),
     dg_packet = \<lparr> vp_id = i, vp_code = code, vp_seq = vc_server_seq (the (bound j s)) + 1 \<rparr>, dg_keys = the (find_key j s) \<rparr>"

lemma voice_send_bound:
  assumes "bound j s = Some c"
  shows "voice_send i code addr j ks (s, sent) = (put_voice j (bump c) s,
    sent @ [\<lparr> dg_addr = addr, dg_packet = \<lparr> vp_id = i, vp_code = code, vp_seq = vc_server_seq c + 1 \<rparr>, dg_keys = ks \<rparr>])"
  using assms by (auto simp: bound_def voice_send_def bump_def Let_def Option.bind_eq_Some_conv)

lemma fan_out_eq:
  assumes "\<forall>(a, ks, j) \<in> set to. \<exists>c. bound j s = Some c \<and> vc_addr c = a \<and> find_key j s = Some ks" "distinct (map (snd \<circ> snd) to)"
  shows "\<exists>s'. fan_out i code to (s, sent) = (s', sent @ map (copy_for i code s \<circ> (snd \<circ> snd)) to) \<and>
    slots s' = slots s \<and> mains s' = mains s \<and> (\<forall>j. bound j s' = (if j \<in> (snd \<circ> snd) ` set to then map_option bump (bound j s) else bound j s))"
  using assms
proof (induction to arbitrary: s sent)
  case (Cons x to)
  obtain a ks j where x: "x = (a, ks, j)" by (cases x)
  obtain c where c: "bound j s = Some c" "vc_addr c = a" "find_key j s = Some ks" using Cons.prems(1) x by auto
  let ?s = "put_voice j (bump c) s"
  note send = voice_send_bound [OF c(1), of i code a ks sent]
  have other: "k \<noteq> j \<Longrightarrow> bound k ?s = bound k s" for k by (simp add: bound_put_voice)
  have nj: "j \<notin> (snd \<circ> snd) ` set to" using Cons.prems(2) x by simp
  have pre: "\<forall>(a, ks, j) \<in> set to. \<exists>c. bound j ?s = Some c \<and> vc_addr c = a \<and> find_key j ?s = Some ks"
    using Cons.prems(1) nj other by (fastforce simp: image_iff)
  have copies: "map (copy_for i code ?s \<circ> (snd \<circ> snd)) to = map (copy_for i code s \<circ> (snd \<circ> snd)) to"
    using nj by (auto simp: copy_for_def other image_iff)
  obtain s' where s': "fan_out i code to (?s, sent @ [copy_for i code s j]) =
      (s', (sent @ [copy_for i code s j]) @ map (copy_for i code s \<circ> (snd \<circ> snd)) to)" "slots s' = slots s" "mains s' = mains s"
    "\<forall>k. bound k s' = (if k \<in> (snd \<circ> snd) ` set to then map_option bump (bound k ?s) else bound k ?s)"
    using Cons.IH [OF pre, of "sent @ [copy_for i code s j]"] Cons.prems(2) unfolding copies by auto
  have "fan_out i code (x # to) (s, sent) = fan_out i code to (?s, sent @ [copy_for i code s j])"
    using send c by (simp add: fan_out_def x copy_for_def)
  moreover have "bound j ?s = Some (bump c)" using bound_slot [OF c(1)] by (simp add: bound_put_voice)
  then have "bound k s' = (if k \<in> (snd \<circ> snd) ` set (x # to) then map_option bump (bound k s) else bound k s)" for k
    using s'(4) nj c(1) other [of k] by (cases "k = j") (simp_all add: x)
  ultimately show ?case using s'(1-3) by (simp add: x)
qed (simp add: fan_out_def)

lemma voice_entry:
  assumes "voice_wf s" "(i, slot) \<in> set (sv_voice s)"
  shows "bound i s = fst slot"
proof -
  have "map_of (sv_voice s) i = Some slot" using assms by (simp add: voice_wf_def)
  then show ?thesis by (simp add: bound_def)
qed

lemma listener_iff:
  "listener i addr s entry = Some (a, ks, j) \<longleftrightarrow> (\<exists>c. entry = Some c \<and> vc_addr c = a \<and> a \<noteq> addr \<and> vc_id c = j \<and>
    find_channel j s = find_channel i s \<and> find_key j s = Some ks)"
  by (cases ks) (auto simp: listener_def split: option.split)

lemma audience_iff:
  assumes "voice_wf s"
  shows "(a, ks, j) \<in> set (audience i addr s) \<longleftrightarrow> (\<exists>c. bound j s = Some c \<and> vc_addr c = a \<and> a \<noteq> addr \<and>
    find_channel j s = find_channel i s \<and> find_key j s = Some ks)" (is "_ = ?listening")
proof
  assume "(a, ks, j) \<in> set (audience i addr s)"
  then obtain k slot c where k: "(k, slot) \<in> set (sv_voice s)" "fst slot = Some c" "vc_addr c = a" "a \<noteq> addr" "vc_id c = j"
      "find_channel j s = find_channel i s" "find_key j s = Some ks"
    unfolding audience_def map_filter_set by (auto simp: listener_iff)
  have "bound k s = Some c" using voice_entry [OF assms k(1)] k(2) by simp
  moreover from this have "vc_id c = k" using assms by (simp add: voice_wf_def)
  ultimately show ?listening using k by auto
next
  assume ?listening
  then obtain c where c: "bound j s = Some c" "vc_addr c = a" "a \<noteq> addr" "find_channel j s = find_channel i s" "find_key j s = Some ks"
    by blast
  then obtain slot where "(j, slot) \<in> set (sv_voice s)" "fst slot = Some c"
    by (auto simp: bound_def Option.bind_eq_Some_conv dest: map_of_SomeD)
  moreover have "vc_id c = j" using c(1) assms by (simp add: voice_wf_def)
  ultimately show "(a, ks, j) \<in> set (audience i addr s)"
    using c unfolding audience_def map_filter_set by (intro bexI [of _ "(j, slot)"]) (auto simp: listener_iff split: prod.split)
qed

lemma map_filter_keyed:
  assumes "\<And>x y. x \<in> set xs \<Longrightarrow> f x = Some y \<Longrightarrow> g y = h x" "distinct (map h xs)"
  shows "distinct (map g (List.map_filter f xs)) \<and> g ` set (List.map_filter f xs) \<subseteq> h ` set xs"
  using assms
proof (induction xs)
  case (Cons x xs)
  then have "distinct (map g (List.map_filter f xs))" "g ` set (List.map_filter f xs) \<subseteq> h ` set xs" "h x \<notin> h ` set xs" by auto
  moreover have "f x = Some y \<Longrightarrow> g y = h x" for y using Cons.prems(1) by simp
  ultimately show ?case unfolding map_filter_Cons by (cases "f x") auto
qed (simp add: List.map_filter_def)

lemma audience_distinct:
  fixes s :: "('o, 'r) server"
  assumes "voice_wf s"
  shows "distinct (map (snd \<circ> snd) (audience i addr s))"
proof -
  have "(snd \<circ> snd) y = fst x" if x: "x \<in> set (sv_voice s)" and y: "(case x of (_, entry, _) \<Rightarrow> listener i addr s entry) = Some y" for x y
  proof -
    obtain c where c: "fst (snd x) = Some c" "snd (snd y) = vc_id c" using y by (cases x; cases y) (auto simp: listener_iff)
    have "bound (fst x) s = Some c" using voice_entry [OF assms, of "fst x" "snd x"] x c(1) by simp
    then show ?thesis using assms c(2) by (simp add: voice_wf_def)
  qed
  then show ?thesis unfolding audience_def
    using assms by (intro map_filter_keyed [where h = fst, THEN conjunct1]) (simp_all add: voice_wf_def)
qed

lemma third_image: "(snd \<circ> snd) ` S = {j. \<exists>a k. (a, k, j) \<in> S}"
  by force

lemma fan_out_audience:
  fixes s :: "('o, 'r) server"
  assumes "voice_wf s"
  obtains s' js where "fan_out i code (audience i addr s) (s, []) = (s', map (copy_for i code s) js)" "distinct js"
    "set js = {j. \<exists>c. bound j s = Some c \<and> vc_addr c \<noteq> addr \<and> find_channel j s = find_channel i s \<and> find_key j s \<noteq> None}"
    "slots s' = slots s" "mains s' = mains s" "\<And>j. bound j s' = (if j \<in> set js then map_option bump (bound j s) else bound j s)"
proof -
  let ?to = "audience i addr s"
  have "\<forall>(a, ks, j) \<in> set ?to. \<exists>c. bound j s = Some c \<and> vc_addr c = a \<and> find_key j s = Some ks"
    by (clarify, unfold audience_iff [OF assms]) blast
  from fan_out_eq [OF this audience_distinct [OF assms], of i code "[]"]
  obtain s' where s': "fan_out i code ?to (s, []) = (s', [] @ map (copy_for i code s \<circ> (snd \<circ> snd)) ?to)"
    "slots s' = slots s" "mains s' = mains s" "\<forall>j. bound j s' = (if j \<in> (snd \<circ> snd) ` set ?to then map_option bump (bound j s) else bound j s)"
    by blast
  have "(snd \<circ> snd) ` set ?to = {j. \<exists>c. bound j s = Some c \<and> vc_addr c \<noteq> addr \<and> find_channel j s = find_channel i s \<and> find_key j s \<noteq> None}"
    unfolding third_image audience_iff [OF assms] not_None_eq by blast
  then show ?thesis using that [of s' "map (snd \<circ> snd) ?to"] s' audience_distinct [OF assms, of i addr]
    by (simp only: append_Nil map_map list.set_map)
qed

lemma mainsD:
  assumes "mains s' = mains s"
  shows "find_key j s' = find_key j s" "find_channel j s' = find_channel j s" "voice_muted j s' = voice_muted j s"
  using fun_cong [OF assms, of j] by (simp_all add: mains_def)

text \<open>A packet that is fanned out reaches the other bound sessions of the channel, as they were before it.\<close>

lemma fan_out_admitted:
  fixes s :: "('o, 'r) server"
  assumes "admit pc clock p addr s = (s1, Some name)" "voice_wf s"
  obtains s' js where "fan_out (vp_id p) code (audience (vp_id p) addr s1) (s1, []) = (s', map (copy_for (vp_id p) code s) js)"
    "distinct js"
    "set js = {j. j \<noteq> vp_id p \<and> (\<exists>c. bound j s = Some c \<and> vc_addr c \<noteq> addr \<and>
       find_channel j s = find_channel (vp_id p) s \<and> find_key j s \<noteq> None)}"
    "slots s' = slots s" "mains s' = mains s" "\<And>j. bound j s' = (if j \<in> set js then map_option bump (bound j s) else bound j s1)"
proof -
  have k: "slots s1 = slots s" "mains s1 = mains s" "voice_wf s1" "\<And>j. j \<noteq> vp_id p \<Longrightarrow> bound j s1 = bound j s"
    using admit_kept [OF assms] by auto
  obtain c0 where self: "bound (vp_id p) s1 = Some c0" "vc_addr c0 = addr" using admitted [OF assms] by metis
  obtain s' js where f: "fan_out (vp_id p) code (audience (vp_id p) addr s1) (s1, []) = (s', map (copy_for (vp_id p) code s1) js)"
    "distinct js" "set js = {j. \<exists>c. bound j s1 = Some c \<and> vc_addr c \<noteq> addr \<and> find_channel j s1 = find_channel (vp_id p) s1 \<and>
       find_key j s1 \<noteq> None}" "slots s' = slots s1" "mains s' = mains s1"
    "\<And>j. bound j s' = (if j \<in> set js then map_option bump (bound j s1) else bound j s1)"
    by (rule fan_out_audience [OF k(3), of "vp_id p" code addr]) (rule that)
  note m = mainsD [OF k(2)]
  have js: "set js = {j. j \<noteq> vp_id p \<and> (\<exists>c. bound j s = Some c \<and> vc_addr c \<noteq> addr \<and>
       find_channel j s = find_channel (vp_id p) s \<and> find_key j s \<noteq> None)}" unfolding f(3) m
  proof (intro Collect_cong)
    fix j
    show "(\<exists>c. bound j s1 = Some c \<and> vc_addr c \<noteq> addr \<and> find_channel j s = find_channel (vp_id p) s \<and> find_key j s \<noteq> None) =
      (j \<noteq> vp_id p \<and> (\<exists>c. bound j s = Some c \<and> vc_addr c \<noteq> addr \<and> find_channel j s = find_channel (vp_id p) s \<and> find_key j s \<noteq> None))"
      using self k(4) [of j] by (cases "j = vp_id p") simp_all
  qed
  have "copy_for (vp_id p) code s1 j = copy_for (vp_id p) code s j" if "j \<in> set js" for j
    using that k(4) [of j] unfolding js by (simp add: copy_for_def m)
  then have copies: "map (copy_for (vp_id p) code s1) js = map (copy_for (vp_id p) code s) js" by simp
  have "bound j s' = (if j \<in> set js then map_option bump (bound j s) else bound j s1)" for j
    using f(6) [of j] k(4) [of j] js by (cases "j = vp_id p") (simp_all only: mem_Collect_eq simp_thms if_False if_True)
  then show ?thesis using that [OF f(1)[unfolded copies] f(2) js] f(4,5) k(1,2) by simp
qed

text \<open>What relaying a packet changes: the numbers of those it is sent to.\<close>

lemma wf_bumped:
  assumes "voice_wf s" "slots s' = slots s" "\<And>j. bound j s' = bound j s \<or> bound j s' = map_option bump (bound j s)"
  shows "voice_wf s'"
proof -
  have "map fst (sv_voice s') = map fst (slots s')" "map fst (slots s) = map fst (sv_voice s)"
    by (simp_all add: slots_def case_prod_unfold comp_def)
  then have "map fst (sv_voice s') = map fst (sv_voice s)" using assms(2) by simp
  moreover have "vc_id c = i \<and> bucket_ok (vc_credit c)" if "bound i s' = Some c" for i c
    using assms(1) assms(3) [of i] that by (cases "bound i s") (auto simp: voice_wf_def bump_def)
  ultimately show ?thesis using assms(1) by (simp add: voice_wf_def)
qed

definition relayed :: "('o, 'r) server \<Rightarrow> ('o, 'r) server \<Rightarrow> bool" where
  "relayed s s' \<longleftrightarrow> slots s' = slots s \<and> mains s' = mains s \<and> (\<forall>j. bound j s' = bound j s \<or> bound j s' = map_option bump (bound j s))"

lemma relayed_send: "relayed s (fst (voice_send i code addr j ks (s, sent)))"
proof (cases "bound j s")
  case None
  then have "fst (voice_send i code addr j ks (s, sent)) = s"
    by (auto simp: voice_send_def bound_def split: option.splits)
  then show ?thesis by (simp add: relayed_def)
next
  case (Some c)
  then show ?thesis using bound_slot [OF Some]
    by (simp add: relayed_def voice_send_bound bound_put_voice)
qed

lemma relayed_refl [simp]: "relayed s s"
  by (simp add: relayed_def)

lemma relayed_packet:
  fixes s :: "('o, 'r) server"
  assumes "voice_wf s"
  shows "relayed s (fst (relay_packet p addr name s))"
proof -
  have fan: "relayed s (fst (fan_out i code (audience i addr s) (s, [])))" for i code
    by (rule fan_out_audience [OF assms, of i code addr]) (auto simp: relayed_def)
  show ?thesis
    by (cases "vp_code p") (auto simp: relay_packet_def Let_def fan intro: relayed_send split: option.split)
qed

lemma voice_handle_kept:
  fixes s :: "('o, 'r) server"
  assumes "voice_wf s" "voice_handle pc clock p addr s = (s', sent)"
  obtains s1 r where "admit pc clock p addr s = (s1, r)" "relayed s1 s'" "voice_wf s'" "slots s' = slots s" "mains s' = mains s"
proof -
  obtain s1 r where a: "admit pc clock p addr s = (s1, r)" by fastforce
  have k: "slots s1 = slots s" "mains s1 = mains s" "voice_wf s1" using admit_kept [OF a assms(1)] by auto
  have "s' = (case r of None \<Rightarrow> s1 | Some name \<Rightarrow> fst (relay_packet p addr name s1))"
    using assms(2) a by (auto simp: voice_handle_def split: option.splits)
  then have "relayed s1 s'" using relayed_packet [OF k(3)] by (auto split: option.split)
  then show ?thesis using that [OF a] k wf_bumped [OF k(3), of s'] by (simp add: relayed_def)
qed

section \<open>The loop never stops\<close>

lemma voice_dims: "valid_dims VOICE_GRID_WIDTH VOICE_GRID_HEIGHT" "VOICE_GRID_WIDTH < 2 ^ 64"
    "VOICE_GRID_WIDTH * VOICE_GRID_HEIGHT \<le> 510"
  by (simp_all add: valid_dims_def VOICE_GRID_WIDTH_def VOICE_GRID_HEIGHT_def)

lemma voice_receive_total:
  assumes "chat_ok C"
  obtains r where "voice_receive C K bytes s = Inr r"
proof -
  have "\<exists>r. obind (decrypt_packet C VOICE_GRID_WIDTH VOICE_GRID_HEIGHT bs ks) (\<lambda>x. Inr (f x)) = Inr r" for bs ks and f :: "_ \<Rightarrow> voice_packet option"
  proof -
    obtain res where "decrypt_packet C VOICE_GRID_WIDTH VOICE_GRID_HEIGHT bs ks = Inr res"
      using decrypt_packet_total [OF assms voice_dims] by blast
    then show ?thesis by (cases res) simp_all
  qed
  then have "\<exists>r. voice_receive C K bytes s = Inr r" unfolding voice_receive_def Let_def
    by (cases "find_key (unat (from_be_bytes (take 8 (take 2048 bytes)))) s") simp_all
  then show ?thesis using that by blast
qed

text \<open>The datagrams of a run, each with the clock and the address it came from.\<close>

fun voice_run ::
  "('v, 'w) chat_env \<Rightarrow> voice_codec \<Rightarrow> police_config \<Rightarrow> ((instant \<times> instant \<times> instant) \<times> u8 list \<times> sock_addr) list \<Rightarrow>
    ('o, 'r) server \<Rightarrow> fault + ('o, 'r) relay" where
  "voice_run C K pc [] s = Inr (s, [])"
| "voice_run C K pc ((clock, bytes, addr) # rest) s = rbind (listen_client_voice C K pc clock bytes addr s) (\<lambda>(s, sent).
     rbind (voice_run C K pc rest s) (\<lambda>(s, more). Inr (s, sent @ more)))"

lemma voice_run_step:
  fixes s :: "('o, 'r) server"
  assumes "chat_ok C" "voice_wf s"
  obtains s' sent where "listen_client_voice C K pc clock bytes addr s = Inr (s', sent)" "voice_wf s'" "slots s' = slots s" "mains s' = mains s"
proof -
  obtain r where r: "voice_receive C K bytes s = Inr r" by (rule voice_receive_total [OF assms(1)])
  show ?thesis
  proof (cases r)
    case None
    then show ?thesis using that [of s "[]"] r assms(2) by (simp add: listen_client_voice_def)
  next
    case (Some p)
    obtain s' sent where h: "voice_handle pc clock p addr s = (s', sent)" by fastforce
    show ?thesis
      by (rule voice_handle_kept [OF assms(2) h]) (use that [of s' sent] r Some h in \<open>simp add: listen_client_voice_def\<close>)
  qed
qed

section \<open>Properties\<close>


text \<open>Two sessions in the lobby; the second has bound its slot, the first not yet.\<close>

definition duo :: "('o, 'r) server" where
  "duo = empty_server\<lparr> sv_conns := [((1, 80), Authenticated (member\<lparr> a_channel := None, a_keys := ([], replicate 32 0) \<rparr>)),
      ((2, 80), Authenticated (member\<lparr> a_id := 1, a_username := ustr ''bob'', a_channel := None \<rparr>))],
    sv_voice := [(0, None, ustr ''ann'', [7]), (1, Some (new_voice 0 \<lparr> vp_id = 1, vp_code = Hello [9], vp_seq = 4 \<rparr> (2, 90)), ustr ''bob'', [9])] \<rparr>"

lemma duo_wf: "voice_wf duo"
  by (auto simp: voice_wf_def duo_def bound_def new_voice_def bucket_ok_def burst_value split: if_splits intro!: exI [of _ "75 / 2"])

lemma duo_lookups:
  "find_key 0 duo = Some ([], replicate 32 0)" "find_key 1 duo = Some ([], [])" "find_channel 0 duo = Some None" "find_channel 1 duo = Some None"
  "voice_muted 1 duo = False" "bound 0 duo = None"
  "bound 1 duo = Some (new_voice 0 \<lparr> vp_id = 1, vp_code = Hello [9], vp_seq = 4 \<rparr> (2, 90))"
  by (simp_all add: find_key_def find_channel_def voice_muted_def find_id_def duo_def member_def bound_def)

text \<open>
  C27 (voice_fanout). An admitted audio packet of an unmuted session with well-framed Opus goes, once each and under their own
  keys, to exactly the other bound sessions of the same channel at other addresses, with the username of the slot and
  the next number of each recipient. Of a muted or departed session, or malformed, it goes to nobody.
\<close>

theorem voice_fanout:
  fixes s :: "('o, 'r) server"
  assumes "voice_wf s" "admit pc clock p addr s = (s1, Some name)" "vp_code p = Audio data claimed"
  shows "\<exists>js. snd (voice_handle pc clock p addr s) = map (copy_for (vp_id p) (Audio data (Some name)) s) js \<and> distinct js \<and>
    set js = (if voice_muted (vp_id p) s \<or> \<not> opus_packet data then {}
      else {j. j \<noteq> vp_id p \<and> (\<exists>c. bound j s = Some c \<and> vc_addr c \<noteq> addr \<and>
        find_channel j s = find_channel (vp_id p) s \<and> find_key j s \<noteq> None)})"
proof -
  have m: "voice_muted (vp_id p) s1 = voice_muted (vp_id p) s"
    using admit_kept [OF assms(2,1)] mainsD by blast
  show ?thesis
  proof (cases "voice_muted (vp_id p) s \<or> \<not> opus_packet data")
    case True
    then show ?thesis using assms(2,3) m
      by (intro exI [of _ "[]"]) (auto simp: voice_handle_def relay_packet_def validate_iff)
  next
    case False
    obtain s' js where f: "fan_out (vp_id p) (Audio data (Some name)) (audience (vp_id p) addr s1) (s1, []) =
        (s', map (copy_for (vp_id p) (Audio data (Some name)) s) js)" and js: "distinct js"
      "set js = {j. j \<noteq> vp_id p \<and> (\<exists>c. bound j s = Some c \<and> vc_addr c \<noteq> addr \<and>
         find_channel j s = find_channel (vp_id p) s \<and> find_key j s \<noteq> None)}"
      by (rule fan_out_admitted [OF assms(2,1), of "Audio data (Some name)"]) (rule that)
    have "snd (voice_handle pc clock p addr s) = map (copy_for (vp_id p) (Audio data (Some name)) s) js"
      using False f m by (simp add: voice_handle_def relay_packet_def validate_iff assms(2,3))
    then show ?thesis using False js by metis
  qed
qed

theorem voice_fanout_witness:
  "\<exists>js. snd (voice_handle calm (0, 0, 0) \<lparr> vp_id = 1, vp_code = Audio [0, 5] None, vp_seq = 5 \<rparr> (2, 90) (duo :: ('o, 'r) server)) =
     map (copy_for 1 (Audio [0, 5] (Some (ustr ''bob''))) (duo :: ('o, 'r) server)) js \<and> distinct js"
proof -
  let ?p = "\<lparr> vp_id = 1, vp_code = Audio [0, 5] None, vp_seq = 5 \<rparr>"
  obtain s1 where "admit calm (0, 0, 0) ?p (2, 90) (duo :: ('o, 'r) server) = (s1, Some (ustr ''bob''))"
    by (simp add: admit_def duo_def admit_bound_def new_voice_def calm_def)
  from voice_fanout [OF duo_wf this] show ?thesis by auto
qed

text \<open>
  C28 (voice_binding). Whatever packet arrives from whatever address, no slot is opened, closed or given another name
  or token. Only the slot the packet names is bound or moved, to the address it came from: an unbound one only by a
  \<open>Hello\<close> with the token of the slot, a bound one to another IP only by such a \<open>Hello\<close>. Its number never falls.
\<close>

theorem voice_binding:
  fixes s :: "('o, 'r) server"
  assumes "voice_wf s" "voice_handle pc clock p addr s = (s', sent)"
  shows "voice_wf s' \<and> slots s' = slots s \<and>
    (\<forall>i. map_option vc_addr (bound i s') \<noteq> map_option vc_addr (bound i s) \<longrightarrow>
       i = vp_id p \<and> map_option vc_addr (bound i s') = Some addr \<and>
       (\<exists>name token. map_of (slots s) i = Some (name, token) \<and>
          ((\<exists>t. vp_code p = Hello t \<and> (length t = length token \<longrightarrow> t = token)) \<or>
           (\<exists>c. bound i s = Some c \<and> fst (vc_addr c) = fst addr)))) \<and>
    (\<forall>i c. bound i s = Some c \<longrightarrow> (\<exists>c'. bound i s' = Some c' \<and> vc_seq c \<le> vc_seq c'))"
proof -
  obtain s1 r where a: "admit pc clock p addr s = (s1, r)" "relayed s1 s'" "voice_wf s'" "slots s' = slots s"
    by (rule voice_handle_kept [OF assms]) (rule that)
  have other: "bound i s1 = bound i s" if "i \<noteq> vp_id p" for i using admit_kept [OF a(1) assms(1)] that by blast
  have same: "map_option vc_addr (bound i s') = map_option vc_addr (bound i s1)"
      "map_option vc_seq (bound i s') = map_option vc_seq (bound i s1)" for i
    using a(2) by (cases "bound i s1"; auto simp: relayed_def bump_def dest: spec [of _ i])+
  have hello: "\<exists>t. vp_code p = Hello t \<and> (length t = length token \<longrightarrow> t = token)" if "is_hello token (vp_code p)" for token
    using that by (auto simp: is_hello_def tokens_match_iff split: voice_packet_code.splits)
  have seqs: "\<exists>c'. bound i s1 = Some c' \<and> vc_seq c \<le> vc_seq c'" if "bound i s = Some c" for i c
  proof (cases "i = vp_id p")
    case True
    show ?thesis by (rule admit_moves [OF a(1) assms(1)]) (use that True in auto)
  qed (use other that in auto)
  have moved: "map_option vc_addr (bound i s1) = Some addr \<and> (\<exists>name token. map_of (slots s) i = Some (name, token) \<and>
          ((\<exists>t. vp_code p = Hello t \<and> (length t = length token \<longrightarrow> t = token)) \<or>
           (\<exists>c. bound i s = Some c \<and> fst (vc_addr c) = fst addr)))"
    if "map_option vc_addr (bound i s1) \<noteq> map_option vc_addr (bound i s)" "i = vp_id p" for i
    using a(1) assms(1)
  proof (cases rule: admit_moves)
    case (moves c' name token)
    then show ?thesis using that(2) hello [of token] by auto
  qed (use that in simp)
  show ?thesis
  proof (intro conjI allI impI)
    fix i assume i: "map_option vc_addr (bound i s') \<noteq> map_option vc_addr (bound i s)"
    then show "i = vp_id p" using same other by metis
    then show "map_option vc_addr (bound i s') = Some addr" "\<exists>name token. map_of (slots s) i = Some (name, token) \<and>
          ((\<exists>t. vp_code p = Hello t \<and> (length t = length token \<longrightarrow> t = token)) \<or>
           (\<exists>c. bound i s = Some c \<and> fst (vc_addr c) = fst addr))"
      using moved [of i] i same(1) by simp_all
  next
    fix i c assume "bound i s = Some c"
    then obtain c1 where "bound i s1 = Some c1" "vc_seq c \<le> vc_seq c1" using seqs by blast
    then show "\<exists>c'. bound i s' = Some c' \<and> vc_seq c \<le> vc_seq c'" using same(2) [of i] by (cases "bound i s'") auto
  qed (use a in simp_all)
qed

theorem voice_binding_witness:
  "\<exists>s' sent. voice_handle calm (0, 0, 0) \<lparr> vp_id = 0, vp_code = Hello [7], vp_seq = 1 \<rparr> (1, 99) (duo :: ('o, 'r) server) = (s', sent) \<and>
     map_option vc_addr (bound 0 s') = Some (1, 99) \<and> slots s' = slots (duo :: ('o, 'r) server)"
proof -
  let ?p = "\<lparr> vp_id = 0, vp_code = Hello [7], vp_seq = 1 \<rparr>"
  obtain s' sent where h: "voice_handle calm (0, 0, 0) ?p (1, 99) (duo :: ('o, 'r) server) = (s', sent)" by fastforce
  have "bound 0 s' \<noteq> None"
    using h duo_lookups(1) by (auto simp: voice_handle_def admit_def duo_def is_hello_def tokens_match_def relay_packet_def
        voice_send_def bound_def put_voice_def Let_def split: option.splits)
  then have "map_option vc_addr (bound 0 s') \<noteq> map_option vc_addr (bound 0 (duo :: ('o, 'r) server))" by (simp add: duo_lookups)
  then show ?thesis using voice_binding [OF duo_wf h] h by blast
qed

text \<open>
  The loop that serves voice answers every sequence of datagrams, however malformed, from whatever
  addresses and at whatever times, without a panic. Names and tokens of the slots and the main connections stay as they are,
  every bound slot keeps its id, and its credit stays a number between \<open>- 2\<^sup>2\<^sup>4\<close> and the burst.
\<close>

theorem voice_loop_survives:
  fixes s :: "('o, 'r) server"
  assumes "chat_ok C" "voice_wf s"
  shows "\<exists>s' sent. voice_run C K pc xs s = Inr (s', sent) \<and> voice_wf s' \<and> slots s' = slots s \<and> mains s' = mains s"
  using assms(2)
proof (induction xs arbitrary: s)
  case (Cons x xs)
  obtain clock bytes addr where x: "x = (clock, bytes, addr)" by (cases x)
  obtain s1 sent where 1: "listen_client_voice C K pc clock bytes addr s = Inr (s1, sent)" "voice_wf s1" "slots s1 = slots s" "mains s1 = mains s"
    by (rule voice_run_step [OF assms(1) Cons.prems]) (rule that)
  obtain s2 more where "voice_run C K pc xs s1 = Inr (s2, more)" "voice_wf s2" "slots s2 = slots s1" "mains s2 = mains s1"
    using Cons.IH [OF 1(2)] by blast
  then show ?case using 1 by (simp add: x)
qed simp

theorem voice_loop_survives_witness:
  "\<exists>s' sent. voice_run ref_chat \<lparr> vk_encode = \<lambda>_. [], vk_decode = \<lambda>_. None \<rparr> calm
     [((0, 0, 0), [1, 2, 3], (9, 9)), ((1, 1, 1), replicate 300 0, (1, 99))] (duo :: ('o, 'r) server) = Inr (s', sent) \<and> voice_wf s'"
  using voice_loop_survives [OF chat_ok_ref duo_wf] by blast

text \<open>
  A packet that a client seals under the session keys and sends with its id in front is
  received by the server as that packet, numbered with the client's counter, if it fits the receive buffer.
\<close>

theorem voice_datagram_roundtrip:
  assumes "chat_ok C" "find_key i s = Some ks" "length (snd ks) = 32" "i < 2 ^ 64"
    "voice_codec_reads K \<lparr> vp_id = i, vp_code = code, vp_seq = n + 1 \<rparr>"
  shows "\<exists>bytes. client_voice_send C K (Some seed) i code ks n = Inr (bytes, n + 1) \<and>
    (length bytes \<le> 2048 \<longrightarrow> voice_receive C K bytes s = Inr (Some \<lparr> vp_id = i, vp_code = code, vp_seq = n + 1 \<rparr>))"
proof -
  let ?p = "\<lparr> vp_id = i, vp_code = code, vp_seq = n + 1 \<rparr>"
  obtain enc k where e: "encrypt_packet C VOICE_GRID_WIDTH VOICE_GRID_HEIGHT (vk_encode K ?p) ks (Some seed) = Inr enc"
    "decrypt_packet C VOICE_GRID_WIDTH VOICE_GRID_HEIGHT enc ks = Inr (Some (vk_encode K ?p @ replicate k 0))"
    using decrypt_encrypt_packet [OF assms(1) voice_dims(1,2) _ assms(3)] voice_dims(3) by blast
  have "enc \<noteq> []" using e(2) by (auto simp: decrypt_packet_def packet_try_from_def)
  moreover have "unat (from_be_bytes (to_be_bytes (of_nat i))) = i" using assms(4) by (simp add: unat_of_nat codec_simps)
  ultimately show ?thesis using e assms(2,5)
    by (simp add: client_voice_send_def voice_bytes_def voice_receive_def Let_def voice_codec_reads_def)
qed

theorem voice_datagram_roundtrip_witness:
  "\<exists>bytes. client_voice_send ref_chat \<lparr> vk_encode = \<lambda>_. [], vk_decode = \<lambda>_. Some \<lparr> vp_id = 0, vp_code = HelloAck, vp_seq = 6 \<rparr> \<rparr>
      (Some [1]) 0 HelloAck ([], replicate 32 0) 5 = Inr (bytes, 6)"
proof -
  let ?K = "\<lparr> vk_encode = \<lambda>_. [], vk_decode = \<lambda>_. Some \<lparr> vp_id = 0, vp_code = HelloAck, vp_seq = 6 \<rparr> \<rparr>"
  have "voice_codec_reads ?K \<lparr> vp_id = 0, vp_code = HelloAck, vp_seq = 5 + 1 \<rparr>" by (simp add: voice_codec_reads_def)
  from voice_datagram_roundtrip [OF chat_ok_ref duo_lookups(1) _ _ this, of "[1]"] show ?thesis by auto
qed

text \<open>
  A \<open>Hello\<close> that is not fresh is not answered, but it moves the session all the same: a copy of
  the one that bound the slot, sent from anywhere, has the audio of the channel go to the address it came from.
\<close>

theorem replayed_hello_redirects:
  assumes "map_of (sv_voice s) (vp_id p) = Some (Some c, name, token)" "vp_code p = Hello token" "vp_seq p \<le> vc_seq c"
  shows "voice_handle pc clock p addr s = (put_voice (vp_id p) (c\<lparr> vc_addr := addr \<rparr>) s, []) \<and>
    bound (vp_id p) (fst (voice_handle pc clock p addr s)) = Some (c\<lparr> vc_addr := addr \<rparr>)"
proof -
  have "is_hello token (vp_code p)" using assms(2) by (simp add: is_hello_def tokens_match_iff)
  then have "admit_bound pc clock p addr (is_hello token (vp_code p)) c s = (put_voice (vp_id p) (c\<lparr> vc_addr := addr \<rparr>) s, False)"
    using assms(3) by (simp add: admit_bound_def Let_def split: prod.split)
  then have "voice_handle pc clock p addr s = (put_voice (vp_id p) (c\<lparr> vc_addr := addr \<rparr>) s, [])"
    using assms(1) by (simp add: voice_handle_def admit_def)
  then show ?thesis using assms(1) by (simp add: bound_put_voice)
qed

theorem replayed_hello_redirects_witness:
  "map_option vc_addr (bound 1 (fst (voice_handle calm (0, 0, 0) \<lparr> vp_id = 1, vp_code = Hello [9], vp_seq = 4 \<rparr> (66, 6) (duo :: ('o, 'r) server)))) =
     Some (66, 6)"
proof -
  let ?p = "\<lparr> vp_id = 1, vp_code = Hello [9], vp_seq = 4 \<rparr>"
  have "map_of (sv_voice (duo :: ('o, 'r) server)) (vp_id ?p) = Some (Some (new_voice 0 ?p (2, 90)), ustr ''bob'', [9])"
    by (simp add: duo_def)
  moreover have "vp_code ?p = Hello [9]" "vp_seq ?p \<le> vc_seq (new_voice 0 ?p (2, 90))" by (simp_all add: new_voice_def)
  ultimately have "bound (vp_id ?p) (fst (voice_handle calm (0, 0, 0) ?p (66, 6) (duo :: ('o, 'r) server))) =
      Some (new_voice 0 ?p (2, 90)\<lparr> vc_addr := (66, 6) \<rparr>)"
    by (rule replayed_hello_redirects [THEN conjunct2])
  then show ?thesis by simp
qed

end
