(* ===== verification/Kex.thy ===== *)
theory Kex
  imports Wire
begin

text \<open>
  The hybrid key exchange: \<open>chat/src/crypto/kex.rs\<close>, its wire format \<open>network/schema.rs\<close>, the pinning of server identities
  \<open>config/keys.rs\<close> and the client's half \<open>network/client/handshake.rs\<close>. P-521 and ML-KEM-768 are parameters; what the
  exchange relies on is \<open>prims_ok\<close>. Fresh secrets and randomness are arguments.
\<close>

section \<open>Primitives\<close>

record ('sk, 'pk, 'dk, 'ek, 'ct, 'sig) primitives =
  ec_public :: "'sk \<Rightarrow> 'pk"
  ec_agree :: "'sk \<Rightarrow> 'pk \<Rightarrow> u8 list"
  to_sec1 :: "'pk \<Rightarrow> u8 list"
  from_sec1 :: "u8 list \<Rightarrow> 'pk option"
  kem_public :: "'dk \<Rightarrow> 'ek"
  kem_encaps :: "'ek \<Rightarrow> u8 list \<Rightarrow> 'ct \<times> u8 list"
  kem_decaps :: "'dk \<Rightarrow> 'ct \<Rightarrow> u8 list"
  ek_bytes :: "'ek \<Rightarrow> u8 list"
  ek_read :: "u8 list \<Rightarrow> 'ek option"
  ct_bytes :: "'ct \<Rightarrow> u8 list"
  ct_read :: "u8 list \<Rightarrow> 'ct option"
  sig_sign :: "'sk \<Rightarrow> u8 list \<Rightarrow> 'sig"
  sig_verify :: "u8 list \<Rightarrow> u8 list \<Rightarrow> 'sig \<Rightarrow> bool"
    \<comment> \<open>by the verifying key with that SEC1 encoding, and false if it is none\<close>
  sig_bytes :: "'sig \<Rightarrow> u8 list"
  sig_read :: "u8 list \<Rightarrow> 'sig option"

definition ECC_PUBKEY_SIZE :: nat where "ECC_PUBKEY_SIZE = 133"
definition ECC_SIGNATURE_SIZE :: nat where "ECC_SIGNATURE_SIZE = 132"
definition PQ_PUBKEY_SIZE :: nat where "PQ_PUBKEY_SIZE = 1184"
definition PQ_CIPHERTEXT_SIZE :: nat where "PQ_CIPHERTEXT_SIZE = 1088"
definition KEX_CONTEXT :: "u8 list" where "KEX_CONTEXT = bytes_of ''WHY2-KEX-V1''"

text \<open>An encoding of a fixed size that is read back.\<close>

definition fixed_field :: "nat \<Rightarrow> ('a \<Rightarrow> u8 list) \<Rightarrow> (u8 list \<Rightarrow> 'a option) \<Rightarrow> bool" where
  "fixed_field n put get \<longleftrightarrow> (\<forall>x. length (put x) = n \<and> get (put x) = Some x)"

definition prims_ok :: "('sk, 'pk, 'dk, 'ek, 'ct, 'sig) primitives \<Rightarrow> bool" where
  "prims_ok P \<longleftrightarrow> fixed_field ECC_PUBKEY_SIZE (to_sec1 P) (from_sec1 P) \<and> fixed_field PQ_PUBKEY_SIZE (ek_bytes P) (ek_read P) \<and>
     fixed_field PQ_CIPHERTEXT_SIZE (ct_bytes P) (ct_read P) \<and> fixed_field ECC_SIGNATURE_SIZE (sig_bytes P) (sig_read P) \<and>
     (\<forall>a b. ec_agree P a (ec_public P b) = ec_agree P b (ec_public P a)) \<and>
     (\<forall>dk r. kem_decaps P dk (fst (kem_encaps P (kem_public P dk) r)) = snd (kem_encaps P (kem_public P dk) r)) \<and>
     (\<forall>sk m. sig_verify P (to_sec1 P (ec_public P sk)) m (sig_sign P sk m))"

record ('pk, 'ek, 'sig) offer =
  static_ecc :: 'pk
  of_eph_ecc :: 'pk
  of_pq :: 'ek
  of_sig :: 'sig

record ('pk, 'ct) reply =
  re_eph_ecc :: 'pk
  re_pq :: 'ct

record ('sk, 'dk) ephemeral =
  ep_ecc :: 'sk
  ep_pq :: 'dk

section \<open>Wire format\<close>

datatype read_error = ReadSizeLimit | InvalidValue

text \<open>Writing a field panics if its bytes do not have the size of the field.\<close>

definition write_field :: "nat \<Rightarrow> u8 list \<Rightarrow> fault + u8 list" where
  "write_field n bytes = (if length bytes = n then Inr bytes else Inl Panic)"

definition read_field :: "nat \<Rightarrow> (u8 list \<Rightarrow> 'a option) \<Rightarrow> u8 list \<Rightarrow> read_error + 'a \<times> u8 list" where
  "read_field n get input = (if length input < n then Inl ReadSizeLimit
     else case get (take n input) of None \<Rightarrow> Inl InvalidValue | Some x \<Rightarrow> Inr (x, drop n input))"

definition write_offer :: "('sk, 'pk, 'dk, 'ek, 'ct, 'sig) primitives \<Rightarrow> ('pk, 'ek, 'sig) offer \<Rightarrow> fault + u8 list" where
  "write_offer P x =
     rbind (write_field ECC_PUBKEY_SIZE (to_sec1 P (static_ecc x))) (\<lambda>a.
     rbind (write_field ECC_PUBKEY_SIZE (to_sec1 P (of_eph_ecc x))) (\<lambda>b.
     rbind (write_field PQ_PUBKEY_SIZE (ek_bytes P (of_pq x))) (\<lambda>c.
     rbind (write_field ECC_SIGNATURE_SIZE (sig_bytes P (of_sig x))) (\<lambda>d. Inr (a @ b @ c @ d)))))"

definition read_offer :: "('sk, 'pk, 'dk, 'ek, 'ct, 'sig) primitives \<Rightarrow> u8 list \<Rightarrow> read_error + ('pk, 'ek, 'sig) offer \<times> u8 list" where
  "read_offer P input =
     rbind (read_field ECC_PUBKEY_SIZE (from_sec1 P) input) (\<lambda>(a, input).
     rbind (read_field ECC_PUBKEY_SIZE (from_sec1 P) input) (\<lambda>(b, input).
     rbind (read_field PQ_PUBKEY_SIZE (ek_read P) input) (\<lambda>(c, input).
     rbind (read_field ECC_SIGNATURE_SIZE (sig_read P) input) (\<lambda>(d, input).
     Inr (\<lparr> static_ecc = a, of_eph_ecc = b, of_pq = c, of_sig = d \<rparr>, input)))))"

definition write_reply :: "('sk, 'pk, 'dk, 'ek, 'ct, 'sig) primitives \<Rightarrow> ('pk, 'ct) reply \<Rightarrow> fault + u8 list" where
  "write_reply P x =
     rbind (write_field ECC_PUBKEY_SIZE (to_sec1 P (re_eph_ecc x))) (\<lambda>a.
     rbind (write_field PQ_CIPHERTEXT_SIZE (ct_bytes P (re_pq x))) (\<lambda>b. Inr (a @ b)))"

definition read_reply :: "('sk, 'pk, 'dk, 'ek, 'ct, 'sig) primitives \<Rightarrow> u8 list \<Rightarrow> read_error + ('pk, 'ct) reply \<times> u8 list" where
  "read_reply P input =
     rbind (read_field ECC_PUBKEY_SIZE (from_sec1 P) input) (\<lambda>(a, input).
     rbind (read_field PQ_CIPHERTEXT_SIZE (ct_read P) input) (\<lambda>(b, input).
     Inr (\<lparr> re_eph_ecc = a, re_pq = b \<rparr>, input)))"

section \<open>The exchange\<close>

definition public_bytes :: "('sk, 'pk, 'dk, 'ek, 'ct, 'sig) primitives \<Rightarrow> 'pk \<Rightarrow> fault + u8 list" where
  "public_bytes P k = (if length (to_sec1 P k) = ECC_PUBKEY_SIZE then Inr (to_sec1 P k) else Inl Panic)"

definition transcript :: "('sk, 'pk, 'dk, 'ek, 'ct, 'sig) primitives \<Rightarrow> u8 list \<Rightarrow> 'pk \<Rightarrow> 'ek \<Rightarrow> fault + u8 list" where
  "transcript P nonce eph_ecc pq = rbind (public_bytes P eph_ecc) (\<lambda>eph_bytes.
     Inr (KEX_CONTEXT @ nonce @ eph_bytes @ ek_bytes P pq))"

text \<open>The identity and the fresh secrets are arguments.\<close>

definition create_offer ::
  "('sk, 'pk, 'dk, 'ek, 'ct, 'sig) primitives \<Rightarrow> 'sk \<Rightarrow> 'sk \<times> 'dk \<Rightarrow> u8 list \<Rightarrow> fault + ('sk, 'dk) ephemeral \<times> ('pk, 'ek, 'sig) offer" where
  "create_offer P static_sk fresh nonce = (case fresh of (eph_sk, pq_dk) \<Rightarrow>
     let eph_ecc = ec_public P eph_sk; pq = kem_public P pq_dk in
     rbind (transcript P nonce eph_ecc pq) (\<lambda>message.
     Inr (\<lparr> ep_ecc = eph_sk, ep_pq = pq_dk \<rparr>,
          \<lparr> static_ecc = ec_public P static_sk, of_eph_ecc = eph_ecc, of_pq = pq, of_sig = sig_sign P static_sk message \<rparr>)))"

definition verify_offer ::
  "('sk, 'pk, 'dk, 'ek, 'ct, 'sig) primitives \<Rightarrow> u8 list \<Rightarrow> ('pk, 'ek, 'sig) offer \<Rightarrow> fault + bool" where
  "verify_offer P nonce x = rbind (public_bytes P (static_ecc x)) (\<lambda>identity.
     rbind (transcript P nonce (of_eph_ecc x) (of_pq x)) (\<lambda>message. Inr (sig_verify P identity message (of_sig x))))"

definition derive_encryption_keys :: "('v, 'w) chat_env \<Rightarrow> u8 list \<Rightarrow> fault + shared_keys" where
  "derive_encryption_keys C shared_secret =
     rbind (unwrap_option (hkdf_expand C None shared_secret (bytes_of ''WHY2-encryption'') (GW * GH * 16))) (\<lambda>encryption_key.
     rbind (unwrap_option (hkdf_expand C None shared_secret (bytes_of ''WHY2-mac'') 32)) (\<lambda>mac.
     Inr (map from_be_bytes (chunks 8 encryption_key), mac)))"

text \<open>\<open>expand_multi_info\<close> takes the parts of the info one after the other.\<close>

definition derive_shared_secret ::
  "('v, 'w) chat_env \<Rightarrow> ('sk, 'pk, 'dk, 'ek, 'ct, 'sig) primitives \<Rightarrow> 'sk \<Rightarrow> 'pk \<Rightarrow> u8 list \<Rightarrow> fault + shared_keys" where
  "derive_shared_secret C P local_key peer_pkey pq_secret =
     rbind (unwrap_option (hkdf_expand C None [] (ec_agree P local_key peer_pkey @ pq_secret @ bytes_of ''WHY2-HYBRID'') 64))
       (derive_encryption_keys C)"

definition decapsulate_pq :: "('sk, 'pk, 'dk, 'ek, 'ct, 'sig) primitives \<Rightarrow> ('sk, 'dk) ephemeral \<Rightarrow> 'ct \<Rightarrow> u8 list" where
  "decapsulate_pq P e ciphertext = kem_decaps P (ep_pq e) ciphertext"

text \<open>The server's keys from its ephemeral half and the reply.\<close>

definition server_keys ::
  "('v, 'w) chat_env \<Rightarrow> ('sk, 'pk, 'dk, 'ek, 'ct, 'sig) primitives \<Rightarrow> ('sk, 'dk) ephemeral \<Rightarrow> ('pk, 'ct) reply \<Rightarrow> fault + shared_keys" where
  "server_keys C P e r = derive_shared_secret C P (ep_ecc e) (re_eph_ecc r) (decapsulate_pq P e (re_pq r))"

text \<open>The client's reply to an offer and the keys that go with it.\<close>

definition client_reply ::
  "('v, 'w) chat_env \<Rightarrow> ('sk, 'pk, 'dk, 'ek, 'ct, 'sig) primitives \<Rightarrow> 'sk \<Rightarrow> u8 list \<Rightarrow> ('pk, 'ek, 'sig) offer
     \<Rightarrow> fault + ('pk, 'ct) reply \<times> shared_keys" where
  "client_reply C P sk rand x = (case kem_encaps P (of_pq x) rand of (pq_ciphertext, pq_secret) \<Rightarrow>
     rbind (derive_shared_secret C P sk (of_eph_ecc x) pq_secret) (\<lambda>ks.
     Inr (\<lparr> re_eph_ecc = ec_public P sk, re_pq = pq_ciphertext \<rparr>, ks)))"

section \<open>Pinned identities\<close>

datatype tofu_code = Valid | Unknown ustr ustr | Mismatch

definition key_hash :: "('v, 'w) chat_env \<Rightarrow> u8 list \<Rightarrow> ustr" where
  "key_hash C pubkey = from_ascii (hex (sha256 (core C) pubkey))"

text \<open>The key is there when \<open>config_read\<close> is called, so no migration is tried; \<open>None\<close> is the panic on a value that is no text.\<close>

definition pinned_text :: "item \<Rightarrow> ustr option" where
  "pinned_text v = (case value_text v of Inr s \<Rightarrow> Some s | Inl _ \<Rightarrow> None)"

definition tofu_check :: "('v, 'w) chat_env \<Rightarrow> document \<Rightarrow> ustr \<Rightarrow> u8 list \<Rightarrow> tofu_code option" where
  "tofu_check C pins host pubkey = (let fingerprint = key_hash C pubkey in case map_of pins host of
     Some v \<Rightarrow> map_option (\<lambda>s. if s = fingerprint then Valid else Mismatch) (pinned_text v)
   | None \<Rightarrow> Some (Unknown fingerprint host))"

definition pinned_key :: "document \<Rightarrow> ustr \<Rightarrow> ustr option option" where
  "pinned_key pins host = (case map_of pins host of
     None \<Rightarrow> Some None
   | Some v \<Rightarrow> map_option Some (pinned_text v))"

definition save_pin :: "ustr \<Rightarrow> ustr \<Rightarrow> document \<Rightarrow> config_error + document" where
  "save_pin host fingerprint pins = set_value host (Str fingerprint) pins"

section \<open>The client's half\<close>

datatype handshake = Ready | Reconnect | Failed

datatype client_event = Quit bool | HandshakeFailed | TofuSkip ustr | TofuPrompt ustr ustr bool "ustr option" | TofuError

record ('pk, 'ek, 'sig, 'ct) client =
  cl_keys :: shared_keys
  cl_pins :: document
  cl_fingerprint :: "ustr option"
  cl_sent :: "((('pk, 'ek, 'sig) offer, ('pk, 'ct) reply) packet_code \<times> shared_keys option) list"
  cl_events :: "client_event list"

definition tell :: "client_event \<Rightarrow> ('pk, 'ek, 'sig, 'ct) client \<Rightarrow> ('pk, 'ek, 'sig, 'ct) client" where
  "tell e c = c\<lparr> cl_events := cl_events c @ [e] \<rparr>"

definition post ::
  "(('pk, 'ek, 'sig) offer, ('pk, 'ct) reply) packet_code \<Rightarrow> shared_keys option \<Rightarrow> ('pk, 'ek, 'sig, 'ct) client \<Rightarrow> ('pk, 'ek, 'sig, 'ct) client" where
  "post code ks c = c\<lparr> cl_sent := cl_sent c @ [(code, ks)] \<rparr>"

text \<open>The loop that waits for the offer, over the results of \<open>receive\<close>; other packets are skipped.\<close>

fun await_offer :: "('o, 'r) packet_code option list \<Rightarrow> 'o option" where
  "await_offer (Some (Session_Code (KeyExchangeOffer x)) # _) = Some x"
| "await_offer (Some _ # rest) = await_offer rest"
| "await_offer _ = None"

text \<open>What follows a verdict other than \<open>Valid\<close>: the user is asked. \<open>answer\<close> is the reply, \<open>False\<close> when there is none.\<close>

definition ask_user ::
  "bool \<Rightarrow> ustr \<Rightarrow> ustr \<Rightarrow> bool \<Rightarrow> bool \<Rightarrow> ('pk, 'ek, 'sig, 'ct) client \<Rightarrow> (handshake \<times> ('pk, 'ek, 'sig, 'ct) client) option" where
  "ask_user fresh host fingerprint mismatch answer c = Option.bind (pinned_key (cl_pins c) host) (\<lambda>pin.
     let c = tell (TofuPrompt host fingerprint mismatch pin) c in
     if \<not> answer then Some (Failed, tell TofuError (post (Session_Code Disconnect) (Some (cl_keys c)) c))
     else case save_pin host fingerprint (cl_pins c) of
       Inl _ \<Rightarrow> None
     | Inr pins \<Rightarrow>
         let c = c\<lparr> cl_pins := pins \<rparr> in
         if fresh then Some (Reconnect, post (Session_Code Disconnect) (Some (cl_keys c)) c) else Some (Ready, c))"

definition client_key_exchange ::
  "('v, 'w) chat_env \<Rightarrow> ('sk, 'pk, 'dk, 'ek, 'ct, 'sig) primitives \<Rightarrow> bool \<Rightarrow> u8 list \<Rightarrow> ustr \<Rightarrow> 'sk \<times> u8 list \<Rightarrow> bool \<Rightarrow> shared_keys option
     \<Rightarrow> (('pk, 'ek, 'sig) offer, ('pk, 'ct) reply) packet_code option list \<Rightarrow> ('pk, 'ek, 'sig, 'ct) client
     \<Rightarrow> fault + handshake \<times> ('pk, 'ek, 'sig, 'ct) client" where
  "client_key_exchange C P skip nonce host fresh answer exchange_keys received c = (case await_offer received of
     None \<Rightarrow> Inr (Failed, tell (Quit False) c)
   | Some x \<Rightarrow>
       rbind (public_bytes P (static_ecc x)) (\<lambda>identity.
       rbind (if skip then Inr None else map_sum id Some (unwrap_option (tofu_check C (cl_pins c) host identity))) (\<lambda>verdict.
       rbind (verify_offer P nonce x) (\<lambda>signed.
       if \<not> signed then Inr (Failed, tell HandshakeFailed c)
       else rbind (client_reply C P (fst fresh) (snd fresh) x) (\<lambda>(r, ks).
         let c = post (Session_Code (KeyExchangeReply r)) exchange_keys c;
             fingerprint = key_hash C identity;
             c = c\<lparr> cl_keys := ks, cl_fingerprint := Some fingerprint \<rparr>
         in case verdict of
              None \<Rightarrow> Inr (Ready, tell (TofuSkip fingerprint) c)
            | Some Valid \<Rightarrow> Inr (Ready, c)
            | Some status \<Rightarrow> unwrap_option (ask_user (exchange_keys = None) host fingerprint (status = Mismatch) answer c))))))"

section \<open>Fields and transcripts\<close>

lemma fixed_fieldD:
  assumes "fixed_field n put get"
  shows "length (put x) = n" "get (put x) = Some x" "put x = put y \<longleftrightarrow> x = y"
  using assms unfolding fixed_field_def by (simp_all, metis option.inject)

lemma write_fixed: "fixed_field n put get \<Longrightarrow> write_field n (put x) = Inr (put x)"
  by (simp add: write_field_def fixed_fieldD)

lemma read_fixed: "fixed_field n put get \<Longrightarrow> read_field n get (put x @ rest) = Inr (x, rest)"
  by (simp add: read_field_def fixed_fieldD)

lemma prims_okD:
  assumes "prims_ok P"
  shows "fixed_field ECC_PUBKEY_SIZE (to_sec1 P) (from_sec1 P)" "fixed_field PQ_PUBKEY_SIZE (ek_bytes P) (ek_read P)"
    "fixed_field PQ_CIPHERTEXT_SIZE (ct_bytes P) (ct_read P)" "fixed_field ECC_SIGNATURE_SIZE (sig_bytes P) (sig_read P)"
    "ec_agree P a (ec_public P b) = ec_agree P b (ec_public P a)"
    "kem_decaps P dk (fst (kem_encaps P (kem_public P dk) r)) = snd (kem_encaps P (kem_public P dk) r)"
    "sig_verify P (to_sec1 P (ec_public P sk)) m (sig_sign P sk m)"
  using assms by (simp_all add: prims_ok_def)

lemma transcript_eq:
  assumes "prims_ok P"
  shows "transcript P nonce eph pq = Inr (KEX_CONTEXT @ nonce @ to_sec1 P eph @ ek_bytes P pq)"
    "public_bytes P eph = Inr (to_sec1 P eph)"
  using fixed_fieldD(1) [OF prims_okD(1) [OF assms]] by (simp_all add: transcript_def public_bytes_def)

text \<open>Fixed sizes leave one way to read a transcript.\<close>

lemma transcript_inj:
  assumes "prims_ok P" "length n = length n'" "transcript P n e q = transcript P n' e' q'"
  shows "n = n' \<and> e = e' \<and> q = q'"
  using assms(2,3) fixed_fieldD(1,3) [OF prims_okD(1) [OF assms(1)]] fixed_fieldD(3) [OF prims_okD(2) [OF assms(1)]]
  by (simp add: transcript_eq [OF assms(1)])

lemma derive_keys_ok:
  assumes "chat_ok C"
  obtains ks where "derive_shared_secret C P sk pk ss = Inr ks" "length (fst ks) = 2 * (GW * GH)" "length (snd ks) = 32"
proof -
  obtain sec where sec: "hkdf_expand C None [] (ec_agree P sk pk @ ss @ bytes_of ''WHY2-HYBRID'') 64 = Some sec"
    by (rule hkdf_some [OF assms, of 64]) simp_all
  obtain k where k: "hkdf_expand C None sec (bytes_of ''WHY2-encryption'') (GW * GH * 16) = Some k" "length k = GW * GH * 16"
    by (rule hkdf_some [OF assms, of "GW * GH * 16"]) (simp_all add: default_dims(3))
  obtain mac where mac: "hkdf_expand C None sec (bytes_of ''WHY2-mac'') 32 = Some mac" "length mac = 32"
    by (rule hkdf_some [OF assms, of 32]) simp_all
  have "length (chunks 8 k) = 2 * (GW * GH)" using k(2) length_chunks_mult [of 8 k "2 * (GW * GH)"] by simp
  then show ?thesis
    using that [of "(map from_be_bytes (chunks 8 k), mac)"] sec k mac by (simp add: derive_shared_secret_def derive_encryption_keys_def)
qed

lemma agree:
  assumes "prims_ok P" "create_offer P identity fresh nonce = Inr (e, x)" "client_reply C P sk rand x = Inr (r, ks)"
  shows "server_keys C P e r = Inr ks"
proof -
  obtain eph dk where fresh: "fresh = (eph, dk)" by (cases fresh)
  have e: "e = \<lparr> ep_ecc = eph, ep_pq = dk \<rparr>" "of_eph_ecc x = ec_public P eph" "of_pq x = kem_public P dk"
    using assms(2) by (auto simp: create_offer_def fresh Let_def transcript_eq [OF assms(1)])
  obtain ct ss where ct: "kem_encaps P (kem_public P dk) rand = (ct, ss)" by fastforce
  have "derive_shared_secret C P sk (ec_public P eph) ss = Inr ks" "r = \<lparr> re_eph_ecc = ec_public P sk, re_pq = ct \<rparr>"
    using assms(3) by (auto simp: client_reply_def e ct rbind_eq_Inr_iff)
  moreover have "kem_decaps P dk ct = ss" using prims_okD(6) [OF assms(1), of dk rand] ct by simp
  ultimately show ?thesis
    using prims_okD(5) [OF assms(1), of eph sk] by (simp add: server_keys_def decapsulate_pq_def e derive_shared_secret_def)
qed

lemma ask_user_trust:
  assumes "ask_user fresh host fp mismatch answer c = Some (h, c')"
  shows "h = Ready \<Longrightarrow> answer \<and> \<not> fresh" "\<not> answer \<Longrightarrow> cl_pins c' = cl_pins c" "cl_fingerprint c' = cl_fingerprint c"
  using assms by (auto simp: ask_user_def Let_def tell_def post_def Option.bind_eq_Some_conv split: if_splits sum.splits)

section \<open>Properties\<close>

text \<open>A toy instance of the primitives in which the laws hold: every key is one byte, padded to its size.\<close>

definition pad_to :: "nat \<Rightarrow> u8 \<Rightarrow> u8 list" where
  "pad_to n b = b # replicate (n - 1) 0"

definition ref_prims :: "(u8, u8, u8, u8, u8, u8) primitives" where
  "ref_prims = \<lparr> ec_public = id, ec_agree = (\<lambda>a b. [a * b]), to_sec1 = pad_to 133, from_sec1 = (\<lambda>bs. Some (hd bs)), kem_public = id,
     kem_encaps = (\<lambda>ek r. (ek, [ek])), kem_decaps = (\<lambda>dk ct. [ct]), ek_bytes = pad_to 1184, ek_read = (\<lambda>bs. Some (hd bs)),
     ct_bytes = pad_to 1088, ct_read = (\<lambda>bs. Some (hd bs)), sig_sign = (\<lambda>sk m. sk), sig_verify = (\<lambda>pk m sig. hd pk = sig),
     sig_bytes = pad_to 132, sig_read = (\<lambda>bs. Some (hd bs)) \<rparr>"

lemma prims_ok_ref: "prims_ok ref_prims"
  by (simp add: prims_ok_def ref_prims_def fixed_field_def pad_to_def ECC_PUBKEY_SIZE_def ECC_SIGNATURE_SIZE_def PQ_PUBKEY_SIZE_def
      PQ_CIPHERTEXT_SIZE_def mult.commute)

text \<open>
  C10 (kex_agreement). From every offer the server makes, for any nonce and fresh secrets, the client derives a reply and keys;
  the server derives the same keys from the reply, after both went over the wire; they have the sizes the packet
  cipher needs, and a packet that either side seals under them the other opens.
\<close>

theorem kex_agreement:
  assumes "chat_ok C" "prims_ok P"
  shows "\<exists>e x wx r wr ks. create_offer P identity fresh nonce = Inr (e, x) \<and> write_offer P x = Inr wx \<and> read_offer P wx = Inr (x, []) \<and>
    verify_offer P nonce x = Inr True \<and> client_reply C P sk rand x = Inr (r, ks) \<and> write_reply P r = Inr wr \<and> read_reply P wr = Inr (r, []) \<and>
    server_keys C P e r = Inr ks \<and> length (fst ks) = 2 * (GW * GH) \<and> length (snd ks) = 32 \<and>
    (\<forall>bytes seed. \<exists>enc k. encrypt_packet C GW GH bytes ks (Some seed) = Inr enc \<and>
       decrypt_packet C GW GH enc ks = Inr (Some (bytes @ replicate k 0)))"
proof -
  note p = prims_okD [OF assms(2)] and tr = transcript_eq [OF assms(2)]
  obtain eph dk where fresh: "fresh = (eph, dk)" by (cases fresh)
  obtain e x where x: "create_offer P identity fresh nonce = Inr (e, x)" "static_ecc x = ec_public P identity"
    "of_sig x = sig_sign P identity (KEX_CONTEXT @ nonce @ to_sec1 P (of_eph_ecc x) @ ek_bytes P (of_pq x))"
    by (auto simp: create_offer_def fresh Let_def tr)
  obtain ct ss where ct: "kem_encaps P (of_pq x) rand = (ct, ss)" by fastforce
  obtain ks where ks: "derive_shared_secret C P sk (of_eph_ecc x) ss = Inr ks" "length (fst ks) = 2 * (GW * GH)" "length (snd ks) = 32"
    by (rule derive_keys_ok [OF assms(1)])
  let ?r = "\<lparr> re_eph_ecc = ec_public P sk, re_pq = ct \<rparr>"
  have r: "client_reply C P sk rand x = Inr (?r, ks)" by (simp add: client_reply_def ct ks(1))
  have offer: "write_offer P x = Inr (to_sec1 P (static_ecc x) @ to_sec1 P (of_eph_ecc x) @ ek_bytes P (of_pq x) @ sig_bytes P (of_sig x))"
    by (simp add: write_offer_def write_fixed [OF p(1)] write_fixed [OF p(2)] write_fixed [OF p(4)])
  moreover have "read_offer P (to_sec1 P (static_ecc x) @ to_sec1 P (of_eph_ecc x) @ ek_bytes P (of_pq x) @ sig_bytes P (of_sig x)) = Inr (x, [])"
    using read_fixed [OF p(4), of "of_sig x" "[]"] by (simp add: read_offer_def read_fixed [OF p(1)] read_fixed [OF p(2)])
  moreover have "write_reply P ?r = Inr (to_sec1 P (ec_public P sk) @ ct_bytes P ct)"
    by (simp add: write_reply_def write_fixed [OF p(1)] write_fixed [OF p(3)])
  moreover have "read_reply P (to_sec1 P (ec_public P sk) @ ct_bytes P ct) = Inr (?r, [])"
    using read_fixed [OF p(3), of ct "[]"] by (simp add: read_reply_def read_fixed [OF p(1)])
  moreover have "verify_offer P nonce x = Inr True" using x(2,3) p(7) by (simp add: verify_offer_def tr)
  moreover have "\<exists>enc k. encrypt_packet C GW GH bytes ks (Some seed) = Inr enc \<and> decrypt_packet C GW GH enc ks = Inr (Some (bytes @ replicate k 0))"
    for bytes seed by (rule decrypt_encrypt_packet [OF assms(1) default_dims(1,2)]) (use ks in simp_all)
  ultimately show ?thesis using x(1) r agree [OF assms(2) x(1) r] ks(2,3) by blast
qed

theorem kex_agreement_witness:
  "\<exists>e x r ks. create_offer ref_prims 5 (6, 7) (replicate 32 1) = Inr (e, x) \<and> client_reply ref_chat ref_prims 9 [] x = Inr (r, ks) \<and>
     server_keys ref_chat ref_prims e r = Inr ks"
  using kex_agreement [OF chat_ok_ref prims_ok_ref, of 5 "(6, 7)" "replicate 32 1" 9 "[]"] by blast

text \<open>
  C11 (tofu_trust). When the client comes out of a key exchange ready, with the check of identities built in, it has the
  offer of that exchange: signed for the nonce this client sent by the identity it carries, and the fingerprint of that
  identity is the one pinned for the host, or, in a rekey only, the user accepted it just now. A client that
  comes out any other way and was not told to trust the server has its pins unchanged.
\<close>

theorem tofu_trust:
  assumes "prims_ok P" "client_key_exchange C P False nonce host fresh answer exchange_keys received c = Inr (h, c')"
  shows "(h = Ready \<longrightarrow> (\<exists>x. await_offer received = Some x \<and>
        sig_verify P (to_sec1 P (static_ecc x)) (KEX_CONTEXT @ nonce @ to_sec1 P (of_eph_ecc x) @ ek_bytes P (of_pq x)) (of_sig x) \<and>
        cl_fingerprint c' = Some (key_hash C (to_sec1 P (static_ecc x))) \<and>
        (Option.bind (map_of (cl_pins c) host) pinned_text = cl_fingerprint c' \<or> answer \<and> exchange_keys \<noteq> None))) \<and>
    (\<not> answer \<longrightarrow> cl_pins c' = cl_pins c)"
proof (cases "await_offer received")
  case (Some x)
  let ?fp = "key_hash C (to_sec1 P (static_ecc x))"
  note tr = transcript_eq [OF assms(1)]
  let ?signed = "sig_verify P (to_sec1 P (static_ecc x)) (KEX_CONTEXT @ nonce @ to_sec1 P (of_eph_ecc x) @ ek_bytes P (of_pq x)) (of_sig x)"
  have signed: "verify_offer P nonce x = Inr ?signed" by (simp add: verify_offer_def tr)
  obtain v where v: "tofu_check C (cl_pins c) host (to_sec1 P (static_ecc x)) = Some v"
    using assms(2) Some by (cases "tofu_check C (cl_pins c) host (to_sec1 P (static_ecc x))")
      (simp_all add: client_key_exchange_def tr)
  show ?thesis
  proof (cases ?signed)
    case False
    then show ?thesis using assms(2) Some v by (auto simp: client_key_exchange_def tr signed tell_def)
  next
    case True
    then obtain r ks where r: "client_reply C P (fst fresh) (snd fresh) x = Inr (r, ks)"
      using assms(2) Some v by (cases "client_reply C P (fst fresh) (snd fresh) x") (auto simp: client_key_exchange_def tr signed)
    let ?c = "(post (Session_Code (KeyExchangeReply r)) exchange_keys c)\<lparr> cl_keys := ks, cl_fingerprint := Some ?fp \<rparr>"
    have c: "cl_pins ?c = cl_pins c" "cl_fingerprint ?c = Some ?fp" by (simp_all add: post_def)
    show ?thesis
    proof (cases "v = Valid")
      case valid: True
      then have "h = Ready" "c' = ?c" using assms(2) Some v True r by (simp_all add: client_key_exchange_def tr signed Let_def)
      moreover have "Option.bind (map_of (cl_pins c) host) pinned_text = Some ?fp"
        using v valid by (auto simp: tofu_check_def Let_def split: option.splits if_splits)
      ultimately show ?thesis using Some True c by simp
    next
      case False
      then have "\<exists>m. ask_user (exchange_keys = None) host ?fp m answer ?c = Some (h, c')"
        using assms(2) Some v True r by (cases v; cases "ask_user (exchange_keys = None) host ?fp (v = Mismatch) answer ?c")
          (auto simp: client_key_exchange_def tr signed Let_def)
      then obtain m where "ask_user (exchange_keys = None) host ?fp m answer ?c = Some (h, c')" by blast
      from ask_user_trust [OF this] show ?thesis using Some True c by auto
    qed
  qed
qed (use assms(2) in \<open>auto simp: client_key_exchange_def tell_def\<close>)

theorem tofu_trust_witness:
  "\<exists>c'. client_key_exchange ref_chat ref_prims False [1] (ustr ''host'') (9, []) False None
      [Some (Session_Code (KeyExchangeOffer \<lparr> static_ecc = 5, of_eph_ecc = 6, of_pq = 7, of_sig = 4 \<rparr>))]
      \<lparr> cl_keys = ([], []), cl_pins = [], cl_fingerprint = None, cl_sent = [], cl_events = [] \<rparr> = Inr (Failed, c') \<and> cl_pins c' = []"
proof -
  let ?x = "\<lparr> static_ecc = 5, of_eph_ecc = 6, of_pq = 7, of_sig = 4 \<rparr> :: (u8, u8, u8) offer"
  let ?c = "\<lparr> cl_keys = ([], []), cl_pins = [], cl_fingerprint = None, cl_sent = [], cl_events = [] \<rparr> :: (u8, u8, u8, u8) client"
  have "client_key_exchange ref_chat ref_prims False [1] (ustr ''host'') (9, []) False None [Some (Session_Code (KeyExchangeOffer ?x))] ?c =
      Inr (Failed, tell HandshakeFailed ?c)"
    by (simp add: client_key_exchange_def transcript_eq [OF prims_ok_ref] verify_offer_def tofu_check_def Let_def)
      (simp add: ref_prims_def pad_to_def)
  from tofu_trust [OF prims_ok_ref this] this show ?thesis by auto
qed

text \<open>
  An offer made for one nonce is accepted for another nonce of the same size, or with other ephemeral keys,
  only if its signature verifies for a second, different message under the same identity.
\<close>

theorem offer_bound_to_nonce:
  assumes "prims_ok P" "create_offer P identity fresh nonce = Inr (e, x)" "length nonce' = length nonce"
    "static_ecc y = static_ecc x" "of_sig y = of_sig x" "nonce' \<noteq> nonce \<or> of_eph_ecc y \<noteq> of_eph_ecc x \<or> of_pq y \<noteq> of_pq x"
    "verify_offer P nonce' y = Inr True"
  shows "\<exists>m m'. m \<noteq> m' \<and> of_sig x = sig_sign P identity m \<and> sig_verify P (to_sec1 P (static_ecc x)) m (of_sig x) \<and>
    sig_verify P (to_sec1 P (static_ecc x)) m' (of_sig x)"
proof -
  note tr = transcript_eq [OF assms(1)]
  let ?m = "KEX_CONTEXT @ nonce @ to_sec1 P (of_eph_ecc x) @ ek_bytes P (of_pq x)"
  let ?m' = "KEX_CONTEXT @ nonce' @ to_sec1 P (of_eph_ecc y) @ ek_bytes P (of_pq y)"
  have x: "static_ecc x = ec_public P identity" "of_sig x = sig_sign P identity ?m"
    using assms(2) by (auto simp: create_offer_def Let_def tr split: prod.splits)
  have "?m \<noteq> ?m'" using transcript_inj [OF assms(1,3), of "of_eph_ecc y" "of_pq y" "of_eph_ecc x" "of_pq x"] assms(6) by (auto simp: tr)
  moreover have "sig_verify P (to_sec1 P (static_ecc x)) ?m' (of_sig x)" using assms(4,5,7) by (simp add: verify_offer_def tr)
  moreover have "sig_verify P (to_sec1 P (static_ecc x)) ?m (of_sig x)" using prims_okD(7) [OF assms(1)] x by simp
  ultimately show ?thesis using x(2) by blast
qed

theorem offer_bound_to_nonce_witness:
  "\<exists>e x. create_offer ref_prims 5 (6, 7) [1] = Inr (e, x) \<and> (\<exists>m m'. m \<noteq> m' \<and> of_sig x = sig_sign ref_prims 5 m \<and>
     sig_verify ref_prims (to_sec1 ref_prims (static_ecc x)) m' (of_sig x))"
proof -
  note tr = transcript_eq [OF prims_ok_ref]
  obtain e x where x: "create_offer ref_prims 5 (6, 7) [1] = Inr (e, x)" by (auto simp: create_offer_def Let_def tr)
  moreover from x have "verify_offer ref_prims [2] x = Inr True"
    by (auto simp: create_offer_def Let_def tr verify_offer_def) (simp add: ref_prims_def pad_to_def)
  ultimately show ?thesis using offer_bound_to_nonce [OF prims_ok_ref x, of "[2]" x] by auto
qed

end
