(* ===== verification/Stored_Files.thy ===== *)
theory Stored_Files
  imports Wire
begin

text \<open>
  The pictures and clips that \<open>chat/src/network/file/server.rs\<close> keeps on disk. The image directory is an
  association list from file names to sealed contents. An upload writes a file piece by piece with the at-rest stream of
  its hash and ends it with a tag; \<open>read_image\<close> checks the tag and reads it back in pieces of \<open>UPLOAD_CHUNK_SIZE\<close>.
\<close>

section \<open>Reading and writing one file\<close>

definition image_name :: "u8 list \<Rightarrow> ustr" where
  "image_name hash = from_ascii (hex hash)"

fun read_chunks :: "('v, 'w) chat_env \<Rightarrow> rex_stream \<Rightarrow> u8 list list \<Rightarrow> fault + u8 list option" where
  "read_chunks C st [] = Inr (Some [])"
| "read_chunks C st (chunk # rest) = (case stream_message (core C) GW GH st (bytes_to_i64 chunk) of
     (res, st') \<Rightarrow> obind (ok_result res) (\<lambda>decrypted.
       obind (read_chunks C st' rest) (\<lambda>image. Inr (Some (take (length chunk) (i64_to_bytes decrypted) @ image)))))"

definition read_image :: "('v, 'w) chat_env \<Rightarrow> u8 list \<Rightarrow> (ustr \<times> u8 list) list \<Rightarrow> u8 list \<Rightarrow> fault + u8 list option" where
  "read_image C image_key images hash = (case map_of images (image_name hash) of
     None \<Rightarrow> Inr None
   | Some sealed \<Rightarrow> rbind (image_keys C image_key hash) (\<lambda>(key, nonce, mac_key).
       (case disk_open C mac_key sealed of
          None \<Rightarrow> Inr None
        | Some ciphertext \<Rightarrow>
            obind (ok_result (from_key GW GH key)) (\<lambda>key_grid.
            obind (ok_result (from_flat GW GH nonce)) (\<lambda>nonce_grid.
            obind (ok_result (stream_new (core C) GW GH key_grid nonce_grid)) (\<lambda>disk_stream.
              read_chunks C disk_stream (chunks UPLOAD_CHUNK_SIZE ciphertext)))))))"

text \<open>\<open>saturating_sub\<close> of the tag.\<close>

definition image_size :: "(ustr \<times> u8 list) list \<Rightarrow> u8 list \<Rightarrow> nat option" where
  "image_size images hash = map_option (\<lambda>sealed. length sealed - DISK_TAG_SIZE) (map_of images (image_name hash))"

text \<open>The bytes that the pieces of an upload leave in its file, and the stream after them.\<close>

definition write_chunk :: "('v, 'w) chat_env \<Rightarrow> rex_stream \<Rightarrow> u8 list \<Rightarrow> fault + u8 list \<times> rex_stream" where
  "write_chunk C st data = (case stream_message (core C) GW GH st (bytes_to_i64 data) of
     (res, st') \<Rightarrow> rbind (unwrap res) (\<lambda>encrypted. Inr (take (length data) (i64_to_bytes encrypted), st')))"

fun write_chunks :: "('v, 'w) chat_env \<Rightarrow> rex_stream \<Rightarrow> u8 list list \<Rightarrow> fault + u8 list \<times> rex_stream" where
  "write_chunks C st [] = Inr ([], st)"
| "write_chunks C st (data # rest) = rbind (write_chunk C st data) (\<lambda>(bytes, st).
     rbind (write_chunks C st rest) (\<lambda>(more, st). Inr (bytes @ more, st)))"

text \<open>The stream of a new file: its key and nonce follow from the hash.\<close>

definition disk_stream :: "('v, 'w) chat_env \<Rightarrow> u8 list \<Rightarrow> u8 list \<Rightarrow> fault + rex_stream \<times> u8 list" where
  "disk_stream C image_key hash = rbind (image_keys C image_key hash) (\<lambda>(key, nonce, mac_key).
     rbind (unwrap (from_key GW GH key)) (\<lambda>key_grid. rbind (unwrap (from_flat GW GH nonce)) (\<lambda>nonce_grid.
     rbind (unwrap (stream_new (core C) GW GH key_grid nonce_grid)) (\<lambda>st. Inr (st, mac_key)))))"

definition write_image :: "('v, 'w) chat_env \<Rightarrow> u8 list \<Rightarrow> u8 list \<Rightarrow> u8 list list \<Rightarrow> fault + u8 list" where
  "write_image C image_key hash pieces = rbind (disk_stream C image_key hash) (\<lambda>(st, mac_key).
     rbind (write_chunks C st pieces) (\<lambda>(ciphertext, _).
       Inr (ciphertext @ disk_tag C mac_key ciphertext (of_nat (length (concat pieces))))))"

section \<open>Pieces\<close>

definition file_ks :: "rex_stream \<Rightarrow> nat \<Rightarrow> u8" where
  "file_ks st = byte_ks (stream_cell GW GH st)"

text \<open>The stream after a piece of \<open>n\<close> bytes: a piece that does not fill its last block uses that block up.\<close>

definition file_next :: "rex_stream \<Rightarrow> nat \<Rightarrow> rex_stream" where
  "file_next st n = st\<lparr> rs_block_counter := rs_block_counter st +
     of_nat ((length (bytes_to_i64 (replicate n 0)) + (GW * GH - 1)) div (GW * GH)) \<rparr>"

definition file_ok :: "rex_stream \<Rightarrow> bool" where
  "file_ok st \<longleftrightarrow> stream_ok GW GH st \<and> rs_buffer st = []"

lemma file_ok_next [simp]: "file_ok (file_next st n) = file_ok st"
  by (simp add: file_ok_def file_next_def stream_ok_counter)

lemma file_message:
  assumes "chat_ok C" "file_ok st"
  shows "stream_message (core C) GW GH st (bytes_to_i64 bs) =
    (Inr (xor_with (stream_cell GW GH st) (bytes_to_i64 bs)), file_next st (length bs))"
  using assms(2) stream_message_eq [OF chat_okD(1) [OF assms(1)], of GW GH st "bytes_to_i64 bs"]
    length_bytes_to_i64 [of bs "replicate (length bs) 0"]
  by (simp add: file_ok_def file_next_def)

lemma write_chunk_eq:
  assumes "chat_ok C" "file_ok st"
  shows "write_chunk C st bs = Inr (xor_bytes (file_ks st) bs, file_next st (length bs))"
  using file_message [OF assms, of bs] by (simp add: write_chunk_def message_bytes file_ks_def)

lemma read_chunks_Cons:
  assumes "chat_ok C" "file_ok st"
  shows "read_chunks C st (ct # rest) =
    obind (read_chunks C (file_next st (length ct)) rest) (\<lambda>image. Inr (Some (xor_bytes (file_ks st) ct @ image)))"
  using file_message [OF assms, of ct] by (simp add: message_bytes file_ks_def)

lemma write_read_chunks:
  assumes "chat_ok C"
  shows "file_ok st \<Longrightarrow> \<exists>cts st'. write_chunks C st ps = Inr (concat cts, st') \<and> map length cts = map length ps \<and>
    read_chunks C st cts = Inr (Some (concat ps))"
proof (induction ps arbitrary: st)
  case (Cons p ps)
  let ?ct = "xor_bytes (file_ks st) p"
  obtain cts st' where "write_chunks C (file_next st (length p)) ps = Inr (concat cts, st')"
    "map length cts = map length ps" "read_chunks C (file_next st (length p)) cts = Inr (Some (concat ps))"
    using Cons by (metis file_ok_next)
  then show ?case using write_chunk_eq [OF assms Cons.prems, of p] read_chunks_Cons [OF assms Cons.prems, of ?ct cts]
    by (intro exI [of _ "?ct # cts"] exI [of _ st']) (simp add: xor_bytes_cancel del: read_chunks.simps)
qed (rule exI [of _ "[]"], simp)

lemma chunks_by_length: "map length cts = map length (chunks n xs) \<Longrightarrow> 0 < n \<Longrightarrow> chunks n (concat cts) = cts"
proof (induction n xs arbitrary: cts rule: chunks.induct)
  case (1 n xs)
  show ?case
  proof (cases "xs = []")
    case False
    then obtain ct rest where cts: "cts = ct # rest" "length ct = length (take n xs)"
      "map length rest = map length (chunks n (drop n xs))"
      using "1.prems" by (cases cts) (simp_all add: chunks_step)
    have IH: "chunks n (concat rest) = rest" using "1.IH" [OF _ cts(3)] "1.prems"(2) False by simp
    show ?thesis
    proof (cases "length xs \<le> n")
      case True
      then have "rest = []" using cts(3) by simp
      then show ?thesis using cts True False by (simp add: chunks_short)
    next
      case False
      then show ?thesis using cts IH "1.prems"(2) by (simp add: chunks_append)
    qed
  qed (use "1.prems" in simp)
qed

lemma length_write_chunks:
  assumes "chat_ok C"
  shows "file_ok st \<Longrightarrow> write_chunks C st ps = Inr (ct, st') \<Longrightarrow> length ct = length (concat ps)"
proof (induction ps arbitrary: st ct)
  case (Cons p ps)
  note w = write_chunk_eq [OF assms Cons.prems(1), of p]
  obtain more where more: "write_chunks C (file_next st (length p)) ps = Inr (more, st')" "ct = xor_bytes (file_ks st) p @ more"
    using Cons.prems(2) w by (cases "write_chunks C (file_next st (length p)) ps") auto
  have "length more = length (concat ps)" by (rule Cons.IH [OF _ more(1)]) (simp add: Cons.prems(1))
  then show ?case by (simp add: more(2))
qed simp

section \<open>Keys\<close>

lemma disk_stream_ok:
  assumes "chat_ok C"
  obtains st key nonce mac kg ng where "disk_stream C k hash = Inr (st, mac)" "image_keys C k hash = Inr (key, nonce, mac)"
    "from_key GW GH key = Inr kg" "from_flat GW GH nonce = Inr ng" "stream_new (core C) GW GH kg ng = Inr st" "file_ok st"
proof -
  note d = default_dims
  obtain kb where kb: "hkdf_expand C (Some hash) k (bytes_of ''WHY2-IMAGE-KEY'') 1024 = Some kb" "length kb = 1024"
    by (rule hkdf_some [OF assms, of 1024]) simp_all
  obtain nb where nb: "hkdf_expand C (Some hash) k (bytes_of ''WHY2-IMAGE-NONCE'') 512 = Some nb" "length nb = 512"
    by (rule hkdf_some [OF assms, of 512]) simp_all
  obtain mb where mb: "hkdf_expand C (Some hash) k (bytes_of ''WHY2-DISK-MAC'') 32 = Some mb"
    by (rule hkdf_some [OF assms, of 32]) simp_all
  have ik: "image_keys C k hash = Inr (exact_cells kb, exact_cells nb, mb)"
    using kb nb mb d(3) by (simp add: image_keys_def disk_keys_def Let_def)
  obtain kg where kg: "from_key GW GH (exact_cells kb) = Inr kg" "wf_grid GW GH kg"
    using wf_from_key [OF d(1), of "exact_cells kb"] kb(2) d(3) length_exact_cells [of kb] by auto
  have "length (exact_cells nb) \<le> GW * GH" using nb(2) d(3) by (simp add: length_exact_cells)
  then obtain ng where ng: "from_flat GW GH (exact_cells nb) = Inr ng" "wf_grid GW GH ng"
    using from_flat_block [OF d(1)] wf_pad_block [OF d(1)] by blast
  obtain st where st: "stream_new (core C) GW GH kg ng = Inr st" "stream_ok GW GH st" "rs_buffer st = []"
    by (rule stream_new_ok [OF chat_okD(1) [OF assms] d(2) kg(2) ng(2)])
  have "disk_stream C k hash = Inr (st, mb)" using ik kg(1) ng(1) st(1) by (simp add: disk_stream_def)
  then show ?thesis using that ik kg(1) ng(1) st by (auto simp: file_ok_def)
qed

text \<open>A file under its own tag is read in pieces of the chunk size, whatever pieces it was written in.\<close>

lemma read_image_sealed:
  assumes "chat_ok C" "disk_stream C k hash = Inr (st, mac)" "map_of images (image_name hash) = Some (ct @ disk_seal C mac ct)"
  shows "read_image C k images hash = read_chunks C st (chunks UPLOAD_CHUNK_SIZE ct)"
proof -
  obtain st' key nonce mac' kg ng where k: "disk_stream C k hash = Inr (st', mac')" "image_keys C k hash = Inr (key, nonce, mac')"
    "from_key GW GH key = Inr kg" "from_flat GW GH nonce = Inr ng" "stream_new (core C) GW GH kg ng = Inr st'"
    by (rule disk_stream_ok [OF assms(1)])
  have "disk_open C mac (ct @ disk_seal C mac ct) = Some ct" by (simp add: disk_open_iff [OF assms(1)])
  then show ?thesis using k assms(2,3) by (simp add: read_image_def)
qed

text \<open>What pieces of the chunk size leave on disk is read back as they were.\<close>

lemma written_image:
  assumes "chat_ok C" "disk_stream C k hash = Inr (st, mac)"
  obtains ct st' where "write_chunks C st (chunks UPLOAD_CHUNK_SIZE plain) = Inr (ct, st')" "length ct = length plain"
    "\<forall>images. map_of images (image_name hash) = Some (ct @ disk_seal C mac ct) \<longrightarrow> read_image C k images hash = Inr (Some plain)"
proof -
  let ?ps = "chunks UPLOAD_CHUNK_SIZE plain"
  have U: "0 < UPLOAD_CHUNK_SIZE" by (simp add: UPLOAD_CHUNK_SIZE_def MEGABYTE_def)
  have st: "file_ok st" using disk_stream_ok [OF assms(1), of k hash] assms(2) by auto
  obtain cts st' where w: "write_chunks C st ?ps = Inr (concat cts, st')" "map length cts = map length ?ps"
    "read_chunks C st cts = Inr (Some (concat ?ps))" using write_read_chunks [OF assms(1) st] by blast
  moreover have "length (concat cts) = length plain" using length_write_chunks [OF assms(1) st w(1)] U by simp
  moreover have "read_image C k images hash = Inr (Some plain)"
    if "map_of images (image_name hash) = Some (concat cts @ disk_seal C mac (concat cts))" for images
    using read_image_sealed [OF assms that] w(3) U chunks_by_length [OF w(2) U] by simp
  ultimately show ?thesis using that by blast
qed

section \<open>Properties\<close>

text \<open>
  A picture or clip uploaded in pieces of the chunk size (the last may be shorter), encrypted
  piece by piece and tagged, is read back from the image directory as it was uploaded, whatever else the
  directory holds, and its size is read without the tag.
\<close>

theorem stored_image_roundtrip:
  assumes "chat_ok C"
  shows "\<exists>sealed. write_image C k hash (chunks UPLOAD_CHUNK_SIZE plain) = Inr sealed \<and>
    read_image C k (AList.update (image_name hash) sealed images) hash = Inr (Some plain) \<and>
    image_size (AList.update (image_name hash) sealed images) hash = Some (length plain)"
proof -
  have U: "0 < UPLOAD_CHUNK_SIZE" by (simp add: UPLOAD_CHUNK_SIZE_def MEGABYTE_def)
  obtain st mac where st: "disk_stream C k hash = Inr (st, mac)" using disk_stream_ok [OF assms] by metis
  obtain ct st' where w: "write_chunks C st (chunks UPLOAD_CHUNK_SIZE plain) = Inr (ct, st')" "length ct = length plain"
    "\<forall>images. map_of images (image_name hash) = Some (ct @ disk_seal C mac ct) \<longrightarrow> read_image C k images hash = Inr (Some plain)"
    by (rule written_image [OF assms st, of plain])
  define sealed where "sealed = ct @ disk_seal C mac ct"
  have "write_image C k hash (chunks UPLOAD_CHUNK_SIZE plain) = Inr sealed"
    using st w(1,2) U by (simp add: write_image_def sealed_def disk_seal_def)
  moreover have m: "map_of (AList.update (image_name hash) sealed images) (image_name hash) = Some sealed"
    by (simp add: update_conv')
  moreover have "length sealed - DISK_TAG_SIZE = length plain"
    using w(2) length_hmac [OF chat_okD(1) [OF assms]] by (simp add: sealed_def disk_seal_def disk_tag_def DISK_TAG_SIZE_def)
  ultimately show ?thesis using w(3) by (simp add: image_size_def sealed_def)
qed

theorem stored_image_roundtrip_witness:
  "\<exists>sealed. write_image ref_chat [7] [1, 2] (chunks UPLOAD_CHUNK_SIZE [10, 20, 30]) = Inr sealed \<and>
    read_image ref_chat [7] (AList.update (image_name [1, 2]) sealed []) [1, 2] = Inr (Some [10, 20, 30])"
  using stored_image_roundtrip [OF chat_ok_ref, of "[7]" "[1, 2]" "[10, 20, 30]" "[]"] by blast

text \<open>
  The upload accepts pieces of any size up to the chunk size. A picture of two bytes sent as
  two pieces is stored under a valid tag, but read back in one piece: the second byte was encrypted with the
  first byte of the second block of the keystream and is decrypted with the second byte of the first, so the picture
  read is the one uploaded only if those two keystream bytes agree.
\<close>

theorem short_pieces_garbled:
  assumes "chat_ok C" "disk_stream C k hash = Inr (st, mac)"
  shows "\<exists>sealed. write_image C k hash [[a], [b]] = Inr sealed \<and>
    read_image C k (AList.update (image_name hash) sealed images) hash =
      Inr (Some [a, b XOR file_ks st 512 XOR file_ks st 1])"
proof -
  obtain st' mac' where "disk_stream C k hash = Inr (st', mac')" "file_ok st'" using disk_stream_ok [OF assms(1)] by metis
  then have st: "file_ok st" using assms(2) by simp
  let ?ct = "[a XOR file_ks st 0, b XOR file_ks st 512]"
  have next_ks: "file_ks (file_next st (Suc 0)) 0 = file_ks st 512"
    using stream_cell_step [of GW GH st 1 0] default_dims(3)
    by (simp add: file_ks_def file_next_def byte_ks_def bytes_to_i64_def chunks_short)
  define sealed where "sealed = ?ct @ disk_seal C mac ?ct"
  have w: "write_image C k hash [[a], [b]] = Inr sealed"
    using assms(2) write_chunk_eq [OF assms(1) st, of "[a]"] write_chunk_eq [OF assms(1), of "file_next st 1" "[b]"] st next_ks
    by (simp add: write_image_def sealed_def disk_seal_def xor_bytes_def)
  have m: "map_of (AList.update (image_name hash) sealed images) (image_name hash) = Some sealed"
    by (simp add: update_conv')
  have "chunks UPLOAD_CHUNK_SIZE ?ct = [?ct]" by (rule chunks_short) (simp_all add: UPLOAD_CHUNK_SIZE_def MEGABYTE_def)
  then have "read_image C k (AList.update (image_name hash) sealed images) hash = read_chunks C st [?ct]"
    using read_image_sealed [OF assms(1,2) m [unfolded sealed_def], folded sealed_def] by simp
  also have "\<dots> = Inr (Some [a, b XOR file_ks st 512 XOR file_ks st 1])"
    by (simp add: read_chunks_Cons [OF assms(1) st] xor_bytes_def xor.assoc del: read_chunks.simps(2))
  finally show ?thesis using w by blast
qed

theorem short_pieces_garbled_witness:
  "\<exists>st mac sealed. disk_stream ref_chat [7] [1, 2] = Inr (st, mac) \<and> write_image ref_chat [7] [1, 2] [[10], [20]] = Inr sealed \<and>
    read_image ref_chat [7] (AList.update (image_name [1, 2]) sealed []) [1, 2] =
      Inr (Some [10, 20 XOR file_ks st 512 XOR file_ks st 1])"
proof -
  obtain st mac where "disk_stream ref_chat [7] [1, 2] = Inr (st, mac)" using disk_stream_ok [OF chat_ok_ref] by metis
  then show ?thesis using short_pieces_garbled [OF chat_ok_ref] by metis
qed

end
