(* ===== verification/Hub.thy ===== *)
theory Hub
  imports Stored_Files
begin

text \<open>
  The state that the packet handlers of \<open>listen_client\<close> share: the registry, \<open>server.toml\<close>, the image
  directory and the history as last saved. What a step reads from outside, the configuration, the clocks, random
  numbers, Argon2 and the text of an address, is one record, \<open>world\<close>. A session is what the loop of
  \<open>listen_client\<close> keeps in its local variables.
\<close>

section \<open>State\<close>

record ('o, 'r) hub =
  hb :: "('o, 'r) server"
  hb_settings :: document
  hb_images :: "(ustr \<times> u8 list) list"
  hb_saved :: "msg_record list"
  hb_restarts :: nat
    \<comment> \<open>tasks spawned to disconnect everybody and restart\<close>

record session =
  se_addr :: sock_addr
  se_stream :: handle
  se_keys :: shared_keys
  se_id :: nat
  se_name :: ustr
  se_role :: role
  se_channel :: "ustr option"

record ('v, 'w) world =
  wd_server :: server_config
  wd_chat :: "('v, 'w) chat_env"
  wd_image_key :: "u8 list"
  typing_indicator :: bool
  max_channel_length :: nat
  max_client_parallel_uploads :: nat
  enable_screenshare :: bool
  profiles :: bool
  max_profile_bio :: nat
  max_profile_field :: nat
  max_persistent_messages :: nat
  max_pinned_messages :: nat
  wd_now :: instant
  wd_later :: instant
    \<comment> \<open>the clock when a handler writes it back\<close>
  wd_clock :: u64
    \<comment> \<open>seconds since the epoch\<close>
  wd_uid :: u64
  wd_token :: "u8 list"
  wd_compare :: "ustr \<Rightarrow> ustr \<Rightarrow> bool"
  wd_hash :: "ustr \<Rightarrow> ustr"
  wd_ip_text :: "nat \<Rightarrow> ustr"
  wd_prefix :: "ustr \<Rightarrow> ustr option"
  wd_suffix :: "ustr \<Rightarrow> ustr option"
    \<comment> \<open>the comments before a key and after a value of \<open>server.toml\<close>\<close>

datatype (dead 'o, dead 'r) outcome =
    Continue session "('o, 'r) hub"
  | Returned "('o, 'r) hub"
  | Panicked

definition MAX_AVATAR_SIZE :: nat where "MAX_AVATAR_SIZE = 2 * MEGABYTE"

definition on_server :: "(('o, 'r) server \<Rightarrow> ('o, 'r) server) \<Rightarrow> ('o, 'r) hub \<Rightarrow> ('o, 'r) hub" where
  "on_server f s = s\<lparr> hb := f (hb s) \<rparr>"

text \<open>\<open>network::send\<close> to the session itself, and \<open>send_to_all\<close>.\<close>

definition answer :: "session \<Rightarrow> ('o, 'r) packet_code \<Rightarrow> ('o, 'r) hub \<Rightarrow> ('o, 'r) hub" where
  "answer ss code s = on_server (send (se_stream ss) code (Some (se_keys ss))) s"

definition broadcast :: "('o, 'r) packet_code \<Rightarrow> ('o, 'r) hub \<Rightarrow> ('o, 'r) hub" where
  "broadcast code s = on_server (send_to_all code) s"

definition refuse :: "session \<Rightarrow> ('o, 'r) hub \<Rightarrow> ('o, 'r) outcome" where
  "refuse ss s = Continue ss (answer ss (Lobby_Code InvalidUsage) s)"

section \<open>The history and the disk\<close>

fun disk_effect :: "msg_effect \<Rightarrow> ('o, 'r) hub \<Rightarrow> ('o, 'r) hub" where
  "disk_effect (SaveHistory records) s = s\<lparr> hb_saved := records \<rparr>"
| "disk_effect (RemoveImage hash) s = s\<lparr> hb_images := AList.delete (image_name hash) (hb_images s) \<rparr>"

definition with_history :: "(history \<Rightarrow> 'a \<times> history \<times> msg_effect list) \<Rightarrow> ('o, 'r) hub \<Rightarrow> 'a \<times> ('o, 'r) hub" where
  "with_history f s = (case f (sv_history (hb s)) of (x, h, effects) \<Rightarrow>
     (x, fold disk_effect effects (on_server (\<lambda>v. v\<lparr> sv_history := h \<rparr>) s)))"

definition sweep :: "('o, 'r) hub \<Rightarrow> ('o, 'r) hub" where
  "sweep s = (let swept = sweep_images (sv_users (hb s)) (sv_icon (hb s)) (sv_history (hb s)) (map fst (hb_images s))
     in s\<lparr> hb_images := filter (\<lambda>(file, _). file \<notin> set swept) (hb_images s) \<rparr>)"

definition is_stored :: "('o, 'r) hub \<Rightarrow> u8 list \<Rightarrow> bool" where
  "is_stored s hash = stored (sv_users (hb s)) (sv_icon (hb s)) (sv_history (hb s)) hash"

definition timestamp :: "('v, 'w) world \<Rightarrow> u64 option" where
  "timestamp w = (if message_timestamps (wd_server w) then Some (wd_clock w) else None)"

text \<open>
  A message in the lobby is stored if the history is on; any other takes an id only. The function stores it, given
  the limit, the accounts and the icon.
\<close>

definition keep_message ::
  "('v, 'w) world \<Rightarrow> session \<Rightarrow> (nat \<Rightarrow> document \<Rightarrow> ustr option \<Rightarrow> history \<Rightarrow> u64 \<times> history \<times> msg_effect list)
     \<Rightarrow> ('o, 'r) hub \<Rightarrow> u64 \<times> ('o, 'r) hub" where
  "keep_message w ss f s =
     (if se_channel ss = None \<and> persistent_messages (wd_server w)
      then with_history (f (max_persistent_messages w) (sv_users (hb s)) (sv_icon (hb s))) s
      else with_history (\<lambda>h. case next_id h of (i, h) \<Rightarrow> (i, h, [])) s)"

section \<open>Lookups\<close>

definition entry :: "session \<Rightarrow> ('o, 'r) hub \<Rightarrow> connection option" where
  "entry ss s = map_of (sv_conns (hb s)) (se_addr ss)"

definition is_muted :: "session \<Rightarrow> ('o, 'r) hub \<Rightarrow> bool" where
  "is_muted ss s = (case entry ss s of Some c \<Rightarrow> muted c | None \<Rightarrow> False)"

text \<open>The role is read again for every packet; the role at login is the fallback.\<close>

definition current_role :: "session \<Rightarrow> ('o, 'r) hub \<Rightarrow> role" where
  "current_role ss s = (case Option.bind (entry ss s) conn_role of Some r \<Rightarrow> r | None \<Rightarrow> se_role ss)"

definition in_voice :: "session \<Rightarrow> ('o, 'r) hub \<Rightarrow> bool" where
  "in_voice ss s = (map_of (sv_voice (hb s)) (se_id ss) \<noteq> None)"

definition own_colors :: "session \<Rightarrow> ('o, 'r) hub \<Rightarrow> message_colors" where
  "own_colors ss s = user_colors (sv_users (hb s)) (se_name ss)"

definition active_uploads :: "session \<Rightarrow> ('o, 'r) hub \<Rightarrow> nat" where
  "active_uploads ss s = length (filter (\<lambda>(uid, client). client = se_id ss) (sv_uploads (hb s)))"

definition edit_users :: "(document \<Rightarrow> document) \<Rightarrow> ('o, 'r) hub \<Rightarrow> ('o, 'r) hub" where
  "edit_users f s = on_server (\<lambda>v. v\<lparr> sv_users := f (sv_users v) \<rparr>) s"

text \<open>
  \<open>Path::file_name\<close> on Unix: the last component, if it is a name. Empty components and \<open>.\<close> are none, and a path
  that ends in \<open>..\<close> has no file name.
\<close>

fun split_at :: "u32 \<Rightarrow> ustr \<Rightarrow> ustr \<Rightarrow> ustr list" where
  "split_at sep acc [] = [rev acc]"
| "split_at sep acc (c # s) = (if c = sep then rev acc # split_at sep [] s else split_at sep (c # acc) s)"

definition file_name :: "ustr \<Rightarrow> ustr option" where
  "file_name path = (let parts = filter (\<lambda>p. p \<noteq> [] \<and> p \<noteq> ustr ''.'') (split_at 0x2F [] path) in
     if parts = [] \<or> last parts = ustr ''..'' then None else Some (last parts))"

text \<open>A token for an upload, unless too many are running.\<close>

definition mint_upload ::
  "('v, 'w) world \<Rightarrow> session \<Rightarrow> connection_type \<Rightarrow> ('o, 'r) packet_code \<Rightarrow> ('o, 'r) hub \<Rightarrow> ('o, 'r) outcome" where
  "mint_upload w ss kind code s =
     (if max_client_parallel_uploads w \<le> active_uploads ss s then Continue ss (answer ss (File_Code UploadLimit) s)
      else Continue ss (answer ss code (on_server (open_connection (wd_token w) (se_id ss) kind (wd_now w)) s)))"

end
