(* ===== verification/Handlers.thy ===== *)
theory Handlers
  imports Hub
begin

text \<open>
  The packet handlers of \<open>listen_client\<close> in \<open>chat/src/network/server/mod.rs\<close>, one definition for each arm of
  its match, and the match itself. A handler continues the loop with the session and the hub, returns from
  \<open>listen_client\<close>, or panics. Its guards are the code's conditions, in the code's order.
\<close>

section \<open>Messages\<close>

definition on_message :: "('v, 'w) world \<Rightarrow> session \<Rightarrow> ustr \<Rightarrow> u64 option \<Rightarrow> ('o, 'r) hub \<Rightarrow> ('o, 'r) outcome" where
  "on_message w ss content rep s =
     (if is_muted ss s then Continue ss (answer ss (Lobby_Code Muted) s)
      else if (case rep of Some i \<Rightarrow> \<not> msg_exists (sv_history (hb s)) i | None \<Rightarrow> False) then refuse ss s
      else let content = trim content; ts = timestamp w;
               (i, s) = keep_message w ss (\<lambda>limit users icon. store limit users icon (se_name ss) content ts rep) s
           in Continue ss (broadcast (Chat_Code (Message content (se_name ss) (se_id ss) i (own_colors ss s)
                (Some (se_channel ss)) ts rep)) s))"

definition on_typing :: "('v, 'w) world \<Rightarrow> session \<Rightarrow> ('o, 'r) hub \<Rightarrow> ('o, 'r) outcome" where
  "on_typing w ss s =
     (if \<not> typing_indicator w \<or> is_muted ss s then Continue ss s
      else case Option.bind (entry ss s) last_typing of
        None \<Rightarrow> Continue ss s
      | Some t \<Rightarrow> if wd_now w - t < TYPING_INTERVAL then Continue ss s
          else let s = on_server (alter_conn (se_addr ss) (\<lambda>c. case last_typing_mut (\<lambda>_. wd_later w) c of
                  Some c' \<Rightarrow> c' | None \<Rightarrow> c)) s
               in Continue ss (on_server (send_to_others (Chat_Code (Typing (se_name ss))) (se_channel ss) (se_id ss)) s))"

definition on_delete :: "session \<Rightarrow> u64 \<Rightarrow> ('o, 'r) hub \<Rightarrow> ('o, 'r) outcome" where
  "on_delete ss i s =
     (let r = current_role ss s; author = author (sv_history (hb s)) i; own = author = Some (se_name ss);
          allowed = own \<or> (case author of
            Some a \<Rightarrow> Moderator \<le> r \<and> (case user_role (sv_users (hb s)) a of Some ar \<Rightarrow> ar < r | None \<Rightarrow> True)
          | None \<Rightarrow> False)
      in if \<not> allowed then refuse ss s
         else case with_history (delete_msg (sv_users (hb s)) (sv_icon (hb s)) i) s of
           (True, s) \<Rightarrow> Continue ss (broadcast (Chat_Code (Deleted i)) s)
         | (False, s) \<Rightarrow> refuse ss s)"

definition on_edit :: "session \<Rightarrow> u64 \<Rightarrow> ustr \<Rightarrow> ('o, 'r) hub \<Rightarrow> ('o, 'r) outcome" where
  "on_edit ss i content s =
     (if is_muted ss s then Continue ss (answer ss (Lobby_Code Muted) s)
      else let content = trim content in
        if content = [] then refuse ss s
        else case with_history (edit i (se_name ss) content) s of
          (True, s) \<Rightarrow> Continue ss (broadcast (Chat_Code (Edited i content)) s)
        | (False, s) \<Rightarrow> refuse ss s)"

definition on_heart :: "session \<Rightarrow> u64 \<Rightarrow> ('o, 'r) hub \<Rightarrow> ('o, 'r) outcome" where
  "on_heart ss i s =
     (if is_muted ss s then Continue ss (answer ss (Lobby_Code Muted) s)
      else case with_history (heart i (se_name ss)) s of
        (None, s) \<Rightarrow> refuse ss s
      | (Some hearts, s) \<Rightarrow> Continue ss (broadcast (Chat_Code (Heart i hearts)) s))"

definition on_pin :: "('v, 'w) world \<Rightarrow> session \<Rightarrow> u64 \<Rightarrow> ('o, 'r) hub \<Rightarrow> ('o, 'r) outcome" where
  "on_pin w ss i s =
     (if current_role ss s < Moderator then refuse ss s
      else case with_history (pin (max_pinned_messages w) i) s of
        (None, s) \<Rightarrow> refuse ss s
      | (Some p, s) \<Rightarrow> Continue ss (broadcast (Chat_Code (Pinned i p)) s))"

definition on_pins :: "('v, 'w) world \<Rightarrow> session \<Rightarrow> ('o, 'r) hub \<Rightarrow> ('o, 'r) outcome" where
  "on_pins w ss s = Continue ss (answer ss (Chat_Code (Pins
     (pinned (sv_users (hb s)) (message_timestamps (wd_server w)) (sv_history (hb s))))) s)"

text \<open>A private message and a reply share one arm; the reply goes to the last private sender.\<close>

definition deliver_private :: "session \<Rightarrow> nat \<Rightarrow> ustr \<Rightarrow> ('o, 'r) hub \<Rightarrow> ('o, 'r) outcome" where
  "deliver_private ss to content s = (case find_id to (hb s) of
     None \<Rightarrow> refuse ss s
   | Some (addr, _) \<Rightarrow>
       let colors = own_colors ss s;
           s = (if to = se_id ss then s
                else let s = on_server (alter_conn addr (set_last_pm (se_id ss))) s in
                  (case map_of (sv_conns (hb s)) addr of
                     None \<Rightarrow> s
                   | Some recipient \<Rightarrow> on_server (send (write_stream recipient)
                       (Chat_Code (PrivateMessage content (se_name ss) (se_id ss) colors)) (keys recipient)) s))
       in (case Option.bind (map_of (sv_conns (hb s)) addr) username of
             None \<Rightarrow> Continue ss s
           | Some name \<Rightarrow> Continue ss (answer ss (Chat_Code (PrivateMessageBack content name to
               \<lparr> username_color = username_color (user_colors (sv_users (hb s)) name),
                 message_color = message_color colors \<rparr>)) s)))"

definition on_private :: "session \<Rightarrow> nat option \<Rightarrow> ustr \<Rightarrow> ('o, 'r) hub \<Rightarrow> ('o, 'r) outcome" where
  "on_private ss recipient content s =
     (if is_muted ss s then Continue ss (answer ss (Lobby_Code Muted) s)
      else case recipient of
        Some to \<Rightarrow> deliver_private ss to content s
      | None \<Rightarrow> (case Option.bind (entry ss s) last_pm of
          Some to \<Rightarrow> deliver_private ss to content s
        | None \<Rightarrow> refuse ss s))"

section \<open>Channels and voice\<close>

definition on_voice_request :: "('v, 'w) world \<Rightarrow> session \<Rightarrow> ('o, 'r) hub \<Rightarrow> ('o, 'r) outcome" where
  "on_voice_request w ss s =
     (if \<not> voice_chat_enabled (wd_server w) then Continue ss (answer ss (Lobby_Code InvalidFeature) s)
      else if \<not> in_voice ss s then
        let s = on_server (\<lambda>v. v\<lparr> sv_voice := AList.update (se_id ss) (None, se_name ss, wd_token w) (sv_voice v) \<rparr>) s;
            s = answer ss (Media_Code (Voice (Some (wd_token w)))) s;
            s = broadcast (Media_Code (VoiceJoin (se_name ss) (se_id ss) (se_channel ss))) s
        in Continue ss (on_server (send_voice_clients (se_stream ss) (se_keys ss) (se_id ss)) s)
      else
        let s = answer ss (Media_Code (Voice None)) s;
            s = broadcast (Media_Code (VoiceLeave (se_id ss) (se_channel ss))) s
        in Continue ss (on_server (\<lambda>v. v\<lparr> sv_voice := AList.delete (se_id ss) (sv_voice v) \<rparr>) s))"

definition ascii_alphanumeric :: "u32 \<Rightarrow> bool" where
  "ascii_alphanumeric c \<longleftrightarrow> (0x30 \<le> c \<and> c \<le> 0x39) \<or> (0x41 \<le> c \<and> c \<le> 0x5A) \<or> (0x61 \<le> c \<and> c \<le> 0x7A)"

definition valid_channel :: "('v, 'w) world \<Rightarrow> ustr option \<Rightarrow> bool" where
  "valid_channel w channel = (case channel of
     None \<Rightarrow> True
   | Some n \<Rightarrow> n \<noteq> [] \<and> str_len n \<le> max_channel_length w \<and> list_all (\<lambda>c. ascii_alphanumeric c \<and> c \<noteq> 0x20) n)"

definition on_channel :: "('v, 'w) world \<Rightarrow> session \<Rightarrow> ustr option \<Rightarrow> ('o, 'r) hub \<Rightarrow> ('o, 'r) outcome" where
  "on_channel w ss channel s =
     (if \<not> valid_channel w channel then refuse ss s
      else let calling = (\<lambda>s. voice_chat_enabled (wd_server w) \<and> in_voice ss s);
               s = (if calling s then broadcast (Media_Code (VoiceLeave (se_id ss) (se_channel ss))) s else s)
           in case update_client_channel (se_addr ss) channel (wd_now w) (hb s) of
                None \<Rightarrow> Panicked
              | Some v \<Rightarrow>
                  let s = s\<lparr> hb := v \<rparr>; ss = ss\<lparr> se_channel := channel \<rparr>;
                      s = answer ss (Lobby_Code (Channel channel)) s;
                      s = (if calling s then broadcast (Media_Code (VoiceJoin (se_name ss) (se_id ss) channel)) s else s)
                  in Continue ss (on_server (send_voice_clients (se_stream ss) (se_keys ss) (se_id ss)) s))"

section \<open>Files\<close>

text \<open>An upload of a picture carries its file name.\<close>

definition on_upload :: "('v, 'w) world \<Rightarrow> session \<Rightarrow> u8 list \<Rightarrow> ustr option \<Rightarrow> ('o, 'r) hub \<Rightarrow> ('o, 'r) outcome" where
  "on_upload w ss hash picture s =
     (if is_muted ss s then Continue ss (answer ss (Lobby_Code Muted) s)
      else case picture of
        Some path \<Rightarrow>
          if is_stored s hash
          then let filename = (case file_name path of Some f \<Rightarrow> f | None \<Rightarrow> ustr ''unnamed_file''); ts = timestamp w;
                   (i, s) = keep_message w ss (\<lambda>limit users icon. store_image limit users icon (se_name ss) filename hash ts) s;
                   s = broadcast (File_Code (ImageDisplay (se_name ss) filename i hash None
                     (username_color (own_colors ss s)) (Some (se_channel ss)) ts)) s
               in Continue ss (answer ss (File_Code (ImageDuplicate hash)) s)
          else mint_upload w ss (CtImage (wd_uid w)) (File_Code (Image hash (wd_token w) (wd_uid w))) s
      | None \<Rightarrow> mint_upload w ss (CtFileUpload (wd_uid w)) (File_Code (Upload hash (wd_token w) (wd_uid w))) s)"

definition on_voice_message :: "('v, 'w) world \<Rightarrow> session \<Rightarrow> u8 list \<Rightarrow> ('o, 'r) hub \<Rightarrow> ('o, 'r) outcome" where
  "on_voice_message w ss hash s =
     (if is_muted ss s then Continue ss (answer ss (Lobby_Code Muted) s)
      else case voice (sv_history (hb s)) hash of
        Some clip \<Rightarrow>
          let ts = timestamp w;
              (i, s) = keep_message w ss (\<lambda>limit users icon. store_voice limit users icon (se_name ss) clip ts) s;
              s = broadcast (File_Code (VoiceMessage (se_name ss) i clip None (username_color (own_colors ss s))
                (Some (se_channel ss)) ts)) s
          in Continue ss (answer ss (File_Code (ImageDuplicate hash)) s)
      | None \<Rightarrow> mint_upload w ss (CtVoice (wd_uid w)) (File_Code (VoiceMessageUpload hash (wd_token w) (wd_uid w))) s)"

definition on_download :: "('v, 'w) world \<Rightarrow> session \<Rightarrow> nat \<Rightarrow> nat \<Rightarrow> ('o, 'r) hub \<Rightarrow> ('o, 'r) outcome" where
  "on_download w ss owner file_id s =
     (case Option.bind (Option.bind (find_id owner (hb s)) (\<lambda>(_, c). username c)) (\<lambda>name.
        Option.bind (map_of (sv_files (hb s)) name) (\<lambda>fs. if file_id < length fs then Some (fs ! file_id) else None)) of
        Some f \<Rightarrow> Continue ss (answer ss (File_Code (Download (wd_token w)))
          (on_server (open_connection (wd_token w) (se_id ss) (CtFileDownload (wd_uid w) f) (wd_now w)) s))
      | None \<Rightarrow> refuse ss s)"

definition shared_files :: "('o, 'r) server \<Rightarrow> user_file list" where
  "shared_files v = List.map_filter (\<lambda>(name, uploads).
     if uploads = [] then None
     else map_option (\<lambda>i. \<lparr> uf_username = name, uf_id = i,
         uf_upload = map (\<lambda>(idx, u). (af_filename u, idx)) (enumerate 0 uploads) \<rparr>)
       (Option.bind (find (\<lambda>(a, c). username c = Some name) (sv_conns v)) (\<lambda>(_, c). conn_id c))) (sv_files v)"

definition on_files :: "session \<Rightarrow> ('o, 'r) hub \<Rightarrow> ('o, 'r) outcome" where
  "on_files ss s = Continue ss (answer ss (File_Code (Files (shared_files (hb s)))) s)"

text \<open>The request waits until the last one is old enough; the time it waited is over when it is written down.\<close>

definition on_image_data :: "('v, 'w) world \<Rightarrow> session \<Rightarrow> u8 list \<Rightarrow> ('o, 'r) hub \<Rightarrow> ('o, 'r) outcome" where
  "on_image_data w ss hash s =
     (let s = on_server (alter_conn (se_addr ss) (\<lambda>c. case last_image_mut (\<lambda>_. wd_later w) c of
            Some c' \<Rightarrow> c' | None \<Rightarrow> c)) s
      in case (if is_stored s hash \<or> voice (sv_history (hb s)) hash \<noteq> None
               then read_image (wd_chat w) (wd_image_key w) (hb_images s) hash else Inr None) of
           Inl _ \<Rightarrow> Panicked
         | Inr (Some data) \<Rightarrow> Continue ss (answer ss (File_Code (ImageData hash data)) s)
         | Inr None \<Rightarrow> Continue ss (answer ss (File_Code (ImageData hash [])) s))"

section \<open>Screen shares\<close>

definition on_screen :: "('v, 'w) world \<Rightarrow> session \<Rightarrow> ('o, 'r) hub \<Rightarrow> ('o, 'r) outcome" where
  "on_screen w ss s =
     (let (stopped, s) = (case entry ss s of
            None \<Rightarrow> (None, s)
          | Some c \<Rightarrow> (case remove_screen_stream c of (c', removed, aborted) \<Rightarrow>
              (case removed of Some i \<Rightarrow> map_option (\<lambda>name. (i, name)) (username c') | None \<Rightarrow> None,
               on_server (\<lambda>v. (alter_conn (se_addr ss) (\<lambda>_. c') v)\<lparr> sv_effects := sv_effects v @ map Aborted aborted \<rparr>) s)))
      in case stopped of
           Some (i, name) \<Rightarrow>
             let s = on_server (deattach i name) s;
                 s = answer ss (Media_Code (Screen None)) s
             in Continue ss (broadcast (Media_Code (ScreenshareEnd name)) s)
         | None \<Rightarrow>
             if enable_screenshare w
             then let s = on_server (open_connection (wd_token w) (se_id ss) CtScreen (wd_now w)) s;
                      s = answer ss (Media_Code (Screen (Some (wd_token w)))) s
                  in Continue ss (broadcast (Media_Code (Screenshare (se_name ss))) s)
             else Continue ss (answer ss (Lobby_Code InvalidFeature) s))"

definition find_sharer :: "nat \<Rightarrow> ('o, 'r) server \<Rightarrow> ustr option" where
  "find_sharer i v = Option.bind (find (\<lambda>(a, c). conn_id c = Some i \<and> screen_stream c \<noteq> None) (sv_conns v))
     (\<lambda>(_, c). username c)"

definition on_attach :: "('v, 'w) world \<Rightarrow> session \<Rightarrow> nat \<Rightarrow> ('o, 'r) hub \<Rightarrow> ('o, 'r) outcome" where
  "on_attach w ss sharer s = (case find_sharer sharer (hb s) of
     None \<Rightarrow> refuse ss s
   | Some name \<Rightarrow>
       if (case entry ss s of
             Some c \<Rightarrow> (case attached_screen c of Some a \<Rightarrow> at_target_id a \<noteq> sharer | None \<Rightarrow> True)
           | None \<Rightarrow> False)
       then let s = on_server (open_connection (wd_token w) (se_id ss) (CtAttach sharer) (wd_now w)) s;
                s = answer ss (Media_Code (Attach name (wd_token w))) s
            in Continue ss (on_server (notify sharer (Media_Code (Attached (se_name ss)))) s)
       else refuse ss s)"

definition on_deattach :: "session \<Rightarrow> ('o, 'r) hub \<Rightarrow> ('o, 'r) outcome" where
  "on_deattach ss s = (case Option.bind (entry ss s) attached_screen of
     None \<Rightarrow> refuse ss s
   | Some a \<Rightarrow>
       let sharer = at_target_id a;
           s = on_server (alter_conn (se_addr ss) deattach_screen) s;
           name = (case Option.bind (find_id sharer (hb s)) (\<lambda>(_, c). username c) of Some n \<Rightarrow> n | None \<Rightarrow> []);
           s = answer ss (Media_Code (Deattach name)) s
       in Continue ss (on_server (notify sharer (Media_Code (Deattached (se_name ss)))) s))"

definition on_mute_screen :: "session \<Rightarrow> ('o, 'r) hub \<Rightarrow> ('o, 'r) outcome" where
  "on_mute_screen ss s = (case entry ss s of
     None \<Rightarrow> refuse ss s
   | Some c \<Rightarrow>
       if attached_screen c = None then refuse ss s
       else (case toggle_mute_screen c of (c', m) \<Rightarrow>
         Continue ss (answer ss (Media_Code (MuteScreen m)) (on_server (alter_conn (se_addr ss) (\<lambda>_. c')) s))))"

definition shared_screens :: "('o, 'r) server \<Rightarrow> user_screen list" where
  "shared_screens v = List.map_filter (\<lambda>(a, c). case c of
     Authenticated x \<Rightarrow> if a_screen_stream x = None then None
       else Some \<lparr> us_username = a_username x, us_id = a_id x \<rparr>
   | NonAuthenticated _ \<Rightarrow> None) (sv_conns v)"

definition on_screens :: "session \<Rightarrow> ('o, 'r) hub \<Rightarrow> ('o, 'r) outcome" where
  "on_screens ss s = Continue ss (answer ss (Media_Code (Screens (shared_screens (hb s)))) s)"

section \<open>Moderation\<close>

text \<open>\<open>conn.role() < Some(&role)\<close>: no role is below every role.\<close>

definition outranked :: "role \<Rightarrow> connection \<Rightarrow> bool" where
  "outranked r c = (case conn_role c of None \<Rightarrow> True | Some cr \<Rightarrow> cr < r)"

definition on_mute :: "session \<Rightarrow> nat \<Rightarrow> ('o, 'r) hub \<Rightarrow> ('o, 'r) outcome" where
  "on_mute ss i s =
     (let r = current_role ss s in
      if r < Moderator then refuse ss s
      else case find_id i (hb s) of
        Some (addr, c) \<Rightarrow> if outranked r c then Continue ss (on_server (alter_conn addr toggle_mute) s) else refuse ss s
      | None \<Rightarrow> refuse ss s)"

definition on_kick :: "('v, 'w) world \<Rightarrow> session \<Rightarrow> nat \<Rightarrow> ('o, 'r) hub \<Rightarrow> ('o, 'r) outcome" where
  "on_kick w ss i s =
     (let r = current_role ss s in
      if r < Moderator then refuse ss s
      else case find_id i (hb s) of
        Some (addr, c) \<Rightarrow> (case conn_role c of
            Some cr \<Rightarrow> if cr < r then Continue ss (on_server (remove_connection (wd_server w) addr True) s) else refuse ss s
          | None \<Rightarrow> refuse ss s)
      | None \<Rightarrow> refuse ss s)"

definition on_ban :: "('v, 'w) world \<Rightarrow> session \<Rightarrow> ustr \<Rightarrow> ('o, 'r) hub \<Rightarrow> ('o, 'r) outcome" where
  "on_ban w ss target s =
     (if current_role ss s < Owner then refuse ss s
      else case resolve_user target (hb s) of
        None \<Rightarrow> refuse ss s
      | Some name \<Rightarrow>
          if name = se_name ss then refuse ss s
          else let live = session_of name (hb s);
                   s = on_server (\<lambda>v. v\<lparr> sv_bans := ban name (sv_bans v) \<rparr>) s;
                   s = (case live of Some addr \<Rightarrow> on_server (remove_connection (wd_server w) addr True) s | None \<Rightarrow> s)
               in Continue ss (on_server (send_bans (se_stream ss) (se_keys ss)) s))"

definition on_ban_ip :: "('v, 'w) world \<Rightarrow> session \<Rightarrow> nat \<Rightarrow> ('o, 'r) hub \<Rightarrow> ('o, 'r) outcome" where
  "on_ban_ip w ss i s =
     (if current_role ss s < Owner \<or> se_id ss = i then refuse ss s
      else case find_id i (hb s) of
        None \<Rightarrow> refuse ss s
      | Some (addr, _) \<Rightarrow>
          let s = on_server (\<lambda>v. v\<lparr> sv_bans := ban_ip (wd_ip_text w (fst addr)) (sv_bans v) \<rparr>) s
          in Continue ss (on_server (remove_connections (wd_server w) (fst addr) True) s))"

definition on_bans :: "session \<Rightarrow> ('o, 'r) hub \<Rightarrow> ('o, 'r) outcome" where
  "on_bans ss s = (if current_role ss s < Owner then refuse ss s
     else Continue ss (on_server (send_bans (se_stream ss) (se_keys ss)) s))"

definition on_pardon :: "(nat \<Rightarrow> document \<Rightarrow> document \<times> bool) \<Rightarrow> session \<Rightarrow> nat \<Rightarrow> ('o, 'r) hub \<Rightarrow> ('o, 'r) outcome" where
  "on_pardon lift ss i s =
     (if current_role ss s < Owner then refuse ss s
      else case lift i (sv_bans (hb s)) of
        (bans, True) \<Rightarrow> Continue ss (on_server (send_bans (se_stream ss) (se_keys ss))
          (on_server (\<lambda>v. v\<lparr> sv_bans := bans \<rparr>) s))
      | (bans, False) \<Rightarrow> refuse ss s)"

definition on_say :: "session \<Rightarrow> ustr \<Rightarrow> ('o, 'r) hub \<Rightarrow> ('o, 'r) outcome" where
  "on_say ss content s = (if current_role ss s < Owner then refuse ss s
     else Continue ss (broadcast (Server_Code (ServerSay content)) s))"

definition apply_role :: "ustr \<Rightarrow> role \<Rightarrow> ('o, 'r) server \<Rightarrow> ('o, 'r) server" where
  "apply_role name r v = v\<lparr> sv_conns := map (\<lambda>(a, c).
     (a, if username c = Some name \<and> conn_role c \<noteq> None then set_role r c else c)) (sv_conns v) \<rparr>"

definition on_role :: "session \<Rightarrow> ustr \<Rightarrow> role \<Rightarrow> ('o, 'r) hub \<Rightarrow> ('o, 'r) outcome" where
  "on_role ss target new_role s =
     (let r = current_role ss s in
      if r < Owner \<or> r < new_role then refuse ss s
      else case Option.bind (resolve_user target (hb s)) (\<lambda>name. if name = se_name ss then None
             else map_option (\<lambda>tr. (tr, name)) (user_role (sv_users (hb s)) name)) of
        None \<Rightarrow> refuse ss s
      | Some (target_role, name) \<Rightarrow>
          if r \<le> target_role \<or> target_role = new_role then refuse ss s
          else let s = edit_users (set_user_role name new_role) s;
                   s = on_server (apply_role name new_role) s
               in Continue ss (broadcast (Server_Code (ServerRole name new_role)) s))"

definition on_settings :: "('v, 'w) world \<Rightarrow> session \<Rightarrow> server_setting list option \<Rightarrow> ('o, 'r) hub \<Rightarrow> ('o, 'r) outcome" where
  "on_settings w ss rows s =
     (if current_role ss s < Owner then refuse ss s
      else case (case rows of
             Some settings \<Rightarrow> rbind (settings_write settings (hb_settings s)) (\<lambda>(doc, _). Inr (s\<lparr> hb_settings := doc \<rparr>))
           | None \<Rightarrow> Inr s) of
        Inl _ \<Rightarrow> Panicked
      | Inr s \<Rightarrow> Continue ss (answer ss (Server_Code (ServerSettings
          (settings_all (wd_prefix w) (wd_suffix w) (hb_settings s)) (rows \<noteq> None))) s))"

text \<open>The task that disconnects everybody and restarts the server is spawned here and runs on its own.\<close>

definition on_restart :: "session \<Rightarrow> ('o, 'r) hub \<Rightarrow> ('o, 'r) outcome" where
  "on_restart ss s = (if current_role ss s < Owner then refuse ss s
     else Continue ss (s\<lparr> hb_restarts := hb_restarts s + 1 \<rparr>))"

section \<open>Accounts and pictures\<close>

definition on_passwd :: "('v, 'w) world \<Rightarrow> session \<Rightarrow> ustr \<Rightarrow> ustr \<Rightarrow> ('o, 'r) hub \<Rightarrow> ('o, 'r) outcome" where
  "on_passwd w ss old_password new_password s =
     (if validate_password (wd_server w) new_password \<and> verify_password (wd_compare w) (se_name ss) old_password (hb s)
      then Continue ss (answer ss (Account_Code (AccountPasswd True))
        (edit_users (set_password (se_name ss) (wd_hash w new_password)) s))
      else Continue ss (answer ss (Account_Code (AccountPasswd False)) s))"

definition on_account_delete :: "('v, 'w) world \<Rightarrow> session \<Rightarrow> ustr \<Rightarrow> ('o, 'r) hub \<Rightarrow> ('o, 'r) outcome" where
  "on_account_delete w ss pass s =
     (let valid = verify_password (wd_compare w) (se_name ss) pass (hb s);
          s = answer ss (Account_Code (AccountDelete valid)) s
      in if \<not> valid then Continue ss s
         else Returned (on_server (remove_connection (wd_server w) (se_addr ss) True)
           (sweep (edit_users (users_remove (se_name ss)) s))))"

definition on_color :: "session \<Rightarrow> bool \<Rightarrow> u8 \<Rightarrow> ('o, 'r) hub \<Rightarrow> ('o, 'r) outcome" where
  "on_color ss name_color code s =
     Continue ss (answer ss (Account_Code Color) (edit_users (set_color (se_name ss) name_color code) s))"

definition empty_profile :: user_profile where
  "empty_profile = \<lparr> up_bio = [], up_pronouns = [], up_website = [], up_status = [], up_avatar = None, up_role = role_default \<rparr>"

text \<open>Every field is cleaned and checked; one bad one refuses the lot.\<close>

fun check_profile :: "nat \<Rightarrow> nat \<Rightarrow> (ustr \<times> ustr) list \<Rightarrow> user_profile \<Rightarrow> user_profile option" where
  "check_profile bio_limit field_limit [] kept = Some kept"
| "check_profile bio_limit field_limit ((key, v) # rest) kept =
     (let v = clean v; limit = (if key = ustr ''bio'' then bio_limit else field_limit) in
      if limit < length v then None
      else if key = ustr ''website'' \<and> v \<noteq> [] \<and> \<not> is_web_url v then None
      else check_profile bio_limit field_limit rest
        (case profile_field_mut key of Some (_, put) \<Rightarrow> put v kept | None \<Rightarrow> kept))"

definition send_profile :: "session \<Rightarrow> ustr \<Rightarrow> bool \<Rightarrow> ('o, 'r) hub \<Rightarrow> ('o, 'r) hub" where
  "send_profile ss target saved s = answer ss (Account_Code (Profile target (user_profile_of (sv_users (hb s)) target)
     (target = se_name ss) saved)) s"

definition on_profile_request :: "('v, 'w) world \<Rightarrow> session \<Rightarrow> ustr option \<Rightarrow> ('o, 'r) hub \<Rightarrow> ('o, 'r) outcome" where
  "on_profile_request w ss target s =
     (if \<not> profiles w then Continue ss (answer ss (Lobby_Code InvalidFeature) s)
      else case target of
        None \<Rightarrow> Continue ss (send_profile ss (se_name ss) False s)
      | Some t \<Rightarrow> (case resolve_user t (hb s) of
          Some found \<Rightarrow> Continue ss (send_profile ss found False s)
        | None \<Rightarrow> refuse ss s))"

definition on_profile_save :: "('v, 'w) world \<Rightarrow> session \<Rightarrow> user_profile \<Rightarrow> ('o, 'r) hub \<Rightarrow> ('o, 'r) outcome" where
  "on_profile_save w ss profile s =
     (if \<not> profiles w then Continue ss (answer ss (Lobby_Code InvalidFeature) s)
      else let s = (case check_profile (max_profile_bio w) (max_profile_field w) (zip profile_KEYS (profile_fields profile))
                      empty_profile of
                  None \<Rightarrow> answer ss (Lobby_Code InvalidUsage) s
                | Some kept \<Rightarrow> edit_users (set_profile (se_name ss) kept) s)
           in Continue ss (send_profile ss (se_name ss) True s))"

text \<open>A stored picture that may serve as an avatar: small enough, and a square.\<close>

definition fit_for_avatar :: "('v, 'w) world \<Rightarrow> u8 list \<Rightarrow> ('o, 'r) hub \<Rightarrow> fault + bool" where
  "fit_for_avatar w hash s =
     (if MAX_AVATAR_SIZE < (case image_size (hb_images s) hash of Some n \<Rightarrow> n | None \<Rightarrow> 0) then Inr False
      else rbind (read_image (wd_chat w) (wd_image_key w) (hb_images s) hash) (\<lambda>picture.
        Inr (case picture of Some p \<Rightarrow> is_avatar p | None \<Rightarrow> False)))"

definition on_avatar :: "('v, 'w) world \<Rightarrow> session \<Rightarrow> u8 list option \<Rightarrow> ('o, 'r) hub \<Rightarrow> ('o, 'r) outcome" where
  "on_avatar w ss picture s =
     (if \<not> profiles w then Continue ss (answer ss (Lobby_Code InvalidFeature) s)
      else if is_muted ss s then Continue ss (answer ss (Lobby_Code Muted) s)
      else case picture of
        Some hash \<Rightarrow>
          if is_stored s hash
          then (case fit_for_avatar w hash s of
                  Inl _ \<Rightarrow> Panicked
                | Inr False \<Rightarrow> refuse ss s
                | Inr True \<Rightarrow>
                    let s = sweep (edit_users (set_avatar (se_name ss) (Some hash)) s);
                        s = answer ss (File_Code (ImageDuplicate hash)) s
                    in Continue ss (send_profile ss (se_name ss) True s))
          else mint_upload w ss (CtAvatar (wd_uid w)) (File_Code (Image hash (wd_token w) (wd_uid w))) s
      | None \<Rightarrow> Continue ss (send_profile ss (se_name ss) True (sweep (edit_users (set_avatar (se_name ss) None) s))))"

definition on_icon_request :: "session \<Rightarrow> ('o, 'r) hub \<Rightarrow> ('o, 'r) outcome" where
  "on_icon_request ss s = Continue ss (answer ss (Server_Code (ServerIcon (server_icon (sv_icon (hb s))) False)) s)"

definition put_icon :: "u8 list option \<Rightarrow> ('o, 'r) hub \<Rightarrow> ('o, 'r) hub" where
  "put_icon picture s = on_server (\<lambda>v. v\<lparr> sv_icon := set_server_icon picture \<rparr>) s"

definition on_icon_save :: "('v, 'w) world \<Rightarrow> session \<Rightarrow> u8 list option \<Rightarrow> ('o, 'r) hub \<Rightarrow> ('o, 'r) outcome" where
  "on_icon_save w ss picture s =
     (if current_role ss s < Owner then refuse ss s
      else case picture of
        Some hash \<Rightarrow>
          if is_stored s hash
          then (case fit_for_avatar w hash s of
                  Inl _ \<Rightarrow> Panicked
                | Inr False \<Rightarrow> refuse ss s
                | Inr True \<Rightarrow>
                    let s = answer ss (File_Code (ImageDuplicate hash)) (sweep (put_icon (Some hash) s))
                    in Continue ss (on_server (icon_changed (se_id ss)) s))
          else mint_upload w ss (CtIcon (wd_uid w)) (File_Code (Image hash (wd_token w) (wd_uid w))) s
      | None \<Rightarrow> Continue ss (on_server (icon_changed (se_id ss)) (sweep (put_icon None s))))"

section \<open>Dispatch\<close>

fun handle_chat :: "('v, 'w) world \<Rightarrow> session \<Rightarrow> chat_code \<Rightarrow> ('o, 'r) hub \<Rightarrow> ('o, 'r) outcome" where
  "handle_chat w ss (MessageRequest content rep) s = on_message w ss content rep s"
| "handle_chat w ss TypingRequest s = on_typing w ss s"
| "handle_chat w ss (DeleteRequest i) s = on_delete ss i s"
| "handle_chat w ss (EditRequest i content) s = on_edit ss i content s"
| "handle_chat w ss (PrivateMessageRequest content to) s = on_private ss (Some to) content s"
| "handle_chat w ss (chat_code.Re content) s = on_private ss None content s"
| "handle_chat w ss (HeartRequest i) s = on_heart ss i s"
| "handle_chat w ss (PinRequest i) s = on_pin w ss i s"
| "handle_chat w ss PinsRequest s = on_pins w ss s"
| "handle_chat w ss _ s = Continue ss s"

fun handle_lobby :: "('v, 'w) world \<Rightarrow> session \<Rightarrow> lobby_code \<Rightarrow> ('o, 'r) hub \<Rightarrow> ('o, 'r) outcome" where
  "handle_lobby w ss (Channel channel) s = on_channel w ss channel s"
| "handle_lobby w ss ListRequest s = Continue ss (on_server (send_list (wd_server w) (se_stream ss) (se_keys ss)) s)"
| "handle_lobby w ss (HistoryRequest before) s =
     Continue ss (on_server (send_history (wd_server w) (se_stream ss) (se_keys ss) (Some before)) s)"
| "handle_lobby w ss _ s = Continue ss s"

fun handle_file :: "('v, 'w) world \<Rightarrow> session \<Rightarrow> file_code \<Rightarrow> ('o, 'r) hub \<Rightarrow> ('o, 'r) outcome" where
  "handle_file w ss (UploadRequest hash) s = on_upload w ss hash None s"
| "handle_file w ss (ImageRequest hash path) s = on_upload w ss hash (Some path) s"
| "handle_file w ss (VoiceMessageRequest hash) s = on_voice_message w ss hash s"
| "handle_file w ss (DownloadRequest owner file_id) s = on_download w ss owner file_id s"
| "handle_file w ss FilesRequest s = on_files ss s"
| "handle_file w ss (ImageDataRequest hash) s = on_image_data w ss hash s"
| "handle_file w ss _ s = Continue ss s"

fun handle_media :: "('v, 'w) world \<Rightarrow> session \<Rightarrow> media_code \<Rightarrow> ('o, 'r) hub \<Rightarrow> ('o, 'r) outcome" where
  "handle_media w ss VoiceRequest s = on_voice_request w ss s"
| "handle_media w ss ScreenRequest s = on_screen w ss s"
| "handle_media w ss (AttachRequest sharer) s = on_attach w ss sharer s"
| "handle_media w ss DeattachRequest s = on_deattach ss s"
| "handle_media w ss MuteScreenRequest s = on_mute_screen ss s"
| "handle_media w ss ScreensRequest s = on_screens ss s"
| "handle_media w ss _ s = Continue ss s"

fun handle_server :: "('v, 'w) world \<Rightarrow> session \<Rightarrow> server_code \<Rightarrow> ('o, 'r) hub \<Rightarrow> ('o, 'r) outcome" where
  "handle_server w ss (ServerMute i) s = on_mute ss i s"
| "handle_server w ss (ServerKick i) s = on_kick w ss i s"
| "handle_server w ss (ServerBan target) s = on_ban w ss target s"
| "handle_server w ss (ServerBanIp i) s = on_ban_ip w ss i s"
| "handle_server w ss ServerIconRequest s = on_icon_request ss s"
| "handle_server w ss (ServerIconSave picture) s = on_icon_save w ss picture s"
| "handle_server w ss ServerBansRequest s = on_bans ss s"
| "handle_server w ss (ServerPardon i) s = on_pardon pardon ss i s"
| "handle_server w ss (ServerPardonIp i) s = on_pardon pardon_ip ss i s"
| "handle_server w ss (ServerSay content) s = on_say ss content s"
| "handle_server w ss (ServerRoleRequest target r) s = on_role ss target r s"
| "handle_server w ss ServerSettingsRequest s = on_settings w ss None s"
| "handle_server w ss (ServerSettingsSave rows) s = on_settings w ss (Some rows) s"
| "handle_server w ss ServerRestart s = on_restart ss s"
| "handle_server w ss _ s = Continue ss s"

fun handle_account :: "('v, 'w) world \<Rightarrow> session \<Rightarrow> account_code \<Rightarrow> ('o, 'r) hub \<Rightarrow> ('o, 'r) outcome" where
  "handle_account w ss (AccountPasswdRequest old new) s = on_passwd w ss old new s"
| "handle_account w ss (AccountDeleteRequest pass) s = on_account_delete w ss pass s"
| "handle_account w ss (ColorRequest name_color code) s = on_color ss name_color code s"
| "handle_account w ss (ProfileRequest target) s = on_profile_request w ss target s"
| "handle_account w ss (ProfileSave profile) s = on_profile_save w ss profile s"
| "handle_account w ss (AvatarRequest picture) s = on_avatar w ss picture s"
| "handle_account w ss _ s = Continue ss s"

definition handle :: "('v, 'w) world \<Rightarrow> session \<Rightarrow> ('o, 'r) packet_code \<Rightarrow> ('o, 'r) hub \<Rightarrow> ('o, 'r) outcome" where
  "handle w ss code s = (case code of
     Chat_Code c \<Rightarrow> handle_chat w ss c s
   | Lobby_Code c \<Rightarrow> handle_lobby w ss c s
   | File_Code c \<Rightarrow> handle_file w ss c s
   | Media_Code c \<Rightarrow> handle_media w ss c s
   | Server_Code c \<Rightarrow> handle_server w ss c s
   | Account_Code c \<Rightarrow> handle_account w ss c s
   | Session_Code Disconnect \<Rightarrow> Returned (on_server (remove_connection (wd_server w) (se_addr ss) True) s)
   | Session_Code KeepAlive \<Rightarrow> Continue ss (on_server (alter_conn (se_addr ss) (set_alive True)) s)
   | Session_Code _ \<Rightarrow> Continue ss s)"

end
