(* ===== verification/Frames.thy ===== *)
theory Frames
  imports Handlers
begin

text \<open>
  What the operations of the server leave alone. Packets change no document, no other client and no file; removing or
  moving a client changes only that client. These facts are simplification rules, so that a property of
  every packet handler is proved by unfolding the handlers.
\<close>

named_theorems handler_defs \<comment> \<open>the definitions of the packet handlers\<close>

lemmas [handler_defs] = on_message_def on_typing_def on_delete_def on_edit_def on_heart_def on_pin_def on_pins_def
  deliver_private_def on_private_def on_voice_request_def on_channel_def on_upload_def on_voice_message_def
  on_download_def on_files_def on_image_data_def on_screen_def on_attach_def on_deattach_def on_mute_screen_def on_screens_def
  on_mute_def on_kick_def on_ban_def on_ban_ip_def on_bans_def on_pardon_def on_say_def on_role_def on_settings_def
  on_restart_def on_passwd_def on_account_delete_def on_color_def on_profile_request_def on_profile_save_def on_avatar_def
  on_icon_request_def on_icon_save_def mint_upload_def refuse_def send_profile_def

text \<open>The state a handler ends in.\<close>

fun final :: "('o, 'r) outcome \<Rightarrow> ('o, 'r) hub option" where
  "final (Continue ss s) = Some s"
| "final (Returned s) = Some s"
| "final Panicked = None"

section \<open>The documents of the server\<close>

definition docs :: "('o, 'r) server \<Rightarrow> document \<times> document \<times> history \<times> ustr option" where
  "docs v = (sv_users v, sv_bans v, sv_history v, sv_icon v)"

lemma docs_quiet:
  assumes "quiet s = quiet t"
  shows "docs s = docs t"
  using arg_cong [OF assms, of docs] by (simp add: docs_def quiet_def)

lemma docs_update [simp]:
  "docs (v\<lparr> sv_conns := a \<rparr>) = docs v" "docs (v\<lparr> sv_transfers := b \<rparr>) = docs v" "docs (v\<lparr> sv_files := d \<rparr>) = docs v"
  "docs (v\<lparr> sv_uploads := e \<rparr>) = docs v" "docs (v\<lparr> sv_pending := f \<rparr>) = docs v" "docs (v\<lparr> sv_voice := g \<rparr>) = docs v"
  "docs (v\<lparr> sv_effects := h \<rparr>) = docs v"
  by (simp_all add: docs_def)

lemma docs_send [simp]:
  "docs (send h code ks v) = docs v" "docs (send_each cs code v) = docs v" "docs (send_to_all code v) = docs v"
  "docs (send_to_all_but code ex v) = docs v" "docs (send_to_others code ch i v) = docs v"
  "docs (notify i code v) = docs v" "docs (emit e v) = docs v"
  by (rule docs_quiet; simp)+

lemma docs_alter [simp]: "docs (alter_conn addr f v) = docs v"
  by (simp add: alter_conn_def)

lemma docs_lists [simp]:
  "docs (send_list cf h ks v) = docs v" "docs (send_bans h ks v) = docs v" "docs (send_history cf h ks b v) = docs v"
  "docs (send_voice_clients h ks i v) = docs v" "docs (icon_changed i v) = docs v" "docs (open_connection t i k now v) = docs v"
  by (simp_all add: send_list_def send_bans_def send_history_def send_voice_clients_def icon_changed_def open_connection_def
      Let_def split: option.split)

lemma docs_leave [simp]:
  "docs (deattach i name v) = docs v" "docs (forget_pm i v) = docs v" "docs (leave_session cf x v) = docs v"
  by (simp_all add: deattach_def forget_pm_def leave_session_def Let_def split: option.split)

lemma docs_close [simp]: "docs (close_transfers c v) = docs v"
proof -
  have "docs (fold (\<lambda>uid s. case remove_file_stream uid c (sv_transfers s) of
       (ts, ab) \<Rightarrow> s\<lparr> sv_transfers := ts, sv_effects := sv_effects s @ map Aborted ab \<rparr>) xs v) = docs v" for xs
    by (induction xs arbitrary: v) (simp_all split: prod.split)
  then show ?thesis by (simp add: close_transfers_def split: option.split)
qed

lemma docs_remove_one [simp]: "docs (remove_connection cf addr g v) = docs v"
  by (simp add: remove_connection_def Let_def split: option.split prod.split connection.split)

lemma docs_remove [simp]: "docs (remove_each cf g addrs v) = docs v" "docs (remove_connections cf ip g v) = docs v"
proof -
  have each: "docs (remove_each cf g addrs v) = docs v" for addrs
    unfolding remove_each_def by (induction addrs arbitrary: v) simp_all
  then show "docs (remove_each cf g addrs v) = docs v" .
  show "docs (remove_connections cf ip g v) = docs v" unfolding remove_connections_def by (rule each)
qed

lemma docs_move: "update_client_channel addr ch now v = Some v' \<Longrightarrow> docs v' = docs v"
  by (auto simp: update_client_channel_def announce_move_def Let_def split: option.splits if_splits)

lemma docs_apply_role [simp]: "docs (apply_role name r v) = docs v"
  by (simp add: apply_role_def)

lemma docs_fields:
  assumes "docs v = docs u"
  shows "sv_users v = sv_users u" "sv_bans v = sv_bans u" "sv_history v = sv_history u" "sv_icon v = sv_icon u"
  using assms by (simp_all add: docs_def)

lemmas doc_simps [simp] =
  docs_fields [OF docs_send(1)] docs_fields [OF docs_send(2)] docs_fields [OF docs_send(3)]
  docs_fields [OF docs_send(4)] docs_fields [OF docs_send(5)] docs_fields [OF docs_send(6)]
  docs_fields [OF docs_send(7)] docs_fields [OF docs_alter] docs_fields [OF docs_lists(1)]
  docs_fields [OF docs_lists(2)] docs_fields [OF docs_lists(3)] docs_fields [OF docs_lists(4)]
  docs_fields [OF docs_lists(5)] docs_fields [OF docs_lists(6)] docs_fields [OF docs_leave(1)]
  docs_fields [OF docs_leave(2)] docs_fields [OF docs_leave(3)] docs_fields [OF docs_close]
  docs_fields [OF docs_remove_one] docs_fields [OF docs_remove(1)] docs_fields [OF docs_remove(2)]
  docs_fields [OF docs_apply_role]

section \<open>The hub\<close>

lemma on_server_simps [simp]:
  "hb (on_server f s) = f (hb s)" "hb_settings (on_server f s) = hb_settings s" "hb_images (on_server f s) = hb_images s"
  "hb_saved (on_server f s) = hb_saved s" "hb_restarts (on_server f s) = hb_restarts s"
  by (simp_all add: on_server_def)

lemmas packet_defs = answer_def broadcast_def edit_users_def put_icon_def

lemma disk_effect_keep [simp]:
  "hb (disk_effect e s) = hb s" "hb_settings (disk_effect e s) = hb_settings s" "hb_restarts (disk_effect e s) = hb_restarts s"
  by (cases e; simp)+

lemma disk_effects_keep [simp]:
  "hb (fold disk_effect es s) = hb s" "hb_settings (fold disk_effect es s) = hb_settings s"
  "hb_restarts (fold disk_effect es s) = hb_restarts s"
  by (induction es arbitrary: s) simp_all

lemma with_historyD:
  assumes "with_history f s = (x, s')"
  shows "\<exists>h es. f (sv_history (hb s)) = (x, h, es) \<and> hb s' = (hb s)\<lparr> sv_history := h \<rparr> \<and> hb_settings s' = hb_settings s \<and>
    hb_restarts s' = hb_restarts s \<and> hb_images s' = hb_images (fold disk_effect es s) \<and> hb_saved s' = hb_saved (fold disk_effect es s)"
proof -
  obtain h es where h: "f (sv_history (hb s)) = (x, h, es)" "s' = fold disk_effect es (on_server (\<lambda>v. v\<lparr> sv_history := h \<rparr>) s)"
    using assms by (auto simp: with_history_def split: prod.splits)
  have "hb_images (fold disk_effect es (on_server g s)) = hb_images (fold disk_effect es s) \<and>
      hb_saved (fold disk_effect es (on_server g s)) = hb_saved (fold disk_effect es s)" for g es and s :: "('o, 'r) hub"
  proof (induction es arbitrary: s)
    case (Cons e es)
    have "disk_effect e (on_server g s) = on_server g (disk_effect e s)" by (cases e) (simp_all add: on_server_def)
    then show ?case using Cons by simp
  qed simp
  then show ?thesis using h by simp
qed

lemma sweep_keeps [simp]:
  "hb (sweep s) = hb s" "hb_settings (sweep s) = hb_settings s" "hb_saved (sweep s) = hb_saved s" "hb_restarts (sweep s) = hb_restarts s"
  by (simp_all add: sweep_def)

section \<open>Facets of a client\<close>

text \<open>
  A facet is a part of a client's entry that neither sending, nor detaching from a screen, nor forgetting a
  private sender touches. Every operation leaves every facet of every other client alone.
\<close>

definition client_view :: "(connection \<Rightarrow> 'x) \<Rightarrow> ('o, 'r) server \<Rightarrow> sock_addr \<Rightarrow> 'x option" where
  "client_view g v a = map_option g (map_of (sv_conns v) a)"

lemma map_of_second: "map_of (map (\<lambda>(a, c). (a, f a c)) xs) k = map_option (f k) (map_of xs k)"
  by (induction xs) auto

lemma view_update [simp]:
  "client_view g (v\<lparr> sv_transfers := b \<rparr>) a = client_view g v a" "client_view g (v\<lparr> sv_files := d \<rparr>) a = client_view g v a"
  "client_view g (v\<lparr> sv_uploads := e \<rparr>) a = client_view g v a" "client_view g (v\<lparr> sv_pending := f \<rparr>) a = client_view g v a"
  "client_view g (v\<lparr> sv_voice := k \<rparr>) a = client_view g v a" "client_view g (v\<lparr> sv_effects := h \<rparr>) a = client_view g v a"
  "client_view g (v\<lparr> sv_users := i \<rparr>) a = client_view g v a" "client_view g (v\<lparr> sv_bans := j \<rparr>) a = client_view g v a"
  "client_view g (v\<lparr> sv_history := l \<rparr>) a = client_view g v a" "client_view g (v\<lparr> sv_icon := m \<rparr>) a = client_view g v a"
  by (simp_all add: client_view_def)

lemma view_alter_other [simp]: "a \<noteq> addr \<Longrightarrow> client_view g (alter_conn addr f v) a = client_view g v a"
  by (simp add: client_view_def map_of_alter)

lemma view_alter:
  assumes "\<And>c. g (f c) = g c"
  shows "client_view g (alter_conn addr f v) a = client_view g v a"
  using assms by (cases "a = addr") (simp_all add: client_view_def map_of_alter option.map_comp comp_def)

lemma view_map:
  assumes "\<And>b c. g (f b c) = g c"
  shows "client_view g (v\<lparr> sv_conns := map (\<lambda>(b, c). (b, f b c)) (sv_conns v) \<rparr>) a = client_view g v a"
  using assms by (simp add: client_view_def map_of_second option.map_comp comp_def)

locale client_facet =
  fixes g :: "connection \<Rightarrow> 'x"
  assumes unnumbered: "g (unnumbered c) = g c"
    and deattached: "g (deattach_screen c) = g c"
    and forgotten: "g (unset_last_pm c) = g c"
begin

lemma view_quiet:
  assumes "quiet s = quiet t"
  shows "client_view g s a = client_view g t a"
  using map_of_second [of "\<lambda>_. g" "sv_conns s" a] map_of_second [of "\<lambda>_. g" "sv_conns t" a]
    quiet_map [OF assms, of g] unnumbered by (simp add: client_view_def)

lemma view_send [simp]:
  "client_view g (send h code ks v) a = client_view g v a" "client_view g (send_each cs code v) a = client_view g v a"
  "client_view g (send_to_all code v) a = client_view g v a" "client_view g (send_to_all_but code ex v) a = client_view g v a"
  "client_view g (send_to_others code ch i v) a = client_view g v a" "client_view g (notify i code v) a = client_view g v a"
  "client_view g (emit e v) a = client_view g v a"
  by (rule view_quiet; simp)+

lemma view_lists [simp]:
  "client_view g (send_list cf h ks v) a = client_view g v a" "client_view g (send_bans h ks v) a = client_view g v a"
  "client_view g (send_history cf h ks b v) a = client_view g v a"
  "client_view g (send_voice_clients h ks i v) a = client_view g v a"
  "client_view g (icon_changed i v) a = client_view g v a" "client_view g (open_connection t i k now v) a = client_view g v a"
  by (simp_all add: send_list_def send_bans_def send_history_def send_voice_clients_def icon_changed_def open_connection_def
      Let_def split: option.split)

lemma view_deattach [simp]: "client_view g (deattach i name v) a = client_view g v a"
  by (simp add: deattach_def Let_def view_map deattached)

lemma view_forget [simp]: "client_view g (forget_pm i v) a = client_view g v a"
  by (simp add: forget_pm_def view_map forgotten)

lemma view_leave [simp]: "client_view g (leave_session cf x v) a = client_view g v a"
  by (simp add: leave_session_def Let_def split: option.split)

lemma view_close [simp]: "client_view g (close_transfers c v) a = client_view g v a"
proof -
  have "client_view g (fold (\<lambda>uid s. case remove_file_stream uid c (sv_transfers s) of
       (ts, ab) \<Rightarrow> s\<lparr> sv_transfers := ts, sv_effects := sv_effects s @ map Aborted ab \<rparr>) xs v) a = client_view g v a" for xs
    by (induction xs arbitrary: v) (simp_all split: prod.split)
  then show ?thesis by (simp add: close_transfers_def split: option.split)
qed

lemma view_remove:
  assumes "a \<noteq> addr"
  shows "client_view g (remove_connection cf addr g' v) a = client_view g v a"
proof -
  have "client_view g (v\<lparr> sv_conns := AList.delete addr (sv_conns v) \<rparr>) a = client_view g v a"
    using assms by (simp add: client_view_def delete_conv')
  then show ?thesis by (simp add: remove_connection_def Let_def split: option.split prod.split connection.split)
qed

lemma view_remove_each: "a \<notin> set addrs \<Longrightarrow> client_view g (remove_each cf g' addrs v) a = client_view g v a"
  unfolding remove_each_def by (induction addrs arbitrary: v) (simp_all add: view_remove)

lemma view_announce [simp]: "client_view g (announce_move old new v) a = client_view g v a"
  by (simp add: announce_move_def Let_def split: option.split)

end

text \<open>Whether an address is connected, with which role, and whether it is muted.\<close>

definition standing_of :: "connection \<Rightarrow> role option \<times> bool" where
  "standing_of c = (conn_role c, muted c)"

abbreviation standing :: "('o, 'r) server \<Rightarrow> sock_addr \<Rightarrow> (role option \<times> bool) option" where
  "standing \<equiv> client_view standing_of"

text \<open>Who the client at an address is: id, name, channel, stream and keys, once logged in.\<close>

definition identity_of :: "connection \<Rightarrow> nat option \<times> ustr option \<times> ustr option \<times> handle \<times> shared_keys option" where
  "identity_of c = (conn_id c, username c, conn_channel c, write_stream c, keys c)"

abbreviation identity ::
  "('o, 'r) server \<Rightarrow> sock_addr \<Rightarrow> (nat option \<times> ustr option \<times> ustr option \<times> handle \<times> shared_keys option) option" where
  "identity \<equiv> client_view identity_of"

lemma muted_unnumbered [simp]: "muted (unnumbered c) = muted c"
  by (cases c) (simp_all add: unnumbered_def)

lemma facet_unnumbered [simp]: "standing_of (unnumbered c) = standing_of c" "identity_of (unnumbered c) = identity_of c"
  by (simp_all add: standing_of_def identity_of_def)

lemma facet_neutral [simp]:
  "standing_of (deattach_screen c) = standing_of c" "identity_of (deattach_screen c) = identity_of c"
  "standing_of (unset_last_pm c) = standing_of c" "identity_of (unset_last_pm c) = identity_of c"
  "standing_of (set_last_pm i c) = standing_of c" "identity_of (set_last_pm i c) = identity_of c"
  "standing_of (set_alive b c) = standing_of c" "identity_of (set_alive b c) = identity_of c"
  "identity_of (toggle_mute c) = identity_of c" "identity_of (set_role r c) = identity_of c"
  by (cases c; simp add: standing_of_def identity_of_def)+

interpretation standing: client_facet standing_of
  by unfold_locales simp_all

interpretation identity: client_facet identity_of
  by unfold_locales simp_all

lemma standing_move: "update_client_channel addr ch now v = Some v' \<Longrightarrow> standing v' a = standing v a"
proof -
  have "map_of (sv_conns v) addr = Some c \<Longrightarrow> moved ch now c = Some c' \<Longrightarrow>
      standing (alter_conn addr (\<lambda>_. c') v) a = standing v a" for c c'
    by (cases c; cases "a = addr") (auto simp: client_view_def standing_of_def map_of_alter)
  then show "update_client_channel addr ch now v = Some v' \<Longrightarrow> ?thesis"
    by (auto simp: update_client_channel_def split: option.splits)
qed

lemma identity_apply_role [simp]: "identity (apply_role name r v) a = identity v a"
  by (simp add: apply_role_def view_map)

section \<open>What has been said\<close>

text \<open>The packets that carry what a client says, draws or feels to others.\<close>

fun speech :: "('o, 'r) packet_code \<Rightarrow> bool" where
  "speech (Chat_Code (Message x0 x1 x2 x3 x4 x5 x6 x7)) = True"
| "speech (Chat_Code (PrivateMessage x0 x1 x2 x3)) = True"
| "speech (Chat_Code (PrivateMessageBack x0 x1 x2 x3)) = True"
| "speech (Chat_Code (Edited x0 x1)) = True"
| "speech (Chat_Code (Heart x0 x1)) = True"
| "speech (Chat_Code (Typing x0)) = True"
| "speech (File_Code (ImageDisplay x0 x1 x2 x3 x4 x5 x6 x7)) = True"
| "speech (File_Code (VoiceMessage x0 x1 x2 x3 x4 x5 x6)) = True"
| "speech (File_Code (Uploaded x0 x1)) = True"
| "speech _ = False"

fun spoken_effect :: "('o, 'r) effect \<Rightarrow> bool" where
  "spoken_effect (Sent h code n ks) = speech code"
| "spoken_effect _ = False"

definition spoken :: "('o, 'r) server \<Rightarrow> ('o, 'r) effect list" where
  "spoken v = filter spoken_effect (sv_effects v)"

lemma spoken_update [simp]:
  "spoken (v\<lparr> sv_conns := a \<rparr>) = spoken v" "spoken (v\<lparr> sv_transfers := b \<rparr>) = spoken v" "spoken (v\<lparr> sv_files := d \<rparr>) = spoken v"
  "spoken (v\<lparr> sv_uploads := e \<rparr>) = spoken v" "spoken (v\<lparr> sv_pending := f \<rparr>) = spoken v" "spoken (v\<lparr> sv_voice := g \<rparr>) = spoken v"
  "spoken (v\<lparr> sv_users := i \<rparr>) = spoken v" "spoken (v\<lparr> sv_bans := j \<rparr>) = spoken v" "spoken (v\<lparr> sv_history := k \<rparr>) = spoken v"
  "spoken (v\<lparr> sv_icon := l \<rparr>) = spoken v"
  by (simp_all add: spoken_def)

lemma spoken_aborted [simp]: "filter spoken_effect (map Aborted ts) = []"
  by (induction ts) simp_all

lemma spoken_aborts [simp]: "spoken (v\<lparr> sv_effects := sv_effects v @ map Aborted ts \<rparr>) = spoken v"
  by (simp add: spoken_def)

lemma spoken_send [simp]: "\<not> speech code \<Longrightarrow> spoken (send h code ks v) = spoken v"
  using effects_send [of h code ks v] by (auto simp: spoken_def)

lemma spoken_each [simp]:
  assumes "\<not> speech code"
  shows "spoken (send_each cs code v) = spoken v"
  unfolding send_each_def by (induction cs arbitrary: v) (simp_all add: assms)

lemma spoken_broadcast [simp]:
  assumes "\<not> speech code"
  shows "spoken (send_to_all code v) = spoken v" "spoken (send_to_all_but code ex v) = spoken v"
    "spoken (send_to_others code ch i v) = spoken v" "spoken (notify i code v) = spoken v"
  using assms by (simp_all add: send_to_all_def send_to_all_but_def send_to_others_def notify_def split: option.split)

lemma spoken_emit [simp]: "\<not> spoken_effect e \<Longrightarrow> spoken (emit e v) = spoken v"
  by (simp add: spoken_def emit_def)

lemma spoken_alter [simp]: "spoken (alter_conn addr f v) = spoken v"
  by (simp add: alter_conn_def)

lemma spoken_put [simp]: "spoken ((alter_conn addr f v)\<lparr> sv_effects := sv_effects v @ map Aborted ts \<rparr>) = spoken v"
  by (simp add: spoken_def)

lemma spoken_lists [simp]:
  "spoken (send_list cf h ks v) = spoken v" "spoken (send_bans h ks v) = spoken v" "spoken (send_history cf h ks b v) = spoken v"
  "spoken (send_voice_clients h ks i v) = spoken v" "spoken (icon_changed i v) = spoken v"
  "spoken (open_connection t i k now v) = spoken v"
  by (simp_all add: send_list_def send_bans_def send_history_def send_voice_clients_def icon_changed_def open_connection_def
      Let_def split: option.split)

lemma spoken_leave [simp]:
  "spoken (deattach i name v) = spoken v" "spoken (forget_pm i v) = spoken v" "spoken (leave_session cf x v) = spoken v"
  by (simp_all add: deattach_def forget_pm_def leave_session_def Let_def split: option.split)

lemma spoken_close [simp]: "spoken (close_transfers c v) = spoken v"
proof -
  have one: "spoken (s\<lparr> sv_transfers := ts, sv_effects := sv_effects s @ map Aborted ab \<rparr>) = spoken s"
    for s :: "('o, 'r) server" and ts ab by (simp add: spoken_def)
  have "spoken (fold (\<lambda>uid s. case remove_file_stream uid c (sv_transfers s) of
       (ts, ab) \<Rightarrow> s\<lparr> sv_transfers := ts, sv_effects := sv_effects s @ map Aborted ab \<rparr>) xs v) = spoken v" for xs
    by (induction xs arbitrary: v) (simp_all add: one split: prod.split)
  then show ?thesis by (simp add: close_transfers_def split: option.split)
qed

lemma spoken_remove_one [simp]: "spoken (remove_connection cf addr g v) = spoken v"
  by (simp add: remove_connection_def Let_def split: option.split prod.split connection.split)

lemma spoken_remove [simp]: "spoken (remove_each cf g addrs v) = spoken v" "spoken (remove_connections cf ip g v) = spoken v"
proof -
  have each: "spoken (remove_each cf g addrs v) = spoken v" for addrs
    unfolding remove_each_def by (induction addrs arbitrary: v) simp_all
  then show "spoken (remove_each cf g addrs v) = spoken v" .
  show "spoken (remove_connections cf ip g v) = spoken v" unfolding remove_connections_def by (rule each)
qed

lemma spoken_move: "update_client_channel addr ch now v = Some v' \<Longrightarrow> spoken v' = spoken v"
  by (auto simp: update_client_channel_def announce_move_def Let_def split: option.splits if_splits)

lemma spoken_apply_role [simp]: "spoken (apply_role name r v) = spoken v"
  by (simp add: apply_role_def)

end
