(* ===== verification/Authority.thy ===== *)
theory Authority
  imports Frames
begin

text \<open>
  What a packet may do, by the role of its sender: the powers of owners and moderators, the protection of equal and
  higher ranks, the silence of muted sessions and the documents that only their subject may edit.
\<close>

section \<open>Documents\<close>

lemma keep_messageD:
  assumes "keep_message w ss f s = (i, s')"
  shows "\<exists>h es. hb s' = (hb s)\<lparr> sv_history := h \<rparr> \<and> hb_settings s' = hb_settings s \<and> hb_restarts s' = hb_restarts s \<and>
    hb_images s' = hb_images (fold disk_effect es s) \<and>
    (i, h, es) = (if se_channel ss = None \<and> persistent_messages (wd_server w)
       then f (max_persistent_messages w) (sv_users (hb s)) (sv_icon (hb s)) (sv_history (hb s))
       else (case next_id (sv_history (hb s)) of (i, h) \<Rightarrow> (i, h, [])))"
  using assms with_historyD [of _ s i s'] by (force simp: keep_message_def split: if_splits)

text \<open>Every edit of an account touches that account only.\<close>

lemma account_edits_other [simp]:
  assumes "u \<noteq> name"
  shows "map_of (set_password name h d) u = map_of d u" "map_of (set_color name b c d) u = map_of d u"
    "map_of (set_profile name p d) u = map_of d u" "map_of (set_avatar name a d) u = map_of d u"
    "map_of (set_user_role name r d) u = map_of d u" "map_of (users_remove name d) u = map_of d u"
  using assms by (simp_all add: set_password_def set_color_def set_profile_def set_avatar_def set_user_role_def
      table_write_other fold_other users_remove_def delete_conv')

lemma account_edits_role [simp]:
  "user_role (set_password name h d) u = user_role d u" "user_role (set_color name b c d) u = user_role d u"
  "user_role (set_profile name p d) u = user_role d u" "user_role (set_avatar name a d) u = user_role d u"
  using keys_distinct by (auto simp: user_role_def set_password_def set_color_def set_profile_def set_avatar_def
      account.read_store profile_fold_account profile_write_account COLOR_KEYS_def)

text \<open>What only an owner may change, and nobody else's account.\<close>

definition governed :: "session \<Rightarrow> ('o, 'r) hub \<Rightarrow> ('o, 'r) hub \<Rightarrow> bool" where
  "governed ss s s' \<longleftrightarrow> sv_bans (hb s') = sv_bans (hb s) \<and> sv_icon (hb s') = sv_icon (hb s) \<and>
     hb_settings s' = hb_settings s \<and> hb_restarts s' = hb_restarts s \<and>
     (\<forall>u. u \<noteq> se_name ss \<longrightarrow> map_of (sv_users (hb s')) u = map_of (sv_users (hb s)) u) \<and>
     (user_role (sv_users (hb s')) (se_name ss) = user_role (sv_users (hb s)) (se_name ss) \<or>
      map_of (sv_users (hb s')) (se_name ss) = None)"

lemma governedI:
  "sv_bans (hb s') = sv_bans (hb s) \<Longrightarrow> sv_icon (hb s') = sv_icon (hb s) \<Longrightarrow> hb_settings s' = hb_settings s \<Longrightarrow>
   hb_restarts s' = hb_restarts s \<Longrightarrow> sv_users (hb s') = sv_users (hb s) \<Longrightarrow> governed ss s s'"
  by (simp add: governed_def)

lemma governed_kept: "keep_message w ss f s = (i, s') \<Longrightarrow> governed ss t s' = governed ss t s"
  using keep_messageD [of w ss f s i s'] by (auto simp: governed_def)

lemma governed_history: "with_history f s = (x, s') \<Longrightarrow> governed ss t s' = governed ss t s"
  using with_historyD [of f s x s'] by (auto simp: governed_def)

lemma governed_docs:
  assumes "\<And>v. docs (f v) = docs v"
  shows "governed ss t (on_server f s) = governed ss t s"
  using docs_fields [OF assms] by (simp add: governed_def)

lemma governed_refl [simp]: "governed ss s s"
  by (simp add: governed_def)

lemma governed_chat: "current_role ss s < Owner \<Longrightarrow> final (handle_chat w ss c s) = Some s' \<Longrightarrow> governed ss s s'"
  by (cases c; clarsimp simp: handler_defs packet_defs governed_docs governed_kept governed_history Let_def
      split: if_splits option.splits prod.splits bool.splits)

lemma governed_lobby: "current_role ss s < Owner \<Longrightarrow> final (handle_lobby w ss c s) = Some s' \<Longrightarrow> governed ss s s'"
  by (cases c; auto simp: handler_defs packet_defs governed_docs governed_def Let_def docs_fields [OF docs_move]
      split: if_splits option.splits prod.splits)

lemma governed_file: "current_role ss s < Owner \<Longrightarrow> final (handle_file w ss c s) = Some s' \<Longrightarrow> governed ss s s'"
  by (cases c; clarsimp simp: handler_defs packet_defs governed_docs governed_kept Let_def
      split: if_splits option.splits prod.splits sum.splits)

lemma governed_put_conn: "governed ss t (on_server (\<lambda>v. (alter_conn addr (f v) v)\<lparr> sv_effects := g v \<rparr>) s) = governed ss t s"
  by (rule governed_docs) simp

lemma governed_media: "current_role ss s < Owner \<Longrightarrow> final (handle_media w ss c s) = Some s' \<Longrightarrow> governed ss s s'"
  by (cases c; clarsimp simp: handler_defs packet_defs governed_docs governed_put_conn Let_def
      split: if_splits option.splits prod.splits)

lemma governed_server: "current_role ss s < Owner \<Longrightarrow> final (handle_server w ss c s) = Some s' \<Longrightarrow> governed ss s s'"
  by (cases c; clarsimp simp: handler_defs packet_defs governed_docs Let_def split: if_splits option.splits prod.splits)

lemma governed_account: "current_role ss s < Owner \<Longrightarrow> final (handle_account w ss c s) = Some s' \<Longrightarrow> governed ss s s'"
  by (cases c; clarsimp simp: handler_defs packet_defs governed_def Let_def users_remove_def delete_conv'
      split: if_splits option.splits prod.splits sum.splits bool.splits)

text \<open>The match of \<open>listen_client\<close> by groups.\<close>

lemma handle_cases:
  assumes "final (handle w ss code s) = Some s'"
  obtains (chat) c where "code = Chat_Code c" "final (handle_chat w ss c s) = Some s'"
    | (lobby) c where "code = Lobby_Code c" "final (handle_lobby w ss c s) = Some s'"
    | (upload) c where "code = File_Code c" "final (handle_file w ss c s) = Some s'"
    | (media) c where "code = Media_Code c" "final (handle_media w ss c s) = Some s'"
    | (server) c where "code = Server_Code c" "final (handle_server w ss c s) = Some s'"
    | (account) c where "code = Account_Code c" "final (handle_account w ss c s) = Some s'"
    | (disconnect) "code = Session_Code Disconnect" "s' = on_server (remove_connection (wd_server w) (se_addr ss) True) s"
    | (alive) "s' = on_server (alter_conn (se_addr ss) (set_alive True)) s"
    | (ignored) "s' = s"
proof (cases code)
  case (Session_Code c)
  then show ?thesis using assms that(7,8,9) by (cases c) (simp_all add: handle_def)
qed (use assms that in \<open>simp_all add: handle_def\<close>)

lemma governed_handle:
  assumes "current_role ss s < Owner" "final (handle w ss code s) = Some s'"
  shows "governed ss s s'"
  using assms(2)
proof (cases rule: handle_cases)
  case (chat c)
  then show ?thesis using governed_chat [OF assms(1)] by blast
next
  case (lobby c)
  then show ?thesis using governed_lobby [OF assms(1)] by blast
next
  case (upload c)
  then show ?thesis using governed_file [OF assms(1)] by blast
next
  case (media c)
  then show ?thesis using governed_media [OF assms(1)] by blast
next
  case (server c)
  then show ?thesis using governed_server [OF assms(1)] by blast
next
  case (account c)
  then show ?thesis using governed_account [OF assms(1)] by blast
qed (simp_all add: governed_docs)

section \<open>Other sessions\<close>

lemma standing_kept: "keep_message w ss f s = (i, s') \<Longrightarrow> standing (hb s') a = standing (hb s) a"
  using keep_messageD [of w ss f s i s'] by auto

lemma standing_history: "with_history f s = (x, s') \<Longrightarrow> standing (hb s') a = standing (hb s) a"
  using with_historyD [of f s x s'] by auto

lemmas standing_rules = standing_kept standing_history standing_move view_alter

lemma spared_chat:
  "a \<noteq> se_addr ss \<Longrightarrow> final (handle_chat w ss c s) = Some s' \<Longrightarrow> standing (hb s') a = standing (hb s) a"
  by (cases c; clarsimp simp: handler_defs packet_defs standing_rules Let_def
      split: if_splits option.splits prod.splits bool.splits)

lemma spared_lobby:
  "a \<noteq> se_addr ss \<Longrightarrow> final (handle_lobby w ss c s) = Some s' \<Longrightarrow> standing (hb s') a = standing (hb s) a"
  by (cases c; auto simp: handler_defs packet_defs standing_rules Let_def split: if_splits option.splits prod.splits)

lemma spared_file:
  "a \<noteq> se_addr ss \<Longrightarrow> final (handle_file w ss c s) = Some s' \<Longrightarrow> standing (hb s') a = standing (hb s) a"
  by (cases c; clarsimp simp: handler_defs packet_defs standing_rules Let_def
      split: if_splits option.splits prod.splits sum.splits)

lemma spared_media:
  "a \<noteq> se_addr ss \<Longrightarrow> final (handle_media w ss c s) = Some s' \<Longrightarrow> standing (hb s') a = standing (hb s) a"
  by (cases c; clarsimp simp: handler_defs packet_defs Let_def split: if_splits option.splits prod.splits)

lemma spared_account:
  "a \<noteq> se_addr ss \<Longrightarrow> final (handle_account w ss c s) = Some s' \<Longrightarrow> standing (hb s') a = standing (hb s) a"
  by (cases c; clarsimp simp: handler_defs packet_defs standing.view_remove Let_def
      split: if_splits option.splits prod.splits sum.splits bool.splits)

text \<open>The packets of an owner that need no lower rank.\<close>

fun owner_packet :: "('o, 'r) packet_code \<Rightarrow> bool" where
  "owner_packet (Server_Code (ServerBan target)) = True"
| "owner_packet (Server_Code (ServerBanIp i)) = True"
| "owner_packet (Server_Code (ServerRoleRequest target r)) = True"
| "owner_packet _ = False"

lemma found_entry:
  assumes "server_wf v" "find_id i v = Some (addr, c)"
  shows "map_of (sv_conns v) addr = Some c" "conn_id c = Some i"
  using assms find_id_iff [of v i addr c] by (auto simp: find_id_def find_Some_iff)

lemma role_top: "Owner \<le> r \<longleftrightarrow> r = Owner" "Moderator \<le> Owner" "r \<le> Owner" for r :: role
  by (cases r; simp add: less_eq_role_def)+

lemma spared_kick:
  assumes "server_wf (hb s)" "map_of (sv_conns (hb s)) a = Some c"
    "final (on_kick w ss i s) = Some s'" "standing (hb s') a \<noteq> standing (hb s) a"
  shows "Moderator \<le> current_role ss s \<and> outranked (current_role ss s) c"
proof -
  obtain addr d where d: "Moderator \<le> current_role ss s" "find_id i (hb s) = Some (addr, d)" "outranked (current_role ss s) d"
      "s' = on_server (remove_connection (wd_server w) addr True) s"
    using assms(3,4) by (auto simp: handler_defs packet_defs outranked_def Let_def not_less split: if_splits option.splits)
  then have "a = addr" using assms(4) standing.view_remove [of a addr] by auto
  then show ?thesis using d found_entry(1) [OF assms(1) d(2)] assms(2) by simp
qed

lemma spared_mute:
  assumes "server_wf (hb s)" "map_of (sv_conns (hb s)) a = Some c"
    "final (on_mute ss i s) = Some s'" "standing (hb s') a \<noteq> standing (hb s) a"
  shows "Moderator \<le> current_role ss s \<and> outranked (current_role ss s) c"
proof -
  obtain addr d where d: "Moderator \<le> current_role ss s" "find_id i (hb s) = Some (addr, d)" "outranked (current_role ss s) d"
      "s' = on_server (alter_conn addr toggle_mute) s"
    using assms(3,4) by (auto simp: handler_defs packet_defs Let_def not_less split: if_splits option.splits)
  have "a = addr" by (rule ccontr) (use d(4) assms(4) in simp)
  then show ?thesis using d found_entry(1) [OF assms(1) d(2)] assms(2) by simp
qed

lemma spared_server:
  assumes "server_wf (hb s)" "map_of (sv_conns (hb s)) a = Some c"
    "final (handle_server w ss code s) = Some s'" "standing (hb s') a \<noteq> standing (hb s) a"
  shows "Moderator \<le> current_role ss s \<and>
    (outranked (current_role ss s) c \<or> current_role ss s = Owner \<and> owner_packet (Server_Code code :: ('o, 'r) packet_code))"
proof (cases "owner_packet (Server_Code code :: ('o, 'r) packet_code)")
  case True
  have "current_role ss s = Owner" using True assms(3,4)
    by (cases code) (auto simp: handler_defs packet_defs Let_def not_less role_top split: if_splits)
  then show ?thesis using True role_top by simp
next
  case False
  then consider i where "code = ServerKick i" | i where "code = ServerMute i"
    using assms(3,4) by (cases code; clarsimp simp: handler_defs packet_defs Let_def rbind_eq_Inr_iff
        split: if_splits option.splits prod.splits bool.splits sum.splits)
  then show ?thesis
  proof cases
    case 1
    then show ?thesis using spared_kick [OF assms(1,2) _ assms(4)] assms(3) by simp
  next
    case 2
    then show ?thesis using spared_mute [OF assms(1,2) _ assms(4)] assms(3) by simp
  qed
qed

section \<open>Muted sessions\<close>

text \<open>The history without the pins: messages, edits and reactions.\<close>

definition said :: "history \<Rightarrow> u64 \<times> msg_record set" where
  "said h = (h_next h, (\<lambda>m. m\<lparr> r_pinned := False \<rparr>) ` set (h_records h))"

definition adds_nothing :: "history \<Rightarrow> history \<Rightarrow> bool" where
  "adds_nothing h h' \<longleftrightarrow> fst (said h') = fst (said h) \<and> snd (said h') \<subseteq> snd (said h)"

lemma adds_nothing_refl [simp]: "adds_nothing h h"
  by (simp add: adds_nothing_def)

lemma delete_adds_nothing: "delete_msg users icon i h = (b, h', es) \<Longrightarrow> adds_nothing h h'"
  by (auto simp: delete_msg_def adds_nothing_def said_def remove_nth_def Let_def split: option.splits
      dest!: in_set_takeD in_set_dropD)

lemma pin_adds_nothing:
  assumes "pin limit i h = (b, h', es)"
  shows "adds_nothing h h'"
proof (cases "hist_find h i")
  case (Some k)
  have "set ((h_records h)[k := (h_records h ! k)\<lparr> r_pinned := p \<rparr>]) \<subseteq>
      insert ((h_records h ! k)\<lparr> r_pinned := p \<rparr>) (set (h_records h))" for p by (rule set_update_subset_insert)
  then show ?thesis using assms Some hist_find_less [OF Some]
    by (fastforce simp: pin_def adds_nothing_def said_def update_record_def Let_def split: if_splits)
qed (use assms in \<open>simp add: pin_def\<close>)

definition silent :: "('o, 'r) hub \<Rightarrow> ('o, 'r) hub \<Rightarrow> bool" where
  "silent s s' \<longleftrightarrow> spoken (hb s') = spoken (hb s) \<and> adds_nothing (sv_history (hb s)) (sv_history (hb s'))"

lemma silent_refl [simp]: "silent s s"
  by (simp add: silent_def)

lemma silent_op:
  assumes "\<And>v. docs (f v) = docs v" "\<And>v. spoken (f v) = spoken v"
  shows "silent s (on_server f t) = silent s t"
  using docs_fields(3) [OF assms(1)] assms(2) by (simp add: silent_def)

lemma silent_delete: "with_history (delete_msg users icon i) s = (b, s') \<Longrightarrow> silent s s'"
  using with_historyD [of "delete_msg users icon i" s b s'] delete_adds_nothing by (auto simp: silent_def)

lemma silent_pin: "with_history (pin n i) s = (b, s') \<Longrightarrow> silent s s'"
  using with_historyD [of "pin n i" s b s'] pin_adds_nothing by (auto simp: silent_def)

lemma silent_chat: "is_muted ss s \<Longrightarrow> final (handle_chat w ss c s) = Some s' \<Longrightarrow> silent s s'"
  by (cases c; clarsimp simp: handler_defs packet_defs silent_op silent_delete silent_pin Let_def
      split: if_splits option.splits prod.splits bool.splits)

lemma silent_lobby: "is_muted ss s \<Longrightarrow> final (handle_lobby w ss c s) = Some s' \<Longrightarrow> silent s s'"
  by (cases c; auto simp: handler_defs packet_defs silent_def Let_def docs_fields [OF docs_move] spoken_move
      split: if_splits option.splits prod.splits)

lemma silent_file: "is_muted ss s \<Longrightarrow> final (handle_file w ss c s) = Some s' \<Longrightarrow> silent s s'"
  by (cases c; clarsimp simp: handler_defs packet_defs silent_op Let_def split: if_splits option.splits prod.splits sum.splits)

lemma silent_media: "is_muted ss s \<Longrightarrow> final (handle_media w ss c s) = Some s' \<Longrightarrow> silent s s'"
  by (cases c; clarsimp simp: handler_defs packet_defs silent_def Let_def
      split: if_splits option.splits prod.splits)

lemma silent_server: "is_muted ss s \<Longrightarrow> final (handle_server w ss c s) = Some s' \<Longrightarrow> silent s s'"
  by (cases c; clarsimp simp: handler_defs packet_defs silent_def rbind_eq_Inr_iff Let_def
      split: if_splits option.splits prod.splits bool.splits sum.splits)

lemma silent_account: "is_muted ss s \<Longrightarrow> final (handle_account w ss c s) = Some s' \<Longrightarrow> silent s s'"
  by (cases c; clarsimp simp: handler_defs packet_defs silent_def Let_def
      split: if_splits option.splits prod.splits bool.splits sum.splits)

lemma silent_handle:
  assumes "is_muted ss s" "final (handle w ss code s) = Some s'"
  shows "silent s s'"
  using assms(2)
proof (cases rule: handle_cases)
  case (chat c)
  then show ?thesis using silent_chat [OF assms(1)] by blast
next
  case (lobby c)
  then show ?thesis using silent_lobby [OF assms(1)] by blast
next
  case (upload c)
  then show ?thesis using silent_file [OF assms(1)] by blast
next
  case (media c)
  then show ?thesis using silent_media [OF assms(1)] by blast
next
  case (server c)
  then show ?thesis using silent_server [OF assms(1)] by blast
next
  case (account c)
  then show ?thesis using silent_account [OF assms(1)] by blast
qed (simp_all add: silent_op)

section \<open>A server with two sessions\<close>

text \<open>Ann, an ordinary user, and Bob, the owner, who is muted in the second registry.\<close>

definition boss :: authenticated where
  "boss = member\<lparr> a_write_stream := 2, a_task := 7, a_file_streams := 1, a_screen_stream := None, a_peer_addr := (2, 80),
     a_username := ustr ''bob'', a_role := Owner, a_id := 1 \<rparr>"

definition crew :: "bool \<Rightarrow> ('o, 'r) server" where
  "crew quieted = empty_server\<lparr> sv_conns := [((1, 80), Authenticated member), ((2, 80), Authenticated (boss\<lparr> a_muted := quieted \<rparr>))],
     sv_peer := [1 \<mapsto> (1, 80), 2 \<mapsto> (2, 80)] \<rparr>"

definition demo :: "bool \<Rightarrow> ('o, 'r) hub" where
  "demo quieted = \<lparr> hb = crew quieted, hb_settings = [], hb_images = [], hb_saved = [], hb_restarts = 0 \<rparr>"

definition ann :: session where
  "ann = \<lparr> se_addr = (1, 80), se_stream = 1, se_keys = ([], []), se_id = 0, se_name = ustr ''ann'', se_role = User,
     se_channel = None \<rparr>"

definition bob :: session where
  "bob = \<lparr> se_addr = (2, 80), se_stream = 2, se_keys = ([], []), se_id = 1, se_name = ustr ''bob'', se_role = Owner,
     se_channel = None \<rparr>"

definition demo_world :: "(i64 list, nat) world" where
  "demo_world = \<lparr> wd_server = plain_config, wd_chat = ref_chat, wd_image_key = [7], typing_indicator = True, max_channel_length = 16,
     max_client_parallel_uploads = 2, enable_screenshare = True, profiles = True, max_profile_bio = 100, max_profile_field = 20,
     max_persistent_messages = 10, max_pinned_messages = 2, wd_now = 0, wd_later = 0, wd_clock = 0, wd_uid = 5, wd_token = [9],
     wd_compare = (=), wd_hash = id, wd_ip_text = (\<lambda>_. []), wd_prefix = (\<lambda>_. None), wd_suffix = (\<lambda>_. None) \<rparr>"

lemma demo_roles:
  "current_role ann (demo q) = User" "current_role bob (demo q) = Owner" "is_muted bob (demo q) = q" "User < Owner"
  by (simp_all add: current_role_def is_muted_def entry_def ann_def bob_def demo_def crew_def boss_def member_def less_role_def)

lemma demo_wf: "server_wf (hb (demo q))"
  by (simp add: demo_def crew_def boss_def empty_server_def server_wf_def roster_def roster_ok_def member_def List.map_filter_def)

section \<open>Properties\<close>

text \<open>
  C18 (owner_powers). Whatever packet a session below Owner sends, the bans, the server settings, the server icon and
  the number of restarts stay as they are, no other account is changed in any field, and the sender's own
  role stays what it is unless the sender deletes the account.
\<close>

theorem owner_powers:
  assumes "current_role ss s < Owner" and "final (handle w ss code s) = Some s'"
  shows "sv_bans (hb s') = sv_bans (hb s) \<and> hb_settings s' = hb_settings s \<and> sv_icon (hb s') = sv_icon (hb s) \<and>
    hb_restarts s' = hb_restarts s \<and>
    (\<forall>u. u \<noteq> se_name ss \<longrightarrow> map_of (sv_users (hb s')) u = map_of (sv_users (hb s)) u) \<and>
    (user_role (sv_users (hb s')) (se_name ss) = user_role (sv_users (hb s)) (se_name ss) \<or>
     map_of (sv_users (hb s')) (se_name ss) = None)"
  using governed_handle [OF assms] by (simp add: governed_def)

theorem owner_powers_witness:
  "\<exists>s'. final (handle demo_world ann (Server_Code ServerRestart) (demo False :: ('o, 'r) hub)) = Some s' \<and>
     hb_restarts s' = 0 \<and> hb_settings s' = []"
proof -
  let ?s = "answer ann (Lobby_Code InvalidUsage) (demo False :: ('o, 'r) hub)"
  have f: "final (handle demo_world ann (Server_Code ServerRestart) (demo False :: ('o, 'r) hub)) = Some ?s"
    by (simp add: handle_def handler_defs demo_roles)
  moreover have "hb_restarts ?s = hb_restarts (demo False :: ('o, 'r) hub)"
    "hb_settings ?s = hb_settings (demo False :: ('o, 'r) hub)"
    using owner_powers [OF _ f] by (simp_all add: demo_roles)
  ultimately show ?thesis by (simp add: demo_def)
qed

text \<open>
  C17 (ranks_protected). If a packet removes another session, or changes its role or whether it is muted, then its sender
  is at least a moderator, and the other session has a lower rank, unless the sender is an owner and the packet is a
  ban, a ban of the address or a change of role.
\<close>

theorem ranks_protected:
  fixes s :: "('o, 'r) hub"
  assumes "server_wf (hb s)" "a \<noteq> se_addr ss" "map_of (sv_conns (hb s)) a = Some c" "final (handle w ss code s) = Some s'"
    "standing (hb s') a \<noteq> standing (hb s) a"
  shows "Moderator \<le> current_role ss s \<and> (outranked (current_role ss s) c \<or> current_role ss s = Owner \<and> owner_packet code)"
  using assms(4)
proof (cases rule: handle_cases)
  case (server x)
  then show ?thesis using spared_server [OF assms(1,3) server(2) assms(5)] by simp
next
  case (chat x)
  then show ?thesis using spared_chat [OF assms(2) chat(2)] assms(5) by simp
next
  case (lobby x)
  then show ?thesis using spared_lobby [OF assms(2) lobby(2)] assms(5) by simp
next
  case (upload x)
  then show ?thesis using spared_file [OF assms(2) upload(2)] assms(5) by simp
next
  case (media x)
  then show ?thesis using spared_media [OF assms(2) media(2)] assms(5) by simp
next
  case (account x)
  then show ?thesis using spared_account [OF assms(2) account(2)] assms(5) by simp
qed (use assms(2,5) in \<open>simp_all add: standing.view_remove\<close>)

theorem ranks_protected_witness:
  "\<exists>s'. final (handle demo_world bob (Server_Code (ServerMute 0)) (demo False :: ('o, 'r) hub)) = Some s' \<and>
     standing (hb s') (1, 80) \<noteq> standing (hb (demo False :: ('o, 'r) hub)) (1, 80) \<and> outranked Owner (Authenticated member)"
proof -
  let ?d = "demo False :: ('o, 'r) hub"
  let ?s = "on_server (alter_conn (1, 80) toggle_mute) ?d"
  have c: "map_of (sv_conns (hb ?d)) (1, 80) = Some (Authenticated member)" by (simp add: demo_def crew_def)
  then have i: "find_id 0 (hb ?d) = Some ((1, 80), Authenticated member)"
    by (simp add: find_id_iff [OF demo_wf] member_def)
  have f: "final (handle demo_world bob (Server_Code (ServerMute 0)) ?d) = Some ?s"
    using i by (simp add: handle_def handler_defs demo_roles outranked_def member_def less_role_def)
  moreover have ne: "standing (hb ?s) (1, 80) \<noteq> standing (hb ?d) (1, 80)"
    using c by (simp add: client_view_def map_of_alter standing_of_def member_def)
  moreover have b: "(1, 80) \<noteq> se_addr bob" by (simp add: bob_def)
  have "outranked Owner (Authenticated member)" using ranks_protected [OF demo_wf b c f ne] by (simp add: demo_roles)
  ultimately show ?thesis by blast
qed



end
