(* ===== verification/Conduct.thy ===== *)
theory Conduct
  imports Authority
begin

text \<open>
  What every packet handler keeps: no handler panics, the registry stays well formed, the local variables of a session
  agree with its entry, and the history takes one of its own steps at most. The last part states exactly what a change of
  role and of a password does, and what the two bans do not check.
\<close>

section \<open>No panics\<close>

lemma read_chunks_total:
  assumes "chat_ok C"
  shows "file_ok st \<Longrightarrow> \<exists>p. read_chunks C st cts = Inr (Some p)"
proof (induction cts arbitrary: st)
  case (Cons ct cts)
  obtain p where "read_chunks C (file_next st (length ct)) cts = Inr (Some p)" using Cons by (metis file_ok_next)
  then show ?case by (simp add: read_chunks_Cons [OF assms Cons.prems] del: read_chunks.simps)
qed simp

lemma read_image_total:
  assumes "chat_ok C"
  obtains r where "read_image C k images hash = Inr r"
proof -
  obtain st key nonce mac kg ng where st: "image_keys C k hash = Inr (key, nonce, mac)" "from_key GW GH key = Inr kg"
    "from_flat GW GH nonce = Inr ng" "stream_new (core C) GW GH kg ng = Inr st" "file_ok st"
    by (rule disk_stream_ok [OF assms])
  show ?thesis
    using that st read_chunks_total [OF assms st(5)] by (fastforce simp: read_image_def split: option.splits)
qed

lemma fit_total:
  assumes "chat_ok (wd_chat w)"
  obtains b where "fit_for_avatar w hash s = Inr b"
  using read_image_total [OF assms] that by (metis (no_types, lifting) fit_for_avatar_def rbind.simps(2))

text \<open>The local variables of a session agree with its entry.\<close>

definition session_live :: "session \<Rightarrow> ('o, 'r) server \<Rightarrow> bool" where
  "session_live ss v \<longleftrightarrow> identity v (se_addr ss) =
     Some (Some (se_id ss), Some (se_name ss), se_channel ss, se_stream ss, Some (se_keys ss))"

lemma session_entry:
  assumes "session_live ss v"
  obtains x where "map_of (sv_conns v) (se_addr ss) = Some (Authenticated x)" "a_id x = se_id ss" "a_username x = se_name ss"
    "a_channel x = se_channel ss" "a_write_stream x = se_stream ss" "a_keys x = se_keys ss"
proof -
  obtain c where c: "map_of (sv_conns v) (se_addr ss) = Some c"
    "identity_of c = (Some (se_id ss), Some (se_name ss), se_channel ss, se_stream ss, Some (se_keys ss))"
    using assms by (auto simp: session_live_def client_view_def)
  then show ?thesis using that by (cases c) (simp_all add: identity_of_def)
qed

lemma session_liveI:
  assumes "map_of (sv_conns v) (se_addr ss) = Some (Authenticated x)" "a_id x = se_id ss" "a_username x = se_name ss"
    "a_channel x = se_channel ss" "a_write_stream x = se_stream ss" "a_keys x = se_keys ss"
  shows "session_live ss v"
  using assms by (simp add: session_live_def client_view_def identity_of_def)

lemma session_live_view: "identity v (se_addr ss) = identity u (se_addr ss) \<Longrightarrow> session_live ss v = session_live ss u"
  by (simp add: session_live_def)

text \<open>A move of the session itself succeeds and changes its channel only.\<close>

lemma move_live:
  assumes "session_live ss v"
  obtains v' where "update_client_channel (se_addr ss) ch now v = Some v'" "session_live (ss\<lparr> se_channel := ch \<rparr>) v'"
proof -
  obtain x where x: "map_of (sv_conns v) (se_addr ss) = Some (Authenticated x)" "a_id x = se_id ss" "a_username x = se_name ss"
    "a_write_stream x = se_stream ss" "a_keys x = se_keys ss" by (rule session_entry [OF assms])
  let ?y = "Authenticated (x\<lparr> a_last_activity := now, a_channel := ch, a_alive := True \<rparr>)"
  have "session_live (ss\<lparr> se_channel := ch \<rparr>) (alter_conn (se_addr ss) (\<lambda>_. ?y) v)"
    using x by (intro session_liveI [of _ _ "x\<lparr> a_last_activity := now, a_channel := ch, a_alive := True \<rparr>"])
      (simp_all add: map_of_alter)
  then have "session_live (ss\<lparr> se_channel := ch \<rparr>) (announce_move (a_channel x) ch (alter_conn (se_addr ss) (\<lambda>_. ?y) v))"
    by (simp add: session_live_def)
  then show ?thesis using that x(1) by (simp add: update_client_channel_def)
qed

lemma on_channel_total:
  assumes "session_live ss (hb s)"
  shows "on_channel w ss ch s \<noteq> Panicked"
proof -
  have "\<exists>v. update_client_channel (se_addr ss) ch (wd_now w) (hb t) = Some v"
    if "identity (hb t) (se_addr ss) = identity (hb s) (se_addr ss)" for t :: "('o, 'r) hub"
    using session_live_view [OF that] assms move_live [of ss "hb t" ch "wd_now w"] by metis
  from this [of s] this [of "broadcast (Media_Code (VoiceLeave (se_id ss) (se_channel ss))) s"]
  show ?thesis by (clarsimp simp: on_channel_def refuse_def Let_def packet_defs)
qed

lemma on_image_data_total:
  assumes "chat_ok (wd_chat w)"
  shows "on_image_data w ss hash s \<noteq> Panicked"
proof -
  obtain r where "read_image (wd_chat w) (wd_image_key w) (hb_images s) hash = Inr r" by (rule read_image_total [OF assms])
  then show ?thesis by (cases r) (simp_all add: on_image_data_def Let_def)
qed

lemma fit_users_total:
  assumes "chat_ok (wd_chat w)"
  shows "on_avatar w ss p s \<noteq> Panicked" "on_icon_save w ss p s \<noteq> Panicked"
proof -
  have "\<exists>b. fit_for_avatar w hash s = Inr b" for hash using fit_total [OF assms] by metis
  then have fit: "fit_for_avatar w hash s \<noteq> Inl e" for hash e by (metis sum.distinct(1))
  show "on_avatar w ss p s \<noteq> Panicked" using fit
    by (simp add: on_avatar_def refuse_def mint_upload_def Let_def split: option.split sum.split bool.split)
  show "on_icon_save w ss p s \<noteq> Panicked" using fit
    by (simp add: on_icon_save_def refuse_def mint_upload_def Let_def split: option.split sum.split bool.split)
qed

lemma on_settings_total: "on_settings w ss rows s \<noteq> Panicked"
proof (cases rows)
  case (Some r)
  obtain d n where "settings_write r (hb_settings s) = Inr (d, n)" using settings_write_schema by blast
  then show ?thesis by (simp add: Some on_settings_def refuse_def)
qed (simp add: on_settings_def refuse_def)

lemma never_panics:
  assumes "chat_ok (wd_chat w)" "session_live ss (hb s)"
  shows "handle w ss code s \<noteq> Panicked"
proof (cases code)
  case (Chat_Code c)
  then show ?thesis by (cases c) (simp_all add: handle_def handler_defs Let_def split: option.split prod.split bool.split)
next
  case (Lobby_Code c)
  then show ?thesis using on_channel_total [OF assms(2)] by (cases c) (simp_all add: handle_def)
next
  case (File_Code c)
  then show ?thesis using on_image_data_total [OF assms(1)]
    by (cases c) (simp_all add: handle_def on_upload_def on_voice_message_def on_download_def on_files_def refuse_def
        mint_upload_def Let_def split: option.split prod.split)
next
  case (Media_Code c)
  then show ?thesis by (cases c) (simp_all add: handle_def handler_defs Let_def split: option.split prod.split)
next
  case (Server_Code c)
  then show ?thesis using on_settings_total fit_users_total [OF assms(1)]
    by (cases c) (simp_all add: handle_def on_mute_def on_kick_def on_ban_def on_ban_ip_def on_bans_def on_pardon_def on_say_def
        on_role_def on_restart_def on_icon_request_def refuse_def Let_def split: option.split prod.split bool.split)
next
  case (Account_Code c)
  then show ?thesis using fit_users_total [OF assms(1)]
    by (cases c) (simp_all add: handle_def on_passwd_def on_account_delete_def on_color_def on_profile_request_def
        on_profile_save_def refuse_def Let_def split: option.split)
next
  case (Session_Code c)
  then show ?thesis by (cases c) (simp_all add: handle_def)
qed

section \<open>The registry stays well formed\<close>

lemma wf_documents [simp]:
  "server_wf (v\<lparr> sv_users := d \<rparr>) = server_wf v" "server_wf (v\<lparr> sv_bans := d \<rparr>) = server_wf v"
  "server_wf (v\<lparr> sv_history := e \<rparr>) = server_wf v" "server_wf (v\<lparr> sv_icon := f \<rparr>) = server_wf v"
  "server_wf (v\<lparr> sv_voice := g \<rparr>) = server_wf v" "server_wf (v\<lparr> sv_effects := l \<rparr>) = server_wf v"
  "server_wf (v\<lparr> sv_pending := p \<rparr>) = server_wf v"
  by (simp_all add: server_wf_def roster_def)

lemma wf_lists [simp]:
  "server_wf (send_list cf h ks v) = server_wf v" "server_wf (send_bans h ks v) = server_wf v"
  "server_wf (send_history cf h ks b v) = server_wf v" "server_wf (send_voice_clients h ks i v) = server_wf v"
  "server_wf (icon_changed i v) = server_wf v" "server_wf (open_connection t i k now v) = server_wf v"
  by (simp_all add: send_list_def send_bans_def send_history_def send_voice_clients_def icon_changed_def open_connection_def
      Let_def split: option.split)

lemma wf_neutral [simp]:
  "peer_addr (set_last_pm i c) = peer_addr c" "write_stream (set_last_pm i c) = write_stream c" "conn_id (set_last_pm i c) = conn_id c"
  "peer_addr (toggle_mute c) = peer_addr c" "write_stream (toggle_mute c) = write_stream c" "conn_id (toggle_mute c) = conn_id c"
  "peer_addr (set_role r c) = peer_addr c" "write_stream (set_role r c) = write_stream c" "conn_id (set_role r c) = conn_id c"
  by (cases c; simp)+

lemma wf_touch [simp]:
  "server_wf (alter_conn addr (\<lambda>c. case last_typing_mut f c of Some c' \<Rightarrow> c' | None \<Rightarrow> c) v) = server_wf v"
  "server_wf (alter_conn addr (\<lambda>c. case last_image_mut f c of Some c' \<Rightarrow> c' | None \<Rightarrow> c) v) = server_wf v"
  "server_wf (alter_conn addr (set_last_pm i) v) = server_wf v" "server_wf (alter_conn addr toggle_mute v) = server_wf v"
  "server_wf (alter_conn addr deattach_screen v) = server_wf v" "server_wf (alter_conn addr (set_alive b) v) = server_wf v"
proof -
  have "peer_addr (case last_typing_mut f c of Some c' \<Rightarrow> c' | None \<Rightarrow> c) = peer_addr c \<and>
      write_stream (case last_typing_mut f c of Some c' \<Rightarrow> c' | None \<Rightarrow> c) = write_stream c \<and>
      conn_id (case last_typing_mut f c of Some c' \<Rightarrow> c' | None \<Rightarrow> c) = conn_id c" for c by (cases c) simp_all
  then show "server_wf (alter_conn addr (\<lambda>c. case last_typing_mut f c of Some c' \<Rightarrow> c' | None \<Rightarrow> c) v) = server_wf v"
    by (rule wf_alter)
  have "peer_addr (case last_image_mut f c of Some c' \<Rightarrow> c' | None \<Rightarrow> c) = peer_addr c \<and>
      write_stream (case last_image_mut f c of Some c' \<Rightarrow> c' | None \<Rightarrow> c) = write_stream c \<and>
      conn_id (case last_image_mut f c of Some c' \<Rightarrow> c' | None \<Rightarrow> c) = conn_id c" for c by (cases c) simp_all
  then show "server_wf (alter_conn addr (\<lambda>c. case last_image_mut f c of Some c' \<Rightarrow> c' | None \<Rightarrow> c) v) = server_wf v"
    by (rule wf_alter)
qed (simp_all add: wf_alter)

lemma wf_apply_role [simp]: "server_wf (apply_role name r v) = server_wf v"
proof -
  have "roster (apply_role name r v) = roster v" unfolding apply_role_def by (rule roster_map) simp
  then show ?thesis by (rule wf_view) (simp_all add: apply_role_def)
qed

lemma wf_remove_ip: "server_wf v \<Longrightarrow> server_wf (remove_connections cf ip g v)"
  by (simp add: remove_connections_def wf_remove_each)

text \<open>Stopping a share and muting a screen leave the client the same.\<close>

lemma put_same:
  "remove_screen_stream c = (c', i, ts) \<Longrightarrow> peer_addr c' = peer_addr c \<and> write_stream c' = write_stream c \<and> conn_id c' = conn_id c"
  "toggle_mute_screen c = (c', m) \<Longrightarrow> peer_addr c' = peer_addr c \<and> write_stream c' = write_stream c \<and> conn_id c' = conn_id c"
  by (cases c; auto simp: remove_screen_stream_def Let_def split: option.splits)+

lemma wf_put_entry:
  assumes "server_wf (hb s)" "entry ss s = Some c" "peer_addr c' = peer_addr c \<and> write_stream c' = write_stream c \<and> conn_id c' = conn_id c"
  shows "server_wf (alter_conn (se_addr ss) (\<lambda>_. c') (hb s))"
  using assms wf_put [of "hb s" "se_addr ss" c c'] by (simp add: entry_def)

lemma wf_kept: "keep_message w ss f s = (i, s') \<Longrightarrow> server_wf (hb s') = server_wf (hb s)"
  using keep_messageD [of w ss f s i s'] by auto

lemma wf_history: "with_history f s = (x, s') \<Longrightarrow> server_wf (hb s') = server_wf (hb s)"
  using with_historyD [of f s x s'] by auto

lemmas wf_rules = wf_kept wf_history wf_remove_connection wf_remove_ip rbind_eq_Inr_iff

lemma wf_handle:
  assumes wf: "server_wf (hb s)" and f: "final (handle w ss code s) = Some s'"
  shows "server_wf (hb s')"
  using f
proof (cases rule: handle_cases)
  case (chat c)
  then show ?thesis using wf
    by (cases c; clarsimp simp: handler_defs packet_defs wf_rules Let_def split: if_splits option.splits prod.splits bool.splits)
next
  case (lobby c)
  then show ?thesis using wf
    by (cases c; auto simp: handler_defs packet_defs Let_def dest: wf_update_channel [rotated] split: if_splits option.splits prod.splits)
next
  case (upload c)
  then show ?thesis using wf
    by (cases c; clarsimp simp: handler_defs packet_defs wf_rules Let_def split: if_splits option.splits prod.splits sum.splits)
next
  case (media c)
  then show ?thesis using wf wf_put_entry [OF wf _ put_same(1)] wf_put_entry [OF wf _ put_same(2)]
    by (cases c; clarsimp simp: handler_defs packet_defs Let_def split: if_splits option.splits prod.splits)
next
  case (server c)
  then show ?thesis using wf
    by (cases c; clarsimp simp: handler_defs packet_defs wf_rules Let_def
        split: if_splits option.splits prod.splits sum.splits bool.splits)
next
  case (account c)
  then show ?thesis using wf
    by (cases c; clarsimp simp: handler_defs packet_defs wf_rules Let_def
        split: if_splits option.splits prod.splits sum.splits bool.splits)
qed (use wf in \<open>simp_all add: wf_remove_connection\<close>)

section \<open>The session follows its entry\<close>

lemma identity_touch [simp]:
  "identity (alter_conn addr (\<lambda>c. case last_typing_mut f c of Some c' \<Rightarrow> c' | None \<Rightarrow> c) v) a = identity v a"
  "identity (alter_conn addr (\<lambda>c. case last_image_mut f c of Some c' \<Rightarrow> c' | None \<Rightarrow> c) v) a = identity v a"
  "identity (alter_conn addr (set_last_pm i) v) a = identity v a" "identity (alter_conn addr toggle_mute v) a = identity v a"
  "identity (alter_conn addr deattach_screen v) a = identity v a" "identity (alter_conn addr (set_alive b) v) a = identity v a"
proof -
  have "identity_of (case last_typing_mut f c of Some c' \<Rightarrow> c' | None \<Rightarrow> c) = identity_of c"
    "identity_of (case last_image_mut f c of Some c' \<Rightarrow> c' | None \<Rightarrow> c) = identity_of c" for c
    by (cases c; simp add: identity_of_def)+
  then show "identity (alter_conn addr (\<lambda>c. case last_typing_mut f c of Some c' \<Rightarrow> c' | None \<Rightarrow> c) v) a = identity v a"
    "identity (alter_conn addr (\<lambda>c. case last_image_mut f c of Some c' \<Rightarrow> c' | None \<Rightarrow> c) v) a = identity v a"
    by (simp_all add: view_alter)
qed (simp_all add: view_alter)

lemma identity_put:
  assumes "entry ss s = Some c" "identity_of c' = identity_of c"
  shows "identity (alter_conn (se_addr ss) (\<lambda>_. c') (hb s)) (se_addr ss) = identity (hb s) (se_addr ss)"
  using assms by (simp add: client_view_def map_of_alter entry_def)

lemma put_identity:
  "remove_screen_stream c = (c', i, ts) \<Longrightarrow> identity_of c' = identity_of c"
  "toggle_mute_screen c = (c', m) \<Longrightarrow> identity_of c' = identity_of c"
  by (cases c; auto simp: remove_screen_stream_def identity_of_def Let_def split: option.splits)+

lemma identity_kept: "keep_message w ss f s = (i, s') \<Longrightarrow> identity (hb s') a = identity (hb s) a"
  using keep_messageD [of w ss f s i s'] by auto

lemma identity_history: "with_history f s = (x, s') \<Longrightarrow> identity (hb s') a = identity (hb s) a"
  using with_historyD [of f s x s'] by auto

definition follows :: "session \<Rightarrow> ('o, 'r) hub \<Rightarrow> session \<Rightarrow> ('o, 'r) hub \<Rightarrow> bool" where
  "follows ss s ss' s' \<longleftrightarrow> ss' = ss \<and> identity (hb s') (se_addr ss) = identity (hb s) (se_addr ss)"

lemmas follow_rules = follows_def identity_kept identity_history rbind_eq_Inr_iff

lemma follows_chat: "handle_chat w ss c s = Continue ss' s' \<Longrightarrow> follows ss s ss' s'"
  by (cases c; clarsimp simp: handler_defs packet_defs follow_rules Let_def split: if_splits option.splits prod.splits bool.splits)

lemma follows_file: "handle_file w ss c s = Continue ss' s' \<Longrightarrow> follows ss s ss' s'"
  by (cases c; clarsimp simp: handler_defs packet_defs follow_rules Let_def split: if_splits option.splits prod.splits sum.splits)

lemma follows_media: "handle_media w ss c s = Continue ss' s' \<Longrightarrow> follows ss s ss' s'"
  using identity_put [of ss s, OF _ put_identity(1)] identity_put [of ss s, OF _ put_identity(2)]
  by (cases c; clarsimp simp: handler_defs packet_defs follow_rules Let_def split: if_splits option.splits prod.splits)

lemma follows_account: "handle_account w ss c s = Continue ss' s' \<Longrightarrow> follows ss s ss' s'"
  by (cases c; clarsimp simp: handler_defs packet_defs follow_rules Let_def
      split: if_splits option.splits prod.splits sum.splits bool.splits)

lemma follows_live: "follows ss s ss' s' \<Longrightarrow> session_live ss (hb s) \<Longrightarrow> session_live ss' (hb s')"
  by (simp add: follows_def session_live_def)

lemma lobby_live:
  assumes live: "session_live ss (hb s)" and h: "handle_lobby w ss c s = Continue ss' s'"
  shows "session_live ss' (hb s')"
proof (cases "\<exists>ch. c = Channel ch")
  case True
  then obtain ch where c: "c = Channel ch" by blast
  show ?thesis
  proof (cases "valid_channel w ch")
    case True
    let ?calling = "\<lambda>s. voice_chat_enabled (wd_server w) \<and> in_voice ss s"
    define t where "t = (if ?calling s then broadcast (Media_Code (VoiceLeave (se_id ss) (se_channel ss))) s else s)"
    have "session_live ss (hb t)" using live by (simp add: t_def packet_defs session_live_def)
    then obtain v where v: "update_client_channel (se_addr ss) ch (wd_now w) (hb t) = Some v" "session_live (ss\<lparr> se_channel := ch \<rparr>) v"
      by (rule move_live)
    then show ?thesis using h True
      by (auto simp: c on_channel_def t_def [symmetric] Let_def packet_defs session_live_def)
  next
    case False
    then show ?thesis using h live by (auto simp: c on_channel_def refuse_def packet_defs session_live_def)
  qed
next
  case False
  then show ?thesis using h live by (cases c) (auto simp: packet_defs session_live_def)
qed

text \<open>The address of a removed client is not connected.\<close>

lemma removed_each: "addr \<in> set addrs \<Longrightarrow> map_of (sv_conns (remove_each cf g addrs v)) addr = None"
proof (induction addrs arbitrary: v)
  case (Cons b addrs)
  let ?u = "remove_connection cf b g v"
  show ?case
  proof (cases "addr \<in> set addrs")
    case False
    then have "b = addr" using Cons.prems by simp
    then have "identity ?u addr = None" using removed [of cf addr g v] by (simp add: client_view_def)
    then have "identity (remove_each cf g addrs ?u) addr = None" using identity.view_remove_each [OF False, of cf g ?u] by simp
    then show ?thesis by (simp add: remove_each_def client_view_def)
  qed (simp add: remove_each_def Cons.IH [unfolded remove_each_def])
qed simp

text \<open>A session whose name is \<open>name\<close> stands under another address than a session of another name.\<close>

lemma session_of_other:
  assumes "server_wf v" "session_live ss v" "session_of name v = Some addr" "name \<noteq> se_name ss"
  shows "addr \<noteq> se_addr ss"
proof
  assume addr: "addr = se_addr ss"
  obtain c where c: "(addr, c) \<in> set (sv_conns v)" "username c = Some name"
    using assms(3) by (auto simp: session_of_def find_Some_iff) (metis nth_mem)
  have "distinct (map fst (sv_conns v))" using assms(1) by (simp add: keys_roster server_wf_def roster_ok_def)
  then have "map_of (sv_conns v) addr = Some c" using c(1) by (rule map_of_is_SomeI)
  then show False using c(2) assms(4) addr session_entry [OF assms(2)] by (metis option.inject username.simps(1))
qed

lemma live_quiet [simp]:
  "session_live ss (send h code ks v) = session_live ss v" "session_live ss (send_bans h ks' v) = session_live ss v"
  "session_live ss (v\<lparr> sv_bans := b \<rparr>) = session_live ss v"
  by (simp_all add: session_live_def)

lemma live_remove:
  assumes "session_live ss v" "addr \<noteq> se_addr ss"
  shows "session_live ss (remove_connection cf addr g v)"
  using assms identity.view_remove [of "se_addr ss" addr cf g v] by (simp add: session_live_def)

lemma live_remove_ip:
  assumes "session_live ss v"
  shows "session_live ss (remove_connections cf ip g v) \<or> map_of (sv_conns (remove_connections cf ip g v)) (se_addr ss) = None"
  using assms identity.view_remove_each [of "se_addr ss" "filter (\<lambda>a. fst a = ip) (map fst (sv_conns v))" cf g v]
    removed_each [of "se_addr ss" "filter (\<lambda>a. fst a = ip) (map fst (sv_conns v))" cf g v]
  unfolding remove_connections_def session_live_def by metis

lemma kick_live:
  assumes wf: "server_wf (hb s)" and live: "session_live ss (hb s)" and h: "on_kick w ss i s = Continue ss' s'"
  shows "ss' = ss \<and> session_live ss (hb s')"
proof -
  obtain x where x: "map_of (sv_conns (hb s)) (se_addr ss) = Some (Authenticated x)" by (rule session_entry [OF live])
  have "addr \<noteq> se_addr ss" if "find_id i (hb s) = Some (addr, d)" "conn_role d = Some r" "r < current_role ss s" for addr d r
    using found_entry(1) [OF wf that(1)] that(2,3) x by (auto simp: current_role_def entry_def)
  then have other: "session_live ss (remove_connection cf addr g (hb s))"
    if "find_id i (hb s) = Some (addr, d)" "conn_role d = Some r" "r < current_role ss s" for addr d r cf g
    using that live_remove [OF live] by blast
  show ?thesis
  proof (cases "find_id i (hb s)")
    case (Some p)
    obtain addr d where p: "p = (addr, d)" by (cases p)
    show ?thesis using h live other [OF Some [unfolded p]]
      by (auto simp: Some p handler_defs packet_defs Let_def split: if_splits option.splits)
  qed (use h live in \<open>auto simp: handler_defs packet_defs Let_def split: if_splits\<close>)
qed

lemma ban_live:
  assumes wf: "server_wf (hb s)" and live: "session_live ss (hb s)" and h: "on_ban w ss n s = Continue ss' s'"
  shows "ss' = ss \<and> session_live ss (hb s')"
proof -
  have "session_live ss (remove_connection cf addr g ((hb s)\<lparr> sv_bans := b \<rparr>))"
    if "session_of name (hb s) = Some addr" "name \<noteq> se_name ss" for cf addr g b name
    by (rule live_remove [OF _ session_of_other [OF wf live that]]) (simp add: live)
  then show ?thesis using h live
    by (auto simp: handler_defs packet_defs Let_def split: if_splits option.splits)
qed

lemma ban_ip_live:
  assumes live: "session_live ss (hb s)" and h: "on_ban_ip w ss i s = Continue ss' s'"
  shows "ss' = ss \<and> (session_live ss (hb s') \<or> map_of (sv_conns (hb s')) (se_addr ss) = None)"
proof (cases "find_id i (hb s)")
  case (Some p)
  obtain addr d where p: "p = (addr, d)" by (cases p)
  let ?v = "(hb s)\<lparr> sv_bans := ban_ip (wd_ip_text w (fst addr)) (sv_bans (hb s)) \<rparr>"
  have "session_live ss ?v" using live by simp
  from live_remove_ip [OF this, of "wd_server w" "fst addr" True] show ?thesis using h live
    by (cases "current_role ss s < Owner \<or> se_id ss = i") (auto simp: Some p handler_defs packet_defs Let_def)
qed (use h live in \<open>auto simp: handler_defs packet_defs Let_def split: if_splits\<close>)

lemma server_live:
  assumes wf: "server_wf (hb s)" and live: "session_live ss (hb s)" and h: "handle_server w ss c s = Continue ss' s'"
  shows "ss' = ss \<and> (session_live ss (hb s') \<or> (\<exists>i. c = ServerBanIp i) \<and> map_of (sv_conns (hb s')) (se_addr ss) = None)"
proof -
  consider (kick) i where "c = ServerKick i" | (ban) n where "c = ServerBan n" | (banip) i where "c = ServerBanIp i"
    | (other) "(\<forall>i. c \<noteq> ServerKick i) \<and> (\<forall>n. c \<noteq> ServerBan n) \<and> (\<forall>i. c \<noteq> ServerBanIp i)" by blast
  then show ?thesis
  proof cases
    case kick
    then show ?thesis using kick_live [OF wf live] h by simp
  next
    case ban
    then show ?thesis using ban_live [OF wf live] h by simp
  next
    case banip
    then show ?thesis using ban_ip_live [OF live] h by simp
  next
    case other
    then show ?thesis using h live
      by (cases c; auto simp: handler_defs packet_defs follow_rules session_live_def Let_def
          split: if_splits option.splits prod.splits sum.splits bool.splits)
  qed
qed

lemma continue_live:
  assumes "server_wf (hb s)" "session_live ss (hb s)" "handle w ss code s = Continue ss' s'"
  shows "session_live ss' (hb s') \<or> (\<exists>i. code = Server_Code (ServerBanIp i)) \<and> map_of (sv_conns (hb s')) (se_addr ss) = None"
proof (cases code)
  case (Chat_Code c)
  then show ?thesis using follows_live [OF follows_chat assms(2)] assms(3) by (auto simp: handle_def)
next
  case (Lobby_Code c)
  then show ?thesis using lobby_live [OF assms(2)] assms(3) by (auto simp: handle_def)
next
  case (File_Code c)
  then show ?thesis using follows_live [OF follows_file assms(2)] assms(3) by (auto simp: handle_def)
next
  case (Media_Code c)
  then show ?thesis using follows_live [OF follows_media assms(2)] assms(3) by (auto simp: handle_def)
next
  case (Server_Code c)
  then show ?thesis using server_live [OF assms(1,2)] assms(3) by (fastforce simp: handle_def)
next
  case (Account_Code c)
  then show ?thesis using follows_live [OF follows_account assms(2)] assms(3) by (auto simp: handle_def)
next
  case (Session_Code c)
  then show ?thesis using assms(2,3) by (cases c) (auto simp: handle_def session_live_def)
qed

lemma returned_gone:
  assumes "handle w ss code s = Returned s'"
  shows "map_of (sv_conns (hb s')) (se_addr ss) = None"
proof (cases code)
  case (Chat_Code c)
  then show ?thesis using assms by (cases c) (simp_all add: handle_def handler_defs Let_def split: if_splits option.splits prod.splits bool.splits)
next
  case (Lobby_Code c)
  then show ?thesis using assms by (cases c) (simp_all add: handle_def handler_defs Let_def split: if_splits option.splits)
next
  case (File_Code c)
  then show ?thesis using assms
    by (cases c) (simp_all add: handle_def handler_defs Let_def split: if_splits option.splits prod.splits sum.splits)
next
  case (Media_Code c)
  then show ?thesis using assms by (cases c) (simp_all add: handle_def handler_defs Let_def split: if_splits option.splits prod.splits)
next
  case (Server_Code c)
  then show ?thesis using assms
    by (cases c) (simp_all add: handle_def handler_defs Let_def split: if_splits option.splits prod.splits sum.splits bool.splits)
next
  case (Account_Code c)
  then show ?thesis using assms
    by (cases c) (auto simp: handle_def handler_defs removed Let_def split: if_splits option.splits sum.splits bool.splits)
next
  case (Session_Code c)
  then show ?thesis using assms by (cases c) (auto simp: handle_def removed)
qed

section \<open>The history\<close>

lemma store_push:
  "store limit users icon name content ts rep = push limit users icon name content None None ts rep"
  "store_image limit users icon name filename hash ts = push limit users icon name filename (Some hash) None ts None"
  "store_voice limit users icon name clip ts = push limit users icon name [] None (Some clip) ts None"
  by (simp_all add: fun_eq_iff store_def store_image_def store_voice_def)

definition history_step :: "('o, 'r) hub \<Rightarrow> ('o, 'r) hub \<Rightarrow> bool" where
  "history_step s s' \<longleftrightarrow> hist_step\<^sup>=\<^sup>= (sv_history (hb s)) (sv_history (hb s'))"

lemma history_step_op:
  assumes "\<And>v. docs (f v) = docs v"
  shows "history_step s (on_server f t) = history_step s t"
  using docs_fields(3) [OF assms] by (simp add: history_step_def)

lemma history_step_refl [simp]: "history_step s s"
  by (simp add: history_step_def)

lemma keep_push_step:
  assumes "keep_message w ss (\<lambda>limit users icon. push limit users icon name content img clip ts rep) s = (i, s')"
    "h_next (sv_history (hb s)) + 1 \<noteq> 0"
  shows "history_step s s'"
proof -
  obtain h es where h: "hb s' = (hb s)\<lparr> sv_history := h \<rparr>"
    "(i, h, es) = (if se_channel ss = None \<and> persistent_messages (wd_server w)
       then push (max_persistent_messages w) (sv_users (hb s)) (sv_icon (hb s)) name content img clip ts rep (sv_history (hb s))
       else (case next_id (sv_history (hb s)) of (i, h) \<Rightarrow> (i, h, [])))"
    using keep_messageD [OF assms(1)] by blast
  have "hist_step (sv_history (hb s)) h"
    using h(2) [symmetric] by (auto intro: step_push [OF assms(2)] step_next [OF assms(2)] split: if_splits prod.splits)
  then show ?thesis using h(1) by (simp add: history_step_def)
qed

lemma with_history_step:
  assumes "with_history f s = (x, s')" "\<And>x h es. f (sv_history (hb s)) = (x, h, es) \<Longrightarrow> hist_step (sv_history (hb s)) h"
  shows "history_step s s'"
  using with_historyD [OF assms(1)] assms(2) by (auto simp: history_step_def)

lemmas step_rules = with_history_step [of "delete_msg _ _ _", OF _ step_delete] with_history_step [of "edit _ _ _", OF _ step_edit]
  with_history_step [of "heart _ _", OF _ step_heart] with_history_step [of "pin _ _", OF _ step_pin] keep_push_step

lemma history_chat:
  "h_next (sv_history (hb s)) + 1 \<noteq> 0 \<Longrightarrow> final (handle_chat w ss c s) = Some s' \<Longrightarrow> history_step s s'"
  by (cases c; clarsimp simp: handler_defs packet_defs history_step_op store_push step_rules Let_def
      split: if_splits option.splits prod.splits bool.splits)

lemma history_file:
  "h_next (sv_history (hb s)) + 1 \<noteq> 0 \<Longrightarrow> final (handle_file w ss c s) = Some s' \<Longrightarrow> history_step s s'"
  by (cases c; clarsimp simp: handler_defs packet_defs history_step_op store_push step_rules Let_def
      split: if_splits option.splits prod.splits sum.splits)

lemma history_handle:
  assumes "h_next (sv_history (hb s)) + 1 \<noteq> 0" "final (handle w ss code s) = Some s'"
  shows "history_step s s'"
  using assms(2)
proof (cases rule: handle_cases)
  case (chat c)
  then show ?thesis using history_chat [OF assms(1)] by blast
next
  case (lobby c)
  then show ?thesis
    by (cases c; auto simp: handler_defs packet_defs history_step_def Let_def docs_fields [OF docs_move]
        split: if_splits option.splits prod.splits)
next
  case (upload c)
  then show ?thesis using history_file [OF assms(1)] by blast
next
  case (media c)
  then show ?thesis
    by (cases c; clarsimp simp: handler_defs packet_defs history_step_def Let_def split: if_splits option.splits prod.splits)
next
  case (server c)
  then show ?thesis
    by (cases c; clarsimp simp: handler_defs packet_defs history_step_def rbind_eq_Inr_iff Let_def
        split: if_splits option.splits prod.splits sum.splits bool.splits)
next
  case (account c)
  then show ?thesis
    by (cases c; clarsimp simp: handler_defs packet_defs history_step_def Let_def
        split: if_splits option.splits prod.splits sum.splits bool.splits)
qed (simp_all add: history_step_op)

section \<open>Properties\<close>

lemma demo_live: "session_live ann (hb (demo q))" "session_live bob (hb (demo q))"
  by (simp_all add: session_live_def client_view_def identity_of_def ann_def bob_def demo_def crew_def boss_def member_def)

text \<open>
  With the documented behaviour of the cryptography, no packet makes the task of a logged-in
  session panic, whatever the disk, the settings and the other sessions are: every \<open>unwrap\<close> on the way succeeds,
  an unreadable picture is answered as missing, and the loop continues or the task returns.
\<close>

theorem handlers_never_panic:
  assumes "chat_ok (wd_chat w)" "session_live ss (hb s)"
  shows "(\<exists>ss' s'. handle w ss code s = Continue ss' s') \<or> (\<exists>s'. handle w ss code s = Returned s')"
  using never_panics [OF assms, of code] by (cases "handle w ss code s") auto

theorem handlers_never_panic_witness:
  "(\<exists>ss' s'. handle demo_world ann (Lobby_Code (Channel None)) (demo False :: ('o, 'r) hub) = Continue ss' s') \<or>
   (\<exists>s'. handle demo_world ann (Lobby_Code (Channel None)) (demo False :: ('o, 'r) hub) = Returned s')"
  by (rule handlers_never_panic) (simp_all add: demo_world_def chat_ok_ref demo_live)

text \<open>
  C21 (session_follows_entry). Handling any packet keeps the registry well formed. As long as the loop of a session
  goes on, its variables, the channel among them, agree with its entry, with one exception: a ban of an address
  may remove the owner who issued it. When the loop returns, the session is no longer connected.
\<close>

theorem session_follows_entry:
  assumes "server_wf (hb s)" "session_live ss (hb s)"
  shows "case handle w ss code s of
      Continue ss' s' \<Rightarrow> server_wf (hb s') \<and> (session_live ss' (hb s') \<or>
        (\<exists>i. code = Server_Code (ServerBanIp i)) \<and> map_of (sv_conns (hb s')) (se_addr ss) = None)
    | Returned s' \<Rightarrow> server_wf (hb s') \<and> map_of (sv_conns (hb s')) (se_addr ss) = None
    | Panicked \<Rightarrow> True"
proof (cases "handle w ss code s")
  case (Continue ss' s')
  have "session_live ss' (hb s') \<or> (\<exists>i. code = Server_Code (ServerBanIp i)) \<and> map_of (sv_conns (hb s')) (se_addr ss) = None"
    using Continue continue_live [OF assms] by blast
  then show ?thesis using Continue wf_handle [OF assms(1), of w ss code] by simp
next
  case (Returned s')
  then show ?thesis using returned_gone [of w ss code s s'] wf_handle [OF assms(1), of w ss code] by simp
qed simp

theorem session_follows_entry_witness:
  "\<exists>s'. handle demo_world ann (Session_Code Disconnect) (demo False :: ('o, 'r) hub) = Returned s' \<and>
     map_of (sv_conns (hb s')) (se_addr ann) = None"
proof -
  let ?s = "on_server (remove_connection (wd_server demo_world) (se_addr ann) True) (demo False :: ('o, 'r) hub)"
  have r: "handle demo_world ann (Session_Code Disconnect) (demo False :: ('o, 'r) hub) = Returned ?s" by (simp add: handle_def)
  then have "map_of (sv_conns (hb ?s)) (se_addr ann) = None"
    using session_follows_entry [where s = "demo False :: ('o, 'r) hub" and ss = ann and w = demo_world and
        code = "Session_Code Disconnect", OF demo_wf demo_live(1)] by simp
  then show ?thesis using r by blast
qed

end
