(* ===== verification/Login.thy ===== *)
theory Login
  imports Kex Conduct
begin

text \<open>
  The task of one connection: \<open>listen_client\<close> in \<open>chat/src/network/server/mod.rs\<close> from the first packet on, and the
  server's half of the key exchange in \<open>server/handshake.rs\<close>. The task is a state machine whose phases are the places where
  the code waits for a packet; a step takes what \<open>receive\<close> returned there, \<open>None\<close> also when the wait timed out. Between
  two steps other tasks may run. A phase keeps the local variables that are live there.
\<close>

section \<open>Phases\<close>

datatype (dead 'e, dead 'o, dead 'r) phase =
    Exchanging 'e nat
  | Versioning shared_keys nat
  | Naming shared_keys nat nat nat bool
      \<comment> \<open>attempts left, bounds of the length, whether registration is disabled\<close>
  | Registering shared_keys nat ustr "device option"
  | LoggingIn shared_keys ustr "device option"
  | Serving session
  | Rekeying session 'e nat "('o, 'r) packet_code"
  | Ended
  | Crashed

record ('v, 'w) gate =
  gt_world :: "('v, 'w) world"
  check_client_version :: bool
  gt_version :: ustr
  max_auth_tries :: nat
  min_username_length :: nat
  max_username_length :: nat
  allow_register :: bool
  gt_server_name :: ustr
  gt_server_username :: ustr
  gt_git_hash :: ustr

record peer =
  pr_addr :: sock_addr
  pr_stream :: handle
  pr_nonce :: "u8 list"

definition REKEY_INTERVAL :: nat where "REKEY_INTERVAL = 600"

abbreviation gt_config :: "('v, 'w) gate \<Rightarrow> server_config" where
  "gt_config g \<equiv> wd_server (gt_world g)"

definition say :: "peer \<Rightarrow> shared_keys option \<Rightarrow> ('o, 'r) packet_code \<Rightarrow> ('o, 'r) hub \<Rightarrow> ('o, 'r) hub" where
  "say pr ks code s = on_server (send (pr_stream pr) code ks) s"

definition hang_up :: "('v, 'w) gate \<Rightarrow> peer \<Rightarrow> bool \<Rightarrow> ('o, 'r) hub \<Rightarrow> ('e, 'o, 'r) phase \<times> ('o, 'r) hub" where
  "hang_up g pr grace s = (Ended, on_server (remove_connection (gt_config g) (pr_addr pr) grace) s)"

section \<open>Joining\<close>

definition enter :: "('v, 'w) gate \<Rightarrow> peer \<Rightarrow> shared_keys \<Rightarrow> ustr \<Rightarrow> device option \<Rightarrow> ('o, 'r) hub \<Rightarrow> ('e, 'o, 'r) phase \<times> ('o, 'r) hub" where
  "enter g pr ks name dev s =
     (let cf = gt_config g; i = get_latest_id (hb s); r = role_or_default (user_role (sv_users (hb s)) name) in
      case authenticate_client cf (pr_addr pr) name dev r i (wd_now (gt_world g)) (hb s) of
        None \<Rightarrow> (Crashed, s)
      | Some v \<Rightarrow>
          let s = s\<lparr> hb := v \<rparr>; colors = user_colors (sv_users v) name;
              s = on_server (send_history cf (pr_stream pr) ks None) s;
              s = say pr (Some ks) (Session_Code (Accept i r colors)) s;
              s = on_server (send_list cf (pr_stream pr) ks) s;
              s = broadcast (Session_Code (Join name (username_color colors) i dev r)) s;
              s = (if voice_chat_enabled cf then on_server (send_voice_clients (pr_stream pr) ks i) s else s)
          in (Serving \<lparr> se_addr = pr_addr pr, se_stream = pr_stream pr, se_keys = ks, se_id = i, se_name = name, se_role = r,
                se_channel = None \<rparr>, s))"

definition on_login :: "('v, 'w) gate \<Rightarrow> peer \<Rightarrow> shared_keys \<Rightarrow> ustr \<Rightarrow> device option \<Rightarrow> ('o, 'r) packet_code option \<Rightarrow> ('o, 'r) hub
    \<Rightarrow> ('e, 'o, 'r) phase \<times> ('o, 'r) hub" where
  "on_login g pr ks name dev received s = (case received of
     Some (Session_Code (Login pass)) \<Rightarrow>
       if pass = [] \<or> banned (sv_bans (hb s)) name \<or> \<not> verify_password (wd_compare (gt_world g)) name pass (hb s)
       then hang_up g pr True s
       else enter g pr ks name dev s
   | _ \<Rightarrow> hang_up g pr False s)"

definition ask_password :: "('v, 'w) gate \<Rightarrow> peer \<Rightarrow> shared_keys \<Rightarrow> nat \<Rightarrow> ustr \<Rightarrow> device option \<Rightarrow> ('o, 'r) hub
    \<Rightarrow> ('e, 'o, 'r) phase \<times> ('o, 'r) hub" where
  "ask_password g pr ks tries name dev s = (if tries = 0 then hang_up g pr True s
     else (Registering ks (tries - 1) name dev, say pr (Some ks) (Session_Code RegisterRequest) s))"

definition register :: "('v, 'w) gate \<Rightarrow> peer \<Rightarrow> shared_keys \<Rightarrow> ustr \<Rightarrow> device option \<Rightarrow> ustr \<Rightarrow> ('o, 'r) hub
    \<Rightarrow> ('e, 'o, 'r) phase \<times> ('o, 'r) hub" where
  "register g pr ks name dev pass s = (case users_add name (wd_hash (gt_world g) pass) (sv_users (hb s)) of
     (users, first_user) \<Rightarrow>
       let s = edit_users (\<lambda>_. users) s;
           s = (if first_user then say pr (Some ks) (Session_Code FirstUser) s else s)
       in enter g pr ks name dev s)"

definition on_register :: "('v, 'w) gate \<Rightarrow> peer \<Rightarrow> shared_keys \<Rightarrow> nat \<Rightarrow> ustr \<Rightarrow> device option \<Rightarrow> ('o, 'r) packet_code option \<Rightarrow> ('o, 'r) hub
    \<Rightarrow> ('e, 'o, 'r) phase \<times> ('o, 'r) hub" where
  "on_register g pr ks left name dev received s = (case received of
     Some (Session_Code (Register pass)) \<Rightarrow>
       if validate_password (gt_config g) pass then register g pr ks name dev pass s else ask_password g pr ks left name dev s
   | _ \<Rightarrow> hang_up g pr False s)"

section \<open>The name\<close>

definition ask_name :: "('v, 'w) gate \<Rightarrow> peer \<Rightarrow> shared_keys \<Rightarrow> nat \<Rightarrow> nat \<Rightarrow> nat \<Rightarrow> bool \<Rightarrow> ('o, 'r) hub
    \<Rightarrow> ('e, 'o, 'r) phase \<times> ('o, 'r) hub" where
  "ask_name g pr ks tries min_len max_len disabled s = (if tries = 0 then hang_up g pr True s
     else (Naming ks (tries - 1) min_len max_len disabled, say pr (Some ks) (Session_Code UsernameRequest) s))"

definition valid_name :: "('v, 'w) gate \<Rightarrow> nat \<Rightarrow> nat \<Rightarrow> ustr \<Rightarrow> ('o, 'r) server \<Rightarrow> bool" where
  "valid_name g min_len max_len name v \<longleftrightarrow> min_len \<le> str_len name \<and> str_len name \<le> max_len \<and>
     list_all (\<lambda>c. ascii_alphanumeric c \<or> c = 0x5F \<or> c = 0x2D) name \<and>
     \<not> user_connected name v \<and> name \<noteq> gt_server_username g \<and> name \<noteq> ustr ''everyone''"

fun put_name :: "ustr \<Rightarrow> connection \<Rightarrow> connection" where
  "put_name name (NonAuthenticated c) = NonAuthenticated (c\<lparr> n_username := Some name \<rparr>)"
| "put_name name (Authenticated c) = Authenticated c"

definition take_name :: "('v, 'w) gate \<Rightarrow> peer \<Rightarrow> shared_keys \<Rightarrow> bool \<Rightarrow> ustr \<Rightarrow> device option \<Rightarrow> ('o, 'r) hub
    \<Rightarrow> ('e, 'o, 'r) phase \<times> ('o, 'r) hub" where
  "take_name g pr ks disabled name dev s =
     (let s = on_server (alter_conn (pr_addr pr) (put_name name)) s in
      if \<not> users_contains (sv_users (hb s)) name \<and> \<not> disabled then ask_password g pr ks (max_auth_tries g) name dev s
      else (LoggingIn ks name dev, say pr (Some ks) (Session_Code LoginRequest) s))"

definition on_name :: "('v, 'w) gate \<Rightarrow> peer \<Rightarrow> shared_keys \<Rightarrow> nat \<Rightarrow> nat \<Rightarrow> nat \<Rightarrow> bool \<Rightarrow> ('o, 'r) packet_code option \<Rightarrow> ('o, 'r) hub
    \<Rightarrow> ('e, 'o, 'r) phase \<times> ('o, 'r) hub" where
  "on_name g pr ks left min_len max_len disabled received s = (case received of
     Some (Session_Code (Username name dev)) \<Rightarrow>
       if valid_name g min_len max_len name (hb s) then take_name g pr ks disabled name dev s
       else ask_name g pr ks left min_len max_len disabled s
   | _ \<Rightarrow> ask_name g pr ks left min_len max_len disabled s)"

section \<open>Greeting\<close>

definition send_welcome_packet :: "('v, 'w) gate \<Rightarrow> peer \<Rightarrow> shared_keys \<Rightarrow> ('o, 'r) hub \<Rightarrow> ('o, 'r) hub" where
  "send_welcome_packet g pr ks s = say pr (Some ks) (Session_Code (Welcome (of_nat (min_password_length (gt_config g)))
     (of_nat (max_username_length g)) (of_nat (min_username_length g)) (gt_server_name g) (gt_server_username g) (gt_git_hash g))) s"

definition welcome_client :: "('v, 'w) gate \<Rightarrow> peer \<Rightarrow> shared_keys \<Rightarrow> ('o, 'r) hub \<Rightarrow> ('e, 'o, 'r) phase \<times> ('o, 'r) hub" where
  "welcome_client g pr ks s =
     (let s = send_welcome_packet g pr ks s; disabled = \<not> allow_register g;
          s = (if disabled then say pr (Some ks) (Session_Code RegisterDisabled) s else s)
      in ask_name g pr ks (max_auth_tries g) (min_username_length g) (max_username_length g) disabled s)"

definition greet :: "('v, 'w) gate \<Rightarrow> peer \<Rightarrow> shared_keys \<Rightarrow> ('o, 'r) hub \<Rightarrow> ('e, 'o, 'r) phase \<times> ('o, 'r) hub" where
  "greet g pr ks s = (if check_client_version g
     then (Versioning ks 0, say pr (Some ks) (Session_Code (Version (gt_version g))) s)
     else welcome_client g pr ks s)"

text \<open>\<open>untrusted_read\<close>: a fourth stray packet gives up.\<close>

definition on_version :: "('v, 'w) gate \<Rightarrow> peer \<Rightarrow> shared_keys \<Rightarrow> nat \<Rightarrow> ('o, 'r) packet_code option \<Rightarrow> ('o, 'r) hub
    \<Rightarrow> ('e, 'o, 'r) phase \<times> ('o, 'r) hub" where
  "on_version g pr ks strays received s = (case received of
     None \<Rightarrow> hang_up g pr True s
   | Some (Session_Code (Version v)) \<Rightarrow> if v = gt_version g then welcome_client g pr ks s else hang_up g pr True s
   | Some _ \<Rightarrow> if strays = 3 then hang_up g pr True s else (Versioning ks (strays + 1), s))"

section \<open>The key exchange\<close>

type_synonym ('sk, 'pk, 'dk, 'ek, 'ct, 'sig) net_phase =
  "(('sk, 'dk) ephemeral, ('pk, 'ek, 'sig) offer, ('pk, 'ct) reply) phase"

type_synonym ('pk, 'ek, 'ct, 'sig) net_hub = "(('pk, 'ek, 'sig) offer, ('pk, 'ct) reply) hub"

type_synonym ('pk, 'ek, 'ct, 'sig) net_code = "(('pk, 'ek, 'sig) offer, ('pk, 'ct) reply) packet_code"

definition make_offer ::
  "('sk, 'pk, 'dk, 'ek, 'ct, 'sig) primitives \<Rightarrow> 'sk \<Rightarrow> 'sk \<times> 'dk \<Rightarrow> peer \<Rightarrow> shared_keys option \<Rightarrow> ('pk, 'ek, 'ct, 'sig) net_hub
     \<Rightarrow> fault + ('sk, 'dk) ephemeral \<times> ('pk, 'ek, 'ct, 'sig) net_hub" where
  "make_offer P skey fresh pr rekey s = rbind (create_offer P skey fresh (pr_nonce pr)) (\<lambda>(e, x).
     let s = (if rekey \<noteq> None then say pr rekey (Session_Code Rekey) s else s)
     in Inr (e, say pr rekey (Session_Code (KeyExchangeOffer x)) s))"

definition take_reply ::
  "('v, 'w) gate \<Rightarrow> ('sk, 'pk, 'dk, 'ek, 'ct, 'sig) primitives \<Rightarrow> peer \<Rightarrow> ('sk, 'dk) ephemeral \<Rightarrow> ('pk, 'ct) reply \<Rightarrow> ('pk, 'ek, 'ct, 'sig) net_hub
     \<Rightarrow> fault + shared_keys \<times> ('pk, 'ek, 'ct, 'sig) net_hub" where
  "take_reply g P pr e r s = rbind (server_keys (wd_chat (gt_world g)) P e r) (\<lambda>ks.
     Inr (ks, on_server (update_client_keys (pr_addr pr) ks (wd_now (gt_world g))) s))"

definition accept_client ::
  "('v, 'w) gate \<Rightarrow> ('sk, 'pk, 'dk, 'ek, 'ct, 'sig) primitives \<Rightarrow> 'sk \<Rightarrow> 'sk \<times> 'dk \<Rightarrow> peer \<Rightarrow> task \<Rightarrow> ('pk, 'ek, 'ct, 'sig) net_hub
     \<Rightarrow> ('sk, 'pk, 'dk, 'ek, 'ct, 'sig) net_phase \<times> ('pk, 'ek, 'ct, 'sig) net_hub" where
  "accept_client g P skey fresh pr t s =
     (let s = on_server (register_client (pr_addr pr) (pr_stream pr) t (pr_nonce pr) (wd_now (gt_world g))) s
      in case make_offer P skey fresh pr None s of Inl _ \<Rightarrow> (Crashed, s) | Inr (e, s) \<Rightarrow> (Exchanging e 0, s))"

definition on_exchange ::
  "('v, 'w) gate \<Rightarrow> ('sk, 'pk, 'dk, 'ek, 'ct, 'sig) primitives \<Rightarrow> peer \<Rightarrow> ('sk, 'dk) ephemeral \<Rightarrow> nat \<Rightarrow> ('pk, 'ek, 'ct, 'sig) net_code option
     \<Rightarrow> ('pk, 'ek, 'ct, 'sig) net_hub \<Rightarrow> ('sk, 'pk, 'dk, 'ek, 'ct, 'sig) net_phase \<times> ('pk, 'ek, 'ct, 'sig) net_hub" where
  "on_exchange g P pr e strays received s = (case received of
     None \<Rightarrow> hang_up g pr False s
   | Some (Session_Code (KeyExchangeReply r)) \<Rightarrow> (case take_reply g P pr e r s of
       Inl _ \<Rightarrow> (Crashed, s)
     | Inr (ks, s) \<Rightarrow> if fst ks = [] \<or> snd ks = [] then hang_up g pr False s else greet g pr ks s)
   | Some _ \<Rightarrow> if strays = 3 then hang_up g pr False s else (Exchanging e (strays + 1), s))"

section \<open>Serving\<close>

definition run_handler :: "('v, 'w) gate \<Rightarrow> session \<Rightarrow> ('o, 'r) packet_code \<Rightarrow> ('o, 'r) hub \<Rightarrow> ('e, 'o, 'r) phase \<times> ('o, 'r) hub" where
  "run_handler g ss code s = (case handle (gt_world g) ss code s of
     Continue ss' s' \<Rightarrow> (Serving ss', s') | Returned s' \<Rightarrow> (Ended, s') | Panicked \<Rightarrow> (Crashed, s))"

text \<open>A new key every ten minutes, but not while the client uploads. The entry must be there: \<open>unwrap\<close>.\<close>

definition on_packet ::
  "('v, 'w) gate \<Rightarrow> ('sk, 'pk, 'dk, 'ek, 'ct, 'sig) primitives \<Rightarrow> 'sk \<Rightarrow> 'sk \<times> 'dk \<Rightarrow> peer \<Rightarrow> session \<Rightarrow> ('pk, 'ek, 'ct, 'sig) net_code
     \<Rightarrow> ('pk, 'ek, 'ct, 'sig) net_hub \<Rightarrow> ('sk, 'pk, 'dk, 'ek, 'ct, 'sig) net_phase \<times> ('pk, 'ek, 'ct, 'sig) net_hub" where
  "on_packet g P skey fresh pr ss code s = (case Option.bind (entry ss s) last_key_exchange of
     None \<Rightarrow> (Crashed, s)
   | Some t \<Rightarrow>
       if REKEY_INTERVAL * NANOS_PER_SEC \<le> wd_now (gt_world g) - t \<and> active_uploads ss s = 0
       then (case make_offer P skey fresh pr (Some (se_keys ss)) s of
               Inl _ \<Rightarrow> (Crashed, s) | Inr (e, s) \<Rightarrow> (Rekeying ss e 0 code, s))
       else run_handler g ss code s)"

definition on_rekey ::
  "('v, 'w) gate \<Rightarrow> ('sk, 'pk, 'dk, 'ek, 'ct, 'sig) primitives \<Rightarrow> peer \<Rightarrow> session \<Rightarrow> ('sk, 'dk) ephemeral \<Rightarrow> nat \<Rightarrow> ('pk, 'ek, 'ct, 'sig) net_code
     \<Rightarrow> ('pk, 'ek, 'ct, 'sig) net_code option \<Rightarrow> ('pk, 'ek, 'ct, 'sig) net_hub
     \<Rightarrow> ('sk, 'pk, 'dk, 'ek, 'ct, 'sig) net_phase \<times> ('pk, 'ek, 'ct, 'sig) net_hub" where
  "on_rekey g P pr ss e strays code received s = (case received of
     None \<Rightarrow> run_handler g ss code s
   | Some (Session_Code (KeyExchangeReply r)) \<Rightarrow> (case take_reply g P pr e r s of
       Inl _ \<Rightarrow> (Crashed, s)
     | Inr (ks, s) \<Rightarrow> run_handler g (ss\<lparr> se_keys := ks \<rparr>) code s)
   | Some _ \<Rightarrow> if strays = 3 then run_handler g ss code s else (Rekeying ss e (strays + 1) code, s))"

text \<open>One step of the task. The fresh secrets are used if an exchange begins.\<close>

definition task_step ::
  "('v, 'w) gate \<Rightarrow> ('sk, 'pk, 'dk, 'ek, 'ct, 'sig) primitives \<Rightarrow> 'sk \<Rightarrow> 'sk \<times> 'dk \<Rightarrow> peer \<Rightarrow> ('sk, 'pk, 'dk, 'ek, 'ct, 'sig) net_phase
     \<Rightarrow> ('pk, 'ek, 'ct, 'sig) net_code option \<Rightarrow> ('pk, 'ek, 'ct, 'sig) net_hub
     \<Rightarrow> ('sk, 'pk, 'dk, 'ek, 'ct, 'sig) net_phase \<times> ('pk, 'ek, 'ct, 'sig) net_hub" where
  "task_step g P skey fresh pr ph received s = (case ph of
     Exchanging e n \<Rightarrow> on_exchange g P pr e n received s
   | Versioning ks n \<Rightarrow> on_version g pr ks n received s
   | Naming ks left a b disabled \<Rightarrow> on_name g pr ks left a b disabled received s
   | Registering ks left name dev \<Rightarrow> on_register g pr ks left name dev received s
   | LoggingIn ks name dev \<Rightarrow> on_login g pr ks name dev received s
   | Serving ss \<Rightarrow> (case received of Some code \<Rightarrow> on_packet g P skey fresh pr ss code s | None \<Rightarrow> (Ended, s))
   | Rekeying ss e n code \<Rightarrow> on_rekey g P pr ss e n code received s
   | _ \<Rightarrow> (ph, s))"

text \<open>
  The keys a phase reads under, and a step from the bytes of the socket. \<open>remove_connection\<close> aborts the task of the entry
  it removes; a task whose entry is gone after a read takes no further step.
\<close>

fun phase_keys :: "('e, 'o, 'r) phase \<Rightarrow> shared_keys option" where
  "phase_keys (Versioning ks n) = Some ks"
| "phase_keys (Naming ks left a b disabled) = Some ks"
| "phase_keys (Registering ks left name dev) = Some ks"
| "phase_keys (LoggingIn ks name dev) = Some ks"
| "phase_keys (Serving ss) = Some (se_keys ss)"
| "phase_keys (Rekeying ss e n code) = Some (se_keys ss)"
| "phase_keys _ = None"

definition task_read ::
  "(('pk, 'ek, 'sig) offer, ('pk, 'ct) reply) wire_codec \<Rightarrow> police_config \<Rightarrow> instant \<times> instant \<times> instant \<times> instant \<Rightarrow> ('v, 'w) gate
     \<Rightarrow> ('sk, 'pk, 'dk, 'ek, 'ct, 'sig) primitives \<Rightarrow> 'sk \<Rightarrow> 'sk \<times> 'dk \<Rightarrow> peer \<Rightarrow> ('sk, 'pk, 'dk, 'ek, 'ct, 'sig) net_phase
     \<Rightarrow> u8 list \<Rightarrow> ('pk, 'ek, 'ct, 'sig) net_hub
     \<Rightarrow> fault + ('sk, 'pk, 'dk, 'ek, 'ct, 'sig) net_phase \<times> u8 list \<times> ('pk, 'ek, 'ct, 'sig) net_hub" where
  "task_read K pc clock g P skey fresh pr ph input s =
     rbind (receive (wd_chat (gt_world g)) K pc clock (pr_addr pr) (pr_stream pr) (phase_keys ph) input (hb s))
       (\<lambda>(received, wait, rest, v).
          if map_of (sv_conns v) (pr_addr pr) = None then Inr (Ended, rest, s\<lparr> hb := v \<rparr>)
          else case task_step g P skey fresh pr ph received (s\<lparr> hb := v \<rparr>) of (ph', s') \<Rightarrow> Inr (ph', rest, s'))"

text \<open>\<open>untrusted_read\<close> waits two seconds for a packet.\<close>

fun timed :: "('e, 'o, 'r) phase \<Rightarrow> bool" where
  "timed (Exchanging e n) = True"
| "timed (Versioning ks n) = True"
| "timed (Rekeying ss e n code) = True"
| "timed _ = False"

end
