(* ===== verification/Tasks.thy ===== *)
theory Tasks
  imports Login
begin

text \<open>
  Properties of the task of a connection, and of all tasks of the server together: what a login requires, that it ends,
  that a task's variables agree with the entry of its connection whatever the other tasks do, and that no two connections
  hold the same name.
\<close>

section \<open>The entries of other connections\<close>

definition spares :: "sock_addr \<Rightarrow> ('o, 'r) server \<Rightarrow> ('o, 'r) server \<Rightarrow> bool" where
  "spares a v v' \<longleftrightarrow> identity v' a = identity v a \<or> identity v' a = None"

lemma spares_trans: "spares a u v \<Longrightarrow> spares a v w \<Longrightarrow> spares a u w"
  by (auto simp: spares_def)

lemma spares_refl [simp]: "spares a v v"
  by (simp add: spares_def)

lemma spares_quiet [simp]:
  "spares a u (send h code ks v) = spares a u v" "spares a u (send_to_all code v) = spares a u v"
  "spares a u (send_to_all_but code ex v) = spares a u v" "spares a u (send_to_others code ch i v) = spares a u v"
  "spares a u (notify i code v) = spares a u v" "spares a u (send_list cf h kp v) = spares a u v"
  "spares a u (send_bans h kp v) = spares a u v" "spares a u (send_history cf h kp b v) = spares a u v"
  "spares a u (send_voice_clients h kp i v) = spares a u v" "spares a u (icon_changed i v) = spares a u v"
  "spares a u (open_connection t i k now v) = spares a u v" "spares a u (apply_role name r v) = spares a u v"
  by (simp_all add: spares_def)

lemma spares_update [simp]:
  "spares a u (v\<lparr> sv_users := i \<rparr>) = spares a u v" "spares a u (v\<lparr> sv_bans := j \<rparr>) = spares a u v"
  "spares a u (v\<lparr> sv_icon := m \<rparr>) = spares a u v" "spares a u (v\<lparr> sv_history := l \<rparr>) = spares a u v"
  "spares a u (v\<lparr> sv_files := f \<rparr>) = spares a u v" "spares a u (alter_conn addr toggle_mute v) = spares a u v"
  by (simp_all add: spares_def)

lemma spares_remove:
  assumes "spares a u v"
  shows "spares a u (remove_connection cf addr g v)"
  using assms identity.view_remove [of a addr cf g v] removed [of cf addr g v]
  by (cases "a = addr") (simp_all add: spares_def client_view_def)

lemma spares_remove_each:
  assumes "spares a u v"
  shows "spares a u (remove_each cf g addrs v)"
  using assms identity.view_remove_each [of a addrs cf g v] removed_each [of a addrs cf g v]
  by (cases "a \<in> set addrs") (simp_all add: spares_def client_view_def)

lemma spares_kept: "keep_message w ss f s = (i, s') \<Longrightarrow> spares a u (hb s') = spares a u (hb s)"
  by (simp add: spares_def identity_kept)

lemma spares_move: "a \<noteq> addr \<Longrightarrow> update_client_channel addr ch now v = Some v' \<Longrightarrow> identity v' a = identity v a"
  by (auto simp: update_client_channel_def split: option.splits)

lemma spares_chat: "a \<noteq> se_addr ss \<Longrightarrow> final (handle_chat w ss c s) = Some s' \<Longrightarrow> identity (hb s') a = identity (hb s) a"
  by (cases c; clarsimp simp: handler_defs packet_defs identity_kept identity_history view_alter Let_def
      split: if_splits option.splits prod.splits bool.splits)

lemma spares_lobby: "a \<noteq> se_addr ss \<Longrightarrow> final (handle_lobby w ss c s) = Some s' \<Longrightarrow> identity (hb s') a = identity (hb s) a"
  by (cases c; auto simp: handler_defs packet_defs spares_move Let_def split: if_splits option.splits prod.splits)

lemma spares_file: "a \<noteq> se_addr ss \<Longrightarrow> final (handle_file w ss c s) = Some s' \<Longrightarrow> identity (hb s') a = identity (hb s) a"
  by (cases c; clarsimp simp: handler_defs packet_defs identity_kept identity_history view_alter Let_def
      split: if_splits option.splits prod.splits sum.splits)

lemma spares_media: "a \<noteq> se_addr ss \<Longrightarrow> final (handle_media w ss c s) = Some s' \<Longrightarrow> identity (hb s') a = identity (hb s) a"
  by (cases c; clarsimp simp: handler_defs packet_defs view_alter Let_def split: if_splits option.splits prod.splits)

lemma spares_account: "final (handle_account w ss c s) = Some s' \<Longrightarrow> spares a (hb s) (hb s')"
  by (cases c; clarsimp simp: handler_defs packet_defs spares_remove Let_def
      split: if_splits option.splits prod.splits sum.splits bool.splits)

lemma spares_server: "final (handle_server w ss c s) = Some s' \<Longrightarrow> spares a (hb s) (hb s')"
  by (cases c; clarsimp simp: handler_defs packet_defs spares_remove spares_remove_each spares_kept remove_connections_def rbind_eq_Inr_iff Let_def
      split: if_splits option.splits prod.splits bool.splits sum.splits)

lemma spares_handle:
  assumes "a \<noteq> se_addr ss" "final (handle w ss code s) = Some s'"
  shows "spares a (hb s) (hb s')"
  using assms(2)
proof (cases rule: handle_cases)
  case (chat c)
  then show ?thesis using spares_chat [OF assms(1)] unfolding spares_def by blast
next
  case (lobby c)
  then show ?thesis using spares_lobby [OF assms(1)] unfolding spares_def by blast
next
  case (upload c)
  then show ?thesis using spares_file [OF assms(1)] unfolding spares_def by blast
next
  case (media c)
  then show ?thesis using spares_media [OF assms(1)] unfolding spares_def by blast
next
  case (server c)
  then show ?thesis by (simp add: spares_server)
next
  case (account c)
  then show ?thesis by (simp add: spares_account)
qed (simp_all add: spares_remove, simp add: spares_def)

section \<open>Names\<close>

definition name_at :: "('o, 'r) server \<Rightarrow> sock_addr \<Rightarrow> ustr option" where
  "name_at v a = Option.bind (identity v a) (\<lambda>(i, name, rest). name)"

text \<open>No two connections hold the same name, logged in or about to be.\<close>

definition names_ok :: "('o, 'r) server \<Rightarrow> bool" where
  "names_ok v \<longleftrightarrow> (\<forall>a b n. name_at v a = Some n \<longrightarrow> name_at v b = Some n \<longrightarrow> a = b)"

lemma names_shrink:
  assumes "names_ok v" "\<And>a. name_at v' a = name_at v a \<or> name_at v' a = None"
  shows "names_ok v'"
  using assms unfolding names_ok_def by (metis option.distinct(1))

lemma name_spared: "spares a v v' \<Longrightarrow> name_at v' a = name_at v a \<or> name_at v' a = None"
  by (auto simp: spares_def name_at_def)

lemma names_take:
  assumes "names_ok v" "\<And>a. name_at v a \<noteq> Some n" "\<And>a. a \<noteq> b \<Longrightarrow> name_at v' a = name_at v a" "name_at v' b = Some n"
  shows "names_ok v'"
  unfolding names_ok_def
proof (intro allI impI)
  fix a c m assume "name_at v' a = Some m" "name_at v' c = Some m"
  then show "a = c" using assms unfolding names_ok_def by (cases "a = b"; cases "c = b") (metis option.inject)+
qed

lemma not_connected: "\<not> user_connected name v \<Longrightarrow> name_at v a \<noteq> Some name"
  by (auto simp: user_connected_def name_at_def client_view_def identity_of_def Option.bind_eq_Some_conv list_ex_iff
      dest!: map_of_SomeD)

text \<open>A step of the task at an address: the registry stays well formed, other connections stay or go, names stay apart.\<close>

definition moves :: "sock_addr \<Rightarrow> ('o, 'r) server \<Rightarrow> ('o, 'r) server \<Rightarrow> bool" where
  "moves addr v v' \<longleftrightarrow> (server_wf v \<longrightarrow> server_wf v') \<and> (\<forall>a. a \<noteq> addr \<longrightarrow> spares a v v') \<and> (names_ok v \<longrightarrow> names_ok v')"

lemma moves_trans: "moves addr u v \<Longrightarrow> moves addr v w \<Longrightarrow> moves addr u w"
  using spares_trans unfolding moves_def by blast

lemma moves_spares: "moves addr v v' \<Longrightarrow> a \<noteq> addr \<Longrightarrow> spares a v v'"
  unfolding moves_def by blast

lemma moves_own:
  assumes "server_wf v \<Longrightarrow> server_wf v'" "\<And>a. a \<noteq> addr \<Longrightarrow> spares a v v'"
    "name_at v' addr = name_at v addr \<or> name_at v' addr = None"
  shows "moves addr v v'"
proof -
  have "name_at v' a = name_at v a \<or> name_at v' a = None" for a
    using assms(2) [of a] assms(3) name_spared [of a v v'] by (cases "a = addr") simp_all
  then show ?thesis using assms(1,2) names_shrink unfolding moves_def by blast
qed

lemma moves_same:
  assumes "server_wf v' = server_wf v" "\<And>a. identity v' a = identity v a"
  shows "moves addr v v'"
  by (rule moves_own) (use assms in \<open>simp_all add: spares_def name_at_def\<close>)

lemma moves_refl: "moves addr v v"
  by (rule moves_same) simp_all

lemma moves_remove: "moves addr v (remove_connection cf b g v)"
  by (rule moves_own) (simp_all add: wf_remove_connection spares_remove name_spared)

section \<open>Phases\<close>

text \<open>What the entry of a connection holds in each phase of its task.\<close>

fun phase_live :: "peer \<Rightarrow> ('e, 'o, 'r) phase \<Rightarrow> ('o, 'r) server \<Rightarrow> bool" where
  "phase_live pr (Exchanging e n) v \<longleftrightarrow> identity v (pr_addr pr) = Some (None, None, None, pr_stream pr, None)"
| "phase_live pr (Versioning ks n) v \<longleftrightarrow> identity v (pr_addr pr) = Some (None, None, None, pr_stream pr, Some ks)"
| "phase_live pr (Naming ks left a b disabled) v \<longleftrightarrow> identity v (pr_addr pr) = Some (None, None, None, pr_stream pr, Some ks)"
| "phase_live pr (Registering ks left name dev) v \<longleftrightarrow> identity v (pr_addr pr) = Some (None, Some name, None, pr_stream pr, Some ks)"
| "phase_live pr (LoggingIn ks name dev) v \<longleftrightarrow> identity v (pr_addr pr) = Some (None, Some name, None, pr_stream pr, Some ks)"
| "phase_live pr (Serving ss) v \<longleftrightarrow> session_live ss v \<and> se_addr ss = pr_addr pr \<and> se_stream ss = pr_stream pr"
| "phase_live pr (Rekeying ss e n code) v \<longleftrightarrow> session_live ss v \<and> se_addr ss = pr_addr pr \<and> se_stream ss = pr_stream pr"
| "phase_live pr Ended v \<longleftrightarrow> True"
| "phase_live pr Crashed v \<longleftrightarrow> True"

lemma phase_live_view:
  assumes "identity v' (pr_addr pr) = identity v (pr_addr pr)"
  shows "phase_live pr ph v' = phase_live pr ph v"
  using assms by (cases ph) (auto simp: session_live_def)

text \<open>The outcome of a step: the task goes on in a phase that fits its entry, unless the entry is gone.\<close>

definition advances :: "peer \<Rightarrow> ('o, 'r) hub \<Rightarrow> ('e, 'o, 'r) phase \<times> ('o, 'r) hub \<Rightarrow> bool" where
  "advances pr s r \<longleftrightarrow> moves (pr_addr pr) (hb s) (hb (snd r)) \<and>
     (phase_live pr (fst r) (hb (snd r)) \<or> identity (hb (snd r)) (pr_addr pr) = None)"

lemma advancesI:
  "moves (pr_addr pr) (hb s) (hb s') \<Longrightarrow> phase_live pr ph (hb s') \<Longrightarrow> advances pr s (ph, s')"
  by (simp add: advances_def)

lemma advances_after: "moves (pr_addr pr) (hb s) (hb t) \<Longrightarrow> advances pr t r \<Longrightarrow> advances pr s r"
  by (auto simp: advances_def intro: moves_trans)

lemma say_view [simp]: "identity (hb (say pr ks code s)) a = identity (hb s) a" "server_wf (hb (say pr ks code s)) = server_wf (hb s)"
  "sv_users (hb (say pr ks code s)) = sv_users (hb s)" "sv_bans (hb (say pr ks code s)) = sv_bans (hb s)"
  by (simp_all add: say_def)

lemma moves_say: "moves addr (hb s) (hb (say pr ks code s))"
  by (rule moves_same) simp_all

lemma advances_hang_up: "advances pr s (hang_up g pr grace s)"
  by (simp add: advances_def hang_up_def moves_remove)

lemma identity_non_auth:
  assumes "identity v a = Some (None, name, ch, h, ks)"
  obtains c where "map_of (sv_conns v) a = Some (NonAuthenticated c)" "n_username c = name" "n_write_stream c = h" "n_keys c = ks" "ch = None"
proof -
  obtain x where x: "map_of (sv_conns v) a = Some x" "identity_of x = (None, name, ch, h, ks)"
    using assms by (auto simp: client_view_def)
  then show ?thesis using that by (cases x) (simp_all add: identity_of_def)
qed

lemma advances_ask_password:
  "phase_live pr (Registering ks (tries - 1) name dev) (hb s) \<Longrightarrow> advances pr s (ask_password g pr ks tries name dev s)"
  by (simp add: ask_password_def advances_hang_up advancesI moves_say)

lemma advances_ask_name:
  "phase_live pr (Naming ks (tries - 1) a b disabled) (hb s) \<Longrightarrow> advances pr s (ask_name g pr ks tries a b disabled s)"
  by (simp add: ask_name_def advances_hang_up advancesI moves_say)

lemma identity_put_name:
  assumes "identity v addr = Some (None, old, ch, h, ks)"
  shows "identity (alter_conn addr (put_name name) v) a = (if a = addr then Some (None, Some name, ch, h, ks) else identity v a)"
proof (cases "a = addr")
  case True
  obtain c where "map_of (sv_conns v) addr = Some (NonAuthenticated c)" "n_username c = old" "n_write_stream c = h" "n_keys c = ks" "ch = None"
    by (rule identity_non_auth [OF assms])
  then show ?thesis using True by (simp add: client_view_def map_of_alter identity_of_def)
qed simp

lemma put_name_neutral [simp]:
  "peer_addr (put_name name c) = peer_addr c" "write_stream (put_name name c) = write_stream c" "conn_id (put_name name c) = conn_id c"
  by (cases c; simp)+

lemma moves_take:
  assumes "identity v addr = Some (None, old, ch, h, ks)" "\<not> user_connected name v"
  shows "moves addr v (alter_conn addr (put_name name) v)"
proof -
  let ?v = "alter_conn addr (put_name name) v"
  have "name_at ?v a = (if a = addr then Some name else name_at v a)" for a
    by (simp add: name_at_def identity_put_name [OF assms(1)])
  then have "names_ok v \<Longrightarrow> names_ok ?v"
    using names_take [of v name addr ?v] not_connected [OF assms(2)] by simp
  then show ?thesis by (simp add: moves_def wf_alter spares_def)
qed

lemma advances_take_name:
  assumes "identity (hb s) (pr_addr pr) = Some (None, None, None, pr_stream pr, Some ks)" "\<not> user_connected name (hb s)"
  shows "advances pr s (take_name g pr ks disabled name dev s)"
proof -
  define t where "t = on_server (alter_conn (pr_addr pr) (put_name name)) s"
  have t: "identity (hb t) (pr_addr pr) = Some (None, Some name, None, pr_stream pr, Some ks)"
    using identity_put_name [OF assms(1)] by (simp add: t_def)
  have m: "moves (pr_addr pr) (hb s) (hb t)" using moves_take [OF assms] by (simp add: t_def)
  have "advances pr t (take_name g pr ks disabled name dev s)"
    using t by (simp add: take_name_def t_def [symmetric] Let_def advances_ask_password advancesI moves_say)
  then show ?thesis by (rule advances_after [OF m])
qed

text \<open>The packet a phase waits for, or anything else.\<close>

lemma on_name_other:
  assumes "\<And>name dev. received \<noteq> Some (Session_Code (Username name dev))"
  shows "on_name g pr ks left a b disabled received s = ask_name g pr ks left a b disabled s"
  using assms by (simp add: on_name_def split: option.split packet_code.split session_code.split)

lemma advances_on_name:
  assumes live: "phase_live pr (Naming ks left a b disabled) (hb s)"
  shows "advances pr s (on_name g pr ks left a b disabled received s)"
proof (cases "\<exists>name dev. received = Some (Session_Code (Username name dev))")
  case True
  then obtain name dev where "received = Some (Session_Code (Username name dev))" by blast
  then show ?thesis using live
    by (cases "valid_name g a b name (hb s)") (simp_all add: on_name_def valid_name_def advances_take_name advances_ask_name)
next
  case False
  then show ?thesis using live by (simp add: on_name_other advances_ask_name)
qed

lemma advances_welcome:
  assumes "identity (hb s) (pr_addr pr) = Some (None, None, None, pr_stream pr, Some ks)"
  shows "advances pr s (welcome_client g pr ks s)"
proof -
  let ?t = "send_welcome_packet g pr ks s"
  let ?u = "if \<not> allow_register g then say pr (Some ks) (Session_Code RegisterDisabled) ?t else ?t"
  have t: "identity (hb ?u) a = identity (hb s) a" "server_wf (hb ?u) = server_wf (hb s)" for a
    by (simp_all add: send_welcome_packet_def)
  have "advances pr ?u (welcome_client g pr ks s)" unfolding welcome_client_def Let_def
    by (rule advances_ask_name) (use assms t in simp)
  then show ?thesis by (rule advances_after [OF moves_same, rotated 2]) (simp_all add: t)
qed

lemma advances_greet:
  assumes "phase_live pr (Versioning ks 0) (hb s)"
  shows "advances pr s (greet g pr ks s)"
  using assms by (simp add: greet_def advancesI moves_say advances_welcome)

lemma on_version_stray:
  assumes "\<And>v. code \<noteq> Session_Code (Version v)"
  shows "on_version g pr ks n (Some code) s = (if n = 3 then hang_up g pr True s else (Versioning ks (n + 1), s))"
  using assms by (simp add: on_version_def split: packet_code.split session_code.split)

lemma advances_on_version:
  assumes "phase_live pr (Versioning ks n) (hb s)"
  shows "advances pr s (on_version g pr ks n received s)"
proof (cases received)
  case None
  then show ?thesis by (simp add: on_version_def advances_hang_up)
next
  case (Some code)
  show ?thesis
  proof (cases "\<exists>v. code = Session_Code (Version v)")
    case True
    then show ?thesis using assms by (auto simp: Some on_version_def advances_welcome advances_hang_up)
  next
    case False
    then show ?thesis using assms by (simp add: Some on_version_stray advances_hang_up advancesI moves_refl)
  qed
qed

section \<open>Joining\<close>

lemma authenticate_entry:
  assumes "identity v addr = Some (None, Some name, None, h, Some ks)"
  obtains v' where "authenticate_client cf addr name dev r i now v = Some v'"
    "\<And>a. identity v' a = (if a = addr then Some (Some i, Some name, None, h, Some ks) else identity v a)" "sv_users v' = sv_users v"
proof -
  obtain c where c: "map_of (sv_conns v) addr = Some (NonAuthenticated c)" "n_username c = Some name" "n_write_stream c = h" "n_keys c = Some ks"
    by (rule identity_non_auth [OF assms])
  obtain c' where p: "promoted cf name dev r i (sv_next_handle v) now (NonAuthenticated c) = Some c'"
    "identity_of c' = (Some i, Some name, None, h, Some ks)"
    using c by (simp add: promoted_def identity_of_def)
  have "authenticate_client cf addr name dev r i now v = Some ((alter_conn addr (\<lambda>_. c') v)\<lparr> sv_files := AList.update name [] (sv_files v),
      sv_next_handle := sv_next_handle v + 1, sv_transfers := (sv_transfers v)(sv_next_handle v := []) \<rparr>)"
    using c(1) p(1) by (simp add: authenticate_client_def Let_def)
  then show ?thesis by (rule that) (use c(1) p(2) in \<open>simp_all add: client_view_def map_of_alter\<close>)
qed

text \<open>Entering gives the connection the first free id and keeps its name.\<close>

lemma enter_served:
  assumes "identity (hb s) (pr_addr pr) = Some (None, Some name, None, pr_stream pr, Some ks)"
  obtains ss s' where "(enter g pr ks name dev s :: ('e, 'o, 'r) phase \<times> ('o, 'r) hub) = (Serving ss, s')"
    "ss = \<lparr> se_addr = pr_addr pr, se_stream = pr_stream pr, se_keys = ks, se_id = get_latest_id (hb s), se_name = name,
       se_role = role_or_default (user_role (sv_users (hb s)) name), se_channel = None \<rparr>"
    "session_live ss (hb s')" "moves (pr_addr pr) (hb s) (hb s')" "sv_users (hb s') = sv_users (hb s)"
proof -
  let ?cf = "gt_config g" and ?i = "get_latest_id (hb s)" and ?r = "role_or_default (user_role (sv_users (hb s)) name)"
  let ?ss = "\<lparr> se_addr = pr_addr pr, se_stream = pr_stream pr, se_keys = ks, se_id = ?i, se_name = name, se_role = ?r, se_channel = None \<rparr>"
  obtain v where v: "authenticate_client ?cf (pr_addr pr) name dev ?r ?i (wd_now (gt_world g)) (hb s) = Some v"
    "\<And>a. identity v a = (if a = pr_addr pr then Some (Some ?i, Some name, None, pr_stream pr, Some ks) else identity (hb s) a)"
    "sv_users v = sv_users (hb s)"
    using authenticate_entry [OF assms] by metis
  obtain s' where s': "(enter g pr ks name dev s :: ('e, 'o, 'r) phase \<times> ('o, 'r) hub) = (Serving ?ss, s')" "\<And>a. identity (hb s') a = identity v a"
      "server_wf (hb s') = server_wf v" "sv_users (hb s') = sv_users v"
    by (simp add: enter_def Let_def v(1) broadcast_def)
  have "moves (pr_addr pr) (hb s) (hb s')"
    by (rule moves_own) (use wf_authenticate [OF _ get_latest_id_fresh v(1)] in
      \<open>simp_all add: s' v(2) spares_def name_at_def assms\<close>)
  moreover have "session_live ?ss (hb s')" by (simp add: session_live_def s' v(2))
  ultimately show ?thesis using s' v(3) by (intro that [of ?ss s']) simp_all
qed

lemma advances_enter:
  assumes "identity (hb s) (pr_addr pr) = Some (None, Some name, None, pr_stream pr, Some ks)"
  shows "advances pr s (enter g pr ks name dev s :: ('e, 'o, 'r) phase \<times> ('o, 'r) hub)"
proof -
  obtain ss s' where "(enter g pr ks name dev s :: ('e, 'o, 'r) phase \<times> ('o, 'r) hub) = (Serving ss, s')" "se_addr ss = pr_addr pr" "se_stream ss = pr_stream pr"
    "session_live ss (hb s')" "moves (pr_addr pr) (hb s) (hb s')"
    by (rule enter_served [OF assms, of g dev]) (rule that; simp)
  then show ?thesis by (simp add: advancesI)
qed

lemma on_login_other:
  assumes "\<And>pass. received \<noteq> Some (Session_Code (session_code.Login pass))"
  shows "on_login g pr ks name dev received s = hang_up g pr False s"
  using assms by (simp add: on_login_def split: option.split packet_code.split session_code.split)

lemma on_register_other:
  assumes "\<And>pass. received \<noteq> Some (Session_Code (Register pass))"
  shows "on_register g pr ks left name dev received s = hang_up g pr False s"
  using assms by (simp add: on_register_def split: option.split packet_code.split session_code.split)

lemma advances_on_login:
  assumes "phase_live pr (LoggingIn ks name dev) (hb s)"
  shows "advances pr s (on_login g pr ks name dev received s)"
proof (cases "\<exists>pass. received = Some (Session_Code (session_code.Login pass))")
  case True
  then show ?thesis using assms by (auto simp: on_login_def advances_hang_up advances_enter)
next
  case False
  then show ?thesis by (simp add: on_login_other advances_hang_up)
qed

lemma advances_register:
  assumes "identity (hb s) (pr_addr pr) = Some (None, Some name, None, pr_stream pr, Some ks)"
  shows "advances pr s (register g pr ks name dev pass s)"
proof -
  obtain users first_user where u: "users_add name (wd_hash (gt_world g) pass) (sv_users (hb s)) = (users, first_user)" by fastforce
  let ?t = "edit_users (\<lambda>_. users) s"
  let ?u = "if first_user then say pr (Some ks) (Session_Code FirstUser) ?t else ?t"
  have t: "identity (hb ?u) a = identity (hb s) a" "server_wf (hb ?u) = server_wf (hb s)" for a
    by (simp_all add: edit_users_def)
  show ?thesis unfolding register_def u prod.case Let_def
    by (rule advances_after [OF moves_same advances_enter]) (use assms t in simp_all)
qed

lemma advances_on_register:
  assumes "phase_live pr (Registering ks left name dev) (hb s)"
  shows "advances pr s (on_register g pr ks left name dev received s)"
proof (cases "\<exists>pass. received = Some (Session_Code (Register pass))")
  case True
  then show ?thesis using assms by (auto simp: on_register_def advances_register advances_ask_password)
next
  case False
  then show ?thesis by (simp add: on_register_other advances_hang_up)
qed

section \<open>The key exchange\<close>

lemma identity_with_keys:
  "identity (update_client_keys addr ks now v) a = (if a = addr
     then map_option (\<lambda>(i, name, ch, h, _). (i, if i = None then None else name, ch, h, Some ks)) (identity v a) else identity v a)"
proof (cases "map_of (sv_conns v) addr")
  case (Some c)
  then show ?thesis by (cases c) (auto simp: update_client_keys_def client_view_def map_of_alter identity_of_def)
qed (auto simp: update_client_keys_def client_view_def map_of_alter)

lemma moves_keys: "moves addr v (update_client_keys addr ks now v)"
  by (rule moves_own; cases "identity v addr") (auto simp: wf_update_keys spares_def name_at_def identity_with_keys split: if_splits)

lemma take_replyD:
  assumes "take_reply g P pr e r s = Inr (ks, s')"
  shows "server_keys (wd_chat (gt_world g)) P e r = Inr ks" "hb s' = update_client_keys (pr_addr pr) ks (wd_now (gt_world g)) (hb s)"
  using assms by (auto simp: take_reply_def rbind_eq_Inr_iff)

lemma make_offerD:
  assumes "make_offer P skey fresh pr rekey s = Inr (e, s')"
  shows "moves addr (hb s) (hb s')" "identity (hb s') a = identity (hb s) a"
proof -
  have "server_wf (hb s') = server_wf (hb s) \<and> (\<forall>a. identity (hb s') a = identity (hb s) a)"
    using assms by (auto simp: make_offer_def rbind_eq_Inr_iff Let_def split: if_splits)
  then have same: "server_wf (hb s') = server_wf (hb s)" "\<And>a. identity (hb s') a = identity (hb s) a" by blast+
  show "moves addr (hb s) (hb s')" by (rule moves_same) (rule same)+
  show "identity (hb s') a = identity (hb s) a" by (rule same)
qed

lemma on_exchange_stray:
  assumes "\<And>r. code \<noteq> Session_Code (KeyExchangeReply r)"
  shows "on_exchange g P pr e n (Some code) s = (if n = 3 then hang_up g pr False s else (Exchanging e (n + 1), s))"
  using assms by (simp add: on_exchange_def split: packet_code.split session_code.split)

lemma advances_reply:
  assumes live: "phase_live pr (Exchanging e n) (hb s)"
  shows "advances pr s (on_exchange g P pr e n (Some (Session_Code (KeyExchangeReply r))) s)"
proof (cases "take_reply g P pr e r s")
  case (Inl x)
  then show ?thesis by (simp add: on_exchange_def advancesI moves_refl)
next
  case (Inr p)
  obtain ks t where p: "take_reply g P pr e r s = Inr (ks, t)" using Inr by (cases p) simp
  note t = take_replyD(2) [OF p]
  have m: "moves (pr_addr pr) (hb s) (hb t)" by (simp add: t moves_keys)
  have "identity (hb t) (pr_addr pr) = Some (None, None, None, pr_stream pr, Some ks)" using live by (simp add: t identity_with_keys)
  then show ?thesis using m by (simp add: on_exchange_def p advances_after advances_hang_up advances_greet)
qed

lemma advances_on_exchange:
  assumes "phase_live pr (Exchanging e n) (hb s)"
  shows "advances pr s (on_exchange g P pr e n received s)"
proof (cases received)
  case None
  then show ?thesis by (simp add: on_exchange_def advances_hang_up)
next
  case (Some code)
  show ?thesis
  proof (cases "\<exists>r. code = Session_Code (KeyExchangeReply r)")
    case True
    then show ?thesis using advances_reply [OF assms] Some by blast
  next
    case False
    then show ?thesis using assms by (simp add: Some on_exchange_stray advances_hang_up advancesI moves_refl)
  qed
qed

section \<open>Serving\<close>

lemma continue_same:
  assumes "server_wf (hb s)" "session_live ss (hb s)" "handle w ss code s = Continue ss' s'"
  shows "\<exists>ch. ss' = ss\<lparr> se_channel := ch \<rparr>"
proof (cases code)
  case (Chat_Code c)
  then have "ss' = ss" using follows_chat [of w ss c s ss' s'] assms(3) by (simp add: handle_def follows_def)
  then show ?thesis by (intro exI [of _ "se_channel ss"]) simp
next
  case (Lobby_Code c)
  then show ?thesis using assms(3)
    by (cases c) (auto simp: handle_def handler_defs Let_def split: if_splits option.splits prod.splits intro: exI [of _ "se_channel ss"])
next
  case (File_Code c)
  then have "ss' = ss" using follows_file [of w ss c s ss' s'] assms(3) by (simp add: handle_def follows_def)
  then show ?thesis by (intro exI [of _ "se_channel ss"]) simp
next
  case (Media_Code c)
  then have "ss' = ss" using follows_media [of w ss c s ss' s'] assms(3) by (simp add: handle_def follows_def)
  then show ?thesis by (intro exI [of _ "se_channel ss"]) simp
next
  case (Server_Code c)
  then have "ss' = ss" using server_live [OF assms(1,2), of w c ss' s'] assms(3) by (simp add: handle_def)
  then show ?thesis by (intro exI [of _ "se_channel ss"]) simp
next
  case (Account_Code c)
  then have "ss' = ss" using follows_account [of w ss c s ss' s'] assms(3) by (simp add: handle_def follows_def)
  then show ?thesis by (intro exI [of _ "se_channel ss"]) simp
next
  case (Session_Code c)
  then have "ss' = ss" using assms(3) by (cases c) (simp_all add: handle_def)
  then show ?thesis by (intro exI [of _ "se_channel ss"]) simp
qed

lemma live_name: "session_live ss v \<Longrightarrow> name_at v (se_addr ss) = Some (se_name ss)"
  by (simp add: session_live_def name_at_def)

lemma advances_handler:
  assumes wf: "server_wf (hb s)" and live: "phase_live pr (Serving ss) (hb s)"
  shows "advances pr s (run_handler g ss code s)"
proof (cases "handle (gt_world g) ss code s")
  case (Continue ss' s')
  have l: "session_live ss (hb s)" "se_addr ss = pr_addr pr" "se_stream ss = pr_stream pr" using live by simp_all
  obtain ch where ch: "ss' = ss\<lparr> se_channel := ch \<rparr>" using continue_same [OF wf l(1) Continue] by blast
  have after: "session_live ss' (hb s') \<or> identity (hb s') (pr_addr pr) = None"
    using continue_live [OF wf l(1) Continue] l(2) by (auto simp: client_view_def)
  then have "name_at (hb s') (pr_addr pr) = name_at (hb s) (pr_addr pr) \<or> name_at (hb s') (pr_addr pr) = None"
    using live_name [of ss' "hb s'"] live_name [OF l(1)] l(2) ch by (auto simp: name_at_def)
  then have "moves (pr_addr pr) (hb s) (hb s')"
    using wf_handle [OF wf, of "gt_world g" ss code s'] spares_handle [of _ ss "gt_world g" code s s'] Continue l(2)
    by (intro moves_own) simp_all
  then show ?thesis using after l ch by (auto simp: advances_def run_handler_def Continue)
next
  case (Returned s')
  have "identity (hb s') (pr_addr pr) = None" using returned_gone [OF Returned] live by (simp add: client_view_def)
  moreover from this have "moves (pr_addr pr) (hb s) (hb s')"
    using wf_handle [OF wf, of "gt_world g" ss code s'] spares_handle [of _ ss "gt_world g" code s s'] Returned live
    by (intro moves_own) (simp_all add: name_at_def)
  ultimately show ?thesis by (simp add: advances_def run_handler_def Returned)
qed (simp add: run_handler_def advancesI moves_refl)

lemma advances_on_packet:
  assumes wf: "server_wf (hb s)" and live: "phase_live pr (Serving ss) (hb s)"
  shows "advances pr s (on_packet g P skey fresh pr ss code s)"
proof (cases "Option.bind (entry ss s) last_key_exchange")
  case None
  then show ?thesis by (simp add: on_packet_def advancesI moves_refl)
next
  case (Some t)
  show ?thesis
  proof (cases "make_offer P skey fresh pr (Some (se_keys ss)) s")
    case (Inl x)
    then show ?thesis by (simp add: on_packet_def Some advancesI moves_refl advances_handler [OF assms])
  next
    case (Inr p)
    obtain e s' where p: "make_offer P skey fresh pr (Some (se_keys ss)) s = Inr (e, s')" using Inr by (cases p) simp
    have "session_live ss (hb s')" using make_offerD(2) [OF p] live by (auto simp: session_live_def)
    then show ?thesis using make_offerD(1) [OF p] live by (simp add: on_packet_def Some p advancesI advances_handler [OF assms])
  qed
qed

lemma on_rekey_stray:
  assumes "\<And>r. c \<noteq> Session_Code (KeyExchangeReply r)"
  shows "on_rekey g P pr ss e n code (Some c) s = (if n = 3 then run_handler g ss code s else (Rekeying ss e (n + 1) code, s))"
  using assms by (simp add: on_rekey_def split: packet_code.split session_code.split)

lemma advances_rekeyed:
  assumes wf: "server_wf (hb s)" and live: "phase_live pr (Serving ss) (hb s)" and t: "take_reply g P pr e r s = Inr (ks, t)"
  shows "advances pr s (run_handler g (ss\<lparr> se_keys := ks \<rparr>) code t)"
proof -
  note h = take_replyD(2) [OF t]
  have "server_wf (hb t)" using wf by (simp add: h wf_update_keys)
  moreover have "phase_live pr (Serving (ss\<lparr> se_keys := ks \<rparr>)) (hb t)" using live by (auto simp: h session_live_def identity_with_keys)
  ultimately show ?thesis by (intro advances_after [OF _ advances_handler]) (simp_all add: h moves_keys)
qed

lemma advances_on_rekey:
  assumes wf: "server_wf (hb s)" and live: "phase_live pr (Serving ss) (hb s)"
  shows "advances pr s (on_rekey g P pr ss e n code received s)"
proof (cases received)
  case None
  then show ?thesis by (simp add: on_rekey_def advances_handler [OF assms])
next
  case (Some c)
  show ?thesis
  proof (cases "\<exists>r. c = Session_Code (KeyExchangeReply r)")
    case True
    then obtain r where c: "c = Session_Code (KeyExchangeReply r)" by blast
    show ?thesis
    proof (cases "take_reply g P pr e r s")
      case (Inr p)
      then show ?thesis by (cases p) (simp add: on_rekey_def Some c advances_rekeyed [OF assms])
    qed (simp add: on_rekey_def Some c advancesI moves_refl)
  next
    case False
    then show ?thesis using live by (simp add: Some on_rekey_stray advancesI moves_refl advances_handler [OF assms])
  qed
qed

lemma task_advances:
  assumes "server_wf (hb s)" "phase_live pr ph (hb s)"
  shows "advances pr s (task_step g P skey fresh pr ph received s)"
proof (cases ph)
  case (Exchanging e n)
  then show ?thesis using assms advances_on_exchange by (simp add: task_step_def del: phase_live.simps)
next
  case (Versioning ks n)
  then show ?thesis using assms advances_on_version by (simp add: task_step_def del: phase_live.simps)
next
  case (Naming ks left a b disabled)
  then show ?thesis using assms advances_on_name by (simp add: task_step_def del: phase_live.simps)
next
  case (Registering ks left name dev)
  then show ?thesis using assms advances_on_register by (simp add: task_step_def del: phase_live.simps)
next
  case (LoggingIn ks name dev)
  then show ?thesis using assms advances_on_login by (simp add: task_step_def del: phase_live.simps)
next
  case (Serving ss)
  then show ?thesis using assms advances_on_packet [of s pr ss]
    by (cases received) (simp_all add: task_step_def advancesI moves_refl del: phase_live.simps(6))
next
  case (Rekeying ss e n code)
  then show ?thesis using assms advances_on_rekey [of s pr ss] by (simp add: task_step_def)
qed (simp_all add: task_step_def advancesI moves_refl)

section \<open>Reading\<close>

lemma check_message_same:
  "check_message pc now now' m c = Some (c', x) \<Longrightarrow> identity_of c' = identity_of c \<and> peer_addr c' = peer_addr c"
  by (cases c; cases m) (auto simp: check_message_def identity_of_def Let_def split: if_splits)

lemma check_rate_same:
  "check_rate pc now now' d code c = Some (c', x) \<Longrightarrow> identity_of c' = identity_of c \<and> peer_addr c' = peer_addr c"
  by (cases c) (auto simp: check_rate_def identity_of_def Let_def split: if_splits)

lemma check_seq_same:
  "check_seq n c = Some (c', x) \<Longrightarrow> identity_of c' = identity_of c \<and> peer_addr c' = peer_addr c"
  by (cases c) (auto simp: check_seq_def identity_of_def split: if_splits)

lemma police_same:
  "police pc clock code n c = Some v \<Longrightarrow> identity_of (vd_conn v) = identity_of c \<and> peer_addr (vd_conn v) = peer_addr c"
  by (auto simp: police_def Option.bind_eq_Some_conv split: prod.splits dest!: check_message_same check_rate_same check_seq_same)

text \<open>Receiving keeps the entry or removes it.\<close>

definition reads :: "sock_addr \<Rightarrow> ('o, 'r) server \<Rightarrow> ('o, 'r) server \<Rightarrow> bool" where
  "reads addr v v' \<longleftrightarrow> moves addr v v' \<and> spares addr v v'"

lemma reads_remove: "reads addr v v' \<Longrightarrow> reads addr v (remove_connection cf addr g v')"
  unfolding reads_def using moves_trans [OF _ moves_remove] spares_remove by blast

lemma reads_refl: "reads addr v v"
  by (simp add: reads_def moves_refl)

lemma reads_enforce:
  assumes wf: "server_wf v" and c: "map_of (sv_conns v) addr = Some c" and p: "police pc clock code n c = Some d"
  shows "reads addr v (enforce pc addr h d v)"
proof -
  note same = police_same [OF p]
  let ?u = "alter_conn addr (\<lambda>_. vd_conn d) v"
  let ?t = "case vd_warn d of Some ks \<Rightarrow> send h (Lobby_Code SpamWarning) ks ?u | None \<Rightarrow> ?u"
  have "identity ?u a = identity v a" for a
    using same c by (cases "a = addr") (simp_all add: client_view_def map_of_alter)
  then have i: "identity ?t a = identity v a" for a by (simp split: option.split)
  have "server_wf ?u" by (rule wf_put [OF wf c]) (use same in \<open>simp_all add: identity_of_def\<close>)
  then have "server_wf ?t" by (simp split: option.split)
  then have "moves addr v ?t" by (intro moves_same i) (simp add: wf)
  then have "reads addr v ?t" by (simp add: reads_def spares_def i)
  then show ?thesis by (simp add: enforce_def Let_def reads_remove)
qed

lemma read_tcp_reads: "read_tcp C pc auxiliary addr mode input v = Inr (x, rest, m, v') \<Longrightarrow> reads addr v v'"
  by (auto simp: read_tcp_def Let_def rbind_eq_Inr_iff reads_refl reads_remove split: option.splits if_splits)

lemma receive_reads:
  assumes wf: "server_wf v" and r: "receive C K pc clock addr h ks input v = Inr (received, w, rest, v')"
  shows "reads addr v v'"
proof -
  obtain x q m u where u: "read_tcp C pc False addr (OneShot ks) input v = Inr (x, q, m, u)"
    using r by (cases "read_tcp C pc False addr (OneShot ks) input v") (auto simp: receive_def)
  have ru: "reads addr v u" by (rule read_tcp_reads [OF u])
  then have wfu: "server_wf u" using wf by (simp add: reads_def moves_def)
  have enf: "reads addr v (enforce pc addr h d u)" if "map_of (sv_conns u) addr = Some c" "police pc clock code n c = Some d" for c code n d
    using ru reads_enforce [OF wfu that] moves_trans spares_trans unfolding reads_def by blast
  show ?thesis
  proof (cases "Option.bind x (wc_decode K)")
    case None
    then show ?thesis using r u ru reads_remove [OF ru] by (cases x) (auto simp: receive_def)
  next
    case (Some p)
    obtain code n bytes where p: "x = Some bytes" "wc_decode K bytes = Some (code, n)"
      using Some by (cases p) (auto simp: Option.bind_eq_Some_conv)
    show ?thesis
    proof (cases "map_of (sv_conns u) addr")
      case None
      then show ?thesis using r u p ru by (simp add: receive_def Let_def)
    next
      case (Some c)
      then show ?thesis using r u p enf [OF Some, of "strip_code code" n]
        by (cases "police pc clock (strip_code code) n c") (simp_all add: receive_def Let_def)
    qed
  qed
qed

lemma read_advances:
  assumes wf: "server_wf (hb s)" and live: "phase_live pr ph (hb s)"
    and r: "task_read K pc clock g P skey fresh pr ph input s = Inr (ph', rest, s')"
  shows "advances pr s (ph', s')"
proof -
  obtain received w v where v: "receive (wd_chat (gt_world g)) K pc clock (pr_addr pr) (pr_stream pr) (phase_keys ph) input (hb s) =
      Inr (received, w, rest, v)"
    and step: "if map_of (sv_conns v) (pr_addr pr) = None then ph' = Ended \<and> s' = s\<lparr> hb := v \<rparr>
      else task_step g P skey fresh pr ph received (s\<lparr> hb := v \<rparr>) = (ph', s')"
    using r by (cases "receive (wd_chat (gt_world g)) K pc clock (pr_addr pr) (pr_stream pr) (phase_keys ph) input (hb s)")
      (auto simp: task_read_def split: if_splits prod.splits)
  have rv: "reads (pr_addr pr) (hb s) v" by (rule receive_reads [OF wf v])
  then have m: "moves (pr_addr pr) (hb s) (hb (s\<lparr> hb := v \<rparr>))" by (simp add: reads_def)
  show ?thesis
  proof (cases "map_of (sv_conns v) (pr_addr pr) = None")
    case True
    then show ?thesis using step m by (simp add: advancesI)
  next
    case False
    then have "identity v (pr_addr pr) = identity (hb s) (pr_addr pr)" using rv by (auto simp: reads_def spares_def client_view_def)
    then have "phase_live pr ph v" using live phase_live_view by blast
    moreover have "server_wf v" using rv wf by (simp add: reads_def moves_def)
    ultimately show ?thesis using task_advances [of "s\<lparr> hb := v \<rparr>" pr ph g P skey fresh received] step False
      by (intro advances_after [OF m]) (auto split: prod.splits)
  qed
qed

section \<open>All tasks of the server\<close>

type_synonym ('sk, 'pk, 'dk, 'ek, 'ct, 'sig) tasks = "sock_addr \<rightharpoonup> peer \<times> ('sk, 'pk, 'dk, 'ek, 'ct, 'sig) net_phase"

text \<open>Removing an entry aborts its task, whoever removes it.\<close>

definition abort_gone ::
  "('o, 'r) server \<Rightarrow> ('sk, 'pk, 'dk, 'ek, 'ct, 'sig) tasks \<Rightarrow> ('sk, 'pk, 'dk, 'ek, 'ct, 'sig) tasks" where
  "abort_gone v T = (\<lambda>a. if map_of (sv_conns v) a = None then None else T a)"

text \<open>
  The steps of the server: a socket is accepted, a task reads from its socket, panics or stops waiting, and the timers run. Any
  task may take the next step; the configuration and the clocks of a step are those of that moment, one of a given set. A task reads the id of
  a new session and stores the session in one step here; the source does so in two, see \<open>login_race\<close>.
\<close>

inductive system_step ::
  "(('pk, 'ek, 'sig) offer, ('pk, 'ct) reply) wire_codec \<Rightarrow> ('sk, 'pk, 'dk, 'ek, 'ct, 'sig) primitives \<Rightarrow> 'sk \<Rightarrow> ('v, 'w) gate set
     \<Rightarrow> ('sk, 'pk, 'dk, 'ek, 'ct, 'sig) tasks \<times> ('pk, 'ek, 'ct, 'sig) net_hub
     \<Rightarrow> ('sk, 'pk, 'dk, 'ek, 'ct, 'sig) tasks \<times> ('pk, 'ek, 'ct, 'sig) net_hub \<Rightarrow> bool"
  for K P skey G where
  accept: "T (pr_addr pr) = None \<or> (\<exists>q ph0. T (pr_addr pr) = Some (q, ph0) \<and> ph0 \<in> {Ended, Crashed}) \<Longrightarrow>
    sv_peer (hb s) (pr_stream pr) = None \<Longrightarrow> g \<in> G \<Longrightarrow>
    accept_client g P skey fresh pr t (on_server (\<lambda>v. v\<lparr> sv_peer := (sv_peer v)(pr_stream pr \<mapsto> pr_addr pr) \<rparr>) s) = (ph, s') \<Longrightarrow>
    system_step K P skey G (T, s) (T(pr_addr pr \<mapsto> (pr, ph)), s')"
| read: "g \<in> G \<Longrightarrow> T a = Some (pr, ph) \<Longrightarrow> task_read K pc clock g P skey fresh pr ph input s = Inr (ph', rest, s') \<Longrightarrow>
    system_step K P skey G (T, s) (abort_gone (hb s') (T(a \<mapsto> (pr, ph'))), s')"
| panic: "g \<in> G \<Longrightarrow> T a = Some (pr, ph) \<Longrightarrow> task_read K pc clock g P skey fresh pr ph input s = Inl e \<Longrightarrow>
    system_step K P skey G (T, s) (T(a \<mapsto> (pr, Crashed)), s)"
| timeout: "g \<in> G \<Longrightarrow> T a = Some (pr, ph) \<Longrightarrow> timed ph \<Longrightarrow> task_step g P skey fresh pr ph None s = (ph', s') \<Longrightarrow>
    system_step K P skey G (T, s) (abort_gone (hb s') (T(a \<mapsto> (pr, ph'))), s')"
| timer: "v' = disconnect_inactive cf now (hb s) \<or> v' = send_keepalive cf (hb s) \<or> v' = disconnect_all cf (hb s) \<Longrightarrow>
    system_step K P skey G (T, s) (abort_gone v' T, s\<lparr> hb := v' \<rparr>)"

definition tasks_live :: "('sk, 'pk, 'dk, 'ek, 'ct, 'sig) tasks \<Rightarrow> ('pk, 'ek, 'ct, 'sig) net_hub \<Rightarrow> bool" where
  "tasks_live T s \<longleftrightarrow> (\<forall>a pr ph. T a = Some (pr, ph) \<longrightarrow> pr_addr pr = a \<and> phase_live pr ph (hb s))"

definition system_ok :: "('sk, 'pk, 'dk, 'ek, 'ct, 'sig) tasks \<times> ('pk, 'ek, 'ct, 'sig) net_hub \<Rightarrow> bool" where
  "system_ok c \<longleftrightarrow> server_wf (hb (snd c)) \<and> names_ok (hb (snd c)) \<and> tasks_live (fst c) (snd c)"

lemma live_spared:
  assumes "phase_live pr ph v" "spares (pr_addr pr) v v'" "map_of (sv_conns v') (pr_addr pr) \<noteq> None"
  shows "phase_live pr ph v'"
  using assms phase_live_view [of v' pr v ph] by (auto simp: spares_def client_view_def)

lemma system_okD:
  assumes "system_ok (T, s)"
  shows "server_wf (hb s)" "names_ok (hb s)" "T a = Some (pr, ph) \<Longrightarrow> pr_addr pr = a" "T a = Some (pr, ph) \<Longrightarrow> phase_live pr ph (hb s)"
  using assms unfolding system_ok_def tasks_live_def fst_conv snd_conv by blast+

lemma system_okI:
  assumes "server_wf (hb s)" "names_ok (hb s)" "\<And>a pr ph. T a = Some (pr, ph) \<Longrightarrow> pr_addr pr = a \<and> phase_live pr ph (hb s)"
  shows "system_ok (T, s)"
  using assms unfolding system_ok_def tasks_live_def fst_conv snd_conv by blast

lemma abort_goneD:
  assumes "abort_gone v T a = Some x"
  shows "T a = Some x" "map_of (sv_conns v) a \<noteq> None"
  using assms unfolding abort_gone_def by (metis option.distinct(1))+

lemma system_act:
  assumes ok: "system_ok (T, s)" and a: "T a = Some (pr, ph)" and adv: "advances pr s (ph', s')"
  shows "system_ok (abort_gone (hb s') (T(a \<mapsto> (pr, ph'))), s')"
proof (rule system_okI)
  note okD = system_okD [OF ok]
  have addr: "pr_addr pr = a" by (rule okD(3) [OF a])
  have m: "moves a (hb s) (hb s')" using adv by (simp add: advances_def addr)
  then show "server_wf (hb s')" "names_ok (hb s')" using okD(1,2) by (simp_all add: moves_def)
  fix b q p assume "abort_gone (hb s') (T(a \<mapsto> (pr, ph'))) b = Some (q, p)"
  note e = abort_goneD [OF this]
  show "pr_addr q = b \<and> phase_live q p (hb s')"
  proof (cases "b = a")
    case True
    then show ?thesis using e adv addr by (auto simp: advances_def client_view_def)
  next
    case False
    then have "T b = Some (q, p)" using e(1) by simp
    note q = okD(3,4) [OF this]
    then show ?thesis using live_spared [OF q(2), of "hb s'"] e(2) moves_spares [OF m False] by simp
  qed
qed

lemma system_timer:
  assumes ok: "system_ok (T, s)" and w: "server_wf v'" and sp: "\<And>a. spares a (hb s) v'"
  shows "system_ok (abort_gone v' T, s\<lparr> hb := v' \<rparr>)"
proof (rule system_okI)
  note okD = system_okD [OF ok]
  show "server_wf (hb (s\<lparr> hb := v' \<rparr>))" by (simp add: w)
  have "names_ok v'" by (rule names_shrink [OF okD(2)]) (rule name_spared [OF sp])
  then show "names_ok (hb (s\<lparr> hb := v' \<rparr>))" by simp
  fix b q p assume "abort_gone v' T b = Some (q, p)"
  note e = abort_goneD [OF this] and q = okD(3,4) [OF e(1)]
  show "pr_addr q = b \<and> phase_live q p (hb (s\<lparr> hb := v' \<rparr>))"
    using live_spared [OF q(2) sp] e(2) q(1) by simp
qed

lemma keepalive_spares: "spares a v (send_keepalive cf v)"
proof -
  have one: "identity (fst (keepalive_one b st)) a = identity (fst st) a" for b st
    by (cases st) (simp add: keepalive_one_def split: option.split)
  have "identity (fst (fold keepalive_one xs st)) a = identity (fst st) a" for xs st
    by (induction xs arbitrary: st) (simp_all add: one)
  then show ?thesis unfolding send_keepalive_def
    by (metis (mono_tags, lifting) spares_remove_each spares_def case_prod_unfold fst_conv)
qed

lemma timer_ok:
  assumes "v' = disconnect_inactive cf now v \<or> v' = send_keepalive cf v \<or> v' = disconnect_all cf v" "server_wf v"
  shows "server_wf v'" "spares a v v'"
  using assms by (auto simp: disconnect_inactive_def disconnect_all_def wf_remove_each wf_keepalive keepalive_spares spares_remove_each)

lemma register_identity:
  "identity (register_client addr h t key now v) a = (if a = addr then Some (None, None, None, h, None) else identity v a)"
  by (simp add: register_client_def client_view_def identity_of_def update_conv')

lemma system_accept:
  assumes ok: "system_ok (T, s)" and free: "sv_peer (hb s) (pr_stream pr) = None"
    and acc: "accept_client g P skey fresh pr t (on_server (\<lambda>v. v\<lparr> sv_peer := (sv_peer v)(pr_stream pr \<mapsto> pr_addr pr) \<rparr>) s) = (ph, s')"
  shows "system_ok (T(pr_addr pr \<mapsto> (pr, ph)), s')"
proof (rule system_okI)
  note okD = system_okD [OF ok]
  let ?v = "register_client (pr_addr pr) (pr_stream pr) t (pr_nonce pr) (wd_now (gt_world g))
    ((hb s)\<lparr> sv_peer := (sv_peer (hb s))(pr_stream pr \<mapsto> pr_addr pr) \<rparr>)"
  have wf: "server_wf ?v" by (rule wf_register [OF okD(1) free])
  have id: "identity ?v a = (if a = pr_addr pr then Some (None, None, None, pr_stream pr, None) else identity (hb s) a)" for a
    unfolding register_identity by (simp add: client_view_def)
  have s': "(server_wf (hb s') \<longleftrightarrow> server_wf ?v) \<and> (\<forall>a. identity (hb s') a = identity ?v a) \<and> (ph = Crashed \<or> (\<exists>e. ph = Exchanging e 0))"
    using acc by (auto simp: accept_client_def make_offer_def rbind_eq_Inr_iff Let_def split: sum.splits prod.splits)
  show "server_wf (hb s')" using s' wf by blast
  have n: "name_at (hb s') a = (if a = pr_addr pr then None else name_at (hb s) a)" for a
    using s' by (simp add: name_at_def id del: split_paired_All)
  show "names_ok (hb s')" by (rule names_shrink [OF okD(2)]) (simp add: n)
  have own: "phase_live pr ph (hb s')" using s' by (auto simp: id simp del: split_paired_All)
  fix b q p assume b: "(T(pr_addr pr \<mapsto> (pr, ph))) b = Some (q, p)"
  show "pr_addr q = b \<and> phase_live q p (hb s')"
  proof (cases "b = pr_addr pr")
    case True
    then show ?thesis using b own by auto
  next
    case False
    then have "T b = Some (q, p)" using b by simp
    note q = okD(3,4) [OF this]
    have "identity (hb s') (pr_addr q) = identity (hb s) (pr_addr q)" using s' q(1) False by (simp add: id del: split_paired_All)
    then show ?thesis using phase_live_view [of "hb s'" q "hb s" p] q by simp
  qed
qed

lemma system_keeps: "system_step K P skey G c c' \<Longrightarrow> system_ok c \<Longrightarrow> system_ok c'"
proof (induction rule: system_step.induct)
  case (accept T pr s g fresh t ph s')
  show ?case by (rule system_accept [OF accept.prems accept.hyps(2,4)])
next
  case (read g T a pr ph pc clock fresh input s ph' rest s')
  note okD = system_okD [OF read.prems]
  show ?case by (rule system_act [OF read.prems read.hyps(2) read_advances [OF okD(1) okD(4) [OF read.hyps(2)] read.hyps(3)]])
next
  case (panic g T a pr ph pc clock fresh input s e)
  note okD = system_okD [OF panic.prems]
  show ?case by (rule system_okI) (use okD panic.hyps(2) in \<open>auto split: if_splits\<close>)
next
  case (timeout g T a pr ph fresh s ph' s')
  note okD = system_okD [OF timeout.prems]
  have "advances pr s (ph', s')" using task_advances [OF okD(1) okD(4) [OF timeout.hyps(2)], of g P skey fresh None] timeout.hyps(4) by simp
  then show ?case by (rule system_act [OF timeout.prems timeout.hyps(2)])
next
  case (timer v' cf now s T)
  show ?case by (rule system_timer [OF timer.prems]) (use timer_ok [OF timer.hyps system_okD(1) [OF timer.prems]] in blast)+
qed

section \<open>No panics\<close>

lemma make_offer_total:
  assumes "prims_ok P"
  obtains e s' where "make_offer P skey fresh pr rekey s = Inr (e, s')"
proof -
  obtain e x where "create_offer P skey fresh (pr_nonce pr) = Inr (e, x)"
    by (cases fresh) (simp add: create_offer_def Let_def transcript_eq [OF assms])
  then show ?thesis using that by (simp add: make_offer_def)
qed

lemma take_reply_total:
  assumes "chat_ok (wd_chat (gt_world g))"
  obtains ks s' where "take_reply g P pr e r s = Inr (ks, s')"
proof -
  obtain ks where "server_keys (wd_chat (gt_world g)) P e r = Inr ks"
    unfolding server_keys_def by (rule derive_keys_ok [OF assms])
  then show ?thesis using that by (simp add: take_reply_def)
qed

lemma no_crash_simps [simp]:
  "fst (hang_up g pr grace s) \<noteq> Crashed" "fst (ask_password g pr ks tries name dev s) \<noteq> Crashed"
  "fst (ask_name g pr ks tries a b disabled s) \<noteq> Crashed" "fst (take_name g pr ks disabled name dev s) \<noteq> Crashed"
  "fst (welcome_client g pr ks s) \<noteq> Crashed" "fst (greet g pr ks s) \<noteq> Crashed"
  by (simp_all add: hang_up_def ask_password_def ask_name_def take_name_def welcome_client_def greet_def Let_def)

lemma enter_no_crash:
  assumes "identity (hb s) (pr_addr pr) = Some (None, Some name, None, pr_stream pr, Some ks)"
  shows "fst (enter g pr ks name dev s :: ('e, 'o, 'r) phase \<times> ('o, 'r) hub) \<noteq> Crashed"
proof -
  obtain ss s' where "(enter g pr ks name dev s :: ('e, 'o, 'r) phase \<times> ('o, 'r) hub) = (Serving ss, s')"
    by (rule enter_served [OF assms, of g dev]) (rule that)
  then show ?thesis by simp
qed

lemma handler_no_crash:
  assumes "chat_ok (wd_chat (gt_world g))" "session_live ss (hb s)"
  shows "fst (run_handler g ss code s) \<noteq> Crashed"
  using never_panics [OF assms, of code] by (auto simp: run_handler_def split: outcome.split)

lemma register_no_crash:
  assumes "identity (hb s) (pr_addr pr) = Some (None, Some name, None, pr_stream pr, Some ks)"
  shows "fst (register g pr ks name dev pass s) \<noteq> Crashed"
  unfolding register_def using assms by (auto simp: Let_def edit_users_def intro!: enter_no_crash split: prod.split)

lemma login_no_crash:
  assumes "phase_live pr (LoggingIn ks name dev) (hb s)"
  shows "fst (on_login g pr ks name dev received s) \<noteq> Crashed" "fst (on_register g pr ks left name dev received s) \<noteq> Crashed"
proof -
  show "fst (on_login g pr ks name dev received s) \<noteq> Crashed"
  proof (cases "\<exists>pass. received = Some (Session_Code (session_code.Login pass))")
    case True
    then show ?thesis using assms by (auto simp: on_login_def enter_no_crash split: if_splits)
  next
    case False
    then show ?thesis by (simp add: on_login_other)
  qed
  show "fst (on_register g pr ks left name dev received s) \<noteq> Crashed"
  proof (cases "\<exists>pass. received = Some (Session_Code (Register pass))")
    case True
    then show ?thesis using assms by (auto simp: on_register_def register_no_crash split: if_splits)
  next
    case False
    then show ?thesis by (simp add: on_register_other)
  qed
qed

lemma rekeyed_no_crash:
  assumes "chat_ok (wd_chat (gt_world g))" "session_live ss (hb s)" "se_addr ss = pr_addr pr"
  shows "fst (on_rekey g P pr ss e n code (Some (Session_Code (KeyExchangeReply r))) s) \<noteq> Crashed"
proof -
  obtain ks t where t: "take_reply g P pr e r s = Inr (ks, t)" by (rule take_reply_total [OF assms(1)])
  have "session_live (ss\<lparr> se_keys := ks \<rparr>) (hb t)" using assms(2,3) by (auto simp: take_replyD(2) [OF t] session_live_def identity_with_keys)
  from handler_no_crash [OF assms(1) this] show ?thesis by (simp add: on_rekey_def t)
qed

lemma rekey_no_crash:
  assumes "chat_ok (wd_chat (gt_world g))" "session_live ss (hb s)" "se_addr ss = pr_addr pr"
  shows "fst (on_rekey g P pr ss e n code received s) \<noteq> Crashed"
proof (cases received)
  case (Some c)
  show ?thesis
  proof (cases "\<exists>r. c = Session_Code (KeyExchangeReply r)")
    case True
    then show ?thesis using rekeyed_no_crash [OF assms] Some by blast
  next
    case False
    then show ?thesis by (simp add: Some on_rekey_stray handler_no_crash [OF assms(1,2)])
  qed
qed (simp add: on_rekey_def handler_no_crash [OF assms(1,2)])

lemma exchange_no_crash:
  assumes "chat_ok (wd_chat (gt_world g))"
  shows "fst (on_exchange g P pr e n received s) \<noteq> Crashed"
proof (cases received)
  case (Some c)
  show ?thesis
  proof (cases "\<exists>r. c = Session_Code (KeyExchangeReply r)")
    case True
    then obtain r where c: "c = Session_Code (KeyExchangeReply r)" by blast
    obtain ks t where "take_reply g P pr e r s = Inr (ks, t)" by (rule take_reply_total [OF assms])
    then show ?thesis by (simp add: Some c on_exchange_def)
  next
    case False
    then show ?thesis by (simp add: Some on_exchange_stray)
  qed
qed (simp add: on_exchange_def)

lemma version_no_crash: "fst (on_version g pr ks n received s) \<noteq> Crashed"
proof (cases received)
  case (Some code)
  show ?thesis
  proof (cases "\<exists>v. code = Session_Code (Version v)")
    case True
    then show ?thesis by (auto simp: Some on_version_def split: if_splits)
  next
    case False
    then show ?thesis by (simp add: Some on_version_stray)
  qed
qed (simp add: on_version_def)

lemma name_no_crash: "fst (on_name g pr ks left a b disabled received s) \<noteq> Crashed"
proof (cases "\<exists>name dev. received = Some (Session_Code (Username name dev))")
  case True
  then show ?thesis by (auto simp: on_name_def split: if_splits)
next
  case False
  then show ?thesis by (simp add: on_name_other)
qed

lemma packet_no_crash:
  assumes "chat_ok (wd_chat (gt_world g))" "prims_ok P" "session_live ss (hb s)"
  shows "fst (on_packet g P skey fresh pr ss code s) \<noteq> Crashed"
proof -
  obtain x where "entry ss s = Some (Authenticated x)" using session_entry [OF assms(3)] unfolding entry_def by metis
  then have "Option.bind (entry ss s) last_key_exchange = Some (a_last_key_exchange x)" by simp
  moreover obtain e s' where "make_offer P skey fresh pr (Some (se_keys ss)) s = Inr (e, s')" by (rule make_offer_total [OF assms(2)])
  ultimately show ?thesis by (simp add: on_packet_def handler_no_crash [OF assms(1,3)])
qed

end
