(* ===== verification/Sessions.thy ===== *)
theory Sessions
  imports Tasks
begin

text \<open>
  The properties of login and of the session tasks: a login ends after a bounded number of packets, nobody is served without a
  password that fits, all tasks together keep names and ids apart and agree with the registry, and no packet makes a task panic.
  The last part is an exit of the task that leaves its session in the registry.
\<close>

section \<open>Termination of the login\<close>

fun in_login :: "('e, 'o, 'r) phase \<Rightarrow> bool" where
  "in_login (Exchanging e n) = True"
| "in_login (Versioning ks n) = True"
| "in_login (Naming ks left a b disabled) = True"
| "in_login (Registering ks left name dev) = True"
| "in_login (LoggingIn ks name dev) = True"
| "in_login _ = False"

text \<open>How many packets a phase can still take, where \<open>M\<close> bounds \<open>max_auth_tries\<close>.\<close>

fun rank :: "nat \<Rightarrow> ('e, 'o, 'r) phase \<Rightarrow> nat" where
  "rank M (Exchanging e n) = (4 - n) + 2 * M + 6"
| "rank M (Versioning ks n) = (4 - n) + 2 * M + 2"
| "rank M (Naming ks left a b disabled) = left + M + 2"
| "rank M (Registering ks left name dev) = left + 1"
| "rank M (LoggingIn ks name dev) = 1"
| "rank M _ = 0"

fun strays_ok :: "('e, 'o, 'r) phase \<Rightarrow> bool" where
  "strays_ok (Exchanging e n) = (n \<le> 3)"
| "strays_ok (Versioning ks n) = (n \<le> 3)"
| "strays_ok _ = True"

definition falls :: "nat \<Rightarrow> nat \<Rightarrow> ('e, 'o, 'r) phase \<times> ('o, 'r) hub \<Rightarrow> bool" where
  "falls M k r \<longleftrightarrow> rank M (fst r) < k \<and> strays_ok (fst r)"

lemma falls_stay [simp]: "falls M k (ph, s) \<longleftrightarrow> rank M ph < k \<and> strays_ok ph"
  by (simp add: falls_def)

lemma falls_hang_up [simp]: "falls M k (hang_up g pr grace s) \<longleftrightarrow> 0 < k"
  by (simp add: hang_up_def)

lemma falls_enter [simp]: "falls M k (enter g pr ks name dev s) \<longleftrightarrow> 0 < k"
  by (simp add: enter_def Let_def split: option.split)

lemma falls_register [simp]: "falls M k (register g pr ks name dev pass s) \<longleftrightarrow> 0 < k"
  unfolding register_def by (simp add: Let_def split: prod.split)

lemma falls_ask_password: "tries < k \<Longrightarrow> falls M k (ask_password g pr ks tries name dev s)"
  by (auto simp: ask_password_def)

lemma falls_ask_name: "tries + M + 1 < k \<Longrightarrow> falls M k (ask_name g pr ks tries a b disabled s)"
  by (auto simp: ask_name_def)

lemma falls_take_name: "max_auth_tries g \<le> M \<Longrightarrow> M + 1 < k \<Longrightarrow> falls M k (take_name g pr ks disabled name dev s)"
  by (auto simp: take_name_def Let_def falls_ask_password)

lemma falls_welcome: "max_auth_tries g \<le> M \<Longrightarrow> 2 * M + 1 < k \<Longrightarrow> falls M k (welcome_client g pr ks s)"
  by (simp add: welcome_client_def Let_def falls_ask_name)

lemma falls_greet: "max_auth_tries g \<le> M \<Longrightarrow> 2 * M + 6 < k \<Longrightarrow> falls M k (greet g pr ks s)"
  by (auto simp: greet_def falls_welcome)

lemma falls_name:
  assumes "max_auth_tries g \<le> M"
  shows "falls M (rank M (Naming ks left a b disabled :: ('e, 'o, 'r) phase)) (on_name g pr ks left a b disabled received s)"
proof (cases "\<exists>name dev. received = Some (Session_Code (Username name dev))")
  case True
  then show ?thesis using assms by (auto simp: on_name_def falls_take_name falls_ask_name)
next
  case False
  then show ?thesis by (simp add: on_name_other falls_ask_name)
qed

lemma falls_version:
  assumes "max_auth_tries g \<le> M" "n \<le> 3"
  shows "falls M (rank M (Versioning ks n :: ('e, 'o, 'r) phase)) (on_version g pr ks n received s)"
proof (cases received)
  case (Some code)
  show ?thesis
  proof (cases "\<exists>v. code = Session_Code (Version v)")
    case True
    then show ?thesis using assms by (auto simp: Some on_version_def falls_welcome)
  next
    case False
    then show ?thesis using assms by (auto simp: Some on_version_stray)
  qed
qed (simp add: on_version_def)

lemma falls_exchange:
  assumes "max_auth_tries g \<le> M" "n \<le> 3"
  shows "falls M (rank M (Exchanging e n :: ('e, 'o, 'r) phase)) (on_exchange g P pr e' n received s)"
proof (cases received)
  case (Some code)
  show ?thesis
  proof (cases "\<exists>r. code = Session_Code (KeyExchangeReply r)")
    case True
    then obtain r where c: "code = Session_Code (KeyExchangeReply r)" by blast
    show ?thesis using assms
      by (cases "take_reply g P pr e' r s") (auto simp: Some c on_exchange_def falls_greet split: prod.split)
  next
    case False
    then show ?thesis using assms by (auto simp: Some on_exchange_stray)
  qed
qed (simp add: on_exchange_def)

lemma falls_password:
  "falls M (rank M (LoggingIn ks name dev :: ('e, 'o, 'r) phase)) (on_login g pr ks name dev received s)"
  "falls M (rank M (Registering ks left name dev :: ('e, 'o, 'r) phase)) (on_register g pr ks left name dev received s)"
proof -
  show "falls M (rank M (LoggingIn ks name dev :: ('e, 'o, 'r) phase)) (on_login g pr ks name dev received s)"
  proof (cases "\<exists>pass. received = Some (Session_Code (session_code.Login pass))")
    case True
    then show ?thesis by (auto simp: on_login_def)
  next
    case False
    then show ?thesis by (simp add: on_login_other)
  qed
  show "falls M (rank M (Registering ks left name dev :: ('e, 'o, 'r) phase)) (on_register g pr ks left name dev received s)"
  proof (cases "\<exists>pass. received = Some (Session_Code (Register pass))")
    case True
    then show ?thesis by (auto simp: on_register_def falls_ask_password)
  next
    case False
    then show ?thesis by (simp add: on_register_other)
  qed
qed

lemma login_step_falls:
  assumes "max_auth_tries g \<le> M" "in_login ph" "strays_ok ph"
  shows "falls M (rank M ph) (task_step g P skey fresh pr ph received s)"
  using assms falls_name falls_version falls_exchange falls_password
  by (cases ph) (simp_all add: task_step_def del: rank.simps)

text \<open>
  A run of one task: at each packet the configuration and the state of the server are what the other tasks left.
\<close>

fun task_run ::
  "('sk, 'pk, 'dk, 'ek, 'ct, 'sig) primitives \<Rightarrow> 'sk \<Rightarrow> peer \<Rightarrow> ('sk, 'pk, 'dk, 'ek, 'ct, 'sig) net_phase
     \<Rightarrow> (('v, 'w) gate \<times> ('sk \<times> 'dk) \<times> ('pk, 'ek, 'ct, 'sig) net_code option \<times> ('pk, 'ek, 'ct, 'sig) net_hub) list
     \<Rightarrow> ('sk, 'pk, 'dk, 'ek, 'ct, 'sig) net_phase" where
  "task_run P skey pr ph [] = ph"
| "task_run P skey pr ph ((g, fresh, received, s) # xs) =
     task_run P skey pr (fst (task_step g P skey fresh pr ph received s)) xs"

lemma run_leaves_login:
  assumes "\<forall>(g, x) \<in> set xs. max_auth_tries g \<le> M" "strays_ok ph" "rank M ph \<le> length xs"
  shows "\<exists>k \<le> rank M ph. \<not> in_login (task_run P skey pr ph (take k xs))"
  using assms
proof (induction xs arbitrary: ph)
  case Nil
  then have "\<not> in_login ph" by (cases ph) simp_all
  then show ?case by (intro exI [of _ 0]) simp
next
  case (Cons x xs)
  obtain g fresh received s where x: "x = (g, fresh, received, s)" by (cases x)
  show ?case
  proof (cases "in_login ph")
    case True
    let ?ph = "fst (task_step g P skey fresh pr ph received s)"
    have f: "rank M ?ph < rank M ph" "strays_ok ?ph"
      using login_step_falls [OF _ True Cons.prems(2), of g M P skey fresh pr received s] Cons.prems(1) by (auto simp: falls_def x)
    obtain k where "k \<le> rank M ?ph" "\<not> in_login (task_run P skey pr ?ph (take k xs))"
      using Cons.IH [OF _ f(2)] Cons.prems(1,3) f(1) by auto
    then show ?thesis using f(1) by (intro exI [of _ "Suc k"]) (simp add: x)
  qed (intro exI [of _ 0], simp)
qed

section \<open>Who is served\<close>

definition serves :: "('e, 'o, 'r) phase \<times> ('o, 'r) hub \<Rightarrow> bool" where
  "serves r \<longleftrightarrow> (\<exists>ss. fst r = Serving ss)"

lemma serves_simps [simp]:
  "serves (ph, s) \<longleftrightarrow> (\<exists>ss. ph = Serving ss)" "\<not> serves (hang_up g pr grace s)" "\<not> serves (ask_password g pr ks tries name dev s)"
  "\<not> serves (ask_name g pr ks tries a b disabled s)" "\<not> serves (take_name g pr ks disabled name dev s)"
  "\<not> serves (welcome_client g pr ks s)" "\<not> serves (greet g pr ks s)"
  by (simp_all add: serves_def hang_up_def ask_password_def ask_name_def take_name_def welcome_client_def greet_def Let_def)

lemma name_unserved: "\<not> serves (on_name g pr ks left a b disabled received s)"
proof (cases "\<exists>name dev. received = Some (Session_Code (Username name dev))")
  case True
  then show ?thesis by (auto simp: on_name_def split: if_splits)
next
  case False
  then show ?thesis by (simp add: on_name_other)
qed

lemma version_unserved: "\<not> serves (on_version g pr ks n received s)"
proof (cases received)
  case (Some code)
  show ?thesis
  proof (cases "\<exists>v. code = Session_Code (Version v)")
    case True
    then show ?thesis by (auto simp: Some on_version_def split: if_splits)
  next
    case False
    then show ?thesis by (simp add: Some on_version_stray)
  qed
qed (simp add: on_version_def)

lemma exchange_unserved: "\<not> serves (on_exchange g P pr e n received s)"
proof (cases received)
  case (Some code)
  show ?thesis
  proof (cases "\<exists>r. code = Session_Code (KeyExchangeReply r)")
    case True
    then obtain r where c: "code = Session_Code (KeyExchangeReply r)" by blast
    show ?thesis by (cases "take_reply g P pr e r s") (auto simp: Some c on_exchange_def split: prod.splits if_splits)
  next
    case False
    then show ?thesis by (simp add: Some on_exchange_stray)
  qed
qed (simp add: on_exchange_def)

text \<open>What is so after a task has entered, whatever the accounts were changed to before.\<close>

lemma entered:
  fixes s :: "('o, 'r) hub"
  assumes e: "(enter g pr ks name dev s :: ('e, 'o, 'r) phase \<times> ('o, 'r) hub) = (Serving ss, s')" and wf: "server_wf (hb s)"
    and live: "identity (hb s) (pr_addr pr) = Some (None, Some name, None, pr_stream pr, Some ks)"
  shows "session_live ss (hb s') \<and> server_wf (hb s') \<and> se_addr ss = pr_addr pr \<and> se_channel ss = None \<and> se_keys ss = ks \<and> se_name ss = name \<and>
    se_id ss \<notin> set (session_ids (hb s)) \<and> se_role ss = role_or_default (user_role (sv_users (hb s')) name) \<and> sv_users (hb s') = sv_users (hb s)"
proof -
  obtain ss1 s1 where e1: "(enter g pr ks name dev s :: ('e, 'o, 'r) phase \<times> ('o, 'r) hub) = (Serving ss1, s1)"
    "ss1 = \<lparr> se_addr = pr_addr pr, se_stream = pr_stream pr, se_keys = ks, se_id = get_latest_id (hb s), se_name = name,
       se_role = role_or_default (user_role (sv_users (hb s)) name), se_channel = None \<rparr>"
    "session_live ss1 (hb s1)" "moves (pr_addr pr) (hb s) (hb s1)" "sv_users (hb s1) = sv_users (hb s)"
    by (rule enter_served [OF live, of g dev]) (rule that)
  then show ?thesis using e wf get_latest_id_fresh [of "hb s"] by (auto simp: moves_def)
qed

lemma enter_serves:
  fixes s :: "('o, 'r) hub"
  assumes "identity (hb s) (pr_addr pr) = Some (None, Some name, None, pr_stream pr, Some ks)"
  shows "serves (enter g pr ks name dev s :: ('e, 'o, 'r) phase \<times> ('o, 'r) hub)"
proof -
  obtain ss s' where "(enter g pr ks name dev s :: ('e, 'o, 'r) phase \<times> ('o, 'r) hub) = (Serving ss, s')"
    by (rule enter_served [OF assms, of g dev]) (rule that)
  then show ?thesis by simp
qed

lemma ids_roster: "roster v = roster u \<Longrightarrow> session_ids v = session_ids u"
  by (simp add: session_ids_roster)

lemma registered:
  fixes s :: "('o, 'r) hub"
  assumes r: "(register g pr ks name dev pass s :: ('e, 'o, 'r) phase \<times> ('o, 'r) hub) = (Serving ss, s')" and wf: "server_wf (hb s)"
    and live: "identity (hb s) (pr_addr pr) = Some (None, Some name, None, pr_stream pr, Some ks)"
  shows "session_live ss (hb s') \<and> server_wf (hb s') \<and> se_addr ss = pr_addr pr \<and> se_channel ss = None \<and> se_keys ss = ks \<and> se_name ss = name \<and>
    se_id ss \<notin> set (session_ids (hb s)) \<and> se_role ss = role_or_default (user_role (sv_users (hb s')) name) \<and>
    sv_users (hb s') = fst (users_add name (wd_hash (gt_world g) pass) (sv_users (hb s)))"
proof -
  obtain users first_user where u: "users_add name (wd_hash (gt_world g) pass) (sv_users (hb s)) = (users, first_user)" by fastforce
  let ?t = "edit_users (\<lambda>_. users) s"
  let ?u = "if first_user then say pr (Some ks) (Session_Code FirstUser) ?t else ?t"
  have t: "(enter g pr ks name dev ?u :: ('e, 'o, 'r) phase \<times> ('o, 'r) hub) = (Serving ss, s')" using r unfolding register_def u prod.case Let_def .
  have "roster (hb ?u) = roster (hb s)" by (simp add: edit_users_def say_def roster_simps) (simp add: roster_def)
  then have ids: "session_ids (hb ?u) = session_ids (hb s)" by (rule ids_roster)
  have "sv_users (hb ?u) = users" by (simp add: edit_users_def)
  with entered [OF t] wf live ids show ?thesis by (auto simp: u edit_users_def)
qed

lemma login_served:
  assumes "(on_login g pr ks name dev received s :: ('e, 'o, 'r) phase \<times> ('o, 'r) hub) = (Serving ss, s')"
  obtains pass where "received = Some (Session_Code (session_code.Login pass))" "pass \<noteq> []" "\<not> banned (sv_bans (hb s)) name"
    "verify_password (wd_compare (gt_world g)) name pass (hb s)" "(enter g pr ks name dev s :: ('e, 'o, 'r) phase \<times> ('o, 'r) hub) = (Serving ss, s')"
proof (cases "\<exists>pass. received = Some (Session_Code (session_code.Login pass))")
  case True
  then show ?thesis using assms that by (auto simp: on_login_def hang_up_def split: if_splits)
next
  case False
  then show ?thesis using assms by (simp add: on_login_other hang_up_def)
qed

lemma register_served:
  assumes "(on_register g pr ks left name dev received s :: ('e, 'o, 'r) phase \<times> ('o, 'r) hub) = (Serving ss, s')"
  obtains pass where "received = Some (Session_Code (Register pass))" "min_password_length (gt_config g) \<le> str_len pass"
    "(register g pr ks name dev pass s :: ('e, 'o, 'r) phase \<times> ('o, 'r) hub) = (Serving ss, s')"
proof (cases "\<exists>pass. received = Some (Session_Code (Register pass))")
  case True
  then show ?thesis using assms that
    by (auto simp: on_register_def validate_password_def ask_password_def hang_up_def split: if_splits)
next
  case False
  then show ?thesis using assms by (simp add: on_register_other hang_up_def)
qed

section \<open>Properties\<close>

text \<open>
  C12 (login_bounded). A login ends: whatever the client sends and whatever other tasks do in between, after at most
  \<open>2 * M + 10\<close> packets or timeouts the task is no longer in the handshake or the dialogue, where \<open>M\<close> bounds
  \<open>max_auth_tries\<close>; four reads for the key exchange, four for the version, and the tries for the name and the password.
\<close>

theorem login_bounded:
  assumes "\<forall>(g, x) \<in> set xs. max_auth_tries g \<le> M" "2 * M + 10 \<le> length xs"
  shows "\<exists>k \<le> 2 * M + 10. \<not> in_login (task_run P skey pr (Exchanging e 0) (take k xs))"
  using run_leaves_login [OF assms(1), of "Exchanging e 0" P skey pr] assms(2) by (simp add: add.commute)

definition demo_gate :: "(i64 list, nat) gate" where
  "demo_gate = \<lparr> gt_world = demo_world, check_client_version = True, gt_version = ustr ''1'', max_auth_tries = 3,
     min_username_length = 3, max_username_length = 16, allow_register = True, gt_server_name = ustr ''s'',
     gt_server_username = ustr ''server'', gt_git_hash = [] \<rparr>"

definition demo_peer :: peer where
  "demo_peer = \<lparr> pr_addr = (1, 80), pr_stream = 1, pr_nonce = replicate 32 0 \<rparr>"

theorem login_bounded_witness:
  "\<exists>k \<le> 16. \<not> in_login (task_run ref_prims 5 demo_peer (Exchanging \<lparr> ep_ecc = 6, ep_pq = 7 \<rparr> 0)
     (take k (replicate 16 (demo_gate, (6, 7), Some (Session_Code KeepAlive), demo False))))"
  using login_bounded [where M = 3 and P = ref_prims and skey = 5 and pr = demo_peer and e = "\<lparr> ep_ecc = 6, ep_pq = 7 \<rparr>" and
      xs = "replicate 16 (demo_gate, (6, 7), Some (Session_Code KeepAlive), demo False)"] by (simp add: demo_gate_def)

text \<open>
  C8 (login_verified). A task that starts to serve has just received either a password for an account whose hash it fits and
  which is not banned, or, for a name it has chosen, a new password that is long enough, and the account is stored. The
  session has that name, an id nobody has, no channel, the role of the account, and an entry that agrees with it.
\<close>

theorem login_verified:
  fixes ph :: "('sk, 'pk, 'dk, 'ek, 'ct, 'sig) net_phase"
  assumes "server_wf (hb s)" "phase_live pr ph (hb s)" "in_login ph" "task_step g P skey fresh pr ph received s = (Serving ss, s')"
  shows "session_live ss (hb s') \<and> server_wf (hb s') \<and> se_addr ss = pr_addr pr \<and> se_channel ss = None \<and>
    se_id ss \<notin> set (session_ids (hb s)) \<and> se_role ss = role_or_default (user_role (sv_users (hb s')) (se_name ss)) \<and>
    (\<exists>dev pass. ph = LoggingIn (se_keys ss) (se_name ss) dev \<and> received = Some (Session_Code (session_code.Login pass)) \<and>
        pass \<noteq> [] \<and> \<not> banned (sv_bans (hb s)) (se_name ss) \<and>
        verify_password (wd_compare (gt_world g)) (se_name ss) pass (hb s) \<and> sv_users (hb s') = sv_users (hb s) \<or>
      (\<exists>left. ph = Registering (se_keys ss) left (se_name ss) dev) \<and> received = Some (Session_Code (Register pass)) \<and>
        min_password_length (gt_config g) \<le> str_len pass \<and>
        sv_users (hb s') = fst (users_add (se_name ss) (wd_hash (gt_world g) pass) (sv_users (hb s))))"
proof -
  have sv: "serves (task_step g P skey fresh pr ph received s)" by (simp add: assms(4))
  show ?thesis
  proof (cases ph)
    case (LoggingIn ks name dev)
    have "(on_login g pr ks name dev received s :: ('sk, 'pk, 'dk, 'ek, 'ct, 'sig) net_phase \<times> ('pk, 'ek, 'ct, 'sig) net_hub) = (Serving ss, s')" using assms(4) by (simp add: LoggingIn task_step_def)
    then obtain pass where p: "received = Some (Session_Code (session_code.Login pass))" "pass \<noteq> []" "\<not> banned (sv_bans (hb s)) name"
      "verify_password (wd_compare (gt_world g)) name pass (hb s)" "(enter g pr ks name dev s :: ('sk, 'pk, 'dk, 'ek, 'ct, 'sig) net_phase \<times> ('pk, 'ek, 'ct, 'sig) net_hub) = (Serving ss, s')" by (rule login_served)
    from entered [OF p(5) assms(1)] assms(2) p(1-4) show ?thesis by (simp add: LoggingIn)
  next
    case (Registering ks left name dev)
    have "(on_register g pr ks left name dev received s :: ('sk, 'pk, 'dk, 'ek, 'ct, 'sig) net_phase \<times> ('pk, 'ek, 'ct, 'sig) net_hub) = (Serving ss, s')" using assms(4) by (simp add: Registering task_step_def)
    then obtain pass where p: "received = Some (Session_Code (Register pass))" "min_password_length (gt_config g) \<le> str_len pass"
      "(register g pr ks name dev pass s :: ('sk, 'pk, 'dk, 'ek, 'ct, 'sig) net_phase \<times> ('pk, 'ek, 'ct, 'sig) net_hub) = (Serving ss, s')" by (rule register_served)
    from registered [OF p(3) assms(1)] assms(2) p(1,2) show ?thesis by (simp add: Registering)
  next
    case (Exchanging e n)
    then show ?thesis using sv by (simp add: task_step_def exchange_unserved)
  next
    case (Versioning ks n)
    then show ?thesis using sv by (simp add: task_step_def version_unserved)
  next
    case (Naming ks left a b disabled)
    then show ?thesis using sv by (simp add: task_step_def name_unserved)
  qed (use assms(3) in simp_all)
qed

text \<open>A connection that has chosen the name of a new account.\<close>

definition guest :: "('o, 'r) hub" where
  "guest = (demo False)\<lparr> hb := empty_server\<lparr> sv_conns := [((1, 80), NonAuthenticated ((waiting 1)\<lparr> n_username := Some (ustr ''ann''), n_peer_addr := (1, 80) \<rparr>))],
     sv_peer := [1 \<mapsto> (1, 80)] \<rparr> \<rparr>"

lemma guest_ok:
  "server_wf (hb guest)" "identity (hb guest) (1, 80) = Some (None, Some (ustr ''ann''), None, 1, Some ([], []))"
  by (simp_all add: guest_def demo_def empty_server_def server_wf_def roster_def roster_ok_def waiting_def List.map_filter_def
      client_view_def identity_of_def)

lemmas guest_simps = guest_ok guest_ok(2) [unfolded One_nat_def]

theorem login_verified_witness:
  "\<exists>ss s'. task_step demo_gate ref_prims 5 (6, 7) demo_peer (Registering ([], []) 2 (ustr ''ann'') None)
      (Some (Session_Code (Register (ustr ''passwords'')))) guest = (Serving ss, s') \<and> se_name ss = ustr ''ann'' \<and> session_live ss (hb s')"
proof -
  let ?ph = "Registering ([], []) 2 (ustr ''ann'') None :: (u8, u8, u8, u8, u8, u8) net_phase"
  let ?r = "task_step demo_gate ref_prims 5 (6, 7) demo_peer ?ph (Some (Session_Code (Register (ustr ''passwords'')))) guest"
  have live: "phase_live demo_peer ?ph (hb guest)" by (simp add: demo_peer_def guest_simps)
  obtain users b where u: "users_add (ustr ''ann'') (wd_hash (gt_world demo_gate) (ustr ''passwords'')) (sv_users (hb (guest :: (u8, u8, u8, u8) net_hub))) = (users, b)"
    by fastforce
  let ?t = "edit_users (\<lambda>_. users) guest :: (u8, u8, u8, u8) net_hub"
  let ?u = "if b then say demo_peer (Some ([], [])) (Session_Code FirstUser) ?t else ?t"
  have "validate_password (gt_config demo_gate) (ustr ''passwords'')" by code_simp
  then have r: "?r = enter demo_gate demo_peer ([], []) (ustr ''ann'') None ?u"
    by (simp add: task_step_def on_register_def register_def u Let_def)
  have entry: "identity (hb ?u) (pr_addr demo_peer) = Some (None, Some (ustr ''ann''), None, pr_stream demo_peer, Some ([], []))"
    by (simp add: edit_users_def demo_peer_def guest_simps)
  have "serves ?r" unfolding r by (rule enter_serves [OF entry])
  then obtain ss s' where "?r = (Serving ss, s')" by (cases ?r) auto
  from login_verified [OF guest_ok(1) live _ this] this show ?thesis by auto
qed



text \<open>
  C13 (tasks_never_panic). With the documented behaviour of the cryptography, a task whose phase agrees with its entry does not panic,
  whatever it receives: the keys, the offer, the time of the last exchange and the entry that it unwraps are there.
\<close>

theorem tasks_never_panic:
  assumes "chat_ok (wd_chat (gt_world g))" "prims_ok P" "phase_live pr ph (hb s)" "ph \<noteq> Crashed"
  shows "fst (task_step g P skey fresh pr ph received s) \<noteq> Crashed"
proof (cases ph)
  case (Serving ss)
  then show ?thesis using assms(3) by (cases received) (simp_all add: task_step_def packet_no_crash [OF assms(1,2)])
next
  case (Rekeying ss e n code)
  then show ?thesis using assms(3) by (simp add: task_step_def rekey_no_crash [OF assms(1)])
next
  case (LoggingIn ks name dev)
  then show ?thesis using assms(3) by (simp add: task_step_def login_no_crash del: phase_live.simps)
next
  case (Registering ks left name dev)
  then show ?thesis using assms(3) by (simp add: task_step_def login_no_crash(2))
qed (use assms in \<open>simp_all add: task_step_def exchange_no_crash version_no_crash name_no_crash\<close>)

theorem tasks_never_panic_witness:
  "fst (task_step demo_gate ref_prims 5 (6, 7) demo_peer (LoggingIn ([], []) (ustr ''ann'') None)
     (Some (Session_Code (session_code.Login (ustr ''guess'')))) guest) \<noteq> Crashed"
  by (rule tasks_never_panic) (simp_all add: demo_gate_def demo_world_def chat_ok_ref prims_ok_ref demo_peer_def guest_simps)

text \<open>
  A packet of a logged-in client whose authentication fails ends the task at once, but leaves its session
  in the registry as it was: the entry, the id and the name stay taken, although the documentation of the task says that
  every exit path removes the connection.
\<close>

theorem ghost_session:
  assumes "session_live ss (hb s)" "se_addr ss = pr_addr pr"
    "decrypt_packet (wd_chat (gt_world g)) GW GH packet (se_keys ss) = Inr None"
    "length packet \<le> packet_limit pc False True" "length packet < 2 ^ 32"
  shows "task_read K pc clock g P skey fresh pr (Serving ss) (u32_to_be_bytes (of_nat (length packet)) @ packet @ rest) s = Inr (Ended, rest, s) \<and>
    se_id ss \<in> set (session_ids (hb s)) \<and> user_connected (se_name ss) (hb s)"
proof -
  obtain x where x: "map_of (sv_conns (hb s)) (pr_addr pr) = Some (Authenticated x)" "a_id x = se_id ss" "a_username x = se_name ss"
    using session_entry [OF assms(1)] assms(2) by metis
  have "read_exact 4 (u32_to_be_bytes (of_nat (length packet)) @ packet @ rest) = Some (u32_to_be_bytes (of_nat (length packet)), packet @ rest)"
    "read_exact (length packet) (packet @ rest) = Some (packet, rest)"
    by (simp_all add: read_exact_def)
  moreover have "unat (u32_from_be_bytes (u32_to_be_bytes (of_nat (length packet)))) = length packet"
    using assms(5) by (simp add: unsigned_of_nat take_bit_nat_eq_self)
  ultimately have "read_tcp (wd_chat (gt_world g)) pc False (pr_addr pr) (OneShot (Some (se_keys ss)))
      (u32_to_be_bytes (of_nat (length packet)) @ packet @ rest) (hb s) = Inr (None, rest, OneShot (Some (se_keys ss)), hb s)"
    using assms(3,4) x(1) by (simp add: read_tcp_def Let_def unprotect_def)
  then have "task_read K pc clock g P skey fresh pr (Serving ss) (u32_to_be_bytes (of_nat (length packet)) @ packet @ rest) s = Inr (Ended, rest, s)"
    by (simp add: task_read_def receive_def x(1) task_step_def)
  moreover have mem: "(pr_addr pr, Authenticated x) \<in> set (sv_conns (hb s))" by (rule map_of_SomeD [OF x(1)])
  have "se_id ss \<in> set (session_ids (hb s))" unfolding session_ids_def map_filter_set by (rule bexI [OF _ mem]) (simp add: x(2))
  moreover have "user_connected (se_name ss) (hb s)" unfolding user_connected_def list_ex_iff by (rule bexI [OF _ mem]) (simp add: x(3))
  ultimately show ?thesis by blast
qed

theorem ghost_session_witness:
  "task_read list_codec calm (0, 0, 0, 0) demo_gate ref_prims 5 (6, 7) demo_peer (Serving ann) (u32_to_be_bytes 1 @ [7]) (demo False) =
     Inr (Ended, [], demo False) \<and> user_connected (ustr ''ann'') (hb (demo False :: (u8, u8, u8, u8) net_hub))"
proof -
  have "decrypt_packet (wd_chat (gt_world demo_gate)) GW GH [7] (se_keys ann) = Inr None"
    by (simp add: decrypt_packet_def packet_try_from_def)
  then show ?thesis
    using ghost_session [OF demo_live(1), of demo_peer demo_gate "[7]" calm list_codec "(0, 0, 0, 0)" ref_prims 5 "(6, 7)" "[]"]
    by (simp add: ann_def demo_peer_def packet_limit_def calm_def MAX_PACKET_CEILING_def MEGABYTE_def)
qed

end
