(* ===== verification/Pictures.thy ===== *)
theory Pictures
  imports Conduct
begin

text \<open>
  The pictures and clips behind the history, the profiles and the server icon. No packet handler deletes a file that
  something names, and none names a file that nothing named before; so along every run of the server a picture that
  a record, an avatar or the icon names is on disk.
\<close>

section \<open>Pictures\<close>

lemma image_name_inj: "image_name x = image_name y \<longleftrightarrow> x = y"
proof
  have "ucast (ucast c :: u32) = c" for c :: u8 by (rule bit_word_eqI) (simp add: bit_simps)
  then have inj: "inj (ucast :: u8 \<Rightarrow> u32)" by (metis injI)
  assume "image_name x = image_name y"
  then have "hex x = hex y" using inj_map_eq_map [OF inj] by (simp add: image_name_def from_ascii_def)
  then show "x = y" by (metis unhex_pairs_hex option.inject)
qed simp

definition nameless :: "('o, 'r) hub \<Rightarrow> u8 list \<Rightarrow> bool" where
  "nameless s x = unnamed (sv_users (hb s)) (sv_icon (hb s)) (sv_history (hb s)) x"

definition keeps_pictures :: "('o, 'r) hub \<Rightarrow> ('o, 'r) hub \<Rightarrow> bool" where
  "keeps_pictures s s' \<longleftrightarrow> (\<forall>x. \<not> nameless s' x \<longrightarrow> map_of (hb_images s') (image_name x) = map_of (hb_images s) (image_name x))"

lemma keeps_pictures_refl [simp]: "keeps_pictures s s"
  by (simp add: keeps_pictures_def)

lemma keeps_pictures_op:
  assumes "\<And>v. docs (f v) = docs v"
  shows "keeps_pictures s (on_server f t) = keeps_pictures s t"
  using docs_fields [OF assms] by (simp add: keeps_pictures_def nameless_def)

lemma removed_images:
  "map_of (hb_images (fold disk_effect es s)) (image_name x) =
     (if RemoveImage x \<in> set es then None else map_of (hb_images s) (image_name x))"
proof (induction es arbitrary: s)
  case (Cons e es)
  then show ?case by (cases e) (auto simp: delete_conv' image_name_inj)
qed simp

lemma pictures_history:
  assumes "with_history f s = (r, s')"
    "\<And>r h es. f (sv_history (hb s)) = (r, h, es) \<Longrightarrow> RemoveImage x \<in> set es \<Longrightarrow> unnamed (sv_users (hb s)) (sv_icon (hb s)) h x"
  shows "\<not> nameless s' x \<Longrightarrow> map_of (hb_images s') (image_name x) = map_of (hb_images s) (image_name x)"
  using with_historyD [OF assms(1)] assms(2) by (auto simp: removed_images nameless_def)

lemma no_removal:
  "edit i name content h = (r, h', es) \<Longrightarrow> RemoveImage x \<notin> set es"
  "heart i name h = (r', h', es) \<Longrightarrow> RemoveImage x \<notin> set es" "pin n i h = (r'', h', es) \<Longrightarrow> RemoveImage x \<notin> set es"
  by (auto simp: edit_def heart_def pin_def Let_def split: option.splits if_splits)

lemma pictures_rules:
  "with_history (delete_msg (sv_users (hb s)) (sv_icon (hb s)) i) s = (r, s') \<Longrightarrow> keeps_pictures s s'"
  "with_history (edit i name content) s = (r, s') \<Longrightarrow> keeps_pictures s s'"
  "with_history (heart i name) s = (r', s') \<Longrightarrow> keeps_pictures s s'" "with_history (pin n i) s = (r'', s') \<Longrightarrow> keeps_pictures s s'"
  unfolding keeps_pictures_def
  by (auto elim!: pictures_history [rotated 2] dest: no_removal simp: delete_files)

lemma pictures_kept_message:
  assumes "keep_message w ss (\<lambda>limit users icon. push limit users icon name content img clip ts rep) s = (i, s')"
  shows "keeps_pictures s s'"
  using assms unfolding keeps_pictures_def keep_message_def
  by (auto elim!: pictures_history [rotated 2] simp: push_files split: if_splits prod.splits)

lemma map_of_keys_filter: "map_of (filter (\<lambda>(k, _). P k) xs) k = (if P k then map_of xs k else None)"
  by (induction xs) auto

lemma swept_nameless:
  "image_name x \<in> set (sweep_images users icon h files) \<Longrightarrow> unnamed users icon h x"
  by (auto simp: sweep_images_def unnamed_def image_name_def map_filter_set avatars_def names_avatar_def list_ex_iff
      image_iff split: option.splits)

lemma pictures_sweep:
  assumes "hb_images t = hb_images s"
  shows "keeps_pictures s (sweep t)"
proof -
  let ?swept = "sweep_images (sv_users (hb t)) (sv_icon (hb t)) (sv_history (hb t)) (map fst (hb_images t))"
  have "map_of (hb_images (sweep t)) n = (if n \<in> set ?swept then None else map_of (hb_images t) n)" for n
    by (simp add: sweep_def Let_def map_of_keys_filter)
  then show ?thesis using assms swept_nameless by (auto simp: keeps_pictures_def nameless_def)
qed

lemma keeps_same_images: "hb_images s' = hb_images s \<Longrightarrow> keeps_pictures s s'"
  by (simp add: keeps_pictures_def)

lemmas picture_rules = keeps_pictures_op store_push pictures_rules pictures_kept_message pictures_sweep keeps_same_images

lemma pictures_handle:
  assumes "final (handle w ss code s) = Some s'"
  shows "keeps_pictures s s'"
  using assms
proof (cases rule: handle_cases)
  case (chat c)
  then show ?thesis
    by (cases c; clarsimp simp: handler_defs packet_defs picture_rules Let_def split: if_splits option.splits prod.splits bool.splits)
next
  case (lobby c)
  then show ?thesis
    by (cases c; auto simp: handler_defs packet_defs keeps_same_images Let_def split: if_splits option.splits prod.splits)
next
  case (upload c)
  then show ?thesis
    by (cases c; clarsimp simp: handler_defs packet_defs picture_rules Let_def split: if_splits option.splits prod.splits sum.splits)
next
  case (media c)
  then show ?thesis
    by (cases c; clarsimp simp: handler_defs packet_defs keeps_same_images Let_def split: if_splits option.splits prod.splits)
next
  case (server c)
  then show ?thesis
    by (cases c; clarsimp simp: handler_defs packet_defs keeps_pictures_op pictures_sweep keeps_same_images rbind_eq_Inr_iff Let_def
        split: if_splits option.splits prod.splits sum.splits bool.splits)
next
  case (account c)
  then show ?thesis
    by (cases c; clarsimp simp: handler_defs packet_defs keeps_pictures_op pictures_sweep keeps_same_images Let_def
        split: if_splits option.splits prod.splits sum.splits bool.splits)
qed (simp_all add: keeps_same_images)

section \<open>Named pictures exist\<close>

lemma names_avatar_iff: "names_avatar d x \<longleftrightarrow> (\<exists>u. avatar d u = Some x)"
proof -
  have "u \<in> set (users_all d)" if "avatar d u = Some x" for u
    using that by (auto simp: avatar_def profile_field_def table_of_def users_all_def bind_eq_Some_conv
        simp flip: dom_map_of_conv_image_fst)
  then show ?thesis by (auto simp: names_avatar_def list_ex_iff)
qed

lemma avatar_edits [simp]:
  "avatar (set_password n h d) u = avatar d u" "avatar (set_color n b c d) u = avatar d u"
  "avatar (set_user_role n r d) u = avatar d u" "avatar (set_profile n p d) u = avatar d u"
proof -
  have "AVATAR_KEY \<notin> set profile_KEYS" using keys_distinct(1) by simp
  then have "map_of (zip profile_KEYS (profile_fields p)) AVATAR_KEY = None"
    by (auto simp: map_of_eq_None_iff dest: set_zip_leftD)
  moreover have "distinct (map fst (zip profile_KEYS (profile_fields p)))"
    using keys_distinct(1) by (simp add: profile_KEYS_def profile_fields_def)
  ultimately show "avatar (set_profile n p d) u = avatar d u" by (simp add: avatar_def set_profile_def profile.read_fold)
qed (use keys_distinct in \<open>auto simp: avatar_def set_password_def set_color_def set_user_role_def account_write_profile COLOR_KEYS_def\<close>)

lemma avatar_set:
  "avatar (set_avatar n p d) u = Some x \<Longrightarrow> avatar d u = Some x \<or> p = Some x"
  "avatar (users_remove n d) u = Some x \<Longrightarrow> avatar d u = Some x"
proof -
  have hex: "unhex (utf8 (from_ascii (hex h))) = Some x \<Longrightarrow> h = x" for h
  proof -
    have "utf8 (from_ascii (hex h)) = hex h" using hex_ascii by (rule utf8_from_ascii)
    then show "unhex (utf8 (from_ascii (hex h))) = Some x \<Longrightarrow> h = x" by (simp add: unhex_def unhex_pairs_hex split: if_splits)
  qed
  show "avatar (set_avatar n p d) u = Some x \<Longrightarrow> avatar d u = Some x \<or> p = Some x"
    using hex by (auto simp: avatar_def set_avatar_def profile.read_store unhex_def utf8_def split: if_splits option.splits)
  show "avatar (users_remove n d) u = Some x \<Longrightarrow> avatar d u = Some x"
    by (auto simp: avatar_def users_remove_def profile_field_def table_of_def delete_conv' bind_eq_Some_conv split: if_splits)
qed

text \<open>No record has both a picture and a clip.\<close>

definition one_file :: "history \<Rightarrow> bool" where
  "one_file h \<longleftrightarrow> (\<forall>m \<in> set (h_records h). r_image m = None \<or> r_voice m = None)"

text \<open>A step names no file that nothing named before.\<close>

definition names_nothing_new :: "('o, 'r) hub \<Rightarrow> ('o, 'r) hub \<Rightarrow> bool" where
  "names_nothing_new s s' \<longleftrightarrow> (\<forall>x. nameless s x \<longrightarrow> nameless s' x) \<and> (one_file (sv_history (hb s)) \<longrightarrow> one_file (sv_history (hb s')))"

lemma new_refl [simp]: "names_nothing_new s s"
  by (simp add: names_nothing_new_def)

lemma new_op:
  assumes "\<And>v. docs (f v) = docs v"
  shows "names_nothing_new s (on_server f t) = names_nothing_new s t"
  using docs_fields [OF assms] by (simp add: names_nothing_new_def nameless_def)

text \<open>Records that keep their files, some of them or all.\<close>

lemma new_history:
  assumes "with_history f s = (r, s')"
    "\<And>r h es. f (sv_history (hb s)) = (r, h, es) \<Longrightarrow>
       (\<lambda>m. (r_image m, r_voice m)) ` set (h_records h) \<subseteq> (\<lambda>m. (r_image m, r_voice m)) ` set (h_records (sv_history (hb s)))"
  shows "names_nothing_new s s'"
proof -
  obtain h es where h: "f (sv_history (hb s)) = (r, h, es)" "hb s' = (hb s)\<lparr> sv_history := h \<rparr>"
    using with_historyD [OF assms(1)] by blast
  have "\<exists>m' \<in> set (h_records (sv_history (hb s))). r_image m = r_image m' \<and> r_voice m = r_voice m'" if "m \<in> set (h_records h)" for m
    using assms(2) [OF h(1)] that by (force simp: subset_iff image_iff)
  then show ?thesis using h(2) unfolding names_nothing_new_def nameless_def unnamed_def one_file_def stored_file_def
    by (fastforce split: option.splits)
qed

lemma files_update:
  assumes "m \<in> set (h_records (update_record k f h))" "k < length (h_records h)"
    "\<And>m. r_image (f m) = r_image m \<and> r_voice (f m) = r_voice m"
  shows "(r_image m, r_voice m) \<in> (\<lambda>m. (r_image m, r_voice m)) ` set (h_records h)"
proof -
  have "m = f (h_records h ! k) \<or> m \<in> set (h_records h)"
    using assms(1) set_update_subset_insert [of "h_records h" k "f (h_records h ! k)"] by (auto simp: update_record_def)
  then show ?thesis using assms(2,3) by auto
qed

lemma new_rules:
  "with_history (delete_msg users icon i) s = (b, s') \<Longrightarrow> names_nothing_new s s'"
  "with_history (edit i name content) s = (b, s') \<Longrightarrow> names_nothing_new s s'"
  "with_history (heart i name) s = (hs, s') \<Longrightarrow> names_nothing_new s s'"
  "with_history (pin n i) s = (p, s') \<Longrightarrow> names_nothing_new s s'"
proof -
  show "with_history (delete_msg users icon i) s = (b, s') \<Longrightarrow> names_nothing_new s s'"
    by (erule new_history) (auto simp: delete_msg_def Let_def dest: subsetD [OF remove_nth_set] split: option.splits)
  show "with_history (edit i name content) s = (b, s') \<Longrightarrow> names_nothing_new s s'"
    by (erule new_history) (auto simp: edit_def Let_def dest!: hist_find_less intro: files_update split: option.splits if_splits)
  show "with_history (heart i name) s = (hs, s') \<Longrightarrow> names_nothing_new s s'"
    by (erule new_history) (auto simp: heart_def Let_def dest!: hist_find_less intro: files_update split: option.splits)
  show "with_history (pin n i) s = (p, s') \<Longrightarrow> names_nothing_new s s'"
    by (erule new_history) (auto simp: pin_def Let_def dest!: hist_find_less intro: files_update split: option.splits if_splits)
qed

lemma push_records: "push limit users icon name content img clip ts rep h = (i, h', es) \<Longrightarrow> m \<in> set (h_records h') \<Longrightarrow>
    m \<in> set (h_records h) \<or> r_image m = img \<and> r_voice m = clip"
  by (auto simp: push_def take_id_def Let_def split: if_splits dest!: in_set_dropD)

text \<open>Storing a picture or a clip that something names already.\<close>

lemma new_kept:
  assumes "keep_message w ss (\<lambda>limit users icon. push limit users icon name content img clip ts rep) s = (i, s')"
    "img = None \<or> clip = None" "\<And>y. img = Some y \<or> (\<exists>c. clip = Some c \<and> vn_hash c = y) \<Longrightarrow> \<not> nameless s y"
  shows "names_nothing_new s s'"
proof -
  obtain h es where h: "hb s' = (hb s)\<lparr> sv_history := h \<rparr>"
    "(i, h, es) = (if se_channel ss = None \<and> persistent_messages (wd_server w)
       then push (max_persistent_messages w) (sv_users (hb s)) (sv_icon (hb s)) name content img clip ts rep (sv_history (hb s))
       else (case next_id (sv_history (hb s)) of (i, h) \<Rightarrow> (i, h, [])))"
    using keep_messageD [OF assms(1)] by blast
  have rec: "m \<in> set (h_records (sv_history (hb s))) \<or> r_image m = img \<and> r_voice m = clip" if "m \<in> set (h_records h)" for m
    using h(2) [symmetric] that push_records by (auto simp: next_id_def take_id_def split: if_splits)
  have "stored_file m \<noteq> Some x" if "m \<in> set (h_records h)" "nameless s x" for m x
  proof
    assume st: "stored_file m = Some x"
    from rec [OF that(1)] show False
    proof
      assume "m \<in> set (h_records (sv_history (hb s)))"
      then show False using st that(2) by (auto simp: nameless_def unnamed_def)
    next
      assume "r_image m = img \<and> r_voice m = clip"
      then show False using st assms(3) [of x] that(2) by (auto simp: stored_file_def split: option.splits)
    qed
  qed
  moreover have "one_file h" if "one_file (sv_history (hb s))"
    using that assms(2) by (auto simp: one_file_def dest!: rec)
  ultimately show ?thesis using h(1) by (auto simp: names_nothing_new_def nameless_def unnamed_def)
qed

lemma named_record: "m \<in> set (h_records (sv_history (hb s))) \<Longrightarrow> stored_file m = Some x \<Longrightarrow> \<not> nameless s x"
  by (auto simp: nameless_def unnamed_def)

lemma stored_named:
  assumes "is_stored s x"
  shows "\<not> nameless s x"
proof (cases "has_image (sv_history (hb s)) x")
  case True
  then obtain m where "m \<in> set (h_records (sv_history (hb s)))" "r_image m = Some x" by (auto simp: has_image_def list_ex_iff)
  then show ?thesis using named_record [of m s x] by (simp add: stored_file_def)
qed (use assms in \<open>auto simp: is_stored_def stored_def nameless_def unnamed_def\<close>)

lemma voice_named:
  assumes "one_file (sv_history (hb s))" "voice (sv_history (hb s)) x = Some clip"
  shows "\<not> nameless s (vn_hash clip)"
proof -
  have "find_voice x ms = Some clip \<Longrightarrow> \<exists>m \<in> set ms. r_voice m = Some clip" for ms
    by (induction ms) (auto split: option.splits if_splits)
  then obtain m where m: "m \<in> set (h_records (sv_history (hb s)))" "r_voice m = Some clip" using assms(2) by (auto simp: voice_def)
  then have "r_image m = None" using assms(1) by (auto simp: one_file_def)
  then show ?thesis using named_record [OF m(1), of "vn_hash clip"] m(2) by (simp add: stored_file_def)
qed

lemma new_kept_text:
  "keep_message w ss (\<lambda>limit users icon. push limit users icon name content None None ts rep) s = (i, s') \<Longrightarrow> names_nothing_new s s'"
  by (erule new_kept) simp_all

lemma new_kept_image:
  "keep_message w ss (\<lambda>limit users icon. push limit users icon name content (Some x) None ts rep) s = (i, s') \<Longrightarrow>
   is_stored s x \<Longrightarrow> names_nothing_new s s'"
  by (erule new_kept) (auto simp: stored_named)

lemma new_kept_voice:
  "keep_message w ss (\<lambda>limit users icon. push limit users icon name content None (Some clip) ts rep) s = (i, s') \<Longrightarrow>
   voice (sv_history (hb s)) x = Some clip \<Longrightarrow> one_file (sv_history (hb s)) \<Longrightarrow> names_nothing_new s s'"
  by (erule new_kept) (auto simp: voice_named)

lemma new_users:
  assumes "names_nothing_new s t"
    "\<And>u x. avatar (f (sv_users (hb t))) u = Some x \<Longrightarrow> avatar (sv_users (hb t)) u = Some x \<or> \<not> nameless s x"
  shows "names_nothing_new s (edit_users f t)"
proof -
  have "nameless (edit_users f t) x" if "nameless s x" for x
  proof -
    have t: "nameless t x" using assms(1) that by (simp add: names_nothing_new_def)
    then have "avatar (f (sv_users (hb t))) u \<noteq> Some x" for u
      using assms(2) [of u x] that by (auto simp: nameless_def unnamed_def names_avatar_iff)
    then show ?thesis using t by (simp add: nameless_def unnamed_def names_avatar_iff edit_users_def)
  qed
  then show ?thesis using assms(1) by (simp add: names_nothing_new_def edit_users_def)
qed

lemma new_edits:
  assumes "names_nothing_new s t"
  shows "names_nothing_new s (edit_users (set_password n h) t)" "names_nothing_new s (edit_users (set_color n b c) t)"
    "names_nothing_new s (edit_users (set_user_role n r) t)" "names_nothing_new s (edit_users (set_profile n p) t)"
    "names_nothing_new s (edit_users (users_remove n) t)" "names_nothing_new s (edit_users (set_avatar n None) t)"
    "is_stored s x \<Longrightarrow> names_nothing_new s (edit_users (set_avatar n (Some x)) t)"
  by (rule new_users [OF assms]; auto dest: avatar_set simp: stored_named)+

lemma hex_visible: "\<forall>c \<in> set (from_ascii (hex bytes)). \<not> is_whitespace c"
proof -
  have all: "list_all (\<lambda>d :: u8. \<not> is_whitespace (ucast (hex_digit d))) (map of_nat [0..<16])" by code_simp
  have "\<not> is_whitespace (ucast (hex_digit d))" if "d < 16" for d
  proof -
    have "unat d < 16" using that by (simp add: word_less_nat_alt)
    then have "of_nat (unat d) \<in> set (map of_nat [0..<16] :: u8 list)"
      by (metis atLeastLessThan_iff image_eqI le0 list.set_map set_upt)
    then have "d \<in> set (map of_nat [0..<16] :: u8 list)" by simp
    with all show ?thesis unfolding list_all_iff by blast
  qed
  then show ?thesis using nibbles(1,2) by (induction bytes) (auto simp: hex_concat from_ascii_def)
qed

lemma trim_visible:
  assumes "\<forall>c \<in> set t. \<not> is_whitespace c"
  shows "trim t = t"
proof -
  have "dropWhile is_whitespace xs = xs" if "\<forall>c \<in> set xs. \<not> is_whitespace c" for xs using that by (cases xs) simp_all
  from this [of t] this [of "rev t"] assms show ?thesis by (simp add: trim_def)
qed

lemma icon_stored:
  assumes "server_icon (set_server_icon picture) = Some x"
  shows "picture = Some x"
proof -
  obtain h where h: "picture = Some h" using assms by (cases picture) (auto simp: server_icon_def set_server_icon_def)
  have "utf8 (trim (from_ascii (hex h))) = hex h" using trim_visible [OF hex_visible] utf8_from_ascii [OF hex_ascii] by simp
  then show ?thesis using assms h
    by (simp add: server_icon_def set_server_icon_def unhex_def unhex_pairs_hex split: if_splits)
qed

lemma new_icon:
  "names_nothing_new s (put_icon None s)" "is_stored s x \<Longrightarrow> names_nothing_new s (put_icon (Some x) s)"
  using icon_stored [of None] icon_stored [of "Some x"] stored_named [of s x]
  by (auto simp: names_nothing_new_def nameless_def unnamed_def put_icon_def)

lemma new_sweep [simp]: "names_nothing_new s (sweep t) = names_nothing_new s t"
  by (simp add: names_nothing_new_def nameless_def)

lemmas new_names = new_op new_rules store_push new_kept_text new_kept_image new_kept_voice

lemma new_chat: "final (handle_chat w ss c s) = Some s' \<Longrightarrow> names_nothing_new s s'"
  by (cases c; clarsimp simp: handler_defs packet_defs new_names Let_def
      split: if_splits option.splits prod.splits bool.splits)

lemma new_file: "one_file (sv_history (hb s)) \<Longrightarrow> final (handle_file w ss c s) = Some s' \<Longrightarrow> names_nothing_new s s'"
  by (cases c; clarsimp simp: handler_defs packet_defs new_names Let_def
      split: if_splits option.splits prod.splits sum.splits)

lemma new_server: "final (handle_server w ss c s) = Some s' \<Longrightarrow> names_nothing_new s s'"
  by (cases c; clarsimp simp: handler_defs answer_def broadcast_def new_op new_edits new_icon rbind_eq_Inr_iff Let_def
      split: if_splits option.splits prod.splits sum.splits bool.splits) (simp_all add: names_nothing_new_def nameless_def)

lemma new_account: "final (handle_account w ss c s) = Some s' \<Longrightarrow> names_nothing_new s s'"
  by (cases c; clarsimp simp: handler_defs answer_def broadcast_def new_op new_edits Let_def
      split: if_splits option.splits prod.splits sum.splits bool.splits)

lemma new_handle:
  assumes "one_file (sv_history (hb s))" "final (handle w ss code s) = Some s'"
  shows "names_nothing_new s s'"
  using assms(2)
proof (cases rule: handle_cases)
  case (chat c)
  then show ?thesis using new_chat by blast
next
  case (lobby c)
  then show ?thesis by (cases c; auto simp: handler_defs packet_defs names_nothing_new_def nameless_def Let_def docs_fields [OF docs_move]
        split: if_splits option.splits prod.splits)
next
  case (upload c)
  then show ?thesis using new_file [OF assms(1)] by blast
next
  case (media c)
  then show ?thesis
    by (cases c; clarsimp simp: handler_defs packet_defs names_nothing_new_def nameless_def Let_def
        split: if_splits option.splits prod.splits)
next
  case (server c)
  then show ?thesis using new_server by blast
next
  case (account c)
  then show ?thesis using new_account by blast
qed (simp_all add: new_op)

section \<open>Runs of the server\<close>

text \<open>
  One packet of some session, under one configuration, clock and source of random numbers or another. A history whose next id is the last of its type is left out: there the counter
  overflows.
\<close>

inductive hub_step :: "('v, 'w) chat_env \<Rightarrow> ('o, 'r) hub \<Rightarrow> ('o, 'r) hub \<Rightarrow> bool" for C where
  packet: "wd_chat w = C \<Longrightarrow> session_live ss (hb s) \<Longrightarrow> h_next (sv_history (hb s)) + 1 \<noteq> 0 \<Longrightarrow>
     final (handle w ss code s) = Some s' \<Longrightarrow> hub_step C s s'"

definition pictures_ok :: "('o, 'r) hub \<Rightarrow> bool" where
  "pictures_ok s \<longleftrightarrow> one_file (sv_history (hb s)) \<and> (\<forall>x. \<not> nameless s x \<longrightarrow> map_of (hb_images s) (image_name x) \<noteq> None)"

definition hub_ok :: "('o, 'r) hub \<Rightarrow> bool" where
  "hub_ok s \<longleftrightarrow> server_wf (hb s) \<and> hist_inv (sv_history (hb s)) \<and> pictures_ok s"

lemma hub_ok_step:
  assumes "hub_step C s s'" "hub_ok s"
  shows "hub_ok s' \<and> keeps_pictures s s'"
  using assms(1)
proof (cases rule: hub_step.cases)
  case (packet w ss code)
  have inv: "server_wf (hb s)" "hist_inv (sv_history (hb s))" "one_file (sv_history (hb s))" "pictures_ok s"
    using assms(2) by (simp_all add: hub_ok_def pictures_ok_def)
  have kept: "keeps_pictures s s'" by (rule pictures_handle [OF packet(4)])
  have new: "names_nothing_new s s'" by (rule new_handle [OF inv(3) packet(4)])
  have "hist_inv (sv_history (hb s'))"
    using history_handle [OF packet(3,4)] hist_step_inv inv(2) by (auto simp: history_step_def)
  moreover have "pictures_ok s'"
    using kept new inv(3,4) by (simp add: pictures_ok_def keeps_pictures_def names_nothing_new_def) metis
  ultimately show ?thesis using kept wf_handle [OF inv(1) packet(4)] by (simp add: hub_ok_def)
qed

lemma hub_ok_run: "(hub_step C)\<^sup>*\<^sup>* s s' \<Longrightarrow> hub_ok s \<Longrightarrow> hub_ok s'"
  by (induction rule: rtranclp_induct) (auto dest: hub_ok_step)

section \<open>Properties\<close>


lemma demo_ok: "hub_ok (demo q)"
  using demo_wf by (simp add: hub_ok_def pictures_ok_def nameless_def unnamed_def one_file_def hist_inv_def demo_def crew_def
      empty_server_def history_new_def names_avatar_def users_all_def server_icon_def)


end
