(* ===== verification/Upload.thy ===== *)
theory Upload
  imports Pictures
begin

text \<open>
  File transfers on auxiliary sockets: \<open>download\<close> and \<open>upload\<close> of \<open>chat/src/network/file/server.rs\<close>, which take an upload in and
  serve a shared file, \<open>send_file\<close> and \<open>receive_file\<close> of \<open>file/mod.rs\<close> and the container of voice messages,
  \<open>voice/message.rs\<close>. An upload is a state machine over the packets of its socket. \<open>sv_uploads\<close> is the key set of
  \<open>ACTIVE_FILESHARES\<close> with the client of each; the other fields of an upload are \<open>dp_shares\<close>. Whether the operating
  system carries out an operation on a file is an argument of each step.
\<close>

section \<open>Data\<close>

datatype upload_kind = UkFile | UkImage | UkAvatar | UkIcon | UkVoice

datatype file_packet_code = Data "u8 list" | Metadata u64 ustr "u8 list"

record file_packet =
  fp_uid :: u64
  fp_code :: file_packet_code
  fp_seq :: u64

definition MAX_IMAGE_SIZE :: nat where "MAX_IMAGE_SIZE = 8 * MEGABYTE"
definition MAX_VOICE_MESSAGE_SIZE :: nat where "MAX_VOICE_MESSAGE_SIZE = 6 * MEGABYTE"
definition MESSAGE_MAX_FRAMES :: nat where "MESSAGE_MAX_FRAMES = 15000"
definition MESSAGE_MAX_PACKET :: nat where "MESSAGE_MAX_PACKET = 1275"
definition VOX_MAGIC :: "u8 list" where "VOX_MAGIC = bytes_of ''WHY2VOX'' @ [1]"

definition persistent :: "upload_kind \<Rightarrow> bool" where
  "persistent kind \<longleftrightarrow> kind \<noteq> UkFile"

definition ceiling_of :: "upload_kind \<Rightarrow> nat" where
  "ceiling_of kind = (case kind of UkAvatar \<Rightarrow> MAX_AVATAR_SIZE | UkIcon \<Rightarrow> MAX_AVATAR_SIZE | UkVoice \<Rightarrow> MAX_VOICE_MESSAGE_SIZE
     | _ \<Rightarrow> MAX_IMAGE_SIZE)"

section \<open>Voice messages\<close>

record clip =
  cl_channels :: u8
  cl_frames :: "u8 list list"

text \<open>The codec of the clip is an argument.\<close>

definition clip_encode :: "(clip \<Rightarrow> u8 list) \<Rightarrow> clip \<Rightarrow> u8 list" where
  "clip_encode put c = VOX_MAGIC @ put c"

definition clip_decode :: "(u8 list \<Rightarrow> clip option) \<Rightarrow> u8 list \<Rightarrow> clip option" where
  "clip_decode get bytes =
     (if take (length VOX_MAGIC) bytes \<noteq> VOX_MAGIC then None
      else Option.bind (get (drop (length VOX_MAGIC) bytes)) (\<lambda>c.
        if cl_channels c \<in> {1, 2} \<and> cl_frames c \<noteq> [] \<and> length (cl_frames c) \<le> MESSAGE_MAX_FRAMES \<and>
           list_all (\<lambda>f. f \<noteq> [] \<and> length f \<le> MESSAGE_MAX_PACKET) (cl_frames c)
        then Some c else None))"

definition clip_duration :: "clip \<Rightarrow> u32" where
  "clip_duration c = of_nat (length (cl_frames c)) * 20"

definition is_clip :: "u8 list \<Rightarrow> bool" where
  "is_clip header \<longleftrightarrow> take (length VOX_MAGIC) header = VOX_MAGIC"

section \<open>Uploads in progress\<close>

datatype place = InImages ustr | InUploads ustr

text \<open>A path below the directory of uploads: the directory of a user, and a name in it.\<close>

definition upload_path :: "ustr \<Rightarrow> ustr \<Rightarrow> ustr" where
  "upload_path user name = user @ [0x2F] @ name"

record fileshare =
  fs_size :: u64
  fs_current :: u64
  fs_hash :: "u8 list"
  fs_hashed :: "u8 list"
    \<comment> \<open>the bytes fed to the hasher\<close>
  fs_filename :: ustr
  fs_path :: place
  fs_image :: "u8 list option"
  fs_stream :: rex_stream
  fs_mac :: "(u8 list \<times> u8 list) option"
    \<comment> \<open>the key of the tag and the bytes fed to it\<close>

record ('o, 'r) depot =
  dp_hub :: "('o, 'r) hub"
  dp_shares :: "u64 \<Rightarrow> fileshare"
  dp_files :: "(ustr \<times> u8 list) list"
    \<comment> \<open>the upload directories of the users, by path\<close>

record transfer =
  tr_id :: nat
  tr_uid :: u64
  tr_name :: ustr
  tr_kind :: upload_kind

datatype upload_phase = AwaitMetadata | Receiving bool | Closed | Failed_Hard

record io =
  io_dir :: bool
  io_open :: bool
  io_write :: "nat option"
    \<comment> \<open>\<open>Some n\<close>: the write fails after \<open>n\<close> bytes\<close>
  io_tag :: "nat option"
  io_rename :: bool

text \<open>What a step reads from outside: the configuration, a random key and nonce for a shared file and the codec of clips.\<close>

record ('v, 'w) yard =
  yd_world :: "('v, 'w) world"
  max_upload_size :: nat
  yd_key :: "i64 list"
  yd_nonce :: "i64 list"
  yd_clip :: "u8 list \<Rightarrow> clip option"

abbreviation dp_server :: "('o, 'r) depot \<Rightarrow> ('o, 'r) server" where
  "dp_server d \<equiv> hb (dp_hub d)"

definition on_hub :: "(('o, 'r) hub \<Rightarrow> ('o, 'r) hub) \<Rightarrow> ('o, 'r) depot \<Rightarrow> ('o, 'r) depot" where
  "on_hub f d = d\<lparr> dp_hub := f (dp_hub d) \<rparr>"

definition tell_client :: "nat \<Rightarrow> ('o, 'r) packet_code \<Rightarrow> ('o, 'r) depot \<Rightarrow> ('o, 'r) depot" where
  "tell_client i code d = on_hub (on_server (notify i code)) d"

definition active :: "u64 \<Rightarrow> ('o, 'r) depot \<Rightarrow> (nat \<times> fileshare) option" where
  "active uid d = map_option (\<lambda>client. (client, dp_shares d uid)) (map_of (sv_uploads (dp_server d)) uid)"

definition put_share :: "u64 \<Rightarrow> fileshare \<Rightarrow> ('o, 'r) depot \<Rightarrow> ('o, 'r) depot" where
  "put_share uid x d = d\<lparr> dp_shares := (dp_shares d)(uid := x) \<rparr>"

definition remove_share :: "u64 \<Rightarrow> ('o, 'r) depot \<Rightarrow> ('o, 'r) depot" where
  "remove_share uid d = on_hub (on_server (\<lambda>v. v\<lparr> sv_uploads := AList.delete uid (sv_uploads v) \<rparr>)) d"

section \<open>The disk\<close>

fun read_place :: "place \<Rightarrow> ('o, 'r) depot \<Rightarrow> u8 list option" where
  "read_place (InImages name) d = map_of (hb_images (dp_hub d)) name"
| "read_place (InUploads path) d = map_of (dp_files d) path"

fun write_place :: "place \<Rightarrow> u8 list \<Rightarrow> ('o, 'r) depot \<Rightarrow> ('o, 'r) depot" where
  "write_place (InImages name) bytes d = on_hub (\<lambda>s. s\<lparr> hb_images := AList.update name bytes (hb_images s) \<rparr>) d"
| "write_place (InUploads path) bytes d = d\<lparr> dp_files := AList.update path bytes (dp_files d) \<rparr>"

fun remove_place :: "place \<Rightarrow> ('o, 'r) depot \<Rightarrow> ('o, 'r) depot" where
  "remove_place (InImages name) d = on_hub (\<lambda>s. s\<lparr> hb_images := AList.delete name (hb_images s) \<rparr>) d"
| "remove_place (InUploads path) d = d\<lparr> dp_files := AList.delete path (dp_files d) \<rparr>"

definition append_place :: "place \<Rightarrow> u8 list \<Rightarrow> ('o, 'r) depot \<Rightarrow> ('o, 'r) depot" where
  "append_place p bytes d = (case read_place p d of Some old \<Rightarrow> write_place p (old @ bytes) d | None \<Rightarrow> d)"

text \<open>What a write leaves in the file.\<close>

definition written :: "nat option \<Rightarrow> u8 list \<Rightarrow> u8 list" where
  "written failed bytes = (case failed of None \<Rightarrow> bytes | Some n \<Rightarrow> take n bytes)"

text \<open>\<open>rename\<close> fails if there is no such file; it replaces the target.\<close>

definition rename_place :: "place \<Rightarrow> place \<Rightarrow> ('o, 'r) depot \<Rightarrow> ('o, 'r) depot option" where
  "rename_place p q d = map_option (\<lambda>bytes. write_place q bytes (remove_place p d)) (read_place p d)"

definition uid_text :: "u64 \<Rightarrow> ustr" where
  "uid_text uid = show_nat (unat uid)"

definition place_in :: "transfer \<Rightarrow> ustr \<Rightarrow> place" where
  "place_in tr name = (if persistent (tr_kind tr) then InImages name else InUploads (upload_path (tr_name tr) name))"

definition base_name :: "ustr \<Rightarrow> ustr" where
  "base_name path = (case file_name path of Some f \<Rightarrow> f | None \<Rightarrow> ustr ''unnamed_file'')"

section \<open>Taking an upload in\<close>

text \<open>The guard of a transfer, dropped however its task ends.\<close>

definition drop_guard :: "nat \<Rightarrow> u64 \<Rightarrow> ('o, 'r) depot \<Rightarrow> ('o, 'r) depot" where
  "drop_guard i uid d = (case find_id i (dp_server d) of
     None \<Rightarrow> d
   | Some (_, c) \<Rightarrow> (case remove_file_stream uid c (sv_transfers (dp_server d)) of (ts, ab) \<Rightarrow>
       let d = on_hub (on_server (\<lambda>v. v\<lparr> sv_transfers := ts, sv_effects := sv_effects v @ map Aborted ab \<rparr>)) d
       in case active uid d of
            None \<Rightarrow> d
          | Some (_, x) \<Rightarrow> remove_place (fs_path x) (remove_share uid d)))"

definition close_transfer :: "transfer \<Rightarrow> ('o, 'r) depot \<Rightarrow> upload_phase \<times> ('o, 'r) depot" where
  "close_transfer tr d = (Closed, drop_guard (tr_id tr) (tr_uid tr) d)"

definition reject_transfer :: "transfer \<Rightarrow> ('o, 'r) depot \<Rightarrow> upload_phase \<times> ('o, 'r) depot" where
  "reject_transfer tr d = close_transfer tr (tell_client (tr_id tr) (Lobby_Code InvalidUsage) d)"

definition begin_transfer :: "nat \<Rightarrow> u64 \<Rightarrow> task \<Rightarrow> upload_kind \<Rightarrow> ('o, 'r) depot \<Rightarrow> (transfer \<times> shared_keys \<times> ('o, 'r) depot) option" where
  "begin_transfer i uid t kind d = (case find_id i (dp_server d) of
     None \<Rightarrow> None
   | Some (_, c) \<Rightarrow> (case (keys c, username c) of
       (Some ks, Some name) \<Rightarrow> Some (\<lparr> tr_id = i, tr_uid = uid, tr_name = name, tr_kind = kind \<rparr>, ks,
          on_hub (on_server (\<lambda>v. v\<lparr> sv_transfers := add_file_stream uid t c (sv_transfers v) \<rparr>)) d)
     | _ \<Rightarrow> None))"

text \<open>The stream of a shared file, under its random key.\<close>

definition share_stream :: "('v, 'w) chat_env \<Rightarrow> i64 list \<Rightarrow> i64 list \<Rightarrow> fault + rex_stream" where
  "share_stream C key nonce = rbind (unwrap (from_key GW GH key)) (\<lambda>key_grid. rbind (unwrap (from_flat GW GH nonce)) (\<lambda>nonce_grid.
     unwrap (stream_new (core C) GW GH key_grid nonce_grid)))"

definition upload_stream :: "('v, 'w) yard \<Rightarrow> upload_kind \<Rightarrow> u8 list \<Rightarrow> fault + rex_stream \<times> u8 list option" where
  "upload_stream y kind hash =
     (if persistent kind then map_sum id (apsnd Some) (disk_stream (wd_chat (yd_world y)) (wd_image_key (yd_world y)) hash)
      else map_sum id (\<lambda>st. (st, None)) (share_stream (wd_chat (yd_world y)) (yd_key y) (yd_nonce y)))"

definition on_metadata ::
  "('v, 'w) yard \<Rightarrow> io \<Rightarrow> transfer \<Rightarrow> (u64 \<times> file_packet_code) option \<Rightarrow> ('o, 'r) depot \<Rightarrow> upload_phase \<times> ('o, 'r) depot" where
  "on_metadata y io tr received d = (case received of
     Some (_, Metadata len filename hash) \<Rightarrow>
       if max_client_parallel_uploads (yd_world y) \<le> length (filter (\<lambda>(uid, client). client = tr_id tr) (sv_uploads (dp_server d)))
       then close_transfer tr d
       else if persistent (tr_kind tr) \<and> ceiling_of (tr_kind tr) < unat len then reject_transfer tr d
       else if max_upload_size y < unat len div MEGABYTE \<or> \<not> io_dir io then close_transfer tr d
       else (case upload_stream y (tr_kind tr) hash of
          Inl _ \<Rightarrow> (Failed_Hard, drop_guard (tr_id tr) (tr_uid tr) d)
        | Inr (st, mac) \<Rightarrow>
            let p = place_in tr (uid_text (tr_uid tr)) in
            if \<not> io_open io \<or> read_place p d \<noteq> None then close_transfer tr d
            else let d = on_hub (on_server (\<lambda>v. v\<lparr> sv_uploads := AList.update (tr_uid tr) (tr_id tr) (sv_uploads v) \<rparr>)) (write_place p [] d)
                 in (Receiving (\<not> persistent (tr_kind tr)), put_share (tr_uid tr) \<lparr> fs_size = len, fs_current = 0, fs_hash = hash,
                   fs_hashed = [], fs_filename = filename, fs_path = p,
                   fs_image = (if persistent (tr_kind tr) then Some [] else None), fs_stream = st,
                   fs_mac = map_option (\<lambda>k. (k, [])) mac \<rparr> d))
   | _ \<Rightarrow> close_transfer tr d)"

text \<open>The check of the first piece.\<close>

definition acceptable :: "upload_kind \<Rightarrow> u8 list \<Rightarrow> bool" where
  "acceptable kind data \<longleftrightarrow> (if kind = UkVoice then is_clip data else is_image data) \<and>
     (kind \<in> {UkAvatar, UkIcon} \<longrightarrow> is_avatar data)"

definition channel_of :: "nat \<Rightarrow> ('o, 'r) server \<Rightarrow> ustr option" where
  "channel_of i v = Option.bind (find_id i v) (\<lambda>(_, c). conn_channel c)"

definition store_upload ::
  "('v, 'w) world \<Rightarrow> transfer \<Rightarrow> (nat \<Rightarrow> document \<Rightarrow> ustr option \<Rightarrow> history \<Rightarrow> u64 \<times> history \<times> msg_effect list) \<Rightarrow> bool \<Rightarrow> place
     \<Rightarrow> (u64 \<Rightarrow> ustr option \<Rightarrow> u8 option \<Rightarrow> ('o, 'r) packet_code) \<Rightarrow> ('o, 'r) depot \<Rightarrow> ('o, 'r) depot" where
  "store_upload w tr f fresh new code d =
     (let ch = channel_of (tr_id tr) (dp_server d); kept = (ch = None \<and> persistent_messages (wd_server w));
          s = dp_hub d;
          (i, s) = (if kept then with_history (f (max_persistent_messages w) (sv_users (hb s)) (sv_icon (hb s))) s
                    else with_history (\<lambda>h. case next_id h of (i, h) \<Rightarrow> (i, h, [])) s);
          d = d\<lparr> dp_hub := s \<rparr>;
          d = (if \<not> kept \<and> fresh then remove_place new d else d)
      in on_hub (broadcast (code i ch (username_color (user_colors (sv_users (dp_server d)) (tr_name tr))))) d)"

text \<open>The last part of a finished upload, after its file has its name. \<open>None\<close> is the panic of an \<open>unwrap\<close>.\<close>

definition publish ::
  "('v, 'w) yard \<Rightarrow> transfer \<Rightarrow> u8 list \<Rightarrow> nat \<Rightarrow> ustr \<Rightarrow> place \<Rightarrow> bool \<Rightarrow> u8 list option \<Rightarrow> voice_note option \<Rightarrow> ('o, 'r) depot
     \<Rightarrow> ('o, 'r) depot option" where
  "publish y tr hash len filename new fresh picture clip d = (let w = yd_world y; name = tr_name tr; i = tr_id tr in case tr_kind tr of
     UkAvatar \<Rightarrow>
       let d = on_hub (\<lambda>s. sweep (edit_users (set_avatar name (Some hash)) s)) d
       in Some (tell_client i (Account_Code (Profile name (user_profile_of (sv_users (dp_server d)) name) True True)) d)
   | UkIcon \<Rightarrow> Some (on_hub (\<lambda>s. on_server (icon_changed i) (sweep (put_icon (Some hash) s))) d)
   | UkVoice \<Rightarrow> Some (case (clip, picture) of
         (Some v, Some data) \<Rightarrow> let ts = timestamp w in
           store_upload w tr (\<lambda>limit users icon. store_voice limit users icon name v ts) fresh new
             (\<lambda>mid ch color. File_Code (VoiceMessage name mid v (Some data) color (Some ch) ts)) d
       | _ \<Rightarrow> d)
   | UkImage \<Rightarrow> Some (case picture of
         Some data \<Rightarrow> let ts = timestamp w in
           store_upload w tr (\<lambda>limit users icon. store_image limit users icon name filename hash ts) fresh new
             (\<lambda>mid ch color. File_Code (ImageDisplay name filename mid hash (Some data) color (Some ch) ts)) d
       | None \<Rightarrow> d)
   | UkFile \<Rightarrow>
       let d = on_hub (broadcast (File_Code (Uploaded name filename))) d in
       if \<not> fresh then Some d
       else (case map_of (sv_files (dp_server d)) name of
          None \<Rightarrow> None
        | Some fs \<Rightarrow> Some (on_hub (on_server (\<lambda>v. v\<lparr> sv_files := AList.update name (fs @ [\<lparr> af_hash = hash,
            af_path = upload_path name filename, af_filename = filename, af_size = of_nat len, af_key = yd_key y, af_nonce = yd_nonce y \<rparr>]) (sv_files v) \<rparr>)) d)))"

text \<open>The last steps of an upload whose bytes are right: it is renamed into place and published.\<close>

definition name_upload ::
  "('v, 'w) yard \<Rightarrow> io \<Rightarrow> transfer \<Rightarrow> u64 \<Rightarrow> fileshare \<Rightarrow> u8 list \<Rightarrow> clip option \<Rightarrow> ('o, 'r) depot \<Rightarrow> upload_phase \<times> ('o, 'r) depot" where
  "name_upload y io tr uid x final_hash clip d =
     (let filename = base_name (fs_filename x);
          new = place_in tr (if persistent (tr_kind tr) then image_name final_hash else filename);
          fresh = (read_place new d = None)
      in case (if io_rename io then rename_place (place_in tr (uid_text uid)) new d else None) of
           None \<Rightarrow> close_transfer tr d
         | Some d \<Rightarrow> (case publish y tr final_hash (unat (fs_current x)) filename new fresh (fs_image x)
               (map_option (\<lambda>c. \<lparr> vn_hash = final_hash, vn_duration = clip_duration c \<rparr>) clip) d of
             None \<Rightarrow> (Failed_Hard, drop_guard (tr_id tr) (tr_uid tr) d)
           | Some d \<Rightarrow> close_transfer tr (remove_share uid d)))"

definition finish_upload :: "('v, 'w) yard \<Rightarrow> io \<Rightarrow> transfer \<Rightarrow> u64 \<Rightarrow> fileshare \<Rightarrow> ('o, 'r) depot \<Rightarrow> upload_phase \<times> ('o, 'r) depot" where
  "finish_upload y io tr uid x d =
     (let C = wd_chat (yd_world y); final_hash = sha256 (core C) (fs_hashed x);
          d = put_share uid (x\<lparr> fs_image := None, fs_mac := None \<rparr>) d;
          d = (case fs_mac x of
                Some (k, fed) \<Rightarrow> append_place (fs_path x) (written (io_tag io) (disk_tag C k fed (fs_current x))) d
              | None \<Rightarrow> d)
      in if fs_mac x \<noteq> None \<and> io_tag io \<noteq> None then close_transfer tr d
         else if fs_hash x \<noteq> final_hash then close_transfer tr d
         else let clip = (if tr_kind tr = UkVoice then Option.bind (fs_image x) (clip_decode (yd_clip y)) else None) in
           if tr_kind tr = UkVoice \<and> clip = None then reject_transfer tr d
           else name_upload y io tr uid x final_hash clip d)"

text \<open>One piece. The upload it belongs to is the one it names.\<close>

definition on_piece ::
  "('v, 'w) yard \<Rightarrow> io \<Rightarrow> transfer \<Rightarrow> u64 \<Rightarrow> u8 list \<Rightarrow> ('o, 'r) depot \<Rightarrow> upload_phase \<times> ('o, 'r) depot" where
  "on_piece y io tr uid data d = (case active uid d of
     Some (client, x) \<Rightarrow>
       if client = tr_id tr \<and> length data \<le> UPLOAD_CHUNK_SIZE
       then (case write_chunk (wd_chat (yd_world y)) (fs_stream x) data of
          Inl _ \<Rightarrow> (Failed_Hard, drop_guard (tr_id tr) (tr_uid tr) d)
        | Inr (encrypted_bytes, st) \<Rightarrow>
            let x = x\<lparr> fs_stream := st \<rparr>; d = put_share uid x d in
            let d = append_place (fs_path x) (written (io_write io) encrypted_bytes) d in
            if io_write io \<noteq> None then (Receiving True, d)
            else let x = x\<lparr> fs_current := fs_current x + of_nat (length data) \<rparr> in
              if fs_size x < fs_current x then close_transfer tr (put_share uid x d)
              else let x = x\<lparr> fs_hashed := fs_hashed x @ data, fs_mac := map_option (\<lambda>(k, fed). (k, fed @ encrypted_bytes)) (fs_mac x),
                         fs_image := map_option (\<lambda>b. b @ data) (fs_image x) \<rparr>; d = put_share uid x d
                in if fs_current x \<noteq> fs_size x then (Receiving True, d) else finish_upload y io tr uid x d)
       else (Receiving True, d)
   | None \<Rightarrow> (Receiving True, d))"

definition on_data ::
  "('v, 'w) yard \<Rightarrow> io \<Rightarrow> transfer \<Rightarrow> bool \<Rightarrow> (u64 \<times> file_packet_code) option \<Rightarrow> ('o, 'r) depot \<Rightarrow> upload_phase \<times> ('o, 'r) depot" where
  "on_data y io tr checked received d = (case received of
     Some (uid, Data data) \<Rightarrow>
       if \<not> checked \<and> \<not> acceptable (tr_kind tr) data then reject_transfer tr d else on_piece y io tr uid data d
   | _ \<Rightarrow> close_transfer tr d)"

definition upload_step ::
  "('v, 'w) yard \<Rightarrow> io \<Rightarrow> transfer \<Rightarrow> upload_phase \<Rightarrow> (u64 \<times> file_packet_code) option \<Rightarrow> ('o, 'r) depot \<Rightarrow> upload_phase \<times> ('o, 'r) depot" where
  "upload_step y io tr ph received d = (case ph of
     AwaitMetadata \<Rightarrow> on_metadata y io tr received d
   | Receiving checked \<Rightarrow> on_data y io tr checked received d
   | _ \<Rightarrow> (ph, d))"

text \<open>The packets of one socket in a row, each with the outcome of the file operations it leads to.\<close>

fun upload_run ::
  "('v, 'w) yard \<Rightarrow> transfer \<Rightarrow> (io \<times> (u64 \<times> file_packet_code) option) list \<Rightarrow> upload_phase \<times> ('o, 'r) depot \<Rightarrow> upload_phase \<times> ('o, 'r) depot" where
  "upload_run y tr [] s = s"
| "upload_run y tr ((io, received) # rest) (ph, d) = upload_run y tr rest (upload_step y io tr ph received d)"

section \<open>The socket\<close>

text \<open>\<open>receive_file\<close>: the codec of file packets is an argument. A sequence number must rise, unless the last one is 0.\<close>

definition receive_file ::
  "('v, 'w) chat_env \<Rightarrow> (u8 list \<Rightarrow> file_packet option) \<Rightarrow> police_config \<Rightarrow> sock_addr \<Rightarrow> encryption_mode \<Rightarrow> u64 \<Rightarrow> u8 list \<Rightarrow> ('o, 'r) server
     \<Rightarrow> fault + ((u64 \<times> file_packet_code) option \<times> u64 \<times> u8 list \<times> encryption_mode \<times> ('o, 'r) server)" where
  "receive_file C get pc addr mode n input s =
     rbind (read_tcp C pc True addr mode input s) (\<lambda>(read, rest, mode, s).
     case read of
       None \<Rightarrow> Inr (None, n, rest, mode, s)
     | Some bytes \<Rightarrow> (case get bytes of
         None \<Rightarrow> Inr (None, n, rest, mode, remove_connection (pc_server pc) addr False s)
       | Some p \<Rightarrow> if n < fp_seq p \<or> n = 0 then Inr (Some (fp_uid p, fp_code p), fp_seq p, rest, mode, s)
                   else Inr (None, n, rest, mode, s)))"

text \<open>The kind of an upload follows from the token that its socket presents.\<close>

fun upload_kind_of :: "connection_type \<Rightarrow> (upload_kind \<times> u64) option" where
  "upload_kind_of (CtFileUpload uid) = Some (UkFile, uid)"
| "upload_kind_of (CtImage uid) = Some (UkImage, uid)"
| "upload_kind_of (CtAvatar uid) = Some (UkAvatar, uid)"
| "upload_kind_of (CtIcon uid) = Some (UkIcon, uid)"
| "upload_kind_of (CtVoice uid) = Some (UkVoice, uid)"
| "upload_kind_of _ = None"

section \<open>Serving a shared file\<close>

text \<open>\<open>send_file\<close> on the server: each read of the file is decrypted with its stream and sent.\<close>

fun send_file :: "('v, 'w) chat_env \<Rightarrow> rex_stream \<Rightarrow> u8 list list \<Rightarrow> fault + file_packet_code list" where
  "send_file C st [] = Inr []"
| "send_file C st (buffer # reads) = rbind (write_chunk C st buffer) (\<lambda>(plaintext, st).
     rbind (send_file C st reads) (\<lambda>packets. Inr (Data plaintext # packets)))"

text \<open>
  \<open>upload\<close>: the packets that the client is sent. A read fills the buffer unless the file ends. A file that is gone
  panics; the metadata are sent before it is opened.
\<close>

definition upload_file :: "('v, 'w) chat_env \<Rightarrow> available_file \<Rightarrow> ('o, 'r) depot \<Rightarrow> file_packet_code list \<times> bool" where
  "upload_file C f d = (let meta = Metadata (af_size f) (af_filename f) (af_hash f) in
     case rbind (share_stream C (af_key f) (af_nonce f)) (\<lambda>st.
            case read_place (InUploads (af_path f)) d of
              None \<Rightarrow> Inl Panic
            | Some bytes \<Rightarrow> send_file C st (chunks UPLOAD_CHUNK_SIZE bytes)) of
       Inl _ \<Rightarrow> ([meta], False)
     | Inr packets \<Rightarrow> (meta # packets, True))"

definition serve_file ::
  "('v, 'w) chat_env \<Rightarrow> nat \<Rightarrow> u64 \<Rightarrow> task \<Rightarrow> available_file \<Rightarrow> ('o, 'r) depot \<Rightarrow> file_packet_code list \<times> bool \<times> ('o, 'r) depot" where
  "serve_file C i uid t f d = (case Option.bind (find_id i (dp_server d)) (\<lambda>(_, c). map_option (\<lambda>_. c) (keys c)) of
     None \<Rightarrow> ([], True, d)
   | Some c \<Rightarrow>
       let d = on_hub (on_server (\<lambda>v. v\<lparr> sv_transfers := add_file_stream uid t c (sv_transfers v) \<rparr>)) d;
           (packets, ok) = upload_file C f d
       in (packets, ok, drop_guard i uid d))"

end
