(* ===== verification/Transfers.thy ===== *)
theory Transfers
  imports Upload
begin

text \<open>
  What a whole upload does: a run of \<open>download\<close> over the packets of one socket leaves the bytes it was sent under the
  name they hash to, and what a shared file, an avatar or a picture becomes after it.
\<close>

section \<open>The depot\<close>

lemma update_same: "map_of xs k = Some v \<Longrightarrow> AList.update k v xs = xs"
  by (induction xs) (auto split: if_splits)

lemma hub_access [simp]:
  "dp_hub (on_hub f d) = f (dp_hub d)" "dp_shares (on_hub f d) = dp_shares d" "dp_files (on_hub f d) = dp_files d"
  "hb (on_server g s) = g (hb s)" "hb_images (on_server g s) = hb_images s"
  by (simp_all add: on_hub_def on_server_def)

lemma put_share_access [simp]:
  "dp_hub (put_share uid x d) = dp_hub d" "dp_files (put_share uid x d) = dp_files d"
  "dp_shares (put_share uid x d) = (dp_shares d)(uid := x)"
  "read_place p (put_share uid x d) = read_place p d" "put_share uid x (put_share uid z d) = put_share uid x d"
  "write_place p b (put_share uid x d) = put_share uid x (write_place p b d)"
  "remove_place p (put_share uid x d) = put_share uid x (remove_place p d)"
  by (cases p; simp add: put_share_def on_hub_def)+

lemma place_access [simp]:
  "dp_server (write_place p b d) = dp_server d" "dp_shares (write_place p b d) = dp_shares d"
  "dp_server (remove_place p d) = dp_server d" "dp_shares (remove_place p d) = dp_shares d"
  by (cases p; simp)+

lemma read_write_place [simp]:
  "read_place p (write_place q b d) = (if p = q then Some b else read_place p d)"
  "read_place p (remove_place q d) = (if p = q then None else read_place p d)"
  by (cases p; cases q; simp add: update_conv' delete_conv')+

lemma write_place_same: "read_place p d = Some b \<Longrightarrow> write_place p b d = d"
  by (cases p) (simp_all add: update_same on_hub_def)

lemma write_place_write [simp]: "write_place p b (write_place p a d) = write_place p b d"
  by (cases p) (simp_all add: on_hub_def update_conv)

lemma remove_write_place [simp]: "remove_place p (write_place p b d) = remove_place p d"
proof -
  have "AList.delete k (AList.update k v xs) = AList.delete k xs" for k :: ustr and v :: "u8 list" and xs
    by (induction xs) (auto simp: AList.delete_eq)
  then show ?thesis by (cases p) (simp_all add: on_hub_def)
qed

lemma append_access [simp]:
  "append_place p [] d = d" "append_place p b (append_place p a d) = append_place p (a @ b) d"
  "append_place p b (put_share uid x d) = put_share uid x (append_place p b d)" "dp_server (append_place p b d) = dp_server d"
  by (simp_all add: append_place_def write_place_same split: option.split)

lemma active_put [simp]:
  "active uid (put_share k x d) = (if uid = k then map_option (\<lambda>(i, _). (i, x)) (active uid d) else active uid d)"
  by (simp add: active_def option.map_comp comp_def)

lemma active_place [simp]: "active uid (write_place p b d) = active uid d" "active uid (remove_place p d) = active uid d"
  by (simp_all add: active_def)

lemma active_append [simp]: "active uid (append_place p b d) = active uid d"
  by (simp add: append_place_def split: option.split)

lemma put_share_same: "active uid d = Some (i, x) \<Longrightarrow> put_share uid x d = d"
  by (auto simp: active_def put_share_def)

section \<open>Pieces\<close>

definition fine_io :: io where
  "fine_io = \<lparr> io_dir = True, io_open = True, io_write = None, io_tag = None, io_rename = True \<rparr>"

text \<open>An upload after more plaintext, which the stream encrypted.\<close>

lemma fine_access [simp]: "io_dir fine_io" "io_open fine_io" "io_write fine_io = None" "io_tag fine_io = None" "io_rename fine_io"
  by (simp_all add: fine_io_def)

definition feed :: "u8 list \<Rightarrow> u8 list \<Rightarrow> rex_stream \<Rightarrow> fileshare \<Rightarrow> fileshare" where
  "feed data ct st x = x\<lparr> fs_stream := st, fs_current := fs_current x + of_nat (length data), fs_hashed := fs_hashed x @ data,
     fs_mac := map_option (\<lambda>(k, fed). (k, fed @ ct)) (fs_mac x), fs_image := map_option (\<lambda>b. b @ data) (fs_image x) \<rparr>"

lemma feed_feed: "feed b cb sb (feed a ca sa x) = feed (a @ b) (ca @ cb) sb x"
  by (cases "fs_mac x") (auto simp: feed_def option.map_comp comp_def add.assoc)

lemma feed_nothing [simp]: "feed [] [] (fs_stream x) x = x"
  by (cases "fs_mac x") (auto simp: feed_def option.map_ident intro!: fileshare.equality)

lemma feed_access [simp]:
  "fs_size (feed data ct st x) = fs_size x" "fs_path (feed data ct st x) = fs_path x" "fs_hash (feed data ct st x) = fs_hash x"
  "fs_filename (feed data ct st x) = fs_filename x" "fs_stream (feed data ct st x) = st"
  "fs_hashed (feed data ct st x) = fs_hashed x @ data" "fs_current (feed data ct st x) = fs_current x + of_nat (length data)"
  "fs_mac (feed data ct st x) = map_option (\<lambda>(k, fed). (k, fed @ ct)) (fs_mac x)"
  "fs_image (feed data ct st x) = map_option (\<lambda>b. b @ data) (fs_image x)"
  by (simp_all add: feed_def)

lemma current_rises:
  fixes c l :: u64
  assumes "unat c + n \<le> unat l"
  shows "\<not> l < c + of_nat n" "c + of_nat n = l \<longleftrightarrow> unat c + n = unat l" "unat (c + of_nat n) = unat c + n"
proof -
  have "unat c + n < 2 ^ 64" using assms unat_u64_less [of l] by simp
  then have "unat (of_nat (unat c + n) :: u64) = unat c + n" by (simp only: unat_of_nat) simp
  then show u: "unat (c + of_nat n) = unat c + n" by simp
  show "\<not> l < c + of_nat n" "c + of_nat n = l \<longleftrightarrow> unat c + n = unat l"
    using assms by (simp_all add: word_less_nat_alt word_unat_eq_iff u)
qed

lemma on_piece_ok:
  assumes "active uid d = Some (tr_id tr, x)" "length data \<le> UPLOAD_CHUNK_SIZE"
    and w: "write_chunk (wd_chat (yd_world y)) (fs_stream x) data = Inr (ct, st)"
    and n: "unat (fs_current x) + length data \<le> unat (fs_size x)"
  defines "d' \<equiv> put_share uid (feed data ct st x) (append_place (fs_path x) ct d)"
  shows "on_piece y fine_io tr uid data d = (if unat (fs_current x) + length data = unat (fs_size x)
    then finish_upload y fine_io tr uid (feed data ct st x) d' else (Receiving True, d'))"
  using assms(1,2) w current_rises [OF n]
  by (simp add: on_piece_def d'_def fine_io_def written_def Let_def feed_def)

abbreviation pieces :: "u64 \<Rightarrow> u8 list list \<Rightarrow> (io \<times> (u64 \<times> file_packet_code) option) list" where
  "pieces uid ps \<equiv> map (\<lambda>p. (fine_io, Some (uid, Data p))) ps"

lemma rbind_assoc: "rbind (rbind m f) g = rbind m (\<lambda>x. rbind (f x) g)"
  by (cases m) simp_all

lemma rbind_unit: "rbind m Inr = m"
  by (cases m) simp_all

lemma write_chunks_append:
  "write_chunks C st (ps @ qs) = rbind (write_chunks C st ps) (\<lambda>(a, st). rbind (write_chunks C st qs) (\<lambda>(b, st). Inr (a @ b, st)))"
proof (induction ps arbitrary: st)
  case (Cons p ps)
  show ?case by (cases "write_chunk C st p") (auto simp: Cons.IH rbind_assoc case_prod_beta)
qed (simp add: rbind_unit case_prod_beta)

lemma run_pieces:
  assumes "active uid d = Some (tr_id tr, x)"
    "write_chunks (wd_chat (yd_world y)) (fs_stream x) ps = Inr (ct, st)" "\<forall>p \<in> set ps. length p \<le> UPLOAD_CHUNK_SIZE"
    "unat (fs_current x) + length (concat ps) < unat (fs_size x)"
  shows "upload_run y tr (pieces uid ps @ rest) (Receiving True, d) =
    upload_run y tr rest (Receiving True, put_share uid (feed (concat ps) ct st x) (append_place (fs_path x) ct d))"
  using assms
proof (induction ps arbitrary: d x ct)
  case Nil
  then show ?case using feed_nothing [of x] by (simp add: put_share_same)
next
  case (Cons p ps)
  obtain c1 s1 c2 where w: "write_chunk (wd_chat (yd_world y)) (fs_stream x) p = Inr (c1, s1)"
    "write_chunks (wd_chat (yd_world y)) s1 ps = Inr (c2, st)" "ct = c1 @ c2"
    using Cons.prems(2) by (auto simp: rbind_eq_Inr_iff)
  let ?x = "feed p c1 s1 x" and ?d = "put_share uid (feed p c1 s1 x) (append_place (fs_path x) c1 d)"
  have n: "unat (fs_current x) + length p \<le> unat (fs_size x)" using Cons.prems(4) by simp
  have "on_piece y fine_io tr uid p d = (Receiving True, ?d)"
    using on_piece_ok [where y = y, OF Cons.prems(1) _ w(1) n] Cons.prems(3,4) by simp
  moreover have "upload_run y tr (pieces uid ps @ rest) (Receiving True, ?d) =
      upload_run y tr rest (Receiving True, put_share uid (feed (concat ps) c2 st ?x) (append_place (fs_path ?x) c2 ?d))"
    by (rule Cons.IH) (use Cons.prems w current_rises(3) [OF n] in simp_all)
  ultimately show ?case by (simp add: upload_step_def on_data_def w(3) feed_feed)
qed

lemma run_last_piece:
  assumes "active uid d = Some (tr_id tr, x)"
    "write_chunks (wd_chat (yd_world y)) (fs_stream x) (chunks UPLOAD_CHUNK_SIZE data) = Inr (ct, st)" "data \<noteq> []"
    "unat (fs_current x) + length data = unat (fs_size x)"
  shows "upload_run y tr (pieces uid (chunks UPLOAD_CHUNK_SIZE data)) (Receiving True, d) =
    finish_upload y fine_io tr uid (feed data ct st x) (put_share uid (feed data ct st x) (append_place (fs_path x) ct d))"
proof -
  have U: "0 < UPLOAD_CHUNK_SIZE" by (simp add: UPLOAD_CHUNK_SIZE_def MEGABYTE_def)
  let ?C = "wd_chat (yd_world y)"
  obtain ps p where ps: "chunks UPLOAD_CHUNK_SIZE data = ps @ [p]"
    using assms(3) U by (metis concat.simps(1) concat_chunks rev_exhaust)
  have data: "concat ps @ p = data" using ps U by (metis concat.simps concat_append append_Nil2 concat_chunks)
  have short: "\<forall>p \<in> set (ps @ [p]). p \<noteq> [] \<and> length p \<le> UPLOAD_CHUNK_SIZE" using chunks_length_le [of _ UPLOAD_CHUNK_SIZE data] ps by simp
  obtain c1 s1 c2 where w: "write_chunks ?C (fs_stream x) ps = Inr (c1, s1)" "write_chunk ?C s1 p = Inr (c2, st)" "ct = c1 @ c2"
    using assms(2) by (auto simp: ps write_chunks_append rbind_eq_Inr_iff)
  let ?d = "put_share uid (feed (concat ps) c1 s1 x) (append_place (fs_path x) c1 d)" and ?x = "feed (concat ps) c1 s1 x"
  have l: "length data = length (concat ps) + length p" "p \<noteq> []" using data short by auto
  then have n: "unat (fs_current x) + length (concat ps) < unat (fs_size x)" using assms(4) by (cases p) auto
  have "on_piece y fine_io tr uid p ?d = finish_upload y fine_io tr uid (feed p c2 st ?x)
      (put_share uid (feed p c2 st ?x) (append_place (fs_path ?x) c2 ?d))"
    using on_piece_ok [of uid ?d tr ?x p y c2 st] assms(1,4) short w(2) l current_rises(3) [OF less_imp_le [OF n]] by simp
  then show ?thesis
    using run_pieces [OF assms(1) w(1) _ n, where rest = "[(fine_io, Some (uid, Data p))]"] short
    by (simp add: ps upload_step_def on_data_def w(3) feed_feed data)
qed

section \<open>Opening and finishing\<close>

abbreviation own_uploads :: "nat \<Rightarrow> ('o, 'r) depot \<Rightarrow> nat" where
  "own_uploads i d \<equiv> length (filter (\<lambda>(uid, client). client = i) (sv_uploads (dp_server d)))"

text \<open>What the metadata of an upload have to meet.\<close>

definition admitted :: "('v, 'w) yard \<Rightarrow> transfer \<Rightarrow> nat \<Rightarrow> ('o, 'r) depot \<Rightarrow> bool" where
  "admitted y tr n d \<longleftrightarrow> own_uploads (tr_id tr) d < max_client_parallel_uploads (yd_world y) \<and>
     (persistent (tr_kind tr) \<longrightarrow> n \<le> ceiling_of (tr_kind tr)) \<and> n div MEGABYTE \<le> max_upload_size y \<and> n < 2 ^ 64 \<and>
     read_place (place_in tr (uid_text (tr_uid tr))) d = None"

definition opened :: "transfer \<Rightarrow> nat \<Rightarrow> ustr \<Rightarrow> u8 list \<Rightarrow> rex_stream \<Rightarrow> u8 list option \<Rightarrow> fileshare" where
  "opened tr n filename hash st mac = \<lparr> fs_size = of_nat n, fs_current = 0, fs_hash = hash, fs_hashed = [], fs_filename = filename,
     fs_path = place_in tr (uid_text (tr_uid tr)), fs_image = (if persistent (tr_kind tr) then Some [] else None), fs_stream = st,
     fs_mac = map_option (\<lambda>k. (k, [])) mac \<rparr>"

lemma opened_access [simp]:
  "fs_size (opened tr n f h st mac) = of_nat n" "fs_current (opened tr n f h st mac) = 0" "fs_hash (opened tr n f h st mac) = h"
  "fs_hashed (opened tr n f h st mac) = []" "fs_filename (opened tr n f h st mac) = f" "fs_stream (opened tr n f h st mac) = st"
  "fs_path (opened tr n f h st mac) = place_in tr (uid_text (tr_uid tr))"
  "fs_image (opened tr n f h st mac) = (if persistent (tr_kind tr) then Some [] else None)"
  "fs_mac (opened tr n f h st mac) = map_option (\<lambda>k. (k, [])) mac"
  by (simp_all add: opened_def)

definition enrol :: "transfer \<Rightarrow> ('o, 'r) depot \<Rightarrow> ('o, 'r) depot" where
  "enrol tr d = on_hub (on_server (\<lambda>v. v\<lparr> sv_uploads := AList.update (tr_uid tr) (tr_id tr) (sv_uploads v) \<rparr>)) d"

lemma on_metadata_ok:
  assumes "admitted y tr n d" "upload_stream y (tr_kind tr) hash = Inr (st, mac)"
  shows "on_metadata y fine_io tr (Some (u, Metadata (of_nat n) filename hash)) d = (Receiving (\<not> persistent (tr_kind tr)),
    put_share (tr_uid tr) (opened tr n filename hash st mac) (enrol tr (write_place (place_in tr (uid_text (tr_uid tr))) [] d)))"
proof -
  have "unat (of_nat n :: u64) = n" using assms(1) by (simp add: admitted_def unat_of_nat)
  then show ?thesis using assms by (auto simp: on_metadata_def admitted_def fine_io_def enrol_def opened_def Let_def)
qed

lemma active_enrol [simp]: "active (tr_uid tr) (enrol tr d) = Some (tr_id tr, dp_shares d (tr_uid tr))"
  by (simp add: active_def enrol_def update_conv')

lemma read_enrol [simp]: "read_place p (enrol tr d) = read_place p d"
  by (cases p) (simp_all add: enrol_def)

text \<open>The whole upload, up to the name of the file. A persistent upload has a tag after its bytes.\<close>

definition arrived :: "('v, 'w) yard \<Rightarrow> transfer \<Rightarrow> u8 list \<Rightarrow> ustr \<Rightarrow> u8 list \<Rightarrow> u8 list \<Rightarrow> rex_stream \<Rightarrow> rex_stream \<Rightarrow> u8 list option
    \<Rightarrow> ('o, 'r) depot \<Rightarrow> ('o, 'r) depot" where
  "arrived y tr data filename hash ct st st' mac d = put_share (tr_uid tr) (feed data ct st' (opened tr (length data) filename hash st mac))
     (write_place (place_in tr (uid_text (tr_uid tr))) ct (enrol tr (write_place (place_in tr (uid_text (tr_uid tr))) [] d)))"

lemma run_accepted:
  assumes "admitted y tr (length data) d" "upload_stream y (tr_kind tr) hash = Inr (st, mac)" "data \<noteq> []"
    "write_chunks (wd_chat (yd_world y)) st (chunks UPLOAD_CHUNK_SIZE data) = Inr (ct, st')"
  shows "upload_run y tr (pieces (tr_uid tr) (chunks UPLOAD_CHUNK_SIZE data)) (Receiving True, snd (on_metadata y fine_io tr
      (Some (u, Metadata (of_nat (length data)) filename hash)) d)) =
    finish_upload y fine_io tr (tr_uid tr) (feed data ct st' (opened tr (length data) filename hash st mac))
      (arrived y tr data filename hash ct st st' mac d)"
proof -
  have "unat (of_nat (length data) :: u64) = length data" using assms(1) by (simp add: admitted_def unat_of_nat)
  then show ?thesis
    using run_last_piece [where y = y and tr = tr and uid = "tr_uid tr" and data = data and ct = ct and st = st' and
        x = "opened tr (length data) filename hash st mac" and
        d = "snd (on_metadata y fine_io tr (Some (u, Metadata (of_nat (length data)) filename hash)) d)"] assms(3,4)
    by (simp add: on_metadata_ok [OF assms(1,2)] arrived_def append_place_def)
qed

lemma read_arrived [simp]: "read_place p (arrived y tr data f h ct st st' mac d) =
    (if p = place_in tr (uid_text (tr_uid tr)) then Some ct else read_place p d)"
  by (simp add: arrived_def)

lemma server_arrived [simp]: "dp_server (arrived y tr data f h ct st st' mac d) = dp_server (enrol tr d)"
  by (simp add: arrived_def enrol_def)

definition landed :: "('v, 'w) yard \<Rightarrow> transfer \<Rightarrow> u8 list \<Rightarrow> ustr \<Rightarrow> u8 list \<Rightarrow> u8 list \<Rightarrow> rex_stream \<Rightarrow> rex_stream \<Rightarrow> u8 list option
    \<Rightarrow> u8 list \<Rightarrow> place \<Rightarrow> ('o, 'r) depot \<Rightarrow> ('o, 'r) depot" where
  "landed y tr data filename hash ct st st' mac sealed new d = write_place new sealed (remove_place (place_in tr (uid_text (tr_uid tr)))
     (put_share (tr_uid tr) ((feed data ct st' (opened tr (length data) filename hash st mac))\<lparr> fs_image := None, fs_mac := None \<rparr>)
       (arrived y tr data filename hash ct st st' mac d)))"

definition sealed_as :: "('v, 'w) chat_env \<Rightarrow> u8 list option \<Rightarrow> u8 list \<Rightarrow> u8 list" where
  "sealed_as C mac ct = (case mac of None \<Rightarrow> ct | Some k \<Rightarrow> ct @ disk_tag C k ct (of_nat (length ct)))"

lemma finish_named:
  fixes d :: "('o, 'r) depot" and filename :: ustr and mac :: "u8 list option" and st st' :: rex_stream
  assumes "sha256 (core (wd_chat (yd_world y))) data = hash" "tr_kind tr \<noteq> UkVoice" "length ct = length data"
  defines "temp \<equiv> place_in tr (uid_text (tr_uid tr))"
    and "new \<equiv> place_in tr (if persistent (tr_kind tr) then image_name hash else base_name filename)"
  defines "dn \<equiv> landed y tr data filename hash ct st st' mac (sealed_as (wd_chat (yd_world y)) mac ct) new d"
  shows "finish_upload y fine_io tr (tr_uid tr) (feed data ct st' (opened tr (length data) filename hash st mac))
      (arrived y tr data filename hash ct st st' mac d) =
    (case publish y tr hash (unat (of_nat (length data) :: u64)) (base_name filename) new (new \<noteq> temp \<and> read_place new d = None)
        (if persistent (tr_kind tr) then Some data else None) None dn of
       None \<Rightarrow> (Failed_Hard, drop_guard (tr_id tr) (tr_uid tr) dn) | Some d \<Rightarrow> close_transfer tr (remove_share (tr_uid tr) d))"
  using assms(2,3) unfolding temp_def new_def dn_def assms(1) [symmetric] landed_def
  by (cases mac) (simp_all add: finish_upload_def name_upload_def Let_def append_place_def written_def rename_place_def sealed_as_def cong: option.case_cong)

section \<open>After the name\<close>

lemma active_remove [simp]: "active uid (remove_share uid d) = None"
  by (simp add: active_def remove_share_def delete_conv')

lemma drop_finished:
  assumes "active uid d = None"
  shows "hb_images (dp_hub (drop_guard i uid d)) = hb_images (dp_hub d)" "sv_users (dp_server (drop_guard i uid d)) = sv_users (dp_server d)"
    "sv_files (dp_server (drop_guard i uid d)) = sv_files (dp_server d)" "dp_files (drop_guard i uid d) = dp_files d"
    "active uid (drop_guard i uid d) = None" "sv_icon (dp_server (drop_guard i uid d)) = sv_icon (dp_server d)"
  using assms by (auto simp: drop_guard_def active_def Let_def split: option.splits prod.splits)

lemma tell_access [simp]:
  "hb_images (dp_hub (tell_client i code d)) = hb_images (dp_hub d)" "sv_users (dp_server (tell_client i code d)) = sv_users (dp_server d)"
  "dp_files (tell_client i code d) = dp_files d" "sv_files (dp_server (tell_client i code d)) = sv_files (dp_server d)"
  by (simp_all add: tell_client_def quiet_fields [OF quiet_broadcast(4)])

lemma remove_share_access [simp]:
  "hb_images (dp_hub (remove_share uid d)) = hb_images (dp_hub d)" "sv_users (dp_server (remove_share uid d)) = sv_users (dp_server d)"
  "dp_files (remove_share uid d) = dp_files d" "sv_files (dp_server (remove_share uid d)) = sv_files (dp_server d)"
  by (simp_all add: remove_share_def)

lemma avatar_set_same: "length h = 32 \<Longrightarrow> avatar (set_avatar n (Some h) users) n = Some h"
  using utf8_from_ascii [OF hex_ascii, of h] by (simp add: avatar_def set_avatar_def profile.read_store unhex_hex)

definition with_avatar :: "transfer \<Rightarrow> u8 list \<Rightarrow> ('o, 'r) depot \<Rightarrow> ('o, 'r) depot" where
  "with_avatar tr hash d = (let d = on_hub (\<lambda>s. sweep (edit_users (set_avatar (tr_name tr) (Some hash)) s)) d in
     tell_client (tr_id tr) (Account_Code (Profile (tr_name tr) (user_profile_of (sv_users (dp_server d)) (tr_name tr)) True True)) d)"

lemma publish_avatar:
  "tr_kind tr = UkAvatar \<Longrightarrow> publish y tr hash n filename new fresh pic note d = Some (with_avatar tr hash d)"
  by (simp add: publish_def with_avatar_def Let_def)

lemma with_avatar:
  assumes "length hash = 32" "map_of (hb_images (dp_hub d)) (image_name hash) = Some sealed"
  shows "avatar (sv_users (dp_server (with_avatar tr hash d))) (tr_name tr) = Some hash"
    "map_of (hb_images (dp_hub (with_avatar tr hash d))) (image_name hash) = Some sealed"
proof -
  let ?t = "edit_users (set_avatar (tr_name tr) (Some hash)) (dp_hub d)"
  have "avatar (sv_users (hb ?t)) (tr_name tr) = Some hash"
    using assms(1) by (simp add: edit_users_def avatar_set_same)
  then have "\<not> nameless ?t hash" by (auto simp: nameless_def unnamed_def names_avatar_iff)
  then have "map_of (hb_images (sweep ?t)) (image_name hash) = Some sealed"
    using pictures_sweep [of ?t ?t] assms(2) by (simp add: keeps_pictures_def nameless_def sweep_def Let_def edit_users_def)
  then show "avatar (sv_users (dp_server (with_avatar tr hash d))) (tr_name tr) = Some hash"
    "map_of (hb_images (dp_hub (with_avatar tr hash d))) (image_name hash) = Some sealed"
    using assms(1) by (simp_all add: with_avatar_def Let_def) (simp add: sweep_def Let_def edit_users_def avatar_set_same)
qed

text \<open>A picture of the right size whose pieces are not checked becomes an avatar, whatever it is.\<close>

lemma avatar_arrives:
  assumes C: "chat_ok (wd_chat (yd_world y))" and "tr_kind tr = UkAvatar" "admitted y tr (length data) d" "data \<noteq> []"
    and h: "sha256 (core (wd_chat (yd_world y))) data = hash"
  obtains d' where "upload_run y tr (pieces (tr_uid tr) (chunks UPLOAD_CHUNK_SIZE data)) (Receiving True, snd (on_metadata y fine_io tr
      (Some (u, Metadata (of_nat (length data)) filename hash)) d)) = (Closed, d')"
    "avatar (sv_users (dp_server d')) (tr_name tr) = Some hash"
    "read_image (wd_chat (yd_world y)) (wd_image_key (yd_world y)) (hb_images (dp_hub d')) hash = Inr (Some data)"
    "active (tr_uid tr) d' = None"
proof -
  let ?C = "wd_chat (yd_world y)"
  have p: "persistent (tr_kind tr)" using assms(2) by (simp add: persistent_def)
  obtain st mac where st: "disk_stream ?C (wd_image_key (yd_world y)) hash = Inr (st, mac)" using disk_stream_ok [OF C] by metis
  obtain ct st' where w: "write_chunks ?C st (chunks UPLOAD_CHUNK_SIZE data) = Inr (ct, st')" "length ct = length data"
    "\<forall>images. map_of images (image_name hash) = Some (ct @ disk_seal ?C mac ct) \<longrightarrow>
      read_image ?C (wd_image_key (yd_world y)) images hash = Inr (Some data)"
    by (rule written_image [OF C st, of data])
  have s: "upload_stream y (tr_kind tr) hash = Inr (st, Some mac)" using st p by (simp add: upload_stream_def)
  let ?dn = "landed y tr data filename hash ct st st' (Some mac) (sealed_as ?C (Some mac) ct) (place_in tr (image_name hash)) d"
  have "map_of (hb_images (dp_hub ?dn)) (image_name hash) = Some (ct @ disk_seal ?C mac ct)"
    using p by (simp add: landed_def sealed_as_def disk_seal_def place_in_def update_conv')
  moreover have "length hash = 32" using h chat_okD(1) [OF C] by (auto simp: env_ok_def digest_ok_def)
  ultimately have d1: "avatar (sv_users (dp_server (with_avatar tr hash ?dn))) (tr_name tr) = Some hash"
    "map_of (hb_images (dp_hub (with_avatar tr hash ?dn))) (image_name hash) = Some (ct @ disk_seal ?C mac ct)"
    using with_avatar by blast+
  let ?d = "drop_guard (tr_id tr) (tr_uid tr) (remove_share (tr_uid tr) (with_avatar tr hash ?dn))"
  have "finish_upload y fine_io tr (tr_uid tr) (feed data ct st' (opened tr (length data) filename hash st (Some mac)))
      (arrived y tr data filename hash ct st st' (Some mac) d) = (Closed, ?d)"
    using finish_named [where filename = filename and st = st and st' = st' and mac = "Some mac" and d = d, OF h _ w(2)] assms(2) p
    by (simp add: close_transfer_def publish_avatar)
  then show ?thesis
    using that run_accepted [OF assms(3) s assms(4) w(1)] d1 w(3) by (simp add: drop_finished)
qed

text \<open>The first piece of a picture is checked; every other piece and a shared file are taken as they are.\<close>

lemma step_metadata [simp]: "upload_step y io tr AwaitMetadata received d = on_metadata y io tr received d"
  by (simp add: upload_step_def)

lemma first_piece:
  assumes "ps \<noteq> []" "acceptable (tr_kind tr) (hd ps)"
  shows "upload_run y tr (pieces uid ps) (Receiving False, d) = upload_run y tr (pieces uid ps) (Receiving True, d)"
  using assms by (cases ps) (simp_all add: upload_step_def on_data_def)

lemma stray_piece:
  assumes "acceptable (tr_kind tr) decoy" "active uid d = None"
  shows "upload_run y tr ((fine_io, Some (uid, Data decoy)) # rest) (Receiving False, d) = upload_run y tr rest (Receiving True, d)"
  using assms by (simp add: upload_step_def on_data_def on_piece_def)

lemma not_image_Nil: "\<not> is_image []"
  by (simp add: is_image_def MAGIC_NUMBERS_def starts_with_def ascii_bytes_def PNG_MAGIC_def)

lemma admitted_phase:
  assumes "admitted y tr n d" "chat_ok (wd_chat (yd_world y))" "persistent (tr_kind tr)"
  shows "\<exists>d'. on_metadata y fine_io tr (Some (u, Metadata (of_nat n) filename hash)) d = (Receiving False, d') \<and>
    (\<forall>k. k \<noteq> tr_uid tr \<longrightarrow> active k d' = active k d)"
proof -
  obtain st mac where "disk_stream (wd_chat (yd_world y)) (wd_image_key (yd_world y)) hash = Inr (st, mac)"
    using disk_stream_ok [OF assms(2)] by metis
  then have "upload_stream y (tr_kind tr) hash = Inr (st, Some mac)" using assms(3) by (simp add: upload_stream_def)
  then show ?thesis using on_metadata_ok [OF assms(1)] assms(3) by (simp add: active_def enrol_def update_conv')
qed

section \<open>Shared files\<close>

lemma share_stream_ok:
  assumes "chat_ok C" "length key = 128" "length nonce = 64"
  obtains st where "share_stream C key nonce = Inr st" "file_ok st"
proof -
  note d = default_dims
  obtain kg where kg: "from_key GW GH key = Inr kg" "wf_grid GW GH kg"
    by (rule wf_from_key [OF d(1)]) (use assms(2) d(3) in simp)
  obtain ng where ng: "from_flat GW GH nonce = Inr ng" "wf_grid GW GH ng"
    using from_flat_block [OF d(1)] wf_pad_block [OF d(1)] assms(3) d(3) by (metis order_refl)
  obtain st where "stream_new (core C) GW GH kg ng = Inr st" "stream_ok GW GH st" "rs_buffer st = []"
    by (rule stream_new_ok [OF chat_okD(1) [OF assms(1)] d(2) kg(2) ng(2)])
  then show ?thesis using that kg(1) ng(1) by (simp add: share_stream_def file_ok_def)
qed

lemma write_send:
  assumes "chat_ok C"
  shows "file_ok st \<Longrightarrow> \<exists>cts st'. write_chunks C st ps = Inr (concat cts, st') \<and> map length cts = map length ps \<and>
    send_file C st cts = Inr (map Data ps)"
proof (induction ps arbitrary: st)
  case (Cons p ps)
  let ?ct = "xor_bytes (file_ks st) p"
  obtain cts st' where "write_chunks C (file_next st (length p)) ps = Inr (concat cts, st')"
    "map length cts = map length ps" "send_file C (file_next st (length p)) cts = Inr (map Data ps)"
    using Cons by (metis file_ok_next)
  then show ?case using write_chunk_eq [OF assms Cons.prems, of p] write_chunk_eq [OF assms Cons.prems, of ?ct]
    by (intro exI [of _ "?ct # cts"] exI [of _ st']) (simp add: xor_bytes_cancel)
qed (rule exI [of _ "[]"], simp)

lemma send_lengths:
  assumes "chat_ok C"
  shows "file_ok st \<Longrightarrow> \<exists>ps. send_file C st reads = Inr (map Data ps) \<and> map length ps = map length reads"
proof (induction reads arbitrary: st)
  case (Cons r reads)
  obtain ps where "send_file C (file_next st (length r)) reads = Inr (map Data ps)" "map length ps = map length reads"
    using Cons by (metis file_ok_next)
  then show ?case using write_chunk_eq [OF assms Cons.prems, of r]
    by (intro exI [of _ "xor_bytes (file_ks st) r # ps"]) simp
qed simp

definition shared_as :: "('v, 'w) yard \<Rightarrow> transfer \<Rightarrow> ustr \<Rightarrow> u8 list \<Rightarrow> nat \<Rightarrow> available_file" where
  "shared_as y tr filename hash n = \<lparr> af_hash = hash, af_path = upload_path (tr_name tr) filename, af_filename = filename,
     af_size = of_nat n, af_key = yd_key y, af_nonce = yd_nonce y \<rparr>"

lemma broadcast_files [simp]:
  "sv_files (hb (broadcast code s)) = sv_files (hb s)" "hb_images (broadcast code s) = hb_images s"
  by (simp_all add: broadcast_def quiet_fields [OF quiet_broadcast(1)])

lemma publish_file:
  assumes "tr_kind tr = UkFile" "map_of (sv_files (dp_server d)) (tr_name tr) = Some fs"
  shows "\<exists>d'. publish y tr hash n filename new fresh pic note d = Some d' \<and> dp_files d' = dp_files d \<and>
    map_of (sv_files (dp_server d')) (tr_name tr) = Some (if fresh then fs @ [shared_as y tr filename hash n] else fs)"
  using assms by (simp add: publish_def Let_def shared_as_def update_conv')

lemma file_arrives:
  fixes d :: "('o, 'r) depot"
  assumes C: "chat_ok (wd_chat (yd_world y))" and kind: "tr_kind tr = UkFile" and a: "admitted y tr (length data) d" and "data \<noteq> []"
    and h: "sha256 (core (wd_chat (yd_world y))) data = hash" and st: "share_stream (wd_chat (yd_world y)) (yd_key y) (yd_nonce y) = Inr st"
    and w: "write_chunks (wd_chat (yd_world y)) st (chunks UPLOAD_CHUNK_SIZE data) = Inr (ct, st')" "length ct = length data"
    and "base_name filename \<noteq> uid_text (tr_uid tr)" "map_of (sv_files (dp_server d)) (tr_name tr) = Some fs"
  defines "path \<equiv> upload_path (tr_name tr) (base_name filename)"
  obtains d' where "upload_run y tr ((fine_io, Some (u, Metadata (of_nat (length data)) filename hash)) #
      pieces (tr_uid tr) (chunks UPLOAD_CHUNK_SIZE data)) (AwaitMetadata, d) = (Closed, d')"
    "map_of (dp_files d') path = Some ct"
    "map_of (sv_files (dp_server d')) (tr_name tr) =
       Some (if map_of (dp_files d) path = None then fs @ [shared_as y tr (base_name filename) hash (length data)] else fs)"
proof -
  have p: "\<not> persistent (tr_kind tr)" using kind by (simp add: persistent_def)
  have s: "upload_stream y (tr_kind tr) hash = Inr (st, None)" using st p by (simp add: upload_stream_def)
  have n: "unat (of_nat (length data) :: u64) = length data" using a by (simp add: admitted_def unat_of_nat)
  have new: "place_in tr (base_name filename) = InUploads path" "InUploads path \<noteq> place_in tr (uid_text (tr_uid tr))"
    using p assms(9) by (simp_all add: place_in_def path_def upload_path_def)
  let ?dn = "landed y tr data filename hash ct st st' None ct (InUploads path) d"
  have files: "map_of (sv_files (dp_server ?dn)) (tr_name tr) = Some fs" "map_of (dp_files ?dn) path = Some ct"
    using assms(10) by (simp_all add: landed_def enrol_def update_conv')
  obtain d1 where d1: "publish y tr hash (length data) (base_name filename) (InUploads path) (map_of (dp_files d) path = None) None None ?dn = Some d1"
    "map_of (dp_files d1) path = Some ct" "map_of (sv_files (dp_server d1)) (tr_name tr) =
       Some (if map_of (dp_files d) path = None then fs @ [shared_as y tr (base_name filename) hash (length data)] else fs)"
    using publish_file [OF kind files(1)] files(2) by metis
  let ?d = "drop_guard (tr_id tr) (tr_uid tr) (remove_share (tr_uid tr) d1)"
  have "finish_upload y fine_io tr (tr_uid tr) (feed data ct st' (opened tr (length data) filename hash st None))
      (arrived y tr data filename hash ct st st' None d) = (Closed, ?d)"
    using finish_named [where filename = filename and st = st and st' = st' and mac = None and d = d, OF h _ w(2)] kind p new n d1(1)
    by (simp add: close_transfer_def sealed_as_def)
  then show ?thesis
    using that run_accepted [OF a s assms(4) w(1), of u filename] on_metadata_ok [OF a s, of u filename] p d1(2,3) by (simp add: drop_finished)
qed

section \<open>Uploads in the way of each other\<close>

text \<open>An upload whose file has gone takes every piece and ends without a trace.\<close>

lemma finish_gone:
  assumes "read_place (fs_path x) d = None" "fs_path x = place_in tr (uid_text uid)" "fs_hash x = sha256 (core (wd_chat (yd_world y))) (fs_hashed x)"
    "tr_kind tr \<noteq> UkVoice"
  shows "finish_upload y fine_io tr uid x d = close_transfer tr (put_share uid (x\<lparr> fs_image := None, fs_mac := None \<rparr>) d)"
  using assms by (cases "fs_mac x") (simp_all add: finish_upload_def name_upload_def Let_def append_place_def rename_place_def)

lemma drop_keeps:
  "map_of (hb_images (dp_hub (drop_guard i uid d))) n = (case active uid d of
     Some (_, x) \<Rightarrow> if find_id i (dp_server d) \<noteq> None \<and> fs_path x = InImages n then None else map_of (hb_images (dp_hub d)) n
   | None \<Rightarrow> map_of (hb_images (dp_hub d)) n)"
  "sv_history (dp_server (drop_guard i uid d)) = sv_history (dp_server d)" "spoken (dp_server (drop_guard i uid d)) = spoken (dp_server d)"
proof -
  have rm: "map_of (hb_images (dp_hub (remove_place p d))) n = (if p = InImages n then None else map_of (hb_images (dp_hub d)) n)" for p and d :: "('o, 'r) depot"
    by (cases p) (simp_all add: delete_conv')
  show "map_of (hb_images (dp_hub (drop_guard i uid d))) n = (case active uid d of
     Some (_, x) \<Rightarrow> if find_id i (dp_server d) \<noteq> None \<and> fs_path x = InImages n then None else map_of (hb_images (dp_hub d)) n
   | None \<Rightarrow> map_of (hb_images (dp_hub d)) n)"
    by (auto simp: drop_guard_def Let_def active_def rm delete_conv' split: option.split prod.split)
  show "sv_history (dp_server (drop_guard i uid d)) = sv_history (dp_server d)" "spoken (dp_server (drop_guard i uid d)) = spoken (dp_server d)"
    by (simp_all add: drop_guard_def Let_def remove_share_def spoken_def split: option.split prod.split)
qed

lemma nameless_removed: "nameless s x \<Longrightarrow> nameless (edit_users (set_avatar n None) s) x"
proof -
  have "avatar (set_avatar n None (sv_users (hb s))) u \<noteq> Some x" if "\<And>v. avatar (sv_users (hb s)) v \<noteq> Some x" for u
    using avatar_set(1) [of n None "sv_users (hb s)" u x] that [of u] by auto
  then show "nameless s x \<Longrightarrow> nameless (edit_users (set_avatar n None) s) x"
    by (simp add: nameless_def unnamed_def names_avatar_iff edit_users_def)
qed

lemma swept_stray:
  assumes "\<forall>x. image_name x = n \<longrightarrow> nameless s x"
  shows "map_of (hb_images (sweep s)) n = None"
proof (rule ccontr)
  assume "map_of (hb_images (sweep s)) n \<noteq> None"
  then have "n \<in> set (map fst (hb_images s))" "n \<notin> set (sweep_images (sv_users (hb s)) (sv_icon (hb s)) (sv_history (hb s)) (map fst (hb_images s)))"
    by (auto simp: sweep_def Let_def map_of_keys_filter split: if_splits simp flip: dom_map_of_conv_image_fst)
  then obtain x where "n = image_name x" "\<not> nameless s x"
    by (auto simp: sweep_images_def Let_def image_name_def nameless_def unnamed_def map_filter_set avatars_def names_avatar_def
        list_ex_iff split: option.splits)
  then show False using assms by blast
qed

text \<open>What the bookkeeping of transfers reads: the list of uploads and the ids of the sessions.\<close>

definition outer :: "('o, 'r) server \<Rightarrow> (u64 \<times> nat) list \<times> nat list" where
  "outer v = (sv_uploads v, session_ids v)"

lemma outer_quiet: "quiet v = quiet u \<Longrightarrow> outer v = outer u"
  unfolding outer_def using quiet_fields(4) session_ids_quiet by blast

lemma outer_update [simp]:
  "outer (v\<lparr> sv_transfers := b \<rparr>) = outer v" "outer (v\<lparr> sv_files := f \<rparr>) = outer v" "outer (v\<lparr> sv_users := us \<rparr>) = outer v"
  "outer (v\<lparr> sv_history := h \<rparr>) = outer v" "outer (v\<lparr> sv_icon := ic \<rparr>) = outer v" "outer (v\<lparr> sv_effects := e \<rparr>) = outer v"
  by (simp_all add: outer_def session_ids_def)

lemma outer_sends [simp]:
  "outer (notify i code v) = outer v" "outer (send_to_all code v) = outer v" "outer (icon_changed i v) = outer v"
  by (rule outer_quiet, simp add: icon_changed_def Let_def)+

lemma outer_disk: "outer (hb (fold disk_effect es s)) = outer (hb s)"
proof (induction es arbitrary: s)
  case (Cons e es)
  then show ?case by (cases e) simp_all
qed simp

lemma outer_hub [simp]:
  "outer (hb (sweep s)) = outer (hb s)" "outer (hb (edit_users f s)) = outer (hb s)" "outer (hb (put_icon p s)) = outer (hb s)"
  "outer (hb (broadcast code s)) = outer (hb s)"
  by (simp_all add: sweep_def Let_def edit_users_def put_icon_def broadcast_def)

lemma outer_history: "with_history f s = (x, s') \<Longrightarrow> outer (hb s') = outer (hb s)"
  by (auto simp: with_history_def outer_disk split: prod.splits)

lemma outer_depot [simp]:
  "outer (dp_server (tell_client i code d)) = outer (dp_server d)" "outer (dp_server (append_place p b d)) = outer (dp_server d)"
  by (simp_all add: tell_client_def)

lemma store_outer:
  "outer (dp_server (store_upload w tr f fresh new code d)) = outer (dp_server d) \<and>
   dp_shares (store_upload w tr f fresh new code d) = dp_shares d"
  by (auto simp: store_upload_def Let_def dest: outer_history split: prod.split)

lemma publish_outer:
  assumes "publish y tr hash n filename new fresh pic note d = Some d'"
  shows "outer (dp_server d') = outer (dp_server d)" "dp_shares d' = dp_shares d"
  using assms by (auto simp: publish_def Let_def store_outer tell_client_def split: upload_kind.splits option.splits if_splits)

lemma active_cong: "sv_uploads (dp_server d') = sv_uploads (dp_server d) \<Longrightarrow> dp_shares d' k = dp_shares d k \<Longrightarrow> active k d' = active k d"
  by (simp add: active_def)

lemma active_tell [simp]: "active k (tell_client i code d) = active k d"
  by (simp add: active_def tell_client_def quiet_fields(4) [OF quiet_broadcast(4)])

lemma active_remove_other: "k \<noteq> uid \<Longrightarrow> active k (remove_share uid d) = active k d"
  by (simp add: active_def remove_share_def delete_conv')

lemma find_session: "find_id i v \<noteq> None \<longleftrightarrow> i \<in> set (session_ids v)"
  by (force simp: find_id_def session_ids_def map_filter_set find_None_iff)

lemma drop_active:
  "k \<noteq> uid \<Longrightarrow> active k (drop_guard i uid d) = active k d"
  "i \<in> set (session_ids (dp_server d)) \<Longrightarrow> active uid (drop_guard i uid d) = None"
proof -
  have t: "active k (on_hub (on_server (\<lambda>v. v\<lparr> sv_transfers := ts, sv_effects := es v \<rparr>)) d) = active k d" for k ts es and d :: "('o, 'r) depot"
    by (simp add: active_def)
  show "k \<noteq> uid \<Longrightarrow> active k (drop_guard i uid d) = active k d"
    by (simp add: drop_guard_def Let_def t active_remove_other split: option.split prod.split)
  assume "i \<in> set (session_ids (dp_server d))"
  then show "active uid (drop_guard i uid d) = None"
    by (auto simp: drop_guard_def Let_def t simp flip: find_session split: option.split prod.split)
qed

text \<open>A step of a transfer: other uploads stay as they are, and one that ends leaves none of its own behind.\<close>

definition contained :: "transfer \<Rightarrow> u64 \<Rightarrow> upload_phase \<times> ('o, 'r) depot \<Rightarrow> ('o, 'r) depot \<Rightarrow> bool" where
  "contained tr k res d \<longleftrightarrow> active k (snd res) = active k d \<and>
     (fst res \<in> {Closed, Failed_Hard} \<longrightarrow> tr_id tr \<in> set (session_ids (dp_server d)) \<longrightarrow> active (tr_uid tr) (snd res) = None)"

lemma contained_close:
  assumes "session_ids (dp_server e) = session_ids (dp_server d)" "k \<noteq> tr_uid tr" "active k e = active k d"
  shows "contained tr k (ph, drop_guard (tr_id tr) (tr_uid tr) e) d" "contained tr k (close_transfer tr e) d"
    "contained tr k (reject_transfer tr e) d"
  using assms outer_depot(1) [of "tr_id tr" "Lobby_Code InvalidUsage" e]
  by (simp_all add: contained_def close_transfer_def reject_transfer_def drop_active outer_def)

lemma sessions_depot [simp]:
  "session_ids (dp_server (put_share uid x d)) = session_ids (dp_server d)" "session_ids (dp_server (write_place p b d)) = session_ids (dp_server d)"
  "session_ids (dp_server (remove_place p d)) = session_ids (dp_server d)" "session_ids (dp_server (remove_share uid d)) = session_ids (dp_server d)"
  by (simp_all add: remove_share_def session_ids_def)

lemma rename_contained:
  assumes "rename_place p q d = Some d'"
  shows "active k d' = active k d" "session_ids (dp_server d') = session_ids (dp_server d)"
  using assms by (auto simp: rename_place_def)

lemma publish_contained:
  assumes "publish y tr hash n filename new fresh pic note d = Some d'"
  shows "active k d' = active k d" "session_ids (dp_server d') = session_ids (dp_server d)"
  using publish_outer [OF assms] by (simp_all add: outer_def active_def)

lemma contained_receiving: "active k e = active k d \<Longrightarrow> contained tr k (Receiving b, e) d"
  by (simp add: contained_def)

lemma name_contained:
  assumes "k \<noteq> uid" "k \<noteq> tr_uid tr" "session_ids (dp_server e) = session_ids (dp_server d)" "active k e = active k d"
  shows "contained tr k (name_upload y io tr uid x h c e) d"
proof -
  have "active k e' = active k d" "session_ids (dp_server e') = session_ids (dp_server d)"
    if "(if io_rename io then rename_place p q e else None) = Some e'" for p q e'
    using that assms(3,4) rename_contained [of p q e e'] by (auto split: if_splits)
  then show ?thesis using assms
    by (auto simp: name_upload_def Let_def active_remove_other publish_contained split: option.split intro!: contained_close)
qed

lemma finish_contained:
  assumes "k \<noteq> uid" "k \<noteq> tr_uid tr" "session_ids (dp_server e) = session_ids (dp_server d)" "active k e = active k d"
  shows "contained tr k (finish_upload y io tr uid x e) d"
proof -
  define e1 where "e1 = put_share uid (x\<lparr> fs_image := None, fs_mac := None \<rparr>) e"
  define e2 where "e2 = (case fs_mac x of Some (m, fed) \<Rightarrow>
     append_place (fs_path x) (written (io_tag io) (disk_tag (wd_chat (yd_world y)) m fed (fs_current x))) e1 | None \<Rightarrow> e1)"
  have e2: "active k e2 = active k d" "session_ids (dp_server e2) = session_ids (dp_server d)"
    using assms by (auto simp: e2_def e1_def split: option.split)
  show ?thesis unfolding finish_upload_def Let_def e1_def [symmetric] e2_def [symmetric]
    using assms(1,2) e2 by (simp add: contained_close name_contained)
qed

lemma piece_contained:
  assumes "active k d = Some (i, x)" "i \<noteq> tr_id tr" "k \<noteq> tr_uid tr"
  shows "contained tr k (on_piece y io tr uid data d) d"
proof (cases "active uid d")
  case (Some ux)
  have "k \<noteq> uid" if "fst ux = tr_id tr" using that assms(1,2) Some by auto
  then show ?thesis using Some assms(3)
    by (auto simp: on_piece_def Let_def split: sum.split prod.split intro!: contained_close contained_receiving finish_contained)
qed (simp add: on_piece_def contained_receiving)

lemma metadata_contained:
  assumes "k \<noteq> tr_uid tr"
  shows "contained tr k (on_metadata y io tr received d) d"
proof -
  have "active k (put_share (tr_uid tr) x (on_hub (on_server (\<lambda>v. v\<lparr> sv_uploads := AList.update (tr_uid tr) (tr_id tr) (sv_uploads v) \<rparr>))
      (write_place p b d))) = active k d" for x p b
    using assms by (simp add: active_def update_conv')
  then show ?thesis using assms
    by (auto simp: on_metadata_def Let_def split: option.split prod.split file_packet_code.split sum.split intro!: contained_close contained_receiving)
qed

section \<open>A depot\<close>

definition demo_yard :: "(i64 list, nat) yard" where
  "demo_yard = \<lparr> yd_world = demo_world, max_upload_size = 10, yd_key = replicate 128 1, yd_nonce = replicate 64 2, yd_clip = (\<lambda>_. None) \<rparr>"

definition blank_stream :: rex_stream where
  "blank_stream = \<lparr> rs_round_keys = [], rs_round_shifts = [], rs_nonce = [], rs_block_counter = 0, rs_buffer = [] \<rparr>"

definition ann_upload :: "upload_kind \<Rightarrow> transfer" where
  "ann_upload kind = \<lparr> tr_id = 0, tr_uid = 5, tr_name = ustr ''ann'', tr_kind = kind \<rparr>"

definition demo_depot :: "available_file list \<Rightarrow> (ustr \<times> u8 list) list \<Rightarrow> ('o, 'r) depot" where
  "demo_depot shared files = \<lparr> dp_hub = on_server (\<lambda>v. v\<lparr> sv_files := [(ustr ''ann'', shared)] \<rparr>) (demo False),
     dp_shares = (\<lambda>_. opened (ann_upload UkFile) 0 [] [] blank_stream None), dp_files = files \<rparr>"

text \<open>The header of a square picture of sixteen pixels.\<close>

definition small_png :: "u8 list" where
  "small_png = PNG_MAGIC @ [0, 0, 0, 13] @ ascii_bytes ''IHDR'' @ [0, 0, 0, 16, 0, 0, 0, 16]"

lemma small_png: "acceptable UkAvatar small_png" "length small_png = 24" "acceptable UkAvatar (take UPLOAD_CHUNK_SIZE small_png)"
proof -
  show "length small_png = 24" by (simp add: small_png_def PNG_MAGIC_def ascii_bytes_def)
  then have "take UPLOAD_CHUNK_SIZE small_png = small_png" by (simp add: UPLOAD_CHUNK_SIZE_def MEGABYTE_def)
  moreover show "acceptable UkAvatar small_png" by code_simp
  ultimately show "acceptable UkAvatar (take UPLOAD_CHUNK_SIZE small_png)" by simp
qed

lemma demo_admitted:
  assumes "n < 1000000" "map_of files (upload_path (ustr ''ann'') (uid_text 5)) = None"
  shows "admitted demo_yard (ann_upload kind) n (demo_depot shared files :: ('o, 'r) depot)"
  using assms
  by (auto simp: admitted_def demo_yard_def demo_world_def ann_upload_def demo_depot_def demo_def crew_def empty_server_def place_in_def
      MEGABYTE_def ceiling_of_def MAX_AVATAR_SIZE_def MAX_IMAGE_SIZE_def MAX_VOICE_MESSAGE_SIZE_def split: upload_kind.split)

lemma demo_access:
  "wd_chat (yd_world demo_yard) = ref_chat" "wd_image_key (yd_world demo_yard) = [7]" "core ref_chat = ref_env" "chat_ok ref_chat"
  "tr_kind (ann_upload kind) = kind" "tr_uid (ann_upload kind) = 5" "tr_name (ann_upload kind) = ustr ''ann''"
  "length (yd_key demo_yard) = 128" "length (yd_nonce demo_yard) = 64" "dp_files (demo_depot shared files) = files"
  "map_of (sv_files (dp_server (demo_depot shared files))) (ustr ''ann'') = Some shared"
  using chat_ok_ref by (simp_all add: demo_yard_def demo_world_def ann_upload_def demo_depot_def) (simp add: ref_chat_def)

lemma profiles_demo: "profiles demo_world"
  by (simp add: demo_world_def)

lemma demo_names: "base_name (ustr ''d/a'') = ustr ''a''" "uid_text 5 = ustr ''5''" "ustr ''a'' \<noteq> ustr ''5''"
  "upload_path x p = upload_path x q \<longleftrightarrow> p = q"
  by (simp_all add: base_name_def file_name_def ustr_def uid_text_def show_nat.simps upload_path_def)

section \<open>Properties\<close>

text \<open>
  C22 (avatar_upload_kept). A client that sends the metadata of a picture with its length and SHA-256 and then the picture in
  pieces of the chunk size, on a socket for an avatar, ends with the picture as its avatar: the account
  names the hash, the picture is read back from disk as it was sent, and the upload is no longer in progress. The picture has to
  fit the limits, its first piece has to show a square of an allowed size, and the operating system has to carry out the file operations.
\<close>

theorem avatar_upload_kept:
  assumes "chat_ok (wd_chat (yd_world y))" "tr_kind tr = UkAvatar" "admitted y tr (length data) d"
    "acceptable UkAvatar (take UPLOAD_CHUNK_SIZE data)" "hash = sha256 (core (wd_chat (yd_world y))) data"
  shows "\<exists>d'. upload_run y tr ((fine_io, Some (u, Metadata (of_nat (length data)) filename hash)) #
      pieces (tr_uid tr) (chunks UPLOAD_CHUNK_SIZE data)) (AwaitMetadata, d) = (Closed, d') \<and>
    avatar (sv_users (dp_server d')) (tr_name tr) = Some hash \<and>
    read_image (wd_chat (yd_world y)) (wd_image_key (yd_world y)) (hb_images (dp_hub d')) hash = Inr (Some data) \<and>
    active (tr_uid tr) d' = None"
proof -
  have data: "data \<noteq> []" using assms(4) by (auto simp: acceptable_def not_image_Nil)
  have U: "0 < UPLOAD_CHUNK_SIZE" by (simp add: UPLOAD_CHUNK_SIZE_def MEGABYTE_def)
  obtain dm where m: "on_metadata y fine_io tr (Some (u, Metadata (of_nat (length data)) filename hash)) d = (Receiving False, dm)"
    using admitted_phase [OF assms(3,1)] assms(2) by (metis persistent_def upload_kind.distinct(3))
  have "upload_run y tr (pieces (tr_uid tr) (chunks UPLOAD_CHUNK_SIZE data)) (Receiving False, dm) =
      upload_run y tr (pieces (tr_uid tr) (chunks UPLOAD_CHUNK_SIZE data)) (Receiving True, dm)"
    by (rule first_piece) (use assms(2,4) data U in \<open>simp_all add: chunks_step\<close>)
  then show ?thesis using avatar_arrives [OF assms(1-3) data assms(5) [symmetric], of u filename] m by auto
qed

theorem avatar_upload_kept_witness:
  "\<exists>d'. upload_run demo_yard (ann_upload UkAvatar) ((fine_io, Some (0, Metadata (of_nat (length small_png)) [] (sha256 ref_env small_png))) #
      pieces 5 (chunks UPLOAD_CHUNK_SIZE small_png)) (AwaitMetadata, demo_depot [] [] :: ('o, 'r) depot) = (Closed, d') \<and>
    avatar (sv_users (dp_server d')) (ustr ''ann'') = Some (sha256 ref_env small_png) \<and>
    read_image ref_chat [7] (hb_images (dp_hub d')) (sha256 ref_env small_png) = Inr (Some small_png)"
  using avatar_upload_kept [where y = demo_yard and tr = "ann_upload UkAvatar" and d = "demo_depot [] [] :: ('o, 'r) depot" and data = small_png and
      u = 0 and filename = "[]", OF _ _ demo_admitted small_png(3) refl] small_png(2)
  by (auto simp: demo_access simp del: upload_run.simps)

text \<open>
  C38 (avatar_check_dodged). The check of the first piece is spent on a piece that names no upload of the client and is
  dropped: after such a decoy, anything at all within the size limit becomes the client's avatar.
\<close>

theorem avatar_check_dodged:
  assumes "chat_ok (wd_chat (yd_world y))" "tr_kind tr = UkAvatar" "admitted y tr (length data) d" "data \<noteq> []"
    "acceptable UkAvatar decoy" "k \<noteq> tr_uid tr" "active k d = None" "hash = sha256 (core (wd_chat (yd_world y))) data"
  shows "\<exists>d'. upload_run y tr ((fine_io, Some (u, Metadata (of_nat (length data)) filename hash)) # (fine_io, Some (k, Data decoy)) #
      pieces (tr_uid tr) (chunks UPLOAD_CHUNK_SIZE data)) (AwaitMetadata, d) = (Closed, d') \<and>
    avatar (sv_users (dp_server d')) (tr_name tr) = Some hash \<and>
    read_image (wd_chat (yd_world y)) (wd_image_key (yd_world y)) (hb_images (dp_hub d')) hash = Inr (Some data)"
proof -
  obtain dm where m: "on_metadata y fine_io tr (Some (u, Metadata (of_nat (length data)) filename hash)) d = (Receiving False, dm)"
    "active k dm = None"
    using admitted_phase [OF assms(3,1)] assms(2,6,7) by (metis persistent_def upload_kind.distinct(3))
  have "upload_run y tr ((fine_io, Some (k, Data decoy)) # pieces (tr_uid tr) (chunks UPLOAD_CHUNK_SIZE data)) (Receiving False, dm) =
      upload_run y tr (pieces (tr_uid tr) (chunks UPLOAD_CHUNK_SIZE data)) (Receiving True, dm)"
    by (rule stray_piece) (use assms(2,5) m(2) in simp_all)
  then show ?thesis using avatar_arrives [OF assms(1-4) assms(8) [symmetric], of u filename] m(1) by auto
qed

theorem avatar_check_dodged_witness:
  "\<not> is_image [33] \<and> (\<exists>d'. upload_run demo_yard (ann_upload UkAvatar) ((fine_io, Some (0, Metadata 1 [] (sha256 ref_env [33]))) #
      (fine_io, Some (6, Data small_png)) # pieces 5 [[33]]) (AwaitMetadata, demo_depot [] [] :: ('o, 'r) depot) = (Closed, d') \<and>
    avatar (sv_users (dp_server d')) (ustr ''ann'') = Some (sha256 ref_env [33]) \<and>
    read_image ref_chat [7] (hb_images (dp_hub d')) (sha256 ref_env [33]) = Inr (Some [33]))"
proof
  show "\<not> is_image [33]" by code_simp
  have "chunks UPLOAD_CHUNK_SIZE [33 :: u8] = [[33]]" by (rule chunks_short) (simp_all add: UPLOAD_CHUNK_SIZE_def MEGABYTE_def)
  moreover have "active 6 (demo_depot [] [] :: ('o, 'r) depot) = None"
    by (simp add: active_def demo_depot_def demo_def crew_def empty_server_def)
  ultimately show "\<exists>d'. upload_run demo_yard (ann_upload UkAvatar) ((fine_io, Some (0, Metadata 1 [] (sha256 ref_env [33]))) #
      (fine_io, Some (6, Data small_png)) # pieces 5 [[33]]) (AwaitMetadata, demo_depot [] [] :: ('o, 'r) depot) = (Closed, d') \<and>
    avatar (sv_users (dp_server d')) (ustr ''ann'') = Some (sha256 ref_env [33]) \<and>
    read_image ref_chat [7] (hb_images (dp_hub d')) (sha256 ref_env [33]) = Inr (Some [33])"
    using avatar_check_dodged [where y = demo_yard and tr = "ann_upload UkAvatar" and d = "demo_depot [] [] :: ('o, 'r) depot" and data = "[33]" and
        u = 0 and filename = "[]" and k = 6, OF _ _ demo_admitted _ small_png(1) _ _ refl]
    by (auto simp: demo_access simp del: upload_run.simps)
qed

text \<open>
  C23 (fileshare_roundtrip). A file uploaded on a socket for shared files, in pieces of the chunk size, is added to the shared files
  of its user, and whoever downloads it is sent its length, base name and hash and then the same pieces, as long as no file of
  that name is there. On disk it is encrypted under a key of its own.
\<close>

theorem fileshare_roundtrip:
  assumes "chat_ok (wd_chat (yd_world y))" "tr_kind tr = UkFile" "admitted y tr (length data) d" "data \<noteq> []"
    "hash = sha256 (core (wd_chat (yd_world y))) data" "length (yd_key y) = 128" "length (yd_nonce y) = 64"
    "base_name filename \<noteq> uid_text (tr_uid tr)" "map_of (dp_files d) (upload_path (tr_name tr) (base_name filename)) = None"
    "map_of (sv_files (dp_server d)) (tr_name tr) = Some fs"
  shows "\<exists>d' f. upload_run y tr ((fine_io, Some (u, Metadata (of_nat (length data)) filename hash)) #
      pieces (tr_uid tr) (chunks UPLOAD_CHUNK_SIZE data)) (AwaitMetadata, d) = (Closed, d') \<and>
    map_of (sv_files (dp_server d')) (tr_name tr) = Some (fs @ [f]) \<and>
    upload_file (wd_chat (yd_world y)) f d' =
      (Metadata (of_nat (length data)) (base_name filename) hash # map Data (chunks UPLOAD_CHUNK_SIZE data), True)"
proof -
  let ?C = "wd_chat (yd_world y)" and ?ps = "chunks UPLOAD_CHUNK_SIZE data"
  have U: "0 < UPLOAD_CHUNK_SIZE" by (simp add: UPLOAD_CHUNK_SIZE_def MEGABYTE_def)
  obtain st where st: "share_stream ?C (yd_key y) (yd_nonce y) = Inr st" "file_ok st"
    by (rule share_stream_ok [OF assms(1,6,7)])
  obtain cts st' where w: "write_chunks ?C st ?ps = Inr (concat cts, st')" "map length cts = map length ?ps"
    "send_file ?C st cts = Inr (map Data ?ps)" using write_send [OF assms(1) st(2)] by blast
  have "length (concat cts) = length data" using length_write_chunks [OF assms(1) st(2) w(1)] U by simp
  then obtain d' where "upload_run y tr ((fine_io, Some (u, Metadata (of_nat (length data)) filename hash)) # pieces (tr_uid tr) ?ps)
      (AwaitMetadata, d) = (Closed, d')" "map_of (dp_files d') (upload_path (tr_name tr) (base_name filename)) = Some (concat cts)"
    "map_of (sv_files (dp_server d')) (tr_name tr) = Some (fs @ [shared_as y tr (base_name filename) hash (length data)])"
    using file_arrives [OF assms(1-4) assms(5) [symmetric] st(1) w(1) _ assms(8,10), of u] assms(9) by auto
  then show ?thesis using st(1) w(3) chunks_by_length [OF w(2) U] by (auto simp: upload_file_def shared_as_def Let_def)
qed

theorem fileshare_roundtrip_witness:
  "\<exists>d' f. upload_run demo_yard (ann_upload UkFile) ((fine_io, Some (0, Metadata 3 (ustr ''d/a'') (sha256 ref_env [1, 2, 3]))) # pieces 5 [[1, 2, 3]])
      (AwaitMetadata, demo_depot [] [] :: ('o, 'r) depot) = (Closed, d') \<and>
    upload_file ref_chat f d' = ([Metadata 3 (ustr ''a'') (sha256 ref_env [1, 2, 3]), Data [1, 2, 3]], True)"
proof -
  have "chunks UPLOAD_CHUNK_SIZE [1, 2, 3 :: u8] = [[1, 2, 3]]"
    by (rule chunks_short) (simp_all add: UPLOAD_CHUNK_SIZE_def MEGABYTE_def)
  then show ?thesis
    using fileshare_roundtrip [where y = demo_yard and tr = "ann_upload UkFile" and d = "demo_depot [] [] :: ('o, 'r) depot" and
        data = "[1, 2, 3]" and u = 0 and filename = "ustr ''d/a''", OF _ _ demo_admitted _ refl, of "[]"] demo_names
    by (auto simp: demo_access simp del: upload_run.simps)
qed

text \<open>
  C39 (reupload_breaks_share). A second upload of a file of the same name replaces the bytes on disk, encrypted under a new key,
  but leaves the entry of the first in the list of shared files: whoever downloads it is told the old length, name and hash and is
  sent as many bytes as the new file has, decrypted under the old key.
\<close>

theorem reupload_breaks_share:
  assumes "chat_ok (wd_chat (yd_world y))" "tr_kind tr = UkFile" "admitted y tr (length data) d" "data \<noteq> []"
    "hash = sha256 (core (wd_chat (yd_world y))) data" "length (yd_key y) = 128" "length (yd_nonce y) = 64"
    "base_name filename \<noteq> uid_text (tr_uid tr)" "map_of (dp_files d) (upload_path (tr_name tr) (base_name filename)) \<noteq> None"
    "map_of (sv_files (dp_server d)) (tr_name tr) = Some fs" "f \<in> set fs" "af_path f = upload_path (tr_name tr) (base_name filename)"
    "length (af_key f) = 128" "length (af_nonce f) = 64"
  shows "\<exists>d' ps. upload_run y tr ((fine_io, Some (u, Metadata (of_nat (length data)) filename hash)) #
      pieces (tr_uid tr) (chunks UPLOAD_CHUNK_SIZE data)) (AwaitMetadata, d) = (Closed, d') \<and>
    map_of (sv_files (dp_server d')) (tr_name tr) = Some fs \<and>
    upload_file (wd_chat (yd_world y)) f d' = (Metadata (af_size f) (af_filename f) (af_hash f) # map Data ps, True) \<and>
    length (concat ps) = length data"
proof -
  let ?C = "wd_chat (yd_world y)" and ?ps = "chunks UPLOAD_CHUNK_SIZE data"
  have U: "0 < UPLOAD_CHUNK_SIZE" by (simp add: UPLOAD_CHUNK_SIZE_def MEGABYTE_def)
  obtain st where st: "share_stream ?C (yd_key y) (yd_nonce y) = Inr st" "file_ok st"
    by (rule share_stream_ok [OF assms(1,6,7)])
  obtain old where old: "share_stream ?C (af_key f) (af_nonce f) = Inr old" "file_ok old"
    by (rule share_stream_ok [OF assms(1,13,14)])
  obtain cts st' where w: "write_chunks ?C st ?ps = Inr (concat cts, st')" using write_send [OF assms(1) st(2)] by blast
  have len: "length (concat cts) = length data" using length_write_chunks [OF assms(1) st(2) w] U by simp
  then obtain d' where d': "upload_run y tr ((fine_io, Some (u, Metadata (of_nat (length data)) filename hash)) # pieces (tr_uid tr) ?ps)
      (AwaitMetadata, d) = (Closed, d')" "map_of (dp_files d') (upload_path (tr_name tr) (base_name filename)) = Some (concat cts)"
    "map_of (sv_files (dp_server d')) (tr_name tr) = Some fs"
    using file_arrives [OF assms(1-4) assms(5) [symmetric] st(1) w _ assms(8,10), of u] assms(9) by auto
  obtain ps where ps: "send_file ?C old (chunks UPLOAD_CHUNK_SIZE (concat cts)) = Inr (map Data ps)"
    "map length ps = map length (chunks UPLOAD_CHUNK_SIZE (concat cts))" using send_lengths [OF assms(1) old(2)] by blast
  have "length (concat ps) = length (concat (chunks UPLOAD_CHUNK_SIZE (concat cts)))" by (simp only: length_concat ps(2))
  then have "length (concat ps) = length data" using U len by simp
  then show ?thesis using d' ps(1) old(1) assms(12) by (auto simp: upload_file_def Let_def)
qed

theorem reupload_breaks_share_witness:
  "let f = \<lparr> af_hash = [9], af_path = upload_path (ustr ''ann'') (ustr ''a''), af_filename = ustr ''a'', af_size = 7, af_key = replicate 128 3,
       af_nonce = replicate 64 4 \<rparr>
   in \<exists>d' ps. upload_run demo_yard (ann_upload UkFile) ((fine_io, Some (0, Metadata 1 (ustr ''d/a'') (sha256 ref_env [1]))) # pieces 5 [[1]])
      (AwaitMetadata, demo_depot [f] [(af_path f, replicate 7 0)] :: ('o, 'r) depot) = (Closed, d') \<and>
    upload_file ref_chat f d' = (Metadata 7 (ustr ''a'') [9] # map Data ps, True) \<and> length (concat ps) = 1"
proof -
  let ?f = "\<lparr> af_hash = [9], af_path = upload_path (ustr ''ann'') (ustr ''a''), af_filename = ustr ''a'', af_size = 7, af_key = replicate 128 3,
       af_nonce = replicate 64 4 \<rparr> :: available_file"
  have "chunks UPLOAD_CHUNK_SIZE [1 :: u8] = [[1]]" by (rule chunks_short) (simp_all add: UPLOAD_CHUNK_SIZE_def MEGABYTE_def)
  then show ?thesis
    using reupload_breaks_share [where y = demo_yard and tr = "ann_upload UkFile" and data = "[1]" and u = 0 and filename = "ustr ''d/a''" and
        d = "demo_depot [?f] [(af_path ?f, replicate 7 0)] :: ('o, 'r) depot" and f = ?f and fs = "[?f]", OF _ _ demo_admitted _ refl] demo_names
    by (auto simp: demo_access simp del: upload_run.simps)
qed

text \<open>
  C40 (avatar_cuts_upload). Whoever removes an avatar has every unnamed file of the image directory deleted, the files of running uploads
  among them: a picture whose upload had begun before is taken in piece by piece as if nothing had happened, and then
  nothing is stored, added to the history or sent to anybody.
\<close>

theorem avatar_cuts_upload:
  assumes "chat_ok (wd_chat (yd_world y))" "tr_kind tr = UkImage" "admitted y tr (length data) d" "data \<noteq> []"
    "acceptable UkImage (take UPLOAD_CHUNK_SIZE data)" "hash = sha256 (core (wd_chat (yd_world y))) data"
    "upload_run y tr [(fine_io, Some (u, Metadata (of_nat (length data)) filename hash))] (AwaitMetadata, d) = (ph, d1)"
    "profiles w" "\<not> is_muted ss (dp_hub d1)" "\<forall>x. image_name x = uid_text (tr_uid tr) \<longrightarrow> nameless (dp_hub d1) x"
    "handle w ss (Account_Code (AvatarRequest None)) (dp_hub d1) = Continue ss' s'"
  shows "\<exists>d'. upload_run y tr (pieces (tr_uid tr) (chunks UPLOAD_CHUNK_SIZE data)) (ph, d1\<lparr> dp_hub := s' \<rparr>) = (Closed, d') \<and>
    map_of (hb_images (dp_hub d')) (image_name hash) = map_of (hb_images s') (image_name hash) \<and>
    sv_history (dp_server d') = sv_history (hb s') \<and> spoken (dp_server d') = spoken (hb s')"
proof -
  let ?C = "wd_chat (yd_world y)" and ?x = "\<lambda>st mac. opened tr (length data) filename hash st (Some mac)"
  let ?temp = "uid_text (tr_uid tr)" and ?d = "d1\<lparr> dp_hub := s' \<rparr>"
  have U: "0 < UPLOAD_CHUNK_SIZE" by (simp add: UPLOAD_CHUNK_SIZE_def MEGABYTE_def)
  have p: "persistent (tr_kind tr)" using assms(2) by (simp add: persistent_def)
  obtain st mac where st: "disk_stream ?C (wd_image_key (yd_world y)) hash = Inr (st, mac)" "file_ok st" using disk_stream_ok [OF assms(1)] by metis
  have s: "upload_stream y (tr_kind tr) hash = Inr (st, Some mac)" using st p by (simp add: upload_stream_def)
  have d1: "ph = Receiving False" "active (tr_uid tr) d1 = Some (tr_id tr, ?x st mac)"
    using assms(7) on_metadata_ok [OF assms(3) s, of u filename] p by (auto simp: active_def enrol_def update_conv')
  let ?e = "edit_users (set_avatar (se_name ss) None) (dp_hub d1)"
  have s': "s' = send_profile ss (se_name ss) True (sweep ?e)"
    using assms(8,9,11) by (auto simp: handle_def on_avatar_def)
  have "\<forall>x. image_name x = ?temp \<longrightarrow> nameless ?e x"
    using assms(10) nameless_removed by blast
  then have gone: "map_of (hb_images s') ?temp = None" using swept_stray by (simp add: s' send_profile_def answer_def)
  have "sv_uploads (hb s') = sv_uploads (dp_server d1)"
    by (simp add: s' send_profile_def answer_def quiet_fields [OF quiet_send] sweep_def Let_def edit_users_def)
  then have act: "active (tr_uid tr) ?d = Some (tr_id tr, ?x st mac)" using d1(2) by (simp add: active_def)
  obtain ct st' where w: "write_chunks ?C st (chunks UPLOAD_CHUNK_SIZE data) = Inr (ct, st')"
    using write_read_chunks [OF assms(1) st(2)] by blast
  have n: "unat (of_nat (length data) :: u64) = length data" using assms(3) by (simp add: admitted_def unat_of_nat)
  let ?y = "feed data ct st' (?x st mac)" and ?g = "drop_guard (tr_id tr) (tr_uid tr)"
  have "upload_run y tr (pieces (tr_uid tr) (chunks UPLOAD_CHUNK_SIZE data)) (ph, ?d) =
      finish_upload y fine_io tr (tr_uid tr) ?y (put_share (tr_uid tr) ?y ?d)"
    using run_last_piece [OF act _ assms(4), where ct = ct and st = st' and y = y] first_piece [of "chunks UPLOAD_CHUNK_SIZE data" tr y "tr_uid tr" ?d]
      w n assms(2,4,5) d1(1) gone U p by (simp add: chunks_step append_place_def place_in_def)
  also have "\<dots> = (Closed, ?g (put_share (tr_uid tr) (?y\<lparr> fs_image := None, fs_mac := None \<rparr>) ?d))"
    using finish_gone [of ?y "put_share (tr_uid tr) ?y ?d" tr "tr_uid tr" y] gone p assms(2,6) by (simp add: close_transfer_def place_in_def)
  finally show ?thesis using gone act p
    by (auto simp: drop_keeps place_in_def)
qed

theorem avatar_cuts_upload_witness:
  "\<exists>ph d1 s' d'. upload_run demo_yard (ann_upload UkImage) [(fine_io, Some (0, Metadata (of_nat (length small_png)) [] (sha256 ref_env small_png)))]
      (AwaitMetadata, demo_depot [] [] :: ('o, 'r) depot) = (ph, d1) \<and>
    handle demo_world bob (Account_Code (AvatarRequest None)) (dp_hub d1) = Continue bob s' \<and>
    upload_run demo_yard (ann_upload UkImage) (pieces 5 (chunks UPLOAD_CHUNK_SIZE small_png)) (ph, d1\<lparr> dp_hub := s' \<rparr>) = (Closed, d') \<and>
    map_of (hb_images (dp_hub d')) (image_name (sha256 ref_env small_png)) = map_of (hb_images s') (image_name (sha256 ref_env small_png))"
proof -
  let ?d = "demo_depot [] [] :: ('o, 'r) depot" and ?tr = "ann_upload UkImage" and ?hash = "sha256 ref_env small_png"
  have a: "admitted demo_yard ?tr (length small_png) ?d" by (rule demo_admitted) (simp_all add: small_png(2))
  obtain st mac where st: "upload_stream demo_yard UkImage ?hash = Inr (st, Some mac)"
    using disk_stream_ok [OF demo_access(4), of "[7]" ?hash] by (fastforce simp: upload_stream_def persistent_def demo_access)
  define d1 where "d1 = put_share 5 (opened ?tr (length small_png) [] ?hash st (Some mac)) (enrol ?tr (write_place (place_in ?tr (uid_text 5)) [] ?d))"
  have r: "upload_run demo_yard ?tr [(fine_io, Some (0, Metadata (of_nat (length small_png)) [] ?hash))] (AwaitMetadata, ?d) = (Receiving False, d1)"
    using on_metadata_ok [OF a, of ?hash st "Some mac" 0 "[]"] st by (simp add: demo_access persistent_def d1_def)
  have v: "dp_server d1 = (dp_server ?d)\<lparr> sv_uploads := AList.update 5 0 (sv_uploads (dp_server ?d)) \<rparr>"
    by (simp add: d1_def enrol_def ann_upload_def)
  have m: "\<not> is_muted bob (dp_hub d1)"
    by (simp add: v is_muted_def entry_def demo_depot_def demo_def crew_def bob_def boss_def)
  have n: "\<forall>x. image_name x = uid_text (tr_uid ?tr) \<longrightarrow> nameless (dp_hub d1) x"
    by (simp add: v nameless_def unnamed_def demo_depot_def demo_def crew_def empty_server_def history_new_def names_avatar_def users_all_def server_icon_def)
  obtain s' where h: "handle demo_world bob (Account_Code (AvatarRequest None)) (dp_hub d1) = Continue bob s'"
    using m by (simp add: handle_def on_avatar_def demo_world_def)
  have "acceptable UkImage (take UPLOAD_CHUNK_SIZE small_png)" "small_png \<noteq> []" using small_png(2,3) by (auto simp: acceptable_def)
  then show ?thesis
    using avatar_cuts_upload [where y = demo_yard and tr = ?tr and hash = ?hash and u = 0 and filename = "[]" and ph = "Receiving False",
        OF _ _ a _ _ _ _ _ m n h] r h
    by (auto simp: demo_access profiles_demo simp del: upload_run.simps)
qed



end
