(* ===== verification/Accept.thy ===== *)
theory Accept
  imports Upload
begin

text \<open>
  New sockets: the accept loop of \<open>chat/src/bin/server.rs\<close> and the budget of sockets that have not identified themselves,
  \<open>HandshakeSlot\<close> of \<open>server/handshake.rs\<close>. The loop takes a slot before it spawns the task that reads the token of a
  socket; the task gives it back on another thread, in three accesses to shared counters. Every access is one step, so the
  steps of the loop and of all tasks interleave in any order.
\<close>

section \<open>The budget\<close>

definition MAX_HANDSHAKES_PER_IP :: nat where "MAX_HANDSHAKES_PER_IP = 8"

text \<open>Two settings, multiplied in \<open>usize\<close>.\<close>

definition max_handshakes :: "u64 \<Rightarrow> u64 \<Rightarrow> u64" where
  "max_handshakes max_clients max_unauth_clients = (max_clients + max_unauth_clients) * of_nat MAX_HANDSHAKES_PER_IP"

text \<open>Where \<open>reserve\<close> of the loop stands: before it, after the global check, after the count of the address.\<close>

datatype acceptor = Idle | Passed nat | Taken nat

text \<open>Where \<open>drop\<close> of a slot stands: not begun, after \<open>fetch_sub\<close>, after the count of the address fell to 0.\<close>

datatype stage = Held | Uncounted | Lowered

record handshakes =
  HANDSHAKES :: u64
  HANDSHAKES_PER_IP :: "nat \<Rightarrow> nat option"
  sl_loop :: acceptor
  sl_held :: "(nat \<times> stage) list"
    \<comment> \<open>the slots, with the address each was taken for\<close>

text \<open>The steps of \<open>reserve\<close>.\<close>

definition check_total :: "u64 \<Rightarrow> nat \<Rightarrow> handshakes \<Rightarrow> handshakes" where
  "check_total budget ip s = (if budget \<le> HANDSHAKES s then s else s\<lparr> sl_loop := Passed ip \<rparr>)"

definition take_ip :: "nat \<Rightarrow> handshakes \<Rightarrow> handshakes" where
  "take_ip ip s = (let n = (case HANDSHAKES_PER_IP s ip of Some n \<Rightarrow> n | None \<Rightarrow> 0) in
     if MAX_HANDSHAKES_PER_IP \<le> n then s\<lparr> HANDSHAKES_PER_IP := (HANDSHAKES_PER_IP s)(ip \<mapsto> n), sl_loop := Idle \<rparr>
     else s\<lparr> HANDSHAKES_PER_IP := (HANDSHAKES_PER_IP s)(ip \<mapsto> n + 1), sl_loop := Taken ip \<rparr>)"

definition take_total :: "nat \<Rightarrow> handshakes \<Rightarrow> handshakes" where
  "take_total ip s = s\<lparr> HANDSHAKES := HANDSHAKES s + 1, sl_loop := Idle, sl_held := (ip, Held) # sl_held s \<rparr>"

text \<open>The steps of \<open>drop\<close>, on the slot at position \<open>k\<close>.\<close>

definition drop_at :: "nat \<Rightarrow> 'a list \<Rightarrow> 'a list" where
  "drop_at k xs = take k xs @ drop (Suc k) xs"

definition release :: "nat \<Rightarrow> handshakes \<Rightarrow> handshakes" where
  "release k s = (if length (sl_held s) \<le> k then s
     else case sl_held s ! k of
       (ip, Held) \<Rightarrow> s\<lparr> HANDSHAKES := HANDSHAKES s - 1, sl_held := (sl_held s)[k := (ip, Uncounted)] \<rparr>
     | (ip, Uncounted) \<Rightarrow> (case HANDSHAKES_PER_IP s ip of
         None \<Rightarrow> s\<lparr> sl_held := drop_at k (sl_held s) \<rparr>
       | Some n \<Rightarrow> s\<lparr> HANDSHAKES_PER_IP := (HANDSHAKES_PER_IP s)(ip \<mapsto> n - 1),
           sl_held := (if n - 1 = 0 then (sl_held s)[k := (ip, Lowered)] else drop_at k (sl_held s)) \<rparr>)
     | (ip, Lowered) \<Rightarrow> s\<lparr> HANDSHAKES_PER_IP := (if HANDSHAKES_PER_IP s ip = Some 0 then (HANDSHAKES_PER_IP s)(ip := None)
         else HANDSHAKES_PER_IP s), sl_held := drop_at k (sl_held s) \<rparr>)"

text \<open>The loop is one task and the tasks of the sockets are many.\<close>

inductive slot_step :: "u64 \<Rightarrow> handshakes \<Rightarrow> handshakes \<Rightarrow> bool" for budget where
  accepted: "sl_loop s = Idle \<Longrightarrow> slot_step budget s (check_total budget ip s)"
| passed: "sl_loop s = Passed ip \<Longrightarrow> slot_step budget s (take_ip ip s)"
| taken: "sl_loop s = Taken ip \<Longrightarrow> slot_step budget s (take_total ip s)"
| released: "slot_step budget s (release k s)"

inductive_cases slot_stepE: "slot_step budget s s'"

definition no_slots :: handshakes where
  "no_slots = \<lparr> HANDSHAKES = 0, HANDSHAKES_PER_IP = (\<lambda>_. None), sl_loop = Idle, sl_held = [] \<rparr>"

section \<open>Routing a socket\<close>

record limits =
  max_clients :: nat
  max_unauth_clients :: nat
  max_ip_clients :: nat

datatype route =
    RtUpload nat u64 upload_kind
  | RtDownload nat u64 available_file
  | RtScreen nat
  | RtAttach nat nat
  | RtGone
  | RtClient
  | RtRejected

text \<open>The token of a socket either is one that the server handed out, which names the transfer and is used up, or starts a new client.\<close>

definition route_socket :: "limits \<Rightarrow> u8 list \<Rightarrow> sock_addr \<Rightarrow> handle \<Rightarrow> ('o, 'r) server \<Rightarrow> route \<times> ('o, 'r) server" where
  "route_socket lm token addr stream s = (case map_of (sv_pending s) token of
     Some (i, kind, _) \<Rightarrow>
       let s = s\<lparr> sv_pending := AList.delete token (sv_pending s) \<rparr> in
       (case kind of
          CtFileDownload uid f \<Rightarrow> (RtDownload i uid f, s)
        | CtScreen \<Rightarrow> (RtScreen i, s)
        | CtAttach sharer \<Rightarrow> (case find_id i s of
            Some (a, c) \<Rightarrow> (if keys c \<noteq> None then RtAttach i sharer else RtGone, alter_conn a (attach_screen sharer stream token) s)
          | None \<Rightarrow> (RtGone, s))
        | _ \<Rightarrow> (case upload_kind_of kind of Some (k, uid) \<Rightarrow> (RtUpload i uid k, s) | None \<Rightarrow> (RtGone, s)))
   | None \<Rightarrow>
       let auth_clients = length (filter (\<lambda>(_, c). is_authenticated c) (sv_conns s));
           unauth_clients = length (sv_conns s) - auth_clients;
           ip_clients = length (filter (\<lambda>(_, c). fst (peer_addr c) = fst addr) (sv_conns s))
       in if max_clients lm \<le> auth_clients \<or> max_unauth_clients lm \<le> unauth_clients \<or> max_ip_clients lm \<le> ip_clients
          then (RtRejected, s) else (RtClient, s))"

section \<open>The invariant of the budget\<close>

definition counts :: "(nat \<times> stage) list \<Rightarrow> nat" where
  "counts xs = length (filter (\<lambda>(_, g). g = Held) xs)"

definition counts_ip :: "nat \<Rightarrow> (nat \<times> stage) list \<Rightarrow> nat" where
  "counts_ip ip xs = length (filter (\<lambda>(a, g). a = ip \<and> g \<noteq> Lowered) xs)"

text \<open>What the map says of an address with \<open>n\<close> slots: an address at 0 is about to be removed.\<close>

fun ip_ok :: "nat option \<Rightarrow> nat \<Rightarrow> bool \<Rightarrow> bool" where
  "ip_ok None n leaving \<longleftrightarrow> n = 0"
| "ip_ok (Some m) n leaving \<longleftrightarrow> m = n \<and> n \<le> MAX_HANDSHAKES_PER_IP \<and> (n = 0 \<longrightarrow> leaving)"

definition slots_of :: "nat \<Rightarrow> handshakes \<Rightarrow> nat" where
  "slots_of ip s = counts_ip ip (sl_held s) + (if sl_loop s = Taken ip then 1 else 0)"

text \<open>Both counters are right, up to the accesses still to come.\<close>

definition slots_ok :: "u64 \<Rightarrow> handshakes \<Rightarrow> bool" where
  "slots_ok budget s \<longleftrightarrow> unat (HANDSHAKES s) = counts (sl_held s) \<and> HANDSHAKES s \<le> budget \<and>
     (sl_loop s \<noteq> Idle \<longrightarrow> HANDSHAKES s < budget) \<and>
     (\<forall>ip. ip_ok (HANDSHAKES_PER_IP s ip) (slots_of ip s) ((ip, Lowered) \<in> set (sl_held s)))"

lemma counts_split [simp]:
  "counts (xs @ (a, g) # ys) = counts (xs @ ys) + (if g = Held then 1 else 0)" "counts ((a, g) # ys) = counts ys + (if g = Held then 1 else 0)"
  "counts_ip ip (xs @ (a, g) # ys) = counts_ip ip (xs @ ys) + (if a = ip \<and> g \<noteq> Lowered then 1 else 0)"
  "counts_ip ip ((a, g) # ys) = counts_ip ip ys + (if a = ip \<and> g \<noteq> Lowered then 1 else 0)"
  by (simp_all add: counts_def counts_ip_def)

lemma at_position:
  assumes "k < length xs"
  obtains as bs where "xs = as @ xs ! k # bs" "\<forall>y. xs[k := y] = as @ y # bs" "drop_at k xs = as @ bs"
  using that [of "take k xs" "drop (Suc k) xs"] assms by (simp add: id_take_nth_drop [symmetric] upd_conv_take_nth_drop drop_at_def)

lemma u64_step:
  fixes n b :: u64
  shows "n < b \<Longrightarrow> unat (n + 1) = unat n + 1" "n < b \<Longrightarrow> n + 1 \<le> b" "0 < unat n \<Longrightarrow> unat (n - 1) = unat n - 1"
    "0 < unat n \<Longrightarrow> n \<le> b \<Longrightarrow> n - 1 < b"
proof -
  show a: "unat (n + 1) = unat n + 1" if "n < b"
    using that unat_u64_less [of b] by (simp add: word_less_nat_alt unat_word_ariths)
  show "n + 1 \<le> b" if "n < b" using that a [OF that] by (simp add: word_less_nat_alt word_le_nat_alt)
  show s: "unat (n - 1) = unat n - 1" if "0 < unat n"
    using that by (metis One_nat_def unat_gt_0 unat_minus_one)
  show "n - 1 < b" if "0 < unat n" "n \<le> b" using that s by (simp add: word_less_nat_alt word_le_nat_alt)
qed

lemma ip_ok_cases: "ip_ok m n leaving \<Longrightarrow> (m = None \<longrightarrow> n = 0) \<and> (\<forall>k. m = Some k \<longrightarrow> k = n \<and> n \<le> MAX_HANDSHAKES_PER_IP)"
  by (cases m) auto

lemma ok_reserve:
  assumes "slots_ok budget s"
  shows "sl_loop s = Idle \<Longrightarrow> slots_ok budget (check_total budget ip s)" "sl_loop s = Passed ip \<Longrightarrow> slots_ok budget (take_ip ip s)"
    "sl_loop s = Taken ip \<Longrightarrow> slots_ok budget (take_total ip s)"
proof -
  note ip = assms [unfolded slots_ok_def, THEN conjunct2, THEN conjunct2, THEN conjunct2, rule_format]
  show "sl_loop s = Idle \<Longrightarrow> slots_ok budget (check_total budget ip s)"
    using assms by (auto simp: check_total_def slots_ok_def slots_of_def)
  show "sl_loop s = Passed ip \<Longrightarrow> slots_ok budget (take_ip ip s)"
    using assms ip_ok_cases [OF ip [of ip]] by (auto simp: take_ip_def slots_ok_def slots_of_def Let_def MAX_HANDSHAKES_PER_IP_def split: option.splits)
  show "sl_loop s = Taken ip \<Longrightarrow> slots_ok budget (take_total ip s)"
    using assms u64_step(1,2) [of "HANDSHAKES s" budget] by (auto simp: take_total_def slots_ok_def slots_of_def)
qed

lemma ok_change:
  assumes "slots_ok budget s" "sl_loop s' = sl_loop s" "HANDSHAKES s' = HANDSHAKES s" "counts (sl_held s') = counts (sl_held s)"
    "\<And>a. a \<noteq> ip \<Longrightarrow> HANDSHAKES_PER_IP s' a = HANDSHAKES_PER_IP s a \<and> counts_ip a (sl_held s') = counts_ip a (sl_held s) \<and>
       ((a, Lowered) \<in> set (sl_held s') \<longleftrightarrow> (a, Lowered) \<in> set (sl_held s))"
    "ip_ok (HANDSHAKES_PER_IP s' ip) (slots_of ip s') ((ip, Lowered) \<in> set (sl_held s'))"
  shows "slots_ok budget s'"
proof -
  have "ip_ok (HANDSHAKES_PER_IP s' a) (slots_of a s') ((a, Lowered) \<in> set (sl_held s'))" for a
    using assms(1,2,6) assms(5) [of a] by (cases "a = ip") (simp_all add: slots_ok_def slots_of_def)
  then show ?thesis using assms(1-4) by (simp add: slots_ok_def)
qed

lemma ok_release:
  assumes "slots_ok budget s"
  shows "slots_ok budget (release k s)"
proof (cases "k < length (sl_held s)")
  case True
  obtain as bs where k: "sl_held s = as @ sl_held s ! k # bs" "\<forall>y. (sl_held s)[k := y] = as @ y # bs" "drop_at k (sl_held s) = as @ bs"
    by (rule at_position [OF True])
  obtain ip g where g: "sl_held s ! k = (ip, g)" by fastforce
  have held: "sl_held s = as @ (ip, g) # bs" using k(1) g by simp
  have ip: "ip_ok (HANDSHAKES_PER_IP s ip) (slots_of ip s) ((ip, Lowered) \<in> set (sl_held s))" using assms by (simp add: slots_ok_def)
  show ?thesis
  proof (cases g)
    case Held
    then have "release k s = s\<lparr> HANDSHAKES := HANDSHAKES s - 1, sl_held := as @ (ip, Uncounted) # bs \<rparr>"
      using True g k(2) by (simp add: release_def)
    then show ?thesis using assms held Held u64_step(3) [of "HANDSHAKES s"] u64_step(4) [of "HANDSHAKES s" budget]
      by (auto simp: slots_ok_def slots_of_def)
  next
    case Uncounted
    have r: "release k s = (case HANDSHAKES_PER_IP s ip of None \<Rightarrow> s\<lparr> sl_held := as @ bs \<rparr>
       | Some n \<Rightarrow> s\<lparr> HANDSHAKES_PER_IP := (HANDSHAKES_PER_IP s)(ip \<mapsto> n - 1),
           sl_held := (if n - 1 = 0 then as @ (ip, Lowered) # bs else as @ bs) \<rparr>)"
      using True g Uncounted k(2,3) by (simp add: release_def split: option.split)
    show ?thesis by (rule ok_change [where ip = ip, OF assms])
        (use r held Uncounted ip_ok_cases [OF ip] in \<open>auto simp: slots_of_def split: option.splits\<close>)
  next
    case Lowered
    have r: "release k s = s\<lparr> HANDSHAKES_PER_IP := (if HANDSHAKES_PER_IP s ip = Some 0 then (HANDSHAKES_PER_IP s)(ip := None)
         else HANDSHAKES_PER_IP s), sl_held := as @ bs \<rparr>"
      using True g Lowered k(3) by (simp add: release_def)
    show ?thesis by (rule ok_change [where ip = ip, OF assms])
        (use r held Lowered ip ip_ok_cases [OF ip] in \<open>auto simp: slots_of_def elim: ip_ok.elims\<close>)
  qed
qed (use assms in \<open>simp add: release_def\<close>)

lemma ok_step: "slot_step budget s s' \<Longrightarrow> slots_ok budget s \<Longrightarrow> slots_ok budget s'"
  by (erule slot_stepE) (simp_all add: ok_reserve ok_release)

section \<open>Properties\<close>

lemma slots_ok_run: "(slot_step budget)\<^sup>*\<^sup>* s s' \<Longrightarrow> slots_ok budget s \<Longrightarrow> slots_ok budget s'"
  by (induction rule: rtranclp_induct) (auto dest: ok_step)

lemma slots_ok_start: "slots_ok budget no_slots"
  by (simp add: no_slots_def slots_ok_def slots_of_def counts_def counts_ip_def)

text \<open>
  C25 (handshakes_bounded). However the accept loop and the ends of the handshakes interleave, there are never more sockets without a
  proven identity than the global budget, and never more than eight from one address; the counters never wrap or fall below 0, and when no
  socket is left nothing is counted and no address is kept in the map.
\<close>

theorem handshakes_bounded:
  assumes "(slot_step budget)\<^sup>*\<^sup>* no_slots s"
  shows "unat (HANDSHAKES s) = counts (sl_held s) \<and> counts (sl_held s) \<le> unat budget \<and>
    (\<forall>ip. counts_ip ip (sl_held s) \<le> 8) \<and>
    (sl_held s = [] \<and> sl_loop s = Idle \<longrightarrow> HANDSHAKES s = 0 \<and> HANDSHAKES_PER_IP s = Map.empty)"
proof -
  have ok: "slots_ok budget s" by (rule slots_ok_run [OF assms slots_ok_start])
  then have ip: "ip_ok (HANDSHAKES_PER_IP s ip) (slots_of ip s) ((ip, Lowered) \<in> set (sl_held s))" for ip by (simp add: slots_ok_def)
  have "counts_ip ip (sl_held s) \<le> 8" for ip
    using ip_ok_cases [OF ip [of ip]] by (cases "HANDSHAKES_PER_IP s ip") (simp_all add: slots_of_def MAX_HANDSHAKES_PER_IP_def)
  moreover have "HANDSHAKES_PER_IP s ip = None" if "sl_held s = []" "sl_loop s = Idle" for ip
    using ip [of ip] that by (cases "HANDSHAKES_PER_IP s ip") (auto simp: slots_of_def counts_ip_def)
  ultimately show ?thesis using ok by (auto simp: slots_ok_def counts_def word_le_nat_alt unat_eq_0)
qed

theorem handshakes_bounded_witness:
  "(slot_step 1)\<^sup>*\<^sup>* no_slots (take_total 7 (take_ip 7 (check_total 1 7 no_slots))) \<and>
   counts (sl_held (take_total 7 (take_ip 7 (check_total 1 7 no_slots)))) = 1 \<and>
   counts_ip 7 (sl_held (take_total 7 (take_ip 7 (check_total 1 7 no_slots)))) \<le> 8"
proof -
  let ?a = "check_total 1 7 no_slots"
  have l: "sl_loop no_slots = Idle" by (simp add: no_slots_def)
  have a: "sl_loop ?a = Passed 7" "sl_loop (take_ip 7 ?a) = Taken 7"
    by (simp_all add: check_total_def no_slots_def take_ip_def MAX_HANDSHAKES_PER_IP_def)
  have "(slot_step 1)\<^sup>*\<^sup>* no_slots (take_total 7 (take_ip 7 ?a))"
    using slot_step.accepted [OF l, of 1 7] slot_step.passed [OF a(1), of 1] slot_step.taken [OF a(2), of 1]
    by (meson rtranclp.rtrancl_into_rtrancl rtranclp.rtrancl_refl)
  moreover have "sl_held (take_total 7 (take_ip 7 ?a)) = [(7, Held)]"
    by (simp add: take_total_def check_total_def no_slots_def take_ip_def MAX_HANDSHAKES_PER_IP_def)
  ultimately show ?thesis using handshakes_bounded [of 1 "take_total 7 (take_ip 7 ?a)"] by (simp add: counts_def counts_ip_def)
qed



end
