(* ===== verification/Commands.thy ===== *)
theory Commands
  imports Server
begin

text \<open>
  The slash commands of the clients, \<open>chat/src/command.rs\<close>: the table of commands with their trigger words, ranks, actions and
  parameters, the parser of a typed line and the packets that the commands send. All features of the client are on.
  What \<open>/screen\<close> reads and sets of the running share is explicit state; how the display server names a monitor is an argument.
\<close>

section \<open>Data\<close>

datatype command =
    Cmd_Exit | Cmd_Logout | Cmd_Voice | Cmd_Mute | Cmd_Record | Cmd_Play | Cmd_Channel | Cmd_Help
  | Cmd_Info | Cmd_List | Cmd_Files | Cmd_Screens | Cmd_Upload | Cmd_Download | Cmd_Image | Cmd_Screen
  | Cmd_Attach | Cmd_Deattach | Cmd_MuteScreen | Cmd_Delete | Cmd_Edit | Cmd_PrivateMessage | Cmd_Heart | Cmd_Hearts
  | Cmd_Pin | Cmd_Pins | Cmd_Reply | Cmd_Re | Cmd_Settings | Cmd_Profile | Cmd_Server | Cmd_Account
  | Cmd_UsernameColor | Cmd_MessageColor | Cmd_Invalid

datatype subcommand =
    Sub_Mute | Sub_Kick | Sub_Ban | Sub_BanIp | Sub_Bans | Sub_Pardon | Sub_PardonIp | Sub_Say
  | Sub_Role | Sub_Settings | Sub_Icon | Sub_Delete | Sub_Passwd

datatype arg_values =
    Av_Free | Av_Colors | Av_Paths | Av_Images | Av_Monitors | Av_Roles | Av_Bools

record command_arg =
  ca_name :: ustr
  ca_description :: ustr
  ca_required :: bool
  ca_values :: arg_values

record subcommand_info =
  sub_subcommand :: subcommand
  sub_triggers :: "ustr list"
  sub_minimal_role :: role
  sub_args :: "command_arg list"
  sub_description :: ustr

record command_info =
  ci_command :: command
  ci_triggers :: "ustr list"
  ci_shortcut :: "u32 option"
  ci_minimal_role :: role
  ci_subcommands :: "subcommand_info list"
  ci_args :: "command_arg list"
  ci_description :: ustr

abbreviation words :: "string list \<Rightarrow> ustr list" where
  "words ws \<equiv> map ustr ws"

abbreviation arg :: "string \<Rightarrow> string \<Rightarrow> bool \<Rightarrow> arg_values \<Rightarrow> command_arg" where
  "arg label about required vals \<equiv> \<lparr> ca_name = ustr label, ca_description = ustr about, ca_required = required, ca_values = vals \<rparr>"

section \<open>The tables\<close>

definition SERVER_SUBCOMMANDS :: "subcommand_info list" where
  "SERVER_SUBCOMMANDS = [
  \<lparr> sub_subcommand = Sub_Mute, sub_triggers = words [''MUTE'', ''SILENCE'', ''STFU''], sub_minimal_role = Moderator,
     sub_args = [arg ''arg.id'' ''command.server.mute.args.id'' True Av_Free], sub_description = ustr ''command.server.mute.description'' \<rparr>,
  \<lparr> sub_subcommand = Sub_Kick, sub_triggers = words [''KICK'', ''BOOT'', ''REMOVE''], sub_minimal_role = Moderator,
     sub_args = [arg ''arg.id'' ''command.server.kick.args.id'' True Av_Free], sub_description = ustr ''command.server.kick.description'' \<rparr>,
  \<lparr> sub_subcommand = Sub_Ban, sub_triggers = words [''BAN'', ''DISABLE'', ''KILL''], sub_minimal_role = Owner,
     sub_args = [arg ''arg.user'' ''command.server.ban.args.user'' True Av_Free], sub_description = ustr ''command.server.ban.description'' \<rparr>,
  \<lparr> sub_subcommand = Sub_BanIp, sub_triggers = words [''BANIP'', ''DISABLEIP'', ''BLOCKIP''], sub_minimal_role = Owner,
     sub_args = [arg ''arg.id'' ''command.server.banip.args.id'' True Av_Free], sub_description = ustr ''command.server.banip.description'' \<rparr>,
  \<lparr> sub_subcommand = Sub_Bans, sub_triggers = words [''BANLIST'', ''BANS'', ''BANNED'', ''DISABLED'', ''BLOCKED''], sub_minimal_role = Owner,
     sub_args = [], sub_description = ustr ''command.server.banlist.description'' \<rparr>,
  \<lparr> sub_subcommand = Sub_Pardon, sub_triggers = words [''PARDON'', ''UNBAN'', ''FORGIVE'', ''UNBLOCK''], sub_minimal_role = Owner,
     sub_args = [arg ''arg.id'' ''command.server.pardon.args.id'' True Av_Free], sub_description = ustr ''command.server.pardon.description'' \<rparr>,
  \<lparr> sub_subcommand = Sub_PardonIp, sub_triggers = words [''PARDONIP'', ''UNBANIP'', ''FORGIVEIP'', ''UNBLOCKIP''], sub_minimal_role = Owner,
     sub_args = [arg ''arg.id'' ''command.server.pardonip.args.id'' True Av_Free], sub_description = ustr ''command.server.pardonip.description'' \<rparr>,
  \<lparr> sub_subcommand = Sub_Say, sub_triggers = words [''SAY'', ''ECHO'', ''BROADCAST'', ''NOTICE'', ''MESSAGE''], sub_minimal_role = Owner,
     sub_args = [arg ''arg.message'' ''command.server.say.args.message'' True Av_Free], sub_description = ustr ''command.server.say.description'' \<rparr>,
  \<lparr> sub_subcommand = Sub_Role, sub_triggers = words [''ROLE'', ''RANK'', ''PROMOTE'', ''DEMOTE''], sub_minimal_role = Owner,
     sub_args = [arg ''arg.user'' ''command.server.role.args.user'' True Av_Free, arg ''arg.role'' ''command.server.role.args.role'' True Av_Roles], sub_description = ustr ''command.server.role.description'' \<rparr>,
  \<lparr> sub_subcommand = Sub_Settings, sub_triggers = words [''SETTINGS'', ''CONFIG'', ''SETUP''], sub_minimal_role = Owner,
     sub_args = [], sub_description = ustr ''command.server.settings.description'' \<rparr>,
  \<lparr> sub_subcommand = Sub_Icon, sub_triggers = words [''ICON'', ''PICTURE'', ''LOGO''], sub_minimal_role = Owner,
     sub_args = [arg ''arg.path'' ''command.server.icon.args.path'' False Av_Images], sub_description = ustr ''command.server.icon.description'' \<rparr>]"

definition ACCOUNT_SUBCOMMANDS :: "subcommand_info list" where
  "ACCOUNT_SUBCOMMANDS = [
  \<lparr> sub_subcommand = Sub_Delete, sub_triggers = words [''DELETE'', ''REMOVE'', ''CLOSE''], sub_minimal_role = User,
     sub_args = [], sub_description = ustr ''command.account.delete.description'' \<rparr>,
  \<lparr> sub_subcommand = Sub_Passwd, sub_triggers = words [''PASSWD'', ''PASSWORD'', ''CHANGEPASS''], sub_minimal_role = User,
     sub_args = [], sub_description = ustr ''command.account.passwd.description'' \<rparr>]"

definition COMMAND_LIST :: "command_info list" where
  "COMMAND_LIST = [
  \<lparr> ci_command = Cmd_Help, ci_triggers = words [''HELP'', ''H'', ''COMMANDS'', ''USAGE'', ''GUIDE''], ci_shortcut = Some (hd (ustr ''h'')), ci_minimal_role = User,
     ci_subcommands = [], ci_args = [], ci_description = ustr ''command.help.description'' \<rparr>,
  \<lparr> ci_command = Cmd_Info, ci_triggers = words [''INFO'', ''COMMAND'', ''MAN''], ci_shortcut = None, ci_minimal_role = User,
     ci_subcommands = [], ci_args = [arg ''arg.command'' ''command.info.args.command'' True Av_Free], ci_description = ustr ''command.info.description'' \<rparr>,
  \<lparr> ci_command = Cmd_Voice, ci_triggers = words [''VOICE'', ''VOIP'', ''CALL''], ci_shortcut = None, ci_minimal_role = User,
     ci_subcommands = [], ci_args = [], ci_description = ustr ''command.voice.description'' \<rparr>,
  \<lparr> ci_command = Cmd_Mute, ci_triggers = words [''MUTE'', ''UNMUTE'', ''SILENCE'', ''STFU''], ci_shortcut = Some (hd (ustr ''s'')), ci_minimal_role = User,
     ci_subcommands = [], ci_args = [arg ''arg.id'' ''command.mute.args.id'' False Av_Free], ci_description = ustr ''command.mute.description'' \<rparr>,
  \<lparr> ci_command = Cmd_Record, ci_triggers = words [''RECORD'', ''REC'', ''VOICEMESSAGE'', ''VM''], ci_shortcut = Some (hd (ustr ''r'')), ci_minimal_role = User,
     ci_subcommands = [], ci_args = [], ci_description = ustr ''command.record.description'' \<rparr>,
  \<lparr> ci_command = Cmd_Play, ci_triggers = words [''PLAY'', ''LISTEN''], ci_shortcut = None, ci_minimal_role = User,
     ci_subcommands = [], ci_args = [arg ''arg.id'' ''command.play.args.id'' False Av_Free], ci_description = ustr ''command.play.description'' \<rparr>,
  \<lparr> ci_command = Cmd_Channel, ci_triggers = words [''CHANNEL'', ''SWITCH'', ''CHECKOUT'', ''AREA''], ci_shortcut = None, ci_minimal_role = User,
     ci_subcommands = [], ci_args = [arg ''arg.name'' ''command.channel.args.name'' False Av_Free], ci_description = ustr ''command.channel.description'' \<rparr>,
  \<lparr> ci_command = Cmd_Upload, ci_triggers = words [''UPLOAD'', ''FILEUP'', ''PUSH'', ''UP''], ci_shortcut = None, ci_minimal_role = User,
     ci_subcommands = [], ci_args = [arg ''arg.path'' ''command.upload.args.path'' True Av_Paths], ci_description = ustr ''command.upload.description'' \<rparr>,
  \<lparr> ci_command = Cmd_Download, ci_triggers = words [''DOWNLOAD'', ''FILEDOWN'', ''PULL'', ''DOWN'', ''FETCH''], ci_shortcut = None, ci_minimal_role = User,
     ci_subcommands = [], ci_args = [arg ''arg.user_id'' ''command.download.args.user_id'' True Av_Free, arg ''arg.file_id'' ''command.download.args.file_id'' True Av_Free], ci_description = ustr ''command.download.description'' \<rparr>,
  \<lparr> ci_command = Cmd_Image, ci_triggers = words [''IMAGE'', ''PICTURE'', ''PIC''], ci_shortcut = None, ci_minimal_role = User,
     ci_subcommands = [], ci_args = [arg ''arg.path'' ''command.image.args.path'' True Av_Images], ci_description = ustr ''command.image.description'' \<rparr>,
  \<lparr> ci_command = Cmd_Screen, ci_triggers = words [''SCREEN'', ''SCREENSHARE'', ''PRESENTATION'', ''SHARE''], ci_shortcut = None, ci_minimal_role = User,
     ci_subcommands = [], ci_args = [arg ''arg.monitor'' ''command.screen.args.monitor'' False Av_Monitors, arg ''arg.sound'' ''command.screen.args.sound'' False Av_Bools], ci_description = ustr ''command.screen.description'' \<rparr>,
  \<lparr> ci_command = Cmd_Attach, ci_triggers = words [''ATTACH'', ''WATCH'', ''DISPLAY'', ''JOIN''], ci_shortcut = None, ci_minimal_role = User,
     ci_subcommands = [], ci_args = [arg ''arg.id'' ''command.attach.args.id'' True Av_Free], ci_description = ustr ''command.attach.description'' \<rparr>,
  \<lparr> ci_command = Cmd_Deattach, ci_triggers = words [''DEATTACH'', ''STOP'', ''CLOSE''], ci_shortcut = None, ci_minimal_role = User,
     ci_subcommands = [], ci_args = [], ci_description = ustr ''command.deattach.description'' \<rparr>,
  \<lparr> ci_command = Cmd_MuteScreen, ci_triggers = words [''MUTESCREEN'', ''SILENCESTREAM''], ci_shortcut = None, ci_minimal_role = User,
     ci_subcommands = [], ci_args = [], ci_description = ustr ''command.mutescreen.description'' \<rparr>,
  \<lparr> ci_command = Cmd_List, ci_triggers = words [''LIST'', ''USERS'', ''CLIENTS'', ''CHANNELS'', ''IDS'', ''ID''], ci_shortcut = Some (hd (ustr ''l'')), ci_minimal_role = User,
     ci_subcommands = [], ci_args = [], ci_description = ustr ''command.list.description'' \<rparr>,
  \<lparr> ci_command = Cmd_Files, ci_triggers = words [''FILES'', ''LISTFILES'', ''UPLOADS'', ''DOWNLOADS''], ci_shortcut = Some (hd (ustr ''u'')), ci_minimal_role = User,
     ci_subcommands = [], ci_args = [], ci_description = ustr ''command.files.description'' \<rparr>,
  \<lparr> ci_command = Cmd_Screens, ci_triggers = words [''SCREENS'', ''LISTSCREENS'', ''SCREENSHARES'', ''SHARES''], ci_shortcut = None, ci_minimal_role = User,
     ci_subcommands = [], ci_args = [], ci_description = ustr ''command.screens.description'' \<rparr>,
  \<lparr> ci_command = Cmd_PrivateMessage, ci_triggers = words [''PM'', ''DM'', ''MSG'', ''TELL''], ci_shortcut = None, ci_minimal_role = User,
     ci_subcommands = [], ci_args = [arg ''arg.id'' ''command.pm.args.id'' True Av_Free, arg ''arg.message'' ''command.pm.args.message'' True Av_Free], ci_description = ustr ''command.pm.description'' \<rparr>,
  \<lparr> ci_command = Cmd_Heart, ci_triggers = words [''HEART'', ''UNHEART'', ''LIKE'', ''REACT'', ''STAR''], ci_shortcut = None, ci_minimal_role = User,
     ci_subcommands = [], ci_args = [arg ''arg.id'' ''command.heart.args.id'' True Av_Free], ci_description = ustr ''command.heart.description'' \<rparr>,
  \<lparr> ci_command = Cmd_Hearts, ci_triggers = words [''HEARTS'', ''LIKES'', ''STARS'', ''REACTIONS''], ci_shortcut = None, ci_minimal_role = User,
     ci_subcommands = [], ci_args = [arg ''arg.id'' ''command.hearts.args.id'' True Av_Free], ci_description = ustr ''command.hearts.description'' \<rparr>,
  \<lparr> ci_command = Cmd_Pin, ci_triggers = words [''PIN'', ''UNPIN'', ''HIGHLIGHT''], ci_shortcut = None, ci_minimal_role = Moderator,
     ci_subcommands = [], ci_args = [arg ''arg.id'' ''command.pin.args.id'' True Av_Free], ci_description = ustr ''command.pin.description'' \<rparr>,
  \<lparr> ci_command = Cmd_Pins, ci_triggers = words [''PINS'', ''PINNED'', ''HIGHLIGHTED''], ci_shortcut = None, ci_minimal_role = User,
     ci_subcommands = [], ci_args = [], ci_description = ustr ''command.pins.description'' \<rparr>,
  \<lparr> ci_command = Cmd_Reply, ci_triggers = words [''REPLY'', ''RESPOND''], ci_shortcut = None, ci_minimal_role = User,
     ci_subcommands = [], ci_args = [arg ''arg.id'' ''command.reply.args.id'' True Av_Free, arg ''arg.message'' ''command.reply.args.message'' True Av_Free], ci_description = ustr ''command.reply.description'' \<rparr>,
  \<lparr> ci_command = Cmd_Re, ci_triggers = words [''RE'', ''ANSWER''], ci_shortcut = None, ci_minimal_role = User,
     ci_subcommands = [], ci_args = [arg ''arg.message'' ''command.re.args.message'' True Av_Free], ci_description = ustr ''command.re.description'' \<rparr>,
  \<lparr> ci_command = Cmd_Delete, ci_triggers = words [''DELETE'', ''DEL'', ''RM''], ci_shortcut = None, ci_minimal_role = User,
     ci_subcommands = [], ci_args = [arg ''arg.id'' ''command.delete.args.id'' True Av_Free], ci_description = ustr ''command.delete.description'' \<rparr>,
  \<lparr> ci_command = Cmd_Edit, ci_triggers = words [''EDIT'', ''E''], ci_shortcut = None, ci_minimal_role = User,
     ci_subcommands = [], ci_args = [arg ''arg.id'' ''command.edit.args.id'' True Av_Free, arg ''arg.message'' ''command.edit.args.message'' True Av_Free], ci_description = ustr ''command.edit.description'' \<rparr>,
  \<lparr> ci_command = Cmd_Settings, ci_triggers = words [''SETTINGS'', ''SETUP'', ''CONFIG'', ''PREFERENCES'', ''AUDIO''], ci_shortcut = Some (hd (ustr '','')), ci_minimal_role = User,
     ci_subcommands = [], ci_args = [], ci_description = ustr ''command.settings.description'' \<rparr>,
  \<lparr> ci_command = Cmd_Profile, ci_triggers = words [''PROFILE'', ''BIO'', ''ABOUT''], ci_shortcut = None, ci_minimal_role = User,
     ci_subcommands = [], ci_args = [arg ''arg.user'' ''command.profile.args.user'' False Av_Free], ci_description = ustr ''command.profile.description'' \<rparr>,
  \<lparr> ci_command = Cmd_UsernameColor, ci_triggers = words [''UCOLOR'', ''USERNAME''], ci_shortcut = None, ci_minimal_role = User,
     ci_subcommands = [], ci_args = [arg ''arg.color'' ''command.ucolor.args.color'' True Av_Colors], ci_description = ustr ''command.ucolor.description'' \<rparr>,
  \<lparr> ci_command = Cmd_MessageColor, ci_triggers = words [''COLOR'', ''MESSAGE''], ci_shortcut = None, ci_minimal_role = User,
     ci_subcommands = [], ci_args = [arg ''arg.color'' ''command.color.args.color'' True Av_Colors], ci_description = ustr ''command.color.description'' \<rparr>,
  \<lparr> ci_command = Cmd_Server, ci_triggers = words [''SERVER'', ''ADMIN'', ''MOD''], ci_shortcut = None, ci_minimal_role = Moderator,
     ci_subcommands = SERVER_SUBCOMMANDS, ci_args = [arg ''arg.action'' ''command.server.args.action'' True Av_Free], ci_description = ustr ''command.server.description'' \<rparr>,
  \<lparr> ci_command = Cmd_Account, ci_triggers = words [''ACCOUNT'', ''MANAGEMENT'', ''CLIENT''], ci_shortcut = None, ci_minimal_role = User,
     ci_subcommands = ACCOUNT_SUBCOMMANDS, ci_args = [arg ''arg.action'' ''command.account.args.action'' True Av_Free], ci_description = ustr ''command.account.description'' \<rparr>,
  \<lparr> ci_command = Cmd_Logout, ci_triggers = words [''LOGOUT'', ''SIGNOUT''], ci_shortcut = Some (hd (ustr ''o'')), ci_minimal_role = User,
     ci_subcommands = [], ci_args = [], ci_description = ustr ''command.logout.description'' \<rparr>,
  \<lparr> ci_command = Cmd_Exit, ci_triggers = words [''EXIT'', ''LEAVE'', ''QUIT'', ''DISCONNECT''], ci_shortcut = Some (hd (ustr ''c'')), ci_minimal_role = User,
     ci_subcommands = [], ci_args = [], ci_description = ustr ''command.exit.description'' \<rparr>]"

definition COMMAND_PREFIX :: ustr where "COMMAND_PREFIX = ustr ''/''"

section \<open>Ranks and actions\<close>

definition sub_available :: "role \<Rightarrow> subcommand_info \<Rightarrow> bool" where
  "sub_available r sub \<longleftrightarrow> sub_minimal_role sub \<le> r"

definition actions :: "role \<Rightarrow> command_info \<Rightarrow> subcommand_info list" where
  "actions r info = filter (sub_available r) (ci_subcommands info)"

definition available :: "role \<Rightarrow> command_info \<Rightarrow> bool" where
  "available r info \<longleftrightarrow> ci_minimal_role info \<le> r \<and> (ci_subcommands info = [] \<or> actions r info \<noteq> [])"

definition action :: "ustr \<Rightarrow> command_info \<Rightarrow> subcommand_info option" where
  "action word info = find (\<lambda>sub. list_ex (\<lambda>t. eq_ignore_ascii_case t word) (sub_triggers sub)) (ci_subcommands info)"

definition takes_id :: "subcommand_info \<Rightarrow> bool" where
  "takes_id sub \<longleftrightarrow> sub_subcommand sub \<in> {Sub_Mute, Sub_Kick, Sub_BanIp, Sub_Pardon, Sub_PardonIp}"

section \<open>Parsing\<close>

definition ascii_upper :: "u32 \<Rightarrow> u32" where
  "ascii_upper c = (if 0x61 \<le> c \<and> c \<le> 0x7A then c - 0x20 else c)"

text \<open>\<open>split_once\<close> at the first character that fits, \<open>rsplit_once\<close> at the last.\<close>

fun split_once :: "(u32 \<Rightarrow> bool) \<Rightarrow> ustr \<Rightarrow> (ustr \<times> ustr) option" where
  "split_once P [] = None"
| "split_once P (c # s) = (if P c then Some ([], s) else map_option (apfst ((#) c)) (split_once P s))"

definition rsplit_once :: "(u32 \<Rightarrow> bool) \<Rightarrow> ustr \<Rightarrow> (ustr \<times> ustr) option" where
  "rsplit_once P s = map_option (\<lambda>(b, a). (rev a, rev b)) (split_once P (rev s))"

definition trim_end :: "ustr \<Rightarrow> ustr" where
  "trim_end s = rev (dropWhile is_whitespace (rev s))"

definition parse_bool :: "ustr \<Rightarrow> bool option" where
  "parse_bool s = (if s = ustr ''true'' then Some True else if s = ustr ''false'' then Some False else None)"

definition parse_u64 :: "ustr \<Rightarrow> u64 option" where
  "parse_u64 s = map_option of_nat (parse_usize s)"

definition screen_parameters :: "ustr option \<Rightarrow> ustr option \<times> bool option" where
  "screen_parameters parameters = (case Option.bind parameters (\<lambda>p. if trim p = [] then None else Some (trim p)) of
     None \<Rightarrow> (None, None)
   | Some p \<Rightarrow>
       let (monitor, final) = (case rsplit_once is_whitespace p of Some (m, l) \<Rightarrow> (Some (trim_end m), l) | None \<Rightarrow> (None, p))
       in case parse_bool (map ascii_lower final) of Some sound \<Rightarrow> (monitor, Some sound) | None \<Rightarrow> (Some p, None))"

definition get_command :: "ustr \<Rightarrow> command option \<times> ustr option" where
  "get_command input =
     (if take (length COMMAND_PREFIX) input \<noteq> COMMAND_PREFIX then (None, None)
      else let no_prefix = drop (length COMMAND_PREFIX) input;
               (word, parameters) = (case split_once (\<lambda>c. c = 0x20) no_prefix of
                   Some (word, parameters) \<Rightarrow> (map ascii_upper word, Some (trim parameters))
                 | None \<Rightarrow> (map ascii_upper no_prefix, None))
           in case find (\<lambda>info. word \<in> set (ci_triggers info)) COMMAND_LIST of
                Some info \<Rightarrow> (Some (ci_command info), parameters)
              | None \<Rightarrow> (Some Cmd_Invalid, None))"

text \<open>\<open>Display\<close>: the first trigger word.\<close>

definition show_command :: "command \<Rightarrow> ustr" where
  "show_command c = COMMAND_PREFIX @
     (case find (\<lambda>info. ci_command info = c) COMMAND_LIST of Some info \<Rightarrow> map ascii_lower (hd (ci_triggers info)) | None \<Rightarrow> [])"

section \<open>Packets\<close>

record 'm share =
  sh_running :: bool
  sh_monitor :: "'m option"
  sh_audio :: bool

text \<open>A number, a blank and a text.\<close>

definition numbered :: "ustr option \<Rightarrow> (ustr \<times> ustr) option" where
  "numbered parameters = Option.bind parameters (split_once (\<lambda>c. c = 0x20))"

definition or_invalid :: "'a option \<Rightarrow> (unit + 'a) option" where
  "or_invalid x = Some (case x of Some v \<Rightarrow> Inr v | None \<Rightarrow> Inl ())"

definition build_screen ::
  "(ustr \<Rightarrow> 'm option) \<Rightarrow> 'm option \<Rightarrow> ustr option \<Rightarrow> 'm share \<Rightarrow> (unit + ('o, 'r) packet_code) option \<times> 'm share" where
  "build_screen resolve current parameters sh = (case screen_parameters parameters of (selection, sound) \<Rightarrow>
     case map_option resolve selection of
       Some None \<Rightarrow> (Some (Inl ()), sh)
     | found \<Rightarrow> let monitor = Option.bind found id in
         if \<not> sh_running sh
         then (Some (Inr (Media_Code ScreenRequest)), sh\<lparr> sh_monitor := monitor, sh_audio := (case sound of Some b \<Rightarrow> b | None \<Rightarrow> True) \<rparr>)
         else (case sound of
             Some b \<Rightarrow> (None, sh\<lparr> sh_audio := b, sh_monitor := (if monitor \<noteq> None then monitor else sh_monitor sh) \<rparr>)
           | None \<Rightarrow> (case monitor of
               Some m \<Rightarrow> if current = Some m then (Some (Inr (Media_Code ScreenRequest)), sh) else (None, sh\<lparr> sh_monitor := Some m \<rparr>)
             | None \<Rightarrow> (Some (Inr (Media_Code ScreenRequest)), sh))))"

definition build_message ::
  "(ustr \<Rightarrow> 'm option) \<Rightarrow> 'm option \<Rightarrow> command \<Rightarrow> ustr option \<Rightarrow> 'm share \<Rightarrow> (unit + ('o, 'r) packet_code) option \<times> 'm share" where
  "build_message resolve current c parameters sh = (case c of
     Cmd_PrivateMessage \<Rightarrow> (or_invalid (Option.bind (numbered parameters) (\<lambda>(i, t).
       map_option (\<lambda>i. Chat_Code (PrivateMessageRequest t i)) (parse_usize i))), sh)
   | Cmd_Heart \<Rightarrow> (or_invalid (map_option (\<lambda>i. Chat_Code (HeartRequest i)) (Option.bind parameters parse_u64)), sh)
   | Cmd_Pin \<Rightarrow> (or_invalid (map_option (\<lambda>i. Chat_Code (PinRequest i)) (Option.bind parameters parse_u64)), sh)
   | Cmd_Pins \<Rightarrow> (Some (Inr (Chat_Code PinsRequest)), sh)
   | Cmd_Reply \<Rightarrow> (or_invalid (Option.bind (numbered parameters) (\<lambda>(i, t).
       map_option (\<lambda>i. Chat_Code (MessageRequest t (Some i))) (parse_u64 i))), sh)
   | Cmd_Re \<Rightarrow> (or_invalid (map_option (\<lambda>t. Chat_Code (chat_code.Re t)) parameters), sh)
   | Cmd_Download \<Rightarrow> (or_invalid (Option.bind (numbered parameters) (\<lambda>(i, f). Option.bind (parse_usize i) (\<lambda>i.
       map_option (\<lambda>f. File_Code (DownloadRequest i f)) (parse_usize f)))), sh)
   | Cmd_Attach \<Rightarrow> (or_invalid (map_option (\<lambda>i. Media_Code (AttachRequest i)) (Option.bind parameters parse_usize)), sh)
   | Cmd_Delete \<Rightarrow> (or_invalid (map_option (\<lambda>i. Chat_Code (DeleteRequest i)) (Option.bind parameters parse_u64)), sh)
   | Cmd_Edit \<Rightarrow> (or_invalid (Option.bind (numbered parameters) (\<lambda>(i, t).
       map_option (\<lambda>i. Chat_Code (EditRequest i t)) (parse_u64 i))), sh)
   | Cmd_Channel \<Rightarrow> (Some (Inr (Lobby_Code (Channel parameters))), sh)
   | Cmd_Profile \<Rightarrow> (Some (Inr (Account_Code (ProfileRequest (Option.bind parameters (\<lambda>p. if trim p = [] then None else Some (trim p)))))), sh)
   | Cmd_List \<Rightarrow> (Some (Inr (Lobby_Code ListRequest)), sh)
   | Cmd_Files \<Rightarrow> (Some (Inr (File_Code FilesRequest)), sh)
   | Cmd_Screen \<Rightarrow> build_screen resolve current parameters sh
   | Cmd_Deattach \<Rightarrow> (Some (Inr (Media_Code DeattachRequest)), sh)
   | Cmd_Screens \<Rightarrow> (Some (Inr (Media_Code ScreensRequest)), sh)
   | Cmd_MuteScreen \<Rightarrow> (Some (Inr (Media_Code MuteScreenRequest)), sh)
   | Cmd_Exit \<Rightarrow> (Some (Inr (Session_Code Disconnect)), sh)
   | Cmd_Logout \<Rightarrow> (Some (Inr (Session_Code Disconnect)), sh)
   | Cmd_Voice \<Rightarrow> (Some (Inr (Media_Code VoiceRequest)), sh)
   | _ \<Rightarrow> (None, sh))"

text \<open>What is sent, and whether the parameters were valid.\<close>

definition send_command_code ::
  "(ustr \<Rightarrow> 'm option) \<Rightarrow> 'm option \<Rightarrow> command \<Rightarrow> ustr option \<Rightarrow> 'm share \<Rightarrow> bool option \<times> ('o, 'r) packet_code list \<times> 'm share" where
  "send_command_code resolve current c parameters sh = (case build_message resolve current c parameters sh of
     (None, sh) \<Rightarrow> (None, [], sh)
   | (Some (Inr message), sh) \<Rightarrow> (Some True, [message], sh)
   | (Some (Inl _), sh) \<Rightarrow> (Some False, [], sh))"

section \<open>Trigger words\<close>

text \<open>The words of the table as strings, where they are compared quickly.\<close>

definition trigger_words :: "string list list" where
  "trigger_words = [
     [''HELP'', ''H'', ''COMMANDS'', ''USAGE'', ''GUIDE''],
     [''INFO'', ''COMMAND'', ''MAN''],
     [''VOICE'', ''VOIP'', ''CALL''],
     [''MUTE'', ''UNMUTE'', ''SILENCE'', ''STFU''],
     [''RECORD'', ''REC'', ''VOICEMESSAGE'', ''VM''],
     [''PLAY'', ''LISTEN''],
     [''CHANNEL'', ''SWITCH'', ''CHECKOUT'', ''AREA''],
     [''UPLOAD'', ''FILEUP'', ''PUSH'', ''UP''],
     [''DOWNLOAD'', ''FILEDOWN'', ''PULL'', ''DOWN'', ''FETCH''],
     [''IMAGE'', ''PICTURE'', ''PIC''],
     [''SCREEN'', ''SCREENSHARE'', ''PRESENTATION'', ''SHARE''],
     [''ATTACH'', ''WATCH'', ''DISPLAY'', ''JOIN''],
     [''DEATTACH'', ''STOP'', ''CLOSE''],
     [''MUTESCREEN'', ''SILENCESTREAM''],
     [''LIST'', ''USERS'', ''CLIENTS'', ''CHANNELS'', ''IDS'', ''ID''],
     [''FILES'', ''LISTFILES'', ''UPLOADS'', ''DOWNLOADS''],
     [''SCREENS'', ''LISTSCREENS'', ''SCREENSHARES'', ''SHARES''],
     [''PM'', ''DM'', ''MSG'', ''TELL''],
     [''HEART'', ''UNHEART'', ''LIKE'', ''REACT'', ''STAR''],
     [''HEARTS'', ''LIKES'', ''STARS'', ''REACTIONS''],
     [''PIN'', ''UNPIN'', ''HIGHLIGHT''],
     [''PINS'', ''PINNED'', ''HIGHLIGHTED''],
     [''REPLY'', ''RESPOND''],
     [''RE'', ''ANSWER''],
     [''DELETE'', ''DEL'', ''RM''],
     [''EDIT'', ''E''],
     [''SETTINGS'', ''SETUP'', ''CONFIG'', ''PREFERENCES'', ''AUDIO''],
     [''PROFILE'', ''BIO'', ''ABOUT''],
     [''UCOLOR'', ''USERNAME''],
     [''COLOR'', ''MESSAGE''],
     [''SERVER'', ''ADMIN'', ''MOD''],
     [''ACCOUNT'', ''MANAGEMENT'', ''CLIENT''],
     [''LOGOUT'', ''SIGNOUT''],
     [''EXIT'', ''LEAVE'', ''QUIT'', ''DISCONNECT'']]"

lemma triggers_words: "map ci_triggers COMMAND_LIST = map (map ustr) trigger_words"
  by (simp add: COMMAND_LIST_def trigger_words_def)

lemma words_distinct: "distinct (concat trigger_words)"
  by code_simp

lemma words_upper: "list_all (\<lambda>w. w \<noteq> [] \<and> list_all (\<lambda>c. c \<in> set ''ABCDEFGHIJKLMNOPQRSTUVWXYZ'') w) (concat trigger_words) \<and> [] \<notin> set trigger_words"
  by code_simp

lemma commands_distinct: "distinct (map ci_command COMMAND_LIST)"
  by (simp add: COMMAND_LIST_def)

lemma find_trigger:
  "distinct (concat (map f xs)) \<Longrightarrow> x \<in> set xs \<Longrightarrow> t \<in> set (f x) \<Longrightarrow> find (\<lambda>i. t \<in> set (f i)) xs = Some x"
  by (induction xs) auto

lemma find_named: "distinct (map f xs) \<Longrightarrow> x \<in> set xs \<Longrightarrow> find (\<lambda>i. f i = f x) xs = Some x"
  by (induction xs) auto

lemma ustr_inj: "inj ustr"
proof -
  have "unat (of_char c :: u32) = of_char c" for c :: char
  proof -
    have "(of_char c :: u32) = of_nat (of_char c)" by (simp add: of_nat_of_char)
    moreover have "(of_char c :: nat) < 256" by simp
    then have "(of_char c :: nat) mod 2 ^ 32 = of_char c" by (intro mod_less) (rule less_trans, assumption, simp)
    ultimately show ?thesis by (simp add: unat_of_nat)
  qed
  then have "inj (of_char :: char \<Rightarrow> u32)" by (metis injI of_char_eq_iff)
  then show ?thesis by (auto simp: ustr_def inj_def dest: map_injective [OF _ injI])
qed

lemma triggers_distinct: "distinct (concat (map ci_triggers COMMAND_LIST))"
  using words_distinct inj_on_subset [OF ustr_inj, of "set (concat trigger_words)"]
  by (simp add: triggers_words distinct_map flip: map_concat del: set_concat)

text \<open>A trigger word is made of capital letters, so it is spelled in any mix of cases and contains no blank.\<close>

lemma trigger_letters:
  assumes "info \<in> set COMMAND_LIST" "t \<in> set (ci_triggers info)"
  shows "t \<noteq> []" "\<forall>c \<in> set t. ascii_upper (ascii_lower c) = c \<and> c \<noteq> 0x20"
proof -
  have "t \<in> set (concat (map ci_triggers COMMAND_LIST))" using assms by auto
  then obtain w where w: "w \<in> set (concat trigger_words)" "t = ustr w" by (auto simp: triggers_words)
  have c: "ascii_upper (ascii_lower (of_char c)) = of_char c \<and> (of_char c :: u32) \<noteq> 0x20" if "c \<in> set ''ABCDEFGHIJKLMNOPQRSTUVWXYZ''" for c
    using that by (auto simp: ascii_upper_def ascii_lower_def)
  show "t \<noteq> []" "\<forall>c \<in> set t. ascii_upper (ascii_lower c) = c \<and> c \<noteq> 0x20"
    using w words_upper c by (auto simp: list_all_iff ustr_def simp del: set_concat)
qed

lemma split_blank: "0x20 \<notin> set w \<Longrightarrow> split_once (\<lambda>c. c = 0x20) (w @ 0x20 # p) = Some (w, p)" "0x20 \<notin> set w \<Longrightarrow> split_once (\<lambda>c. c = 0x20) w = None"
  by (induction w) auto

lemma upper_blank: "0x20 \<in> set w \<Longrightarrow> 0x20 \<in> set (map ascii_upper w)"
  by (force simp: ascii_upper_def image_iff)

lemma get_spelled:
  assumes "info \<in> set COMMAND_LIST" "map ascii_upper w \<in> set (ci_triggers info)"
  shows "get_command (COMMAND_PREFIX @ w) = (Some (ci_command info), None)"
    "get_command (COMMAND_PREFIX @ w @ 0x20 # p) = (Some (ci_command info), Some (trim p))"
proof -
  have "0x20 \<notin> set w" using trigger_letters(2) [OF assms] upper_blank by blast
  then show "get_command (COMMAND_PREFIX @ w) = (Some (ci_command info), None)"
    "get_command (COMMAND_PREFIX @ w @ 0x20 # p) = (Some (ci_command info), Some (trim p))"
    using find_trigger [OF triggers_distinct assms] by (simp_all add: get_command_def split_blank Let_def)
qed

section \<open>Numbers\<close>

lemma parse_digits_snoc: "parse_digits acc (xs @ [c]) = Option.bind (parse_digits acc xs) (\<lambda>a. parse_digits a [c])"
  by (induction xs arbitrary: acc) auto

lemma digit_char:
  assumes "n < 10"
  shows "0x30 \<le> (0x30 + of_nat n :: u32)" "(0x30 + of_nat n :: u32) \<le> 0x39" "unat ((0x30 + of_nat n :: u32) - 0x30) = n"
    "(0x30 + of_nat n :: u32) \<noteq> 0x2B" "(0x30 + of_nat n :: u32) \<noteq> 0x20"
proof -
  have "n \<in> {0, 1, 2, 3, 4, 5, 6, 7, 8, 9}" using assms by auto
  then show "0x30 \<le> (0x30 + of_nat n :: u32)" "(0x30 + of_nat n :: u32) \<le> 0x39" "unat ((0x30 + of_nat n :: u32) - 0x30) = n"
    "(0x30 + of_nat n :: u32) \<noteq> 0x2B" "(0x30 + of_nat n :: u32) \<noteq> 0x20" by auto
qed

lemma show_nat_chars: "show_nat n \<noteq> [] \<and> 0x2B \<notin> set (show_nat n) \<and> 0x20 \<notin> set (show_nat n)"
proof (induction n rule: show_nat.induct)
  case (1 n)
  then show ?case using digit_char(4,5) [of n] digit_char(4,5) [of "n mod 10"] by (subst (1 2 3) show_nat.simps) auto
qed

lemma parse_show: "n < 2 ^ 64 \<Longrightarrow> parse_digits 0 (show_nat n) = Some n"
proof (induction n rule: show_nat.induct)
  case (1 n)
  show ?case
  proof (cases "n < 10")
    case True
    then show ?thesis using digit_char [OF True] by (subst show_nat.simps) simp
  next
    case False
    have "parse_digits 0 (show_nat (n div 10)) = Some (n div 10)" using 1 False by simp
    moreover have "n div 10 * 10 + n mod 10 = n" by simp
    ultimately show ?thesis using digit_char [of "n mod 10"] "1.prems" False
      by (subst show_nat.simps) (simp add: parse_digits_snoc)
  qed
qed

lemma parse_usize_show: "n < 2 ^ 64 \<Longrightarrow> parse_usize (show_nat n) = Some n"
  using parse_show [of n] show_nat_chars [of n] by (cases "show_nat n") (auto simp: parse_usize_def)

lemma parse_u64_show: "parse_u64 (show_nat (unat i)) = Some i"
  using parse_usize_show [of "unat i"] unat_u64_less [of i] by (simp add: parse_u64_def)

section \<open>Properties\<close>

text \<open>
  C36 (commands_unambiguous). Every trigger word of the table, spelled in any mix of capital and small letters after the prefix, is read as
  its own command and belongs to no other; what follows the first blank, trimmed, is the parameter. The name that the client prints
  for a command is read back as that command.
\<close>

theorem commands_unambiguous:
  assumes "info \<in> set COMMAND_LIST" "map ascii_upper w \<in> set (ci_triggers info)"
  shows "get_command (COMMAND_PREFIX @ w) = (Some (ci_command info), None) \<and>
    get_command (COMMAND_PREFIX @ w @ 0x20 # p) = (Some (ci_command info), Some (trim p)) \<and>
    get_command (show_command (ci_command info)) = (Some (ci_command info), None) \<and>
    (\<forall>other \<in> set COMMAND_LIST. map ascii_upper w \<in> set (ci_triggers other) \<longrightarrow> other = info)"
proof -
  have "other = info" if "other \<in> set COMMAND_LIST" "map ascii_upper w \<in> set (ci_triggers other)" for other
    using find_trigger [OF triggers_distinct that] find_trigger [OF triggers_distinct assms] by simp
  moreover have "get_command (show_command (ci_command info)) = (Some (ci_command info), None)"
  proof -
    have "hd (ci_triggers info) \<in> set (ci_triggers info)" using assms(2) by (cases "ci_triggers info") auto
    moreover have "show_command (ci_command info) = COMMAND_PREFIX @ map ascii_lower (hd (ci_triggers info))"
      using find_named [OF commands_distinct assms(1)] by (simp add: show_command_def)
    ultimately show ?thesis using get_spelled(1) [OF assms(1), of "map ascii_lower (hd (ci_triggers info))"]
        trigger_letters(2) [OF assms(1)] by (simp add: map_idI)
  qed
  ultimately show ?thesis using get_spelled [OF assms] by blast
qed

theorem commands_unambiguous_witness:
  "get_command (ustr ''/qUit'') = (Some Cmd_Exit, None) \<and> show_command Cmd_Exit = ustr ''/exit''"
proof -
  let ?info = "\<lparr> ci_command = Cmd_Exit, ci_triggers = words [''EXIT'', ''LEAVE'', ''QUIT'', ''DISCONNECT''], ci_shortcut = Some (hd (ustr ''c'')),
     ci_minimal_role = User, ci_subcommands = [], ci_args = [], ci_description = ustr ''command.exit.description'' \<rparr> :: command_info"
  have i: "?info \<in> set COMMAND_LIST" by (simp add: COMMAND_LIST_def)
  have "map ascii_upper (ustr ''qUit'') = ustr ''QUIT''" by (simp add: ustr_def ascii_upper_def)
  then have g: "get_command (COMMAND_PREFIX @ ustr ''qUit'') = (Some Cmd_Exit, None)" using commands_unambiguous [OF i, of "ustr ''qUit''"] by simp
  have "show_command Cmd_Exit = ustr ''/exit''"
    using find_named [OF commands_distinct i] by (simp add: show_command_def COMMAND_PREFIX_def ustr_def ascii_lower_def)
  then show ?thesis using g by (simp add: COMMAND_PREFIX_def ustr_def)
qed



end
