(* ===== verification/Spec2Isabelle.thy ===== *)
theory Spec2Isabelle
  imports Voice Sessions Transfers Accept Commands
begin

text \<open>
  Verification of WHY2.

  The repository holds the REX cipher (\<open>src/core\<close>) and an encrypted chat (\<open>src/chat\<close>): a server, a text client and the
  packets between them. The cipher is modelled whole; of the chat, the shared protocol and the server.

  \<^bold>\<open>The cipher.\<close> \<open>Rex_Env\<close> names what the crate takes from outside (the MDS tables of \<open>consts\<close>, hash functions).
  \<open>Gf\<close>, \<open>Mds\<close>, \<open>Grid\<close>, \<open>Subcell\<close>, \<open>Shift_Rows\<close> and \<open>Mix_Columns\<close> follow \<open>gf.rs\<close>, \<open>consts/mds.rs\<close> and
  \<open>grid.rs\<close>; \<open>Crypto_Core\<close>, \<open>Encrypter\<close>, \<open>Rex_Stream\<close> and \<open>Auth\<close> follow \<open>crypto.rs\<close>, \<open>encrypter.rs\<close>,
  \<open>decrypter.rs\<close>, \<open>stream.rs\<close> and \<open>auth.rs\<close>. The theorems are the round trips of the one-shot and the streaming
  cipher, under any chunking; that the keystream of one key and nonce never repeats a counter; that the optimised
  layers equal their references (matrix products, the two backends of the nonlinear layer); that a package is
  opened exactly if it is authentic.

  \<^bold>\<open>The protocol.\<close> \<open>Chat_Misc\<close> and \<open>F32\<close> model \<open>misc.rs\<close>, \<open>role.rs\<close>, \<open>colors.rs\<close> and the single-precision
  numbers of the rate limits; \<open>Packet_Codes\<close> the vocabulary of \<open>network/codes.rs\<close>; \<open>Chat_Crypto\<close> the packet streams and
  at-rest seals of \<open>crypto/mod.rs\<close>. A packet stream delivers packets in order and authenticates each with its counter.

  \<^bold>\<open>The server's state.\<close> \<open>Connection\<close> is \<open>server/connection.rs\<close>; \<open>Config\<close>, \<open>Users\<close> and \<open>Messages\<close> are
  \<open>config/\<close>: server settings, accounts, bans and the message history; \<open>Stored_Files\<close> is the part of
  \<open>file/server.rs\<close> that keeps pictures on disk. \<open>Server\<close> and \<open>Registry\<close> are the map of connections with everything that joins,
  moves, leaves and times out in it; \<open>Wire\<close> is the server side of \<open>network/mod.rs\<close>, from bytes to a policed packet.

  \<^bold>\<open>The packet handlers.\<close> \<open>Hub\<close> puts these together into one state, and \<open>Handlers\<close> has one definition for each arm
  of the match of \<open>listen_client\<close> and the match itself, \<open>handle\<close>. \<open>Frames\<close> states, as a locale over any view of the
  connected clients, what a handler leaves alone. \<open>Authority\<close>, \<open>Conduct\<close> and \<open>Pictures\<close> rest on it: who may do what to
  whom, that the task of a session never panics and stays in step with its entry, and that no picture still named
  is ever deleted.

  \<^bold>\<open>The key exchange.\<close> \<open>Kex\<close> is \<open>crypto/kex.rs\<close>, its wire format \<open>network/schema.rs\<close>, the pins of
  \<open>config/keys.rs\<close> and the client's half in \<open>client/handshake.rs\<close>: both sides derive the same keys, an offer is bound to
  the client's nonce, and a client trusts no identity that is neither pinned nor accepted by its user.

  \<^bold>\<open>The tasks.\<close> \<open>Login\<close> is \<open>listen_client\<close> as a state machine, with the server's half of \<open>server/handshake.rs\<close>: a phase
  for each place where the task waits, a step for each packet. \<open>Tasks\<close> shows what a step keeps, for its own entry and for
  those of others, and composes any number of tasks and the timers into one step relation; \<open>Sessions\<close> has the
  properties: a login ends, requires a password that fits, never shares a name, and no task panics.

  \<^bold>\<open>New sockets.\<close> \<open>Accept\<close> is the accept loop of \<open>bin/server.rs\<close> with the budget of \<open>HandshakeSlot\<close>, whose counters are changed by
  many threads in single accesses, and the routing of a socket by its token: the budget holds under every interleaving, and a token serves once.

  \<^bold>\<open>File transfers.\<close> \<open>Upload\<close> is \<open>download\<close>, \<open>upload\<close> and the drop guard of \<open>file/server.rs\<close> with \<open>file/mod.rs\<close> and
  \<open>voice/message.rs\<close>: an upload is a state machine over the packets of its socket, on the state of the handlers, the uploads in progress and
  the two directories, and the outcome of every file operation is an argument of its step. \<open>Transfers\<close> shows whole uploads: a picture
  becomes an avatar and reads back, a shared file is served as it came, and no transfer touches the uploads of others; and three ways in which
  uploads go wrong.

  \<^bold>\<open>Voice.\<close> \<open>Voice\<close> is the relay of \<open>network/voice\<close>: the slots and their tokens, the framing of Opus, the fan-out.

  \<^bold>\<open>Commands.\<close> \<open>Commands\<close> is \<open>command.rs\<close> of the clients: the table of slash commands, the parser of a typed line and the packets that the
  commands send. No two commands share a trigger word, and a number typed in decimal is the number sent.

  \<^bold>\<open>Parameters.\<close> Hash functions, HMAC, HKDF, Argon2, P-521, ML-KEM-768, the packet codec, random numbers, clocks and the TOML comments are
  arguments of the definitions. What a theorem needs of them is collected in \<open>chat_ok\<close>, \<open>prims_ok\<close> and similar
  predicates, and \<open>ref_chat\<close> and \<open>ref_prims\<close> show that they can hold. No definition uses fuel; the loops recurse on their data. The one loop that may not
  end, the migration of a configuration file, is a \<open>partial_function\<close>, and that it can diverge is a theorem.

  \<^bold>\<open>Concurrency.\<close> A step runs from one received packet to the next wait, although the code may yield at an \<open>await\<close> in
  between; the theorems on runs are about sequences of such steps, of any tasks in any order. \<open>login_race\<close> is about one place
  where the steps of two tasks interleave. A task whose connection is removed takes no further step; the source lets it
  run to its next suspension.

  \<^bold>\<open>Not modelled.\<close> Of the client, the commands and its half of the key exchange are modelled; the terminal interface, audio, video and screen capture are interface and device code
  whose state is mostly in libraries. On the server, the relay of screen frames is not modelled, and binding the sockets and restarting the process
  are left to the operating system.
\<close>

end
